(* ===== verification/Prelude.thy ===== *)
theory Prelude
  imports Main "HOL-Library.Word" "HOL-Library.Monad_Syntax"
begin

text \<open>
  Shared vocabulary of the development: the machine types of the firmware, C memory
  primitives on byte lists, and the generic lemmas the components use.

  A C buffer is the list of its bytes.  A primitive that would read or write outside its
  buffer yields \<^const>\<open>None\<close>; every model of a C function that touches memory therefore
  returns an option, and \<^const>\<open>None\<close> is reserved for undefined behaviour.  Ordinary error
  returns of the C code are values (the returned \<^typ>\<open>int\<close>).
\<close>

unbundle bit_operations_syntax

type_synonym u8 = "8 word"
type_synonym u16 = "16 word"
type_synonym u32 = "32 word"
type_synonym bytes = "u8 list"

text \<open>Messages that fit a queue of the firmware.\<close>

definition MSG_QUEUE_LENGTH :: nat where "MSG_QUEUE_LENGTH = 16"

text \<open>Facts on C memory primitives, and facts on what a flash cell holds after an operation.\<close>

named_theorems cmem
named_theorems flash_laws

section \<open>C memory primitives\<close>

text \<open>\<open>b[i]\<close>, and \<open>n\<close> bytes from \<open>b + i\<close>.\<close>

definition rd :: "'a list \<Rightarrow> nat \<Rightarrow> 'a option" where
  "rd bs i = (if i < length bs then Some (bs ! i) else None)"

definition slice :: "'a list \<Rightarrow> nat \<Rightarrow> nat \<Rightarrow> 'a list option" where
  "slice bs i n = (if i + n \<le> length bs then Some (take n (drop i bs)) else None)"

text \<open>\<open>b[i] = v\<close>, \<open>memcpy(b + i, src, n)\<close> and \<open>memset(b, v, n)\<close>.\<close>

definition wr :: "'a list \<Rightarrow> nat \<Rightarrow> 'a \<Rightarrow> 'a list option" where
  "wr bs i v = (if i < length bs then Some (bs[i := v]) else None)"

definition memcpy_at :: "'a list \<Rightarrow> nat \<Rightarrow> 'a list \<Rightarrow> 'a list option" where
  "memcpy_at dst i src =
     (if i + length src \<le> length dst
      then Some (take i dst @ src @ drop (i + length src) dst) else None)"

definition memset :: "'a list \<Rightarrow> 'a \<Rightarrow> nat \<Rightarrow> 'a list option" where
  "memset bs v n = memcpy_at bs 0 (replicate n v)"

text \<open>
  \<open>cstr b\<close> is the C string that starts at \<open>b\<close>: the bytes before the first NUL.  Running
  off the buffer without finding a NUL is undefined.
\<close>

fun cstr :: "bytes \<Rightarrow> bytes option" where
  "cstr [] = None"
| "cstr (c # cs) = (if c = 0 then Some [] else map_option ((#) c) (cstr cs))"

definition strlen :: "bytes \<Rightarrow> nat option" where
  "strlen b = map_option length (cstr b)"

definition strcpy :: "bytes \<Rightarrow> bytes \<Rightarrow> bytes option" where
  "strcpy dst src = do { s \<leftarrow> cstr src; memcpy_at dst 0 (s @ [0]) }"

text \<open>The bytes of a string literal, without its NUL.\<close>

definition ascii :: "string \<Rightarrow> bytes" where
  "ascii = map of_char"

text \<open>Little-endian 16-bit reads and writes, as the 32-bit little-endian core performs them.\<close>

definition le16 :: "u8 \<Rightarrow> u8 \<Rightarrow> nat" where
  "le16 b0 b1 = unat b0 + 256 * unat b1"

definition le16_bytes :: "u16 \<Rightarrow> bytes" where
  "le16_bytes w = [ucast w, ucast (drop_bit 8 w)]"

text \<open>Two byte sequences differ in exactly one place.\<close>

definition one_byte_apart :: "'a list \<Rightarrow> 'a list \<Rightarrow> bool" where
  "one_byte_apart xs ys \<longleftrightarrow>
     (\<exists>i v. i < length xs \<and> v \<noteq> xs ! i \<and> ys = xs[i := v])"

section \<open>Lemmas on the primitives\<close>

lemma rd_Some [cmem]: "rd bs i = Some b \<longleftrightarrow> i < length bs \<and> b = bs ! i"
  by (auto simp: rd_def)

lemma slice_Some [cmem]:
  "slice bs i n = Some r \<longleftrightarrow> i + n \<le> length bs \<and> r = take n (drop i bs)"
  by (auto simp: slice_def)

lemma memcpy_at_Some [cmem]:
  "memcpy_at dst i src = Some r \<longleftrightarrow>
     i + length src \<le> length dst \<and> r = take i dst @ src @ drop (i + length src) dst"
  by (auto simp: memcpy_at_def)

lemma memcpy_at_length: "memcpy_at dst i src = Some r \<Longrightarrow> length r = length dst"
  by (auto simp: memcpy_at_def split: if_splits)

lemma memcpy_at_prefix:
  "length src = n \<Longrightarrow> n \<le> length dst \<Longrightarrow> memcpy_at dst 0 src = Some (src @ drop n dst)"
  by (auto simp: memcpy_at_def)

lemma memcpy_at_append:
  "length xs = i \<Longrightarrow> length src = n \<Longrightarrow> n \<le> length r \<Longrightarrow>
   memcpy_at (xs @ r) i src = Some (xs @ src @ drop n r)"
  by (auto simp: memcpy_at_def)

lemma memset_Some [cmem]:
  "memset bs v n = Some r \<longleftrightarrow> n \<le> length bs \<and> r = replicate n v @ drop n bs"
  by (auto simp: memset_def memcpy_at_def)

lemma slice_memcpy_at:
  assumes "memcpy_at dst i src = Some r"
  shows "slice r i (length src) = Some src"
  using assms by (auto simp: memcpy_at_def slice_def split: if_splits)

lemma slice_append: "slice (xs @ ys @ zs) (length xs) (length ys) = Some ys"
  by (simp add: slice_def)

lemma cstr_append_nul: "0 \<notin> set s \<Longrightarrow> cstr (s @ 0 # rest) = Some s"
  by (induction s) auto

lemma cstr_SomeD:
  assumes "cstr b = Some s"
  shows "0 \<notin> set s" and "length s < length b" and "take (length s) b = s" and "b ! length s = 0"
  using assms by (induction b arbitrary: s) (auto split: if_splits)

lemma cstr_Some_split:
  assumes "cstr b = Some s"
  shows "b = s @ 0 # drop (Suc (length s)) b"
  using cstr_SomeD [OF assms] by (metis append_take_drop_id Cons_nth_drop_Suc)

lemma cstr_append: "cstr b = Some s \<Longrightarrow> cstr (b @ c) = Some s"
  by (induction b arbitrary: s) (auto split: if_splits)

lemma cstr_None: "cstr b = None \<longleftrightarrow> 0 \<notin> set b"
  by (induction b) auto

lemma strcpy_Some [cmem]:
  "strcpy dst src = Some r \<longleftrightarrow>
     (\<exists>s. cstr src = Some s \<and> length s < length dst \<and> r = s @ 0 # drop (Suc (length s)) dst)"
  by (auto simp: strcpy_def memcpy_at_def Suc_le_eq split: Option.bind_splits)

lemma le16_bound: "le16 a b < 65536"
proof -
  have "unat a < 256" "unat b < 256"
    using unsigned_less [of a] unsigned_less [of b] by simp_all
  then show ?thesis by (simp add: le16_def)
qed

lemma one_byte_apartE:
  assumes "one_byte_apart xs ys"
  obtains us a b vs where "xs = us @ a # vs" "ys = us @ b # vs" "a \<noteq> b"
proof -
  from assms obtain i v where i: "i < length xs" "v \<noteq> xs ! i" "ys = xs[i := v]"
    by (auto simp: one_byte_apart_def)
  then have "xs = take i xs @ xs ! i # drop (Suc i) xs"
    by (simp add: id_take_nth_drop)
  moreover have "ys = take i xs @ v # drop (Suc i) xs"
    using i by (simp add: upd_conv_take_nth_drop)
  ultimately show thesis using that i(2) by metis
qed

lemma map_nth_upt: "n \<le> length bs \<Longrightarrow> map (\<lambda>i. bs ! i) [0..<n] = take n bs"
  by (intro nth_equalityI) simp_all

lemma map_upt_shift: "map f [a..<a + n] = map (\<lambda>i. f (a + i)) [0..<n]"
  by (rule nth_equalityI) simp_all

lemma length_ge4_split:
  assumes "length b = k + 4"
  obtains b0 b1 b2 b3 r where "b = b0 # b1 # b2 # b3 # r" and "length r = k"
  using assms that by (auto simp: length_Suc_conv numeral_eq_Suc)

lemma drop_4_Cons: "drop (4 + n) (a # b # c # d # r) = drop n r"
  by (simp add: numeral_eq_Suc)

text \<open>Quotient and remainder as plain variables, so that linear arithmetic applies.\<close>

lemma div_mod_split:
  fixes n k :: nat
  assumes "0 < k"
  obtains q r where "n = k * q + r" and "r < k" and "n div k = q" and "n mod k = r"
  using assms that [of "n div k" "n mod k"] by simp

section \<open>Integrity checks that fold over the bytes of a message\<close>

text \<open>
  Four routines of the firmware fold an accumulator over the bytes of a message: the two
  additive checksums and the two CRCs.  What makes such a check detect a corrupted byte is
  that a step is injective both in the accumulator and in the byte.
\<close>

locale byte_check =
  fixes feed :: "'s \<Rightarrow> u8 \<Rightarrow> 's"
  assumes feed_acc: "feed c b = feed d b \<Longrightarrow> c = d"
    and feed_byte: "feed c a = feed c b \<Longrightarrow> a = b"
begin

lemma fold_inj: "foldl feed c xs = foldl feed d xs \<Longrightarrow> c = d"
proof (induction xs arbitrary: c d)
  case Nil
  then show ?case by simp
next
  case (Cons x xs)
  then have "feed c x = feed d x" by simp
  then show ?case by (rule feed_acc)
qed

lemma detects_one_byte:
  assumes "one_byte_apart xs ys"
  shows "foldl feed c xs \<noteq> foldl feed c ys"
proof
  assume eq: "foldl feed c xs = foldl feed c ys"
  from assms obtain us a b vs where "xs = us @ a # vs" "ys = us @ b # vs" "a \<noteq> b"
    by (rule one_byte_apartE)
  with eq have "feed (foldl feed c us) a = feed (foldl feed c us) b"
    by (auto dest: fold_inj)
  with \<open>a \<noteq> b\<close> show False by (auto dest: feed_byte)
qed

end

text \<open>One round of an MSB-first CRC register is injective for every odd polynomial.\<close>

definition crc_round :: "nat \<Rightarrow> 'a::len word \<Rightarrow> 'a word \<Rightarrow> 'a word" where
  "crc_round hi poly c = (if bit c hi then push_bit 1 c XOR poly else push_bit 1 c)"

lemma crc_round_bit0:
  assumes "bit poly 0"
  shows "bit (crc_round hi poly (c :: 'a::len word)) 0 = bit c hi"
proof -
  have "\<not> bit (push_bit 1 c) 0" by (simp only: bit_push_bit_iff) simp
  with assms show ?thesis by (simp add: crc_round_def bit_xor_iff del: push_bit_Suc One_nat_def)
qed

lemma xor_right_cancel: "a XOR p = b XOR p \<Longrightarrow> a = (b :: 'a::len word)"
  by (metis xor.assoc xor_self_eq xor.right_neutral)

lemma crc_round_inj:
  fixes c d :: "'a::len word"
  assumes odd: "bit poly 0" and hi: "Suc hi = LENGTH('a)"
    and eq: "crc_round hi poly c = crc_round hi poly d"
  shows "c = d"
proof (rule bit_eqI)
  fix n
  assume "possible_bit TYPE('a word) n"
  then have n: "n < LENGTH('a)" by simp
  have msb: "bit c hi = bit d hi"
    using arg_cong [OF eq, of "\<lambda>w. bit w 0"] by (simp add: crc_round_bit0 [OF odd])
  show "bit c n = bit d n"
  proof (cases "n = hi")
    case True
    with msb show ?thesis by simp
  next
    case False
    with n hi have n': "Suc n < LENGTH('a)" by simp
    have "push_bit 1 c = push_bit 1 d"
      using eq msb by (cases "bit c hi") (auto simp only: crc_round_def if_True if_False dest: xor_right_cancel)
    then have "bit (push_bit 1 c) (Suc n) = bit (push_bit 1 d) (Suc n)" by (rule arg_cong)
    with n' show ?thesis by (simp only: bit_push_bit_iff) simp
  qed
qed

lemma crc_rounds_inj:
  fixes c d :: "'a::len word"
  assumes "bit poly 0" and "Suc hi = LENGTH('a)"
    and "(crc_round hi poly ^^ k) c = (crc_round hi poly ^^ k) d"
  shows "c = d"
  using assms(3) by (induction k) (auto dest: crc_round_inj [OF assms(1,2)])

section \<open>Runs\<close>

text \<open>
  A task that reacts to one event after the other; \<open>None\<close> is undefined behaviour.  When every
  acceptable event keeps an invariant, no run of acceptable events is undefined.
\<close>

primrec run_steps :: "('e \<Rightarrow> 's \<Rightarrow> 's option) \<Rightarrow> 'e list \<Rightarrow> 's \<Rightarrow> 's option" where
  "run_steps step [] s = Some s"
| "run_steps step (e # es) s = do { s \<leftarrow> step e s; run_steps step es s }"

locale safe_steps =
  fixes step :: "'e \<Rightarrow> 's \<Rightarrow> 's option"
    and inv :: "'s \<Rightarrow> bool"
    and good :: "'e \<Rightarrow> bool"
  assumes step_keeps: "inv s \<Longrightarrow> good e \<Longrightarrow> \<exists>t. step e s = Some t \<and> inv t"
begin

lemma run_keeps:
  assumes "inv s" and "list_all good es"
  shows "\<exists>t. run_steps step es s = Some t \<and> inv t"
  using assms
proof (induction es arbitrary: s)
  case (Cons e es)
  then obtain t where "step e s = Some t" "inv t" using step_keeps by fastforce
  with Cons show ?case by simp
qed simp

lemma run_split:
  assumes "inv s" and "list_all good (es @ fs)"
  obtains t u where "run_steps step es s = Some t" and "inv t" and "run_steps step fs t = Some u" and "inv u"
    and "run_steps step (es @ fs) s = Some u"
proof -
  obtain t where t: "run_steps step es s = Some t" "inv t" using run_keeps [of s es] assms by auto
  obtain u where u: "run_steps step fs t = Some u" "inv u" using run_keeps [of t fs] assms t by auto
  have "run_steps step (es @ fs) s = run_steps step es s \<bind> run_steps step fs" by (induction es arbitrary: s) auto
  then show thesis using that t u by simp
qed

end

text \<open>What holds of the result of a block, whatever it returns.\<close>

lemma pred_bind: "(\<And>x. pred_option P (f x)) \<Longrightarrow> pred_option P (m \<bind> f)"
  by (cases m) simp_all

lemma pred_if: "pred_option P x \<Longrightarrow> pred_option P y \<Longrightarrow> pred_option P (if b then x else y)"
  by simp

lemma pred_case: "pred_option P x \<Longrightarrow> (\<And>a. pred_option P (f a)) \<Longrightarrow> pred_option P (case m of None \<Rightarrow> x | Some a \<Rightarrow> f a)"
  by (cases m) simp_all

lemma pred_prod: "(\<And>a b. pred_option P (f a b)) \<Longrightarrow> pred_option P (case p of (a, b) \<Rightarrow> f a b)"
  by (cases p) simp

lemmas pred_rules = pred_bind pred_if pred_case pred_prod

end
