(* ===== verification/SpiFlash.thy ===== *)
theory SpiFlash
  imports Prelude
begin

text \<open>
  The SPI NOR flash driver \<^verbatim>\<open>src/drivers/hal_spiflash.c\<close> (read, page-split program,
  sector erase) and the vendor shim \<^verbatim>\<open>src/apps/akeeta_tr6260/akeeta/hal/src/ya_hal_flash.c\<close>.

  The chip itself is hardware: its state is the contents of its cells, and the answers it
  gives to the driver's status polls.  A page program clears bits and wraps around inside
  its 256-byte page; a sector erase sets the 4096 bytes of a sector to \<open>0xFF\<close>.  Each
  polling loop of the driver (wait for write-enable, wait for write-in-progress to clear)
  consumes one answer of \<open>fl_rsp\<close>: \<open>True\<close> if the flag was seen within the poll budget,
  \<open>False\<close> on a timeout; when no answers are queued the chip is ready.

  Addresses and lengths are naturals: they agree with the driver's 32-bit arithmetic
  whenever \<open>addr + len\<close> stays below \<open>2 ^ 32\<close>; the part has 2 MB.
\<close>

section \<open>The chip\<close>

record flash =
  fl_mem :: "nat \<Rightarrow> u8"
  fl_rsp :: "bool list"

definition chip_ready :: "'a flash_scheme \<Rightarrow> bool" where
  "chip_ready s \<longleftrightarrow> list_all (\<lambda>b. b) (fl_rsp s)"

definition spiflash_poll :: "'a flash_scheme \<Rightarrow> bool \<times> 'a flash_scheme" where
  "spiflash_poll s = (case fl_rsp s of [] \<Rightarrow> (True, s) | b # bs \<Rightarrow> (b, s\<lparr>fl_rsp := bs\<rparr>))"

fun chip_program :: "nat \<Rightarrow> nat \<Rightarrow> bytes \<Rightarrow> (nat \<Rightarrow> u8) \<Rightarrow> (nat \<Rightarrow> u8)" where
  "chip_program page off [] m = m"
| "chip_program page off (b # bs) m =
     chip_program page ((off + 1) mod 256) bs (m(page + off := m (page + off) AND b))"

definition chip_sector_erase :: "nat \<Rightarrow> (nat \<Rightarrow> u8) \<Rightarrow> (nat \<Rightarrow> u8)" where
  "chip_sector_erase a m = (\<lambda>x. if x div 4096 = a div 4096 then 0xFF else m x)"

section \<open>The driver\<close>

definition SPIFLASH_PAGE_SIZE :: nat where "SPIFLASH_PAGE_SIZE = 256"
definition SPIFLASH_SECTOR_SIZE :: nat where "SPIFLASH_SECTOR_SIZE = 4096"
definition SPIFLASH_MEM_LENGTH :: nat where "SPIFLASH_MEM_LENGTH = 0x200000"

lemmas spiflash_consts = SPIFLASH_PAGE_SIZE_def SPIFLASH_SECTOR_SIZE_def SPIFLASH_MEM_LENGTH_def

text \<open>\<open>spiflash_read\<close>: the command interface, in transfers of at most \<open>0x200\<close> bytes.\<close>

function spiflash_read :: "nat \<Rightarrow> nat \<Rightarrow> 'a flash_scheme \<Rightarrow> bytes" where
  "spiflash_read addr left s =
     (if left = 0 then []
      else let curr = min 0x200 left
           in map (fl_mem s) [addr..<addr + curr] @ spiflash_read (addr + curr) (left - curr) s)"
  by pat_completeness auto
termination
  by (relation "measure (\<lambda>(addr, left, s). left)") auto

declare spiflash_read.simps [simp del]

text \<open>The first 2 MB are memory mapped; only the part beyond goes through commands.\<close>

definition hal_spiflash_read :: "nat \<Rightarrow> nat \<Rightarrow> 'a flash_scheme \<Rightarrow> int \<times> bytes" where
  "hal_spiflash_read addr len s =
     (if addr < SPIFLASH_MEM_LENGTH then
        (let len1 = (if addr + len > SPIFLASH_MEM_LENGTH then SPIFLASH_MEM_LENGTH - addr else len);
             head = map (fl_mem s) [addr..<addr + len1]
         in (0, if len1 \<noteq> len then head @ spiflash_read (addr + len1) (len - len1) s else head))
      else (0, spiflash_read addr len s))"

definition spiflash_program :: "nat \<Rightarrow> bytes \<Rightarrow> 'a flash_scheme \<Rightarrow> 'a flash_scheme" where
  "spiflash_program address bs s =
     s\<lparr>fl_mem := chip_program (address - address mod 256) (address mod 256) bs (fl_mem s)\<rparr>"

text \<open>
  The do-while loop of \<open>hal_spifiash_write\<close>: wait for write-enable, program \<open>length\<close>
  bytes, choose the next length, wait for completion.  \<open>buf\<close> is the rest of the data.
\<close>

function hal_write_loop :: "nat \<Rightarrow> bytes \<Rightarrow> nat \<Rightarrow> 'a flash_scheme \<Rightarrow> int \<times> 'a flash_scheme" where
  "hal_write_loop address buf len s =
     (let (wel, s1) = spiflash_poll s
      in if \<not> wel then (-1, s1)
         else
           let s2 = spiflash_program address (take len buf) s1;
               buf' = drop len buf;
               len' = (if length buf' > SPIFLASH_PAGE_SIZE then SPIFLASH_PAGE_SIZE else length buf');
               (done, s3) = spiflash_poll s2
           in if \<not> done then (-1, s3)
              else if len' \<noteq> 0 then hal_write_loop (address + len) buf' len' s3
              else (0, s3))"
  by pat_completeness auto
termination
  by (relation "measure (\<lambda>(address, buf, len, s). 2 * length buf + (if len = 0 then 1 else 0))")
    (auto split: if_splits simp: SPIFLASH_PAGE_SIZE_def)

declare hal_write_loop.simps [simp del]

definition hal_spifiash_write :: "nat \<Rightarrow> bytes \<Rightarrow> 'a flash_scheme \<Rightarrow> int \<times> 'a flash_scheme" where
  "hal_spifiash_write addr buf s =
     (if length buf = 0 then (0, s)
      else let off = addr mod SPIFLASH_PAGE_SIZE;
               len = (if length buf > SPIFLASH_PAGE_SIZE - off then SPIFLASH_PAGE_SIZE - off
                      else length buf)
           in hal_write_loop addr buf len s)"

text \<open>\<open>i\<close> counts the sectors still to erase; \<open>addr\<close> advances by one sector each time.\<close>

fun hal_erase_loop :: "nat \<Rightarrow> nat \<Rightarrow> 'a flash_scheme \<Rightarrow> int \<times> 'a flash_scheme" where
  "hal_erase_loop addr 0 s = (0, s)"
| "hal_erase_loop addr (Suc i) s =
     (let (wel, s1) = spiflash_poll s
      in if \<not> wel then (-1, s1)
         else
           let s2 = s1\<lparr>fl_mem := chip_sector_erase addr (fl_mem s1)\<rparr>;
               (done, s3) = spiflash_poll s2
           in if \<not> done then (-2, s3)
              else hal_erase_loop (addr + SPIFLASH_SECTOR_SIZE) i s3)"

definition hal_spiflash_erase :: "nat \<Rightarrow> nat \<Rightarrow> 'a flash_scheme \<Rightarrow> int \<times> 'a flash_scheme" where
  "hal_spiflash_erase addr len s =
     (if addr mod SPIFLASH_SECTOR_SIZE \<noteq> 0 \<or> len mod SPIFLASH_SECTOR_SIZE \<noteq> 0 then (-23, s)
      else hal_erase_loop addr (len div SPIFLASH_SECTOR_SIZE) s)"

section \<open>The vendor shim\<close>

text \<open>
  The board around the flash: the heap (what \<open>ya_hal_os_memory_alloc n\<close> returns:
  \<open>None\<close> for NULL, otherwise the uninitialised contents of the block, byte by byte) and
  the value a caller finds in the return register when a function returns without a value.
\<close>

record board = flash +
  heap :: "nat \<Rightarrow> (nat \<Rightarrow> u8) option"
  ret_reg :: int

definition mem_alloc :: "'a board_scheme \<Rightarrow> nat \<Rightarrow> bytes option" where
  "mem_alloc s n = map_option (\<lambda>f. map f [0..<n]) (heap s n)"

definition ya_hal_flash_read :: "nat \<Rightarrow> nat \<Rightarrow> 'a flash_scheme \<Rightarrow> int \<times> bytes" where
  "ya_hal_flash_read flash_addr data_len s = hal_spiflash_read flash_addr data_len s"

fun ya_hal_erase_loop :: "nat \<Rightarrow> nat \<Rightarrow> 'a flash_scheme \<Rightarrow> int \<times> 'a flash_scheme" where
  "ya_hal_erase_loop addr 0 s = (0, s)"
| "ya_hal_erase_loop addr (Suc n) s =
     (let (ret, s') = hal_spiflash_erase addr SPIFLASH_SECTOR_SIZE s
      in if ret \<noteq> 0 then (-1, s') else ya_hal_erase_loop (addr + SPIFLASH_SECTOR_SIZE) n s')"

definition ya_hal_flash_erase :: "nat \<Rightarrow> nat \<Rightarrow> 'a flash_scheme \<Rightarrow> int \<times> 'a flash_scheme" where
  "ya_hal_flash_erase flash_addr sz s =
     (let sector_count = sz div SPIFLASH_SECTOR_SIZE;
          sector_count = (if sz mod SPIFLASH_SECTOR_SIZE > 0 then sector_count + 1 else sector_count)
      in ya_hal_erase_loop flash_addr sector_count s)"

text \<open>
  On success the C function reaches its closing brace without a \<open>return\<close>: the caller reads
  whatever the return register holds.
\<close>

definition ya_hal_flash_write :: "nat \<Rightarrow> bytes \<Rightarrow> 'a board_scheme \<Rightarrow> int \<times> 'a board_scheme" where
  "ya_hal_flash_write flash_addr buf s =
     (let (ret, s1) = ya_hal_flash_erase flash_addr (length buf) s
      in if ret \<noteq> 0 then (-1, s1)
         else let (ret, s2) = hal_spifiash_write flash_addr buf s1
              in if ret \<noteq> 0 then (-1, s2) else (ret_reg s2, s2))"

section \<open>What the driver does to the cells\<close>

definition nor_range :: "nat \<Rightarrow> bytes \<Rightarrow> (nat \<Rightarrow> u8) \<Rightarrow> (nat \<Rightarrow> u8)" where
  "nor_range a bs m = (\<lambda>x. if a \<le> x \<and> x < a + length bs then m x AND bs ! (x - a) else m x)"

definition erased :: "nat \<Rightarrow> nat \<Rightarrow> (nat \<Rightarrow> u8) \<Rightarrow> bool" where
  "erased a n m \<longleftrightarrow> (\<forall>x. a \<le> x \<and> x < a + n \<longrightarrow> m x = 0xFF)"

lemma nor_range_Nil [simp]: "nor_range a [] m = m"
  by (rule ext) (auto simp: nor_range_def)

lemma nor_range_Cons:
  "nor_range a (b # bs) m = nor_range (Suc a) bs (m(a := m a AND b))"
proof
  fix x
  show "nor_range a (b # bs) m x = nor_range (Suc a) bs (m(a := m a AND b)) x"
    by (cases "x = a") (auto simp: nor_range_def nth_Cons' intro: arg_cong)
qed

lemma nor_range_append:
  "nor_range a (bs @ cs) m = nor_range (a + length bs) cs (nor_range a bs m)"
  by (induction bs arbitrary: a m) (simp_all add: nor_range_Cons)

lemma chip_program_no_wrap:
  "off + length bs \<le> 256 \<Longrightarrow> chip_program page off bs m = nor_range (page + off) bs m"
proof (induction bs arbitrary: off m)
  case Nil
  then show ?case by simp
next
  case (Cons b bs)
  show ?case
  proof (cases "bs = []")
    case True
    then show ?thesis by (simp add: nor_range_Cons)
  next
    case False
    then obtain c cs where "bs = c # cs" by (cases bs) auto
    with Cons.prems have "Suc off < 256" and le: "Suc off + length bs \<le> 256" by simp_all
    then have off: "(off + 1) mod 256 = Suc off" by simp
    show ?thesis
      by (simp add: off nor_range_Cons Cons.IH [OF le] fun_upd_def del: One_nat_def)
  qed
qed

lemma spiflash_poll_frame [simp]:
  "fl_mem (snd (spiflash_poll s)) = fl_mem s"
  "flash.more (snd (spiflash_poll s)) = flash.more s"
  by (auto simp: spiflash_poll_def split: list.split)

lemma spiflash_poll_ready:
  assumes "chip_ready s"
  shows "fst (spiflash_poll s)" and "chip_ready (snd (spiflash_poll s))"
  using assms by (auto simp: spiflash_poll_def chip_ready_def split: list.split)

lemma chip_ready_mem_update [simp]: "chip_ready (s\<lparr>fl_mem := m\<rparr>) = chip_ready s"
  by (simp add: chip_ready_def)

lemma spiflash_program_no_wrap:
  assumes "address mod 256 + length bs \<le> 256"
  shows "spiflash_program address bs s = s\<lparr>fl_mem := nor_range address bs (fl_mem s)\<rparr>"
  using chip_program_no_wrap [OF assms] by (simp add: spiflash_program_def)

lemma upt_split: "i \<le> j \<Longrightarrow> j \<le> k \<Longrightarrow> k = k' \<Longrightarrow> [i..<k] = [i..<j] @ [j..<k']"
  by (metis le_add_diff_inverse upt_add_eq_append)

lemma spiflash_read_eq: "spiflash_read a n s = map (fl_mem s) [a..<a + n]"
proof (induction a n s rule: spiflash_read.induct)
  case (1 a n s)
  show ?case
  proof (cases "n = 0")
    case True
    then show ?thesis by (simp add: spiflash_read.simps [of a 0 s])
  next
    case False
    let ?c = "min 0x200 n"
    have "[a..<a + n] = [a..<a + ?c] @ [a + ?c..<a + ?c + (n - ?c)]"
      by (rule upt_split) auto
    with False "1.IH" show ?thesis
      by (simp add: spiflash_read.simps [of a n s] Let_def)
  qed
qed

lemma hal_spiflash_read_eq: "hal_spiflash_read a n s = (0, map (fl_mem s) [a..<a + n])"
proof (cases "a < SPIFLASH_MEM_LENGTH \<and> a + n > SPIFLASH_MEM_LENGTH")
  case True
  then have "[a..<a + n] = [a..<SPIFLASH_MEM_LENGTH] @ [SPIFLASH_MEM_LENGTH..<a + n]"
    by (intro upt_split) auto
  with True show ?thesis
    by (simp add: hal_spiflash_read_def Let_def spiflash_read_eq add.commute)
next
  case False
  then show ?thesis by (auto simp: hal_spiflash_read_def Let_def spiflash_read_eq)
qed

text \<open>
  The page-split loop, under the conditions its caller establishes: every chunk stays inside
  one page, and only the last chunk may end before a page boundary.  Whatever the chip
  answers, a prefix of the data has been programmed; all of it when the result is 0.
\<close>

definition page_chunk :: "nat \<Rightarrow> bytes \<Rightarrow> nat \<Rightarrow> bool" where
  "page_chunk a buf len \<longleftrightarrow>
     0 < len \<and> len \<le> length buf \<and> a mod 256 + len \<le> 256 \<and>
     (len = length buf \<or> (a + len) mod 256 = 0)"

lemma page_chunk_next:
  assumes "page_chunk a buf len" and "drop len buf \<noteq> []"
  shows "page_chunk (a + len) (drop len buf)
           (if length (drop len buf) > SPIFLASH_PAGE_SIZE then SPIFLASH_PAGE_SIZE else length (drop len buf))"
  using assms by (auto simp: page_chunk_def SPIFLASH_PAGE_SIZE_def mod_add_right_eq [symmetric, of _ 256])

lemma hal_write_loop_prefix:
  assumes "page_chunk a buf len" and "hal_write_loop a buf len s = (r, t)"
  shows "(r = 0 \<or> r = -1) \<and> flash.more t = flash.more s \<and>
         (\<exists>k \<le> length buf. fl_mem t = nor_range a (take k buf) (fl_mem s) \<and> (r = 0 \<longrightarrow> k = length buf))"
  using assms
proof (induction a buf len s arbitrary: r t rule: hal_write_loop.induct)
  case (1 a buf len s)
  obtain w1 s1 where p1: "spiflash_poll s = (w1, s1)" by (cases "spiflash_poll s")
  have s1: "fl_mem s1 = fl_mem s" "flash.more s1 = flash.more s"
    using spiflash_poll_frame [of s] p1 by simp_all
  define s2 where "s2 = spiflash_program a (take len buf) s1"
  have s2: "fl_mem s2 = nor_range a (take len buf) (fl_mem s)" "flash.more s2 = flash.more s"
    using "1.prems"(1) s1 by (simp_all add: s2_def page_chunk_def spiflash_program_no_wrap)
  obtain w2 s3 where p2: "spiflash_poll s2 = (w2, s3)" by (cases "spiflash_poll s2")
  have s3: "fl_mem s3 = nor_range a (take len buf) (fl_mem s)" "flash.more s3 = flash.more s"
    using spiflash_poll_frame [of s2] p2 s2 by simp_all
  have len: "len \<le> length buf" using "1.prems"(1) by (simp add: page_chunk_def)
  let ?len' = "if length (drop len buf) > SPIFLASH_PAGE_SIZE then SPIFLASH_PAGE_SIZE
               else length (drop len buf)"
  have step: "hal_write_loop a buf len s =
    (if \<not> w1 then (-1, s1) else if \<not> w2 then (-1, s3)
     else if drop len buf \<noteq> [] then hal_write_loop (a + len) (drop len buf) ?len' s3 else (0, s3))"
    using p1 p2 s2_def
    by (simp add: hal_write_loop.simps [of a buf len s] Let_def SPIFLASH_PAGE_SIZE_def)
  consider "\<not> w1" | "w1" "\<not> w2" | "w1" "w2" "drop len buf = []" | "w1" "w2" "drop len buf \<noteq> []"
    by blast
  then show ?case
  proof cases
    case 1
    with "1.prems"(2) step s1 show ?thesis by (auto intro!: exI [of _ 0])
  next
    case 2
    with "1.prems"(2) step s3 len show ?thesis by (auto intro!: exI [of _ len])
  next
    case 3
    with "1.prems"(2) step s3 len show ?thesis by (auto intro!: exI [of _ len])
  next
    case 4
    with "1.prems"(2) step
    have run: "hal_write_loop (a + len) (drop len buf) ?len' s3 = (r, t)" by simp
    have nz: "?len' \<noteq> 0" using 4(3) by (simp add: SPIFLASH_PAGE_SIZE_def)
    from "1.IH" [OF p1 [symmetric] refl _ s2_def refl refl p2 [symmetric] refl _ nz
        page_chunk_next [OF "1.prems"(1) 4(3)] run] 4(1,2)
    obtain k where k: "k \<le> length (drop len buf)"
      "fl_mem t = nor_range (a + len) (take k (drop len buf)) (fl_mem s3)"
      "r = 0 \<longrightarrow> k = length (drop len buf)" and r: "r = 0 \<or> r = -1"
      and m: "flash.more t = flash.more s3" by auto
    have "fl_mem t = nor_range a (take (len + k) buf) (fl_mem s)"
      using k(2) s3(1) len by (simp add: take_add nor_range_append)
    moreover have "len + k \<le> length buf" "r = 0 \<longrightarrow> len + k = length buf"
      using k(1,3) len by auto
    ultimately show ?thesis using r m s3(2) by auto
  qed
qed

lemma hal_write_loop_ready:
  assumes "chip_ready s" and "hal_write_loop a buf len s = (r, t)"
  shows "r = 0 \<and> chip_ready t"
  using assms
proof (induction a buf len s arbitrary: r t rule: hal_write_loop.induct)
  case (1 a buf len s)
  obtain s1 where p1: "spiflash_poll s = (True, s1)" and s1: "chip_ready s1"
    using spiflash_poll_ready [OF "1.prems"(1)] by (cases "spiflash_poll s") auto
  define s2 where "s2 = spiflash_program a (take len buf) s1"
  have "chip_ready s2" using s1 by (simp add: s2_def spiflash_program_def)
  then obtain s3 where p2: "spiflash_poll s2 = (True, s3)" and s3: "chip_ready s3"
    using spiflash_poll_ready [of s2] by (cases "spiflash_poll s2") auto
  let ?len' = "if length (drop len buf) > SPIFLASH_PAGE_SIZE then SPIFLASH_PAGE_SIZE
               else length (drop len buf)"
  have step: "hal_write_loop a buf len s =
    (if ?len' \<noteq> 0 then hal_write_loop (a + len) (drop len buf) ?len' s3 else (0, s3))"
    using p1 p2 s2_def by (simp add: hal_write_loop.simps [of a buf len s] Let_def)
  show ?case
  proof (cases "?len' = 0")
    case True
    with step "1.prems"(2) s3 show ?thesis by auto
  next
    case False
    with step "1.prems"(2) have "hal_write_loop (a + len) (drop len buf) ?len' s3 = (r, t)" by simp
    from "1.IH" [OF p1 [symmetric] refl _ s2_def refl refl p2 [symmetric] refl _ False s3 this]
    show ?thesis by simp
  qed
qed

lemma page_chunk_first:
  assumes "buf \<noteq> []"
  shows "page_chunk a buf (if length buf > SPIFLASH_PAGE_SIZE - a mod SPIFLASH_PAGE_SIZE
           then SPIFLASH_PAGE_SIZE - a mod SPIFLASH_PAGE_SIZE else length buf)"
proof -
  obtain q r where a: "a = 256 * q + r" "r < 256" "a mod 256 = r"
    by (rule div_mod_split [of 256 a]) simp_all
  from a(1,2) have "a + (256 - r) = 256 * (q + 1)" by simp
  then have "(a + (256 - r)) mod 256 = 0" by (simp only: mod_mult_self1_is_0)
  moreover note a(2,3)
  ultimately show ?thesis using assms
    by (cases buf) (auto simp: page_chunk_def SPIFLASH_PAGE_SIZE_def)
qed

lemma hal_spifiash_write_prefix:
  assumes "hal_spifiash_write a buf s = (r, t)"
  shows "(r = 0 \<or> r = -1) \<and> flash.more t = flash.more s \<and>
         (\<exists>k \<le> length buf. fl_mem t = nor_range a (take k buf) (fl_mem s) \<and> (r = 0 \<longrightarrow> k = length buf))"
proof (cases "buf = []")
  case True
  with assms show ?thesis by (simp add: hal_spifiash_write_def)
next
  case False
  show ?thesis
    by (rule hal_write_loop_prefix [OF page_chunk_first [OF False, of a]])
      (use assms False in \<open>simp add: hal_spifiash_write_def Let_def\<close>)
qed

lemma hal_spifiash_write_ready:
  assumes "chip_ready s"
  shows "fst (hal_spifiash_write a buf s) = 0" and "chip_ready (snd (hal_spifiash_write a buf s))"
  using hal_write_loop_ready [OF assms] assms
  by (auto simp: hal_spifiash_write_def Let_def) (metis prod.collapse)+

lemma hal_spifiash_write_mem:
  assumes "chip_ready s"
  shows "fl_mem (snd (hal_spifiash_write a buf s)) = nor_range a buf (fl_mem s)"
  using hal_spifiash_write_prefix [of a buf s] hal_spifiash_write_ready [OF assms, of a buf]
  by (cases "hal_spifiash_write a buf s") auto

text \<open>Sector erase: the first \<open>k\<close> sectors have been erased, all of them on success.\<close>

definition erase_range :: "nat \<Rightarrow> nat \<Rightarrow> (nat \<Rightarrow> u8) \<Rightarrow> (nat \<Rightarrow> u8)" where
  "erase_range a n m = (\<lambda>x. if a \<le> x \<and> x < a + n then 0xFF else m x)"

lemma erase_range_0 [simp]: "erase_range a 0 m = m"
  by (rule ext) (auto simp: erase_range_def)

lemma chip_sector_erase_eq:
  "a mod 4096 = 0 \<Longrightarrow> chip_sector_erase a m = erase_range a 4096 m"
  by (rule ext) (auto simp: chip_sector_erase_def erase_range_def)

lemma erase_range_add: "erase_range (a + n) k (erase_range a n m) = erase_range a (n + k) m"
  by (rule ext) (auto simp: erase_range_def)

lemma hal_erase_loop_prefix:
  assumes "a mod 4096 = 0" and "hal_erase_loop a n s = (r, t)"
  shows "flash.more t = flash.more s \<and>
         (\<exists>k \<le> n. fl_mem t = erase_range a (4096 * k) (fl_mem s) \<and> (r = 0 \<longrightarrow> k = n))"
  using assms
proof (induction a n s arbitrary: r t rule: hal_erase_loop.induct)
  case (1 a s)
  then show ?case by simp
next
  case (2 a i s)
  obtain w1 s1 where p1: "spiflash_poll s = (w1, s1)" by (cases "spiflash_poll s")
  have s1: "fl_mem s1 = fl_mem s" "flash.more s1 = flash.more s"
    using spiflash_poll_frame [of s] p1 by simp_all
  define s2 where "s2 = s1\<lparr>fl_mem := chip_sector_erase a (fl_mem s1)\<rparr>"
  have s2: "fl_mem s2 = erase_range a 4096 (fl_mem s)" "flash.more s2 = flash.more s"
    using s1 "2.prems"(1) by (simp_all add: s2_def chip_sector_erase_eq)
  obtain w2 s3 where p2: "spiflash_poll s2 = (w2, s3)" by (cases "spiflash_poll s2")
  have s3: "fl_mem s3 = erase_range a 4096 (fl_mem s)" "flash.more s3 = flash.more s"
    using spiflash_poll_frame [of s2] p2 s2 by simp_all
  have step: "hal_erase_loop a (Suc i) s = (if \<not> w1 then (-1, s1) else if \<not> w2 then (-2, s3)
      else hal_erase_loop (a + SPIFLASH_SECTOR_SIZE) i s3)"
    using p1 p2 s2_def by (simp add: Let_def)
  consider "\<not> w1" | "w1" "\<not> w2" | "w1" "w2" by blast
  then show ?case
  proof cases
    case 1
    with step "2.prems"(2) s1 show ?thesis by (auto intro!: exI [of _ 0])
  next
    case 2
    with step "2.prems"(2) s3 show ?thesis by (auto intro!: exI [of _ 1])
  next
    case 3
    with step "2.prems"(2) have run: "hal_erase_loop (a + SPIFLASH_SECTOR_SIZE) i s3 = (r, t)"
      by simp
    have al: "(a + SPIFLASH_SECTOR_SIZE) mod 4096 = 0"
      using "2.prems"(1) by (simp add: SPIFLASH_SECTOR_SIZE_def)
    from "2.IH" [OF p1 [symmetric] refl _ s2_def p2 [symmetric] refl _ al run] 3
    obtain k where k: "k \<le> i" "fl_mem t = erase_range (a + 4096) (4096 * k) (fl_mem s3)"
      "r = 0 \<longrightarrow> k = i" and m: "flash.more t = flash.more s3"
      by (auto simp: SPIFLASH_SECTOR_SIZE_def)
    have "fl_mem t = erase_range a (4096 * Suc k) (fl_mem s)"
      using k(2) s3(1) by (simp add: erase_range_add)
    with k m s3(2) show ?thesis by (auto intro!: exI [of _ "Suc k"])
  qed
qed

lemma hal_erase_loop_ready:
  assumes "chip_ready s"
  shows "fst (hal_erase_loop a n s) = 0 \<and> chip_ready (snd (hal_erase_loop a n s))"
  using assms
proof (induction n arbitrary: a s)
  case 0
  then show ?case by simp
next
  case (Suc n)
  obtain s1 where p1: "spiflash_poll s = (True, s1)" and s1: "chip_ready s1"
    using spiflash_poll_ready [OF Suc.prems] by (cases "spiflash_poll s") auto
  define s2 where "s2 = s1\<lparr>fl_mem := chip_sector_erase a (fl_mem s1)\<rparr>"
  have "chip_ready s2" using s1 by (simp add: s2_def)
  then obtain s3 where p2: "spiflash_poll s2 = (True, s3)" and s3: "chip_ready s3"
    using spiflash_poll_ready [of s2] by (cases "spiflash_poll s2") auto
  show ?case using p1 p2 s2_def Suc.IH [OF s3] by (simp add: Let_def)
qed

lemma hal_spiflash_erase_misaligned:
  "a mod 4096 \<noteq> 0 \<or> n mod 4096 \<noteq> 0 \<Longrightarrow> hal_spiflash_erase a n s = (-23, s)"
  by (auto simp: hal_spiflash_erase_def SPIFLASH_SECTOR_SIZE_def)

lemma hal_spiflash_erase_prefix:
  assumes "hal_spiflash_erase a n s = (r, t)"
  shows "flash.more t = flash.more s \<and>
         (\<exists>k \<le> n. fl_mem t = erase_range a k (fl_mem s) \<and> (r = 0 \<longrightarrow> k = n))"
proof (cases "a mod 4096 = 0 \<and> n mod 4096 = 0")
  case True
  then have run: "hal_erase_loop a (n div 4096) s = (r, t)"
    using assms by (simp add: hal_spiflash_erase_def SPIFLASH_SECTOR_SIZE_def)
  from True obtain q where q: "n = 4096 * q" by auto
  from hal_erase_loop_prefix [OF conjunct1 [OF True] run] obtain k where
    "k \<le> n div 4096" "fl_mem t = erase_range a (4096 * k) (fl_mem s)" "r = 0 \<longrightarrow> k = n div 4096"
    "flash.more t = flash.more s" by blast
  then show ?thesis using q by (intro conjI exI [of _ "4096 * k"]) auto
next
  case False
  with assms hal_spiflash_erase_misaligned [of a n s] show ?thesis
    by (auto intro!: exI [of _ 0])
qed

lemma hal_spiflash_erase_ready:
  assumes "chip_ready s"
  shows "chip_ready (snd (hal_spiflash_erase a n s))"
    and "a mod 4096 = 0 \<Longrightarrow> n mod 4096 = 0 \<Longrightarrow> fst (hal_spiflash_erase a n s) = 0"
  using hal_erase_loop_ready [OF assms] assms
  by (auto simp: hal_spiflash_erase_def SPIFLASH_SECTOR_SIZE_def)

lemma hal_spiflash_erase_mem:
  assumes "chip_ready s" and "a mod 4096 = 0" and "n mod 4096 = 0"
  shows "fl_mem (snd (hal_spiflash_erase a n s)) = erase_range a n (fl_mem s)"
  using hal_spiflash_erase_prefix [of a n s] hal_spiflash_erase_ready(2) [OF assms]
  by (cases "hal_spiflash_erase a n s") auto

lemma u8_FF_and [simp]: "(0xFF :: u8) AND b = b"
proof -
  have "(0xFF :: u8) = -1" by simp
  then show ?thesis by (metis and.left_neutral)
qed

section \<open>The interface the storage layers rely on\<close>

text \<open>
  A flash device as its clients see it: reads return the cells, a program clears bits of
  the addressed range only, an erase sets whole sectors and nothing else; on a device that
  answers its polls both succeed, and even when they fail nothing outside the addressed
  range changes.
\<close>

locale flash_device =
  fixes ready :: "'s \<Rightarrow> bool"
    and cells :: "'s \<Rightarrow> nat \<Rightarrow> u8"
    and dread :: "nat \<Rightarrow> nat \<Rightarrow> 's \<Rightarrow> int \<times> bytes"
    and dprog :: "nat \<Rightarrow> bytes \<Rightarrow> 's \<Rightarrow> int \<times> 's"
    and derase :: "nat \<Rightarrow> nat \<Rightarrow> 's \<Rightarrow> int \<times> 's"
  assumes dread_eq: "dread a n s = (0, map (cells s) [a..<a + n])"
    and dprog_ready: "ready s \<Longrightarrow> fst (dprog a bs s) = 0 \<and> ready (snd (dprog a bs s))"
    and dprog_cells: "ready s \<Longrightarrow> cells (snd (dprog a bs s)) = nor_range a bs (cells s)"
    and dprog_frame: "x < a \<or> a + length bs \<le> x \<Longrightarrow> cells (snd (dprog a bs s)) x = cells s x"
    and derase_ready: "ready s \<Longrightarrow> a mod 4096 = 0 \<Longrightarrow> n mod 4096 = 0 \<Longrightarrow>
          fst (derase a n s) = 0 \<and> ready (snd (derase a n s))"
    and derase_cells: "ready s \<Longrightarrow> a mod 4096 = 0 \<Longrightarrow> n mod 4096 = 0 \<Longrightarrow>
          cells (snd (derase a n s)) = erase_range a n (cells s)"
    and derase_frame: "x < a \<or> a + n \<le> x \<Longrightarrow> cells (snd (derase a n s)) x = cells s x"
begin

lemma nor_range_read_back:
  assumes "erased a (length bs) m"
  shows "map (nor_range a bs m) [a..<a + length bs] = bs"
  using assms by (intro nth_equalityI) (auto simp: nor_range_def erased_def)

lemma prog_read_back:
  assumes "ready s" and "erased a (length bs) (cells s)"
  shows "dread a (length bs) (snd (dprog a bs s)) = (0, bs)"
  using nor_range_read_back [OF assms(2)] by (simp add: dread_eq dprog_cells [OF assms(1)])

lemma erase_prog_read_back:
  assumes "ready s" and "a mod 4096 = 0" and "n mod 4096 = 0" and "length bs \<le> n"
  shows "dread a (length bs) (snd (dprog a bs (snd (derase a n s)))) = (0, bs)"
proof (rule prog_read_back)
  show "ready (snd (derase a n s))" using derase_ready [OF assms(1-3)] by simp
  show "erased a (length bs) (cells (snd (derase a n s)))"
    using assms(4) by (auto simp: erased_def erase_range_def derase_cells [OF assms(1-3)])
qed

lemma erase_prog_frame:
  assumes "x < a \<or> a + n \<le> x" and "length bs \<le> n"
  shows "cells (snd (dprog a bs (snd (derase a n s)))) x = cells s x"
  using assms by (auto simp: dprog_frame derase_frame)

end

interpretation spi: flash_device chip_ready fl_mem hal_spiflash_read hal_spifiash_write hal_spiflash_erase
proof unfold_locales
  fix a x :: nat and n bs and s :: "'a flash_scheme"
  show "hal_spiflash_read a n s = (0, map (fl_mem s) [a..<a + n])"
    by (rule hal_spiflash_read_eq)
  show "fst (hal_spifiash_write a bs s) = 0 \<and> chip_ready (snd (hal_spifiash_write a bs s))"
    if "chip_ready s" using hal_spifiash_write_ready [OF that] by simp
  show "fl_mem (snd (hal_spifiash_write a bs s)) = nor_range a bs (fl_mem s)" if "chip_ready s"
    using hal_spifiash_write_mem [OF that] .
  show "fl_mem (snd (hal_spifiash_write a bs s)) x = fl_mem s x" if "x < a \<or> a + length bs \<le> x"
    using hal_spifiash_write_prefix [of a bs s] that
    by (cases "hal_spifiash_write a bs s") (auto simp: nor_range_def)
  show "fst (hal_spiflash_erase a n s) = 0 \<and> chip_ready (snd (hal_spiflash_erase a n s))"
    if "chip_ready s" "a mod 4096 = 0" "n mod 4096 = 0"
    using hal_spiflash_erase_ready [OF that(1)] that(2,3) by simp
  show "fl_mem (snd (hal_spiflash_erase a n s)) = erase_range a n (fl_mem s)"
    if "chip_ready s" "a mod 4096 = 0" "n mod 4096 = 0"
    using hal_spiflash_erase_mem [OF that] .
  show "fl_mem (snd (hal_spiflash_erase a n s)) x = fl_mem s x" if "x < a \<or> a + n \<le> x"
    using hal_spiflash_erase_prefix [of a n s] that
    by (cases "hal_spiflash_erase a n s") (auto simp: erase_range_def)
qed

section \<open>The shim rounds a write up to whole sectors\<close>

definition sector_span :: "nat \<Rightarrow> nat" where
  "sector_span n = 4096 * ((n + 4095) div 4096)"

lemma sector_span_mod [simp]: "sector_span n mod 4096 = 0"
  by (simp add: sector_span_def)

lemma sector_count_eq:
  "(if n mod 4096 > 0 then n div 4096 + 1 else n div 4096) = (n + 4095) div (4096 :: nat)"
proof -
  obtain q r where n: "n = 4096 * q + r" "r < 4096" "n div 4096 = q" "n mod 4096 = r"
    by (rule div_mod_split [of 4096 n]) simp_all
  have "(n + 4095) div 4096 = (if r > 0 then q + 1 else q)"
    using n(1,2) by (intro div_nat_eqI) (auto split: if_splits)
  with n(3,4) show ?thesis by simp
qed

lemma sector_span_ge: "n \<le> sector_span n"
proof -
  obtain q r where n: "n = 4096 * q + r" "r < 4096" "n div 4096 = q" "n mod 4096 = r"
    by (rule div_mod_split [of 4096 n]) simp_all
  show ?thesis
    unfolding sector_span_def sector_count_eq [symmetric] n(3,4) using n(1,2) by simp
qed

lemma ya_hal_erase_loop_frame:
  "flash.more (snd (ya_hal_erase_loop a k s)) = flash.more s \<and>
   (x < a \<or> a + 4096 * k \<le> x \<longrightarrow> fl_mem (snd (ya_hal_erase_loop a k s)) x = fl_mem s x)"
proof (induction a k s rule: ya_hal_erase_loop.induct)
  case (1 a s)
  then show ?case by simp
next
  case (2 a k s)
  obtain r s' where e: "hal_spiflash_erase a SPIFLASH_SECTOR_SIZE s = (r, s')" by fastforce
  have "flash.more s' = flash.more s" and
    "x < a \<or> a + SPIFLASH_SECTOR_SIZE \<le> x \<Longrightarrow> fl_mem s' x = fl_mem s x"
    using hal_spiflash_erase_prefix [OF e] spi.derase_frame [of x a SPIFLASH_SECTOR_SIZE s] e
    by auto
  with e "2.IH" [OF e [symmetric] refl] show ?case by (auto simp: Let_def SPIFLASH_SECTOR_SIZE_def)
qed

lemma ya_hal_erase_loop_ready:
  assumes "chip_ready s" and "a mod 4096 = 0"
  shows "fst (ya_hal_erase_loop a k s) = 0 \<and> chip_ready (snd (ya_hal_erase_loop a k s)) \<and>
         fl_mem (snd (ya_hal_erase_loop a k s)) = erase_range a (4096 * k) (fl_mem s)"
  using assms
proof (induction a k s rule: ya_hal_erase_loop.induct)
  case (1 a s)
  then show ?case by simp
next
  case (2 a k s)
  obtain r s' where e: "hal_spiflash_erase a SPIFLASH_SECTOR_SIZE s = (r, s')" by fastforce
  have s': "r = 0" "chip_ready s'" "fl_mem s' = erase_range a 4096 (fl_mem s)"
    using spi.derase_ready [OF "2.prems", of 4096] spi.derase_cells [OF "2.prems", of 4096] e
    by (simp_all add: SPIFLASH_SECTOR_SIZE_def)
  have "(a + SPIFLASH_SECTOR_SIZE) mod 4096 = 0" using "2.prems"(2) by (simp add: SPIFLASH_SECTOR_SIZE_def)
  with "2.IH" [OF e [symmetric] refl] s' e show ?case
    by (simp add: Let_def erase_range_add SPIFLASH_SECTOR_SIZE_def)
qed

lemma ya_hal_flash_erase_eq:
  "ya_hal_flash_erase a n s = ya_hal_erase_loop a ((n + 4095) div 4096) s"
  using sector_count_eq [of n] by (simp add: ya_hal_flash_erase_def Let_def SPIFLASH_SECTOR_SIZE_def)

lemma board_more:
  assumes "flash.more s = flash.more (t :: 'a board_scheme)"
  shows "heap s = heap t" and "ret_reg s = ret_reg t" and "board.more s = board.more t"
  using assms by (cases s, cases t, simp)+

lemma ya_hal_flash_write_frame:
  "flash.more (snd (ya_hal_flash_write a bs s)) = flash.more s \<and>
   (x < a \<or> a + sector_span (length bs) \<le> x \<longrightarrow> fl_mem (snd (ya_hal_flash_write a bs s)) x = fl_mem s x)"
proof -
  obtain r1 s1 where e: "ya_hal_flash_erase a (length bs) s = (r1, s1)" by fastforce
  obtain r2 s2 where w: "hal_spifiash_write a bs s1 = (r2, s2)" by fastforce
  have "flash.more s1 = flash.more s"
    "x < a \<or> a + sector_span (length bs) \<le> x \<Longrightarrow> fl_mem s1 x = fl_mem s x"
    using ya_hal_erase_loop_frame [of a "(length bs + 4095) div 4096" s x] e
    by (auto simp: ya_hal_flash_erase_eq sector_span_def)
  moreover have "flash.more s2 = flash.more s1"
    "x < a \<or> a + sector_span (length bs) \<le> x \<Longrightarrow> fl_mem s2 x = fl_mem s1 x"
    using hal_spifiash_write_prefix [OF w] spi.dprog_frame [of x a bs s1] w sector_span_ge [of "length bs"]
    by auto
  ultimately show ?thesis using e w by (auto simp: ya_hal_flash_write_def Let_def)
qed

lemma ya_hal_flash_write_ready:
  assumes "chip_ready s" and "a mod 4096 = 0"
  shows "\<exists>t. ya_hal_flash_write a bs s = (ret_reg s, t) \<and> chip_ready t \<and> flash.more t = flash.more s \<and>
             fl_mem t = nor_range a bs (erase_range a (sector_span (length bs)) (fl_mem s))"
proof -
  obtain r1 s1 where e: "ya_hal_flash_erase a (length bs) s = (r1, s1)" by fastforce
  have s1: "r1 = 0" "chip_ready s1" "fl_mem s1 = erase_range a (sector_span (length bs)) (fl_mem s)"
    using ya_hal_erase_loop_ready [OF assms, of "(length bs + 4095) div 4096"] e
    by (simp_all add: ya_hal_flash_erase_eq sector_span_def)
  have m1: "flash.more s1 = flash.more s"
    using ya_hal_erase_loop_frame [of a "(length bs + 4095) div 4096" s] e
    by (simp add: ya_hal_flash_erase_eq)
  obtain r2 s2 where w: "hal_spifiash_write a bs s1 = (r2, s2)" by fastforce
  have s2: "r2 = 0" "chip_ready s2" "fl_mem s2 = nor_range a bs (fl_mem s1)" "flash.more s2 = flash.more s1"
    using spi.dprog_ready [OF s1(2), of a bs] spi.dprog_cells [OF s1(2), of a bs] w
      hal_spifiash_write_prefix [OF w] by auto
  have "ret_reg s2 = ret_reg s" using board_more(2) [of s2 s] s2(4) m1 by simp
  with e w s1 s2 m1 show ?thesis by (auto simp: ya_hal_flash_write_def Let_def)
qed

section \<open>Properties\<close>

text \<open>C20: the page-split write programs the range the caller names.  Whatever the chip answers to the
  polls, the cells are those of one program of a prefix of the data over the whole range (no wrap
  inside a page, no byte outside the range); the result is 0 only when all data has been
  programmed, and it is 0 whenever no poll times out.\<close>

theorem spi_write_is_range_program:
  "\<exists>k \<le> length buf. fl_mem (snd (hal_spifiash_write a buf s)) = nor_range a (take k buf) (fl_mem s) \<and>
     (fst (hal_spifiash_write a buf s) = 0 \<longrightarrow> k = length buf) \<and>
     (chip_ready s \<longrightarrow> fst (hal_spifiash_write a buf s) = 0)"
  using hal_spifiash_write_prefix [of a buf s] hal_spifiash_write_ready(1) [of s a buf]
  by (cases "hal_spifiash_write a buf s") auto

definition flash_demo :: flash where
  "flash_demo = \<lparr>fl_mem = (\<lambda>_. 0xFF), fl_rsp = []\<rparr>"

theorem spi_write_is_range_program_witness:
  "fl_mem (snd (hal_spifiash_write 0x10FE (replicate 600 7) flash_demo)) =
     nor_range 0x10FE (replicate 600 7) (\<lambda>_. 0xFF)"
proof -
  have "chip_ready flash_demo" by (simp add: chip_ready_def flash_demo_def)
  with spi_write_is_range_program [of "replicate 600 7" "0x10FE" flash_demo] show ?thesis
    by (auto simp: flash_demo_def)
qed

text \<open>C29: a record write stays inside its sectors.  Whatever the chip answers, and also when the
  erase or a program step fails half way, \<open>ya_hal_flash_write\<close> changes no cell outside the sectors
  that the written range covers.\<close>

theorem ya_hal_flash_write_confined:
  assumes "x < a \<or> a + sector_span (length bs) \<le> x"
  shows "fl_mem (snd (ya_hal_flash_write a bs s)) x = fl_mem s x"
  using ya_hal_flash_write_frame [of a bs s x] assms by blast

theorem ya_hal_flash_write_confined_witness:
  "fl_mem (snd (ya_hal_flash_write 0x1000 [1, 2, 3]
     \<lparr>fl_mem = (\<lambda>_. 5), fl_rsp = [True, False], heap = (\<lambda>_. None), ret_reg = 0\<rparr>)) 0x2000 = 5"
  using ya_hal_flash_write_confined [of "0x2000" "0x1000" "[1, 2, 3]"
      "\<lparr>fl_mem = (\<lambda>_. 5), fl_rsp = [True, False], heap = (\<lambda>_. None), ret_reg = 0\<rparr>"]
  by (simp add: sector_span_def)

end
