(* ===== verification/YaFlash.thy ===== *)
theory YaFlash
  imports SpiFlash
begin

text \<open>
  The checksummed records of \<^verbatim>\<open>src/apps/akeeta_tr6260/akeeta/app/src/ya_flash.c\<close>: a magic
  byte, a 16-bit length, an additive checksum and the payload, written at the start of a
  sector.  Certificates, user data, OTA state and timers are all stored through it.
\<close>

section \<open>The routines\<close>

definition MAX_DATA_LEN :: nat where "MAX_DATA_LEN = 4 * 1024"

text \<open>The sector of the scheduled actions, which two tasks write.\<close>

definition YA_DEVICE_TIMER_ADDR :: nat where "YA_DEVICE_TIMER_ADDR = 0xB5000"

definition ya_flash_checksum :: "bytes \<Rightarrow> nat \<Rightarrow> u8 option" where
  "ya_flash_checksum data data_len = map_option (foldl (+) 0) (slice data 0 data_len)"

definition ya_write_flash ::
    "nat \<Rightarrow> bytes \<Rightarrow> nat \<Rightarrow> u8 \<Rightarrow> 'a board_scheme \<Rightarrow> (int \<times> 'a board_scheme) option" where
  "ya_write_flash flash_addr data data_len flash_block s =
     (if flash_block = 0 then Some (-1, s)
      else if data_len = 0 \<or> data_len > MAX_DATA_LEN * unat flash_block - 10 then Some (-1, s)
      else
        let alloc_len = (data_len + 4 - data_len mod 4) mod 65536
        in case mem_alloc s (alloc_len + 4) of
             None \<Rightarrow> Some (-1, s)
           | Some buf \<Rightarrow> do {
               buf \<leftarrow> wr buf 0 0xAA;
               buf \<leftarrow> wr buf 1 (of_nat data_len);
               buf \<leftarrow> wr buf 2 (of_nat (data_len div 256));
               sum \<leftarrow> ya_flash_checksum data data_len;
               buf \<leftarrow> wr buf 3 sum;
               src \<leftarrow> slice data 0 data_len;
               buf \<leftarrow> memcpy_at buf 4 src;
               Some (ya_hal_flash_write flash_addr buf s)
             })"

text \<open>
  The part both readers share: read header and payload into a fresh block and compare the
  checksum.  The result is the returned code and the payload bytes available for copying.
\<close>

definition ya_read_body :: "nat \<Rightarrow> nat \<Rightarrow> 'a board_scheme \<Rightarrow> (int \<times> bytes) option" where
  "ya_read_body flash_addr total_len s =
     (let alloc_len = total_len + 4 - total_len mod 4
      in case mem_alloc s (alloc_len + 4) of
           None \<Rightarrow> Some (-1, [])
         | Some _ \<Rightarrow>
             let (ret, buf) = ya_hal_flash_read flash_addr (alloc_len + 4) s
             in if ret \<noteq> 0 then Some (-1, [])
                else do {
                  sum \<leftarrow> ya_flash_checksum (drop 4 buf) total_len;
                  stored \<leftarrow> rd buf 3;
                  if stored \<noteq> sum then Some (-1, [])
                  else do { payload \<leftarrow> slice buf 4 total_len; Some (0, payload) }
                })"

text \<open>The second component is what is copied to \<open>data\<close>; nothing on an error.\<close>

definition ya_read_flash_with_fix_len ::
    "nat \<Rightarrow> nat \<Rightarrow> u8 \<Rightarrow> 'a board_scheme \<Rightarrow> (int \<times> bytes) option" where
  "ya_read_flash_with_fix_len flash_addr data_len flash_block s =
     (if flash_block = 0 then Some (-1, [])
      else if data_len = 0 \<or> data_len > MAX_DATA_LEN * unat flash_block - 10 then Some (-1, [])
      else
        let (ret, header) = ya_hal_flash_read flash_addr 4 s
        in if ret \<noteq> 0 then Some (-1, [])
           else if header ! 0 \<noteq> 0xAA then Some (-1, [])
           else
             let total_len = le16 (header ! 1) (header ! 2)
             in if total_len > MAX_DATA_LEN - 10 then Some (-1, [])
                else do {
                  (ret, payload) \<leftarrow> ya_read_body flash_addr total_len s;
                  if ret \<noteq> 0 then Some (-1, [])
                  else if total_len \<ge> data_len then Some (0, take data_len payload)
                  else Some (0, take total_len payload)
                })"

definition ya_read_flash_with_var_len ::
    "nat \<Rightarrow> nat \<Rightarrow> u8 \<Rightarrow> 'a board_scheme \<Rightarrow> (int \<times> bytes) option" where
  "ya_read_flash_with_var_len flash_addr data_len flash_block s =
     (if flash_block = 0 then Some (-1, [])
      else if data_len = 0 \<or> data_len > MAX_DATA_LEN * unat flash_block - 10 then Some (-1, [])
      else
        let (ret, header) = ya_hal_flash_read flash_addr 4 s
        in if ret \<noteq> 0 then Some (-1, [])
           else if header ! 0 \<noteq> 0xAA then Some (-1, [])
           else
             let total_len = le16 (header ! 1) (header ! 2)
             in if total_len > MAX_DATA_LEN - 10 \<or> data_len < total_len then Some (-1, [])
                else ya_read_body flash_addr total_len s)"

definition ya_erase_flash :: "nat \<Rightarrow> nat \<Rightarrow> 'a flash_scheme \<Rightarrow> int \<times> 'a flash_scheme" where
  "ya_erase_flash flash_addr data_len s =
     (let (ret, s') = ya_hal_flash_erase flash_addr data_len s
      in if ret = 0 then (-1, s') else (0, s'))"

section \<open>The record on flash\<close>

text \<open>
  \<open>board_ok\<close>: the chip answers its polls, the heap has room, and the return register
  happens to hold 0 when \<open>ya_hal_flash_write\<close> returns without a value.
\<close>

definition board_ok :: "'a board_scheme \<Rightarrow> bool" where
  "board_ok s \<longleftrightarrow> chip_ready s \<and> (\<forall>n. heap s n \<noteq> None) \<and> ret_reg s = 0"

definition record_bytes :: "bytes \<Rightarrow> bytes" where
  "record_bytes d = 0xAA # of_nat (length d) # of_nat (length d div 256) # foldl (+) 0 d # d"

definition record_at :: "'a flash_scheme \<Rightarrow> nat \<Rightarrow> bytes \<Rightarrow> bool" where
  "record_at s a d \<longleftrightarrow> map (fl_mem s) [a..<a + 4 + length d] = record_bytes d"

interpretation flash_sum: byte_check "(+) :: u8 \<Rightarrow> u8 \<Rightarrow> u8"
  by unfold_locales simp_all

lemma le16_of_nat:
  assumes "n < 65536"
  shows "le16 (of_nat n) (of_nat (n div 256)) = n"
proof -
  have "n div 256 < 256" using assms by (simp add: less_mult_imp_div_less)
  then have "unat (of_nat (n div 256) :: u8) = n div 256" "unat (of_nat n :: u8) = n mod 256"
    by (simp_all add: unat_of_nat)
  then show ?thesis by (simp add: le16_def)
qed

lemma mem_alloc_length: "mem_alloc s n = Some b \<Longrightarrow> length b = n"
  by (auto simp: mem_alloc_def)

lemma mem_alloc_board_ok:
  assumes "board_ok s"
  obtains b where "mem_alloc s n = Some b" "length b = n"
proof -
  obtain f where "heap s n = Some f" using assms by (auto simp: board_ok_def)
  then show thesis using that by (simp add: mem_alloc_def)
qed

text \<open>What a write sends to the driver: the record, followed by one to four bytes of padding.\<close>

lemma ya_write_flash_sends:
  assumes "flash_block \<noteq> 0" and "0 < n" and "n \<le> MAX_DATA_LEN * unat flash_block - 10"
    and "n < 65532" and "n \<le> length data" and "board_ok s"
  shows "\<exists>pad. length pad = 4 - n mod 4 \<and>
           ya_write_flash a data n flash_block s =
             Some (ya_hal_flash_write a (record_bytes (take n data) @ pad) s)"
proof -
  define al where "al = (n + 4 - n mod 4) mod 65536"
  have al: "al = n + (4 - n mod 4)"
    using assms(4) by (simp add: al_def less_imp_le)
  obtain b where b: "mem_alloc s (al + 4) = Some b" "length b = al + 4"
    using mem_alloc_board_ok [OF assms(6)] by blast
  obtain b0 b1 b2 b3 r where r: "b = b0 # b1 # b2 # b3 # r" "length r = al"
    using b(2) by (rule length_ge4_split)
  have n: "n \<le> length r" using al r(2) by simp
  have "ya_write_flash a data n flash_block s =
      Some (ya_hal_flash_write a (record_bytes (take n data) @ drop n r) s)"
    using assms(1-3,5) b(1) n
    by (simp add: ya_write_flash_def al_def [symmetric] Let_def r(1) ya_flash_checksum_def wr_def
        slice_def memcpy_at_def record_bytes_def min_absorb2 drop_4_Cons not_less)
  moreover have "length (drop n r) = 4 - n mod 4" using r(2) al by simp
  ultimately show ?thesis by blast
qed

text \<open>Writing and erasing touch nothing but the flash.\<close>

lemma ya_write_flash_more:
  assumes "ya_write_flash a data n fb s = Some (r, t)"
  shows "flash.more t = flash.more s"
proof -
  have "t = s \<or> (\<exists>bs. t = snd (ya_hal_flash_write a bs s))"
    using assms unfolding ya_write_flash_def Let_def
    by (auto simp: bind_eq_Some_conv split: if_splits option.splits) (metis snd_conv)
  then show ?thesis using ya_hal_flash_write_frame by auto
qed

lemma ya_erase_flash_more: "flash.more (snd (ya_erase_flash a n s)) = flash.more s"
  using ya_hal_erase_loop_frame [of a "(n + 4095) div 4096" s]
  by (simp add: ya_erase_flash_def ya_hal_flash_erase_eq case_prod_beta Let_def)

lemma record_length [simp]: "length (record_bytes d) = length d + 4"
  by (simp add: record_bytes_def)

lemma ya_write_flash_stores:
  assumes "board_ok s" and "a mod 4096 = 0" and "flash_block \<noteq> 0" and "0 < n"
    and "n \<le> MAX_DATA_LEN * unat flash_block - 10" and "n < 65532" and "n \<le> length data"
  shows "\<exists>t. ya_write_flash a data n flash_block s = Some (0, t) \<and> board_ok t \<and>
             board.more t = board.more s \<and> record_at t a (take n data) \<and>
             (\<forall>x. x < a \<or> a + sector_span (n + 8) \<le> x \<longrightarrow> fl_mem t x = fl_mem s x)"
proof -
  from ya_write_flash_sends [OF assms(3-7) assms(1), of a] obtain pad where
    pad: "length pad = 4 - n mod 4"
    "ya_write_flash a data n flash_block s =
       Some (ya_hal_flash_write a (record_bytes (take n data) @ pad) s)" by blast
  let ?bs = "record_bytes (take n data) @ pad"
  have rdy: "chip_ready s" and ret: "ret_reg s = 0" and hp: "\<forall>n. heap s n \<noteq> None"
    using assms(1) by (simp_all add: board_ok_def)
  from ya_hal_flash_write_ready [OF rdy assms(2), of ?bs] obtain t where
    t: "ya_hal_flash_write a ?bs s = (ret_reg s, t)" "chip_ready t" "flash.more t = flash.more s"
    "fl_mem t = nor_range a ?bs (erase_range a (sector_span (length ?bs)) (fl_mem s))" by blast
  have "map (fl_mem t) [a..<a + length ?bs] = ?bs"
    unfolding t(4) using sector_span_ge [of "length ?bs"]
    by (intro spi.nor_range_read_back) (auto simp: erased_def erase_range_def)
  then have "take (n + 4) (map (fl_mem t) [a..<a + length ?bs]) = record_bytes (take n data)"
    using assms(7) by simp
  then have "record_at t a (take n data)"
    using assms(7) by (simp add: record_at_def take_map min_def ac_simps)
  moreover have "board_ok t"
    using board_more [OF t(3)] rdy ret hp t(2) by (simp add: board_ok_def)
  moreover have "fl_mem t x = fl_mem s x" if "x < a \<or> a + sector_span (n + 8) \<le> x" for x
  proof -
    have "sector_span (length ?bs) \<le> sector_span (n + 8)"
      using pad(1) assms(7) by (simp add: sector_span_def div_le_mono)
    with that have "x < a \<or> a + sector_span (length ?bs) \<le> x" by linarith
    with ya_hal_flash_write_frame [of a ?bs s x] t(1) show ?thesis by auto
  qed
  ultimately show ?thesis using t(1) pad(2) ret board_more(3) [OF t(3)] by auto
qed

text \<open>Any bytes that look like a record of \<open>d\<close> are read back as \<open>d\<close>.\<close>

lemma record_at_header:
  assumes "record_at s a d"
  shows "map (fl_mem s) [a..<a + 4] = [0xAA, of_nat (length d), of_nat (length d div 256), foldl (+) 0 d]"
proof -
  have "map (fl_mem s) [a..<a + 4] = take 4 (map (fl_mem s) [a..<a + 4 + length d])"
    by (simp add: take_map min_def)
  also have "\<dots> = take 4 (record_bytes d)" using assms by (simp only: record_at_def)
  finally show ?thesis by (simp add: record_bytes_def)
qed

lemma record_at_body:
  assumes "record_at s a d" and "length d \<le> k"
  shows "map (fl_mem s) [a..<a + (k + 4)] =
         record_bytes d @ map (fl_mem s) [a + 4 + length d..<a + (k + 4)]"
proof -
  have "[a..<a + (k + 4)] = [a..<a + 4 + length d] @ [a + 4 + length d..<a + (k + 4)]"
    using assms(2) by (intro upt_split) auto
  with assms(1) show ?thesis by (simp add: record_at_def)
qed

lemma ya_read_body_record:
  assumes "record_at s a d" and "\<forall>n. heap s n \<noteq> None"
  shows "ya_read_body a (length d) s = Some (0, d)"
proof -
  let ?al = "length d + 4 - length d mod 4"
  obtain f where "heap s (?al + 4) = Some f" using assms(2) by blast
  then have b: "mem_alloc s (?al + 4) = Some (map f [0..<?al + 4])" by (simp add: mem_alloc_def)
  have "length d \<le> ?al" by simp
  from record_at_body [OF assms(1) this] b show ?thesis
    by (simp add: ya_read_body_def Let_def ya_hal_flash_read_def spi.dread_eq ya_flash_checksum_def
        record_bytes_def slice_def rd_def)
qed

lemma ya_read_var_record:
  assumes "record_at s a d" and "\<forall>n. heap s n \<noteq> None" and "flash_block \<noteq> 0"
    and "0 < cap" and "cap \<le> MAX_DATA_LEN * unat flash_block - 10"
    and "length d \<le> MAX_DATA_LEN - 10" and "length d \<le> cap"
  shows "ya_read_flash_with_var_len a cap flash_block s = Some (0, d)"
proof -
  have "length d < 65536" using assms(6) by (simp add: MAX_DATA_LEN_def)
  with assms show ?thesis
    by (simp add: ya_read_flash_with_var_len_def ya_hal_flash_read_def spi.dread_eq Let_def
        record_at_header le16_of_nat ya_read_body_record)
qed

lemma ya_read_fix_record:
  assumes "record_at s a d" and "\<forall>n. heap s n \<noteq> None" and "flash_block \<noteq> 0"
    and "0 < n" and "n \<le> MAX_DATA_LEN * unat flash_block - 10"
    and "length d \<le> MAX_DATA_LEN - 10"
  shows "ya_read_flash_with_fix_len a n flash_block s = Some (0, take n d)"
proof -
  have "length d < 65536" using assms(6) by (simp add: MAX_DATA_LEN_def)
  with assms show ?thesis
    by (simp add: ya_read_flash_with_fix_len_def ya_hal_flash_read_def spi.dread_eq Let_def
        record_at_header le16_of_nat ya_read_body_record)
qed

text \<open>A reader depends on its sector and the heap only, and refuses a sector without the magic byte.\<close>

lemma read_sector_cong:
  assumes "\<And>x. a \<le> x \<Longrightarrow> x < a + 4096 \<Longrightarrow> fl_mem t x = fl_mem s x" and "heap t = heap s"
  shows "ya_read_flash_with_fix_len a n blk t = ya_read_flash_with_fix_len a n blk s"
proof -
  have r: "ya_hal_flash_read a m t = ya_hal_flash_read a m s" if "m \<le> 4096" for m
    using assms(1) that by (simp add: ya_hal_flash_read_def spi.dread_eq)
  have body: "ya_read_body a m t = ya_read_body a m s" if "m \<le> MAX_DATA_LEN - 10" for m
  proof -
    have "m + 4 - m mod 4 + 4 \<le> 4096"
    proof (cases "m = 4086")
      case False
      have "m + 4 - m mod 4 + 4 \<le> m + 8" by simp
      also have "\<dots> \<le> 4093" using that False by (simp add: MAX_DATA_LEN_def)
      finally show ?thesis by simp
    qed simp
    then show ?thesis by (simp only: ya_read_body_def mem_alloc_def assms(2) Let_def r)
  qed
  have "ya_hal_flash_read a 4 t = ya_hal_flash_read a 4 s" by (rule r) simp
  with body show ?thesis
    by (cases "ya_hal_flash_read a 4 s") (simp add: ya_read_flash_with_fix_len_def Let_def not_less)
qed

lemma read_no_magic: "fl_mem s a \<noteq> 0xAA \<Longrightarrow> ya_read_flash_with_fix_len a n blk s = Some (-1, [])"
  by (simp add: ya_read_flash_with_fix_len_def ya_hal_flash_read_def spi.dread_eq Let_def upt_rec)

section \<open>The interface to the components that keep records\<close>

text \<open>
  A store of checksummed records, one per sector: a successful \<open>put\<close> makes its sector hold
  the record, keeps every record of another sector and the rest of the state (\<open>env\<close>); a
  \<open>get\<close> with a large enough buffer returns a held record.
\<close>

locale record_store =
  fixes ok :: "'s \<Rightarrow> bool"
    and env :: "'s \<Rightarrow> 'e"
    and holds :: "'s \<Rightarrow> nat \<Rightarrow> bytes \<Rightarrow> bool"
    and put :: "nat \<Rightarrow> bytes \<Rightarrow> 's \<Rightarrow> (int \<times> 's) option"
    and get :: "nat \<Rightarrow> nat \<Rightarrow> 's \<Rightarrow> (int \<times> bytes) option"
    and cap :: nat
  assumes put_holds: "ok s \<Longrightarrow> a mod 4096 = 0 \<Longrightarrow> d \<noteq> [] \<Longrightarrow> length d \<le> cap \<Longrightarrow>
      \<exists>t. put a d s = Some (0, t) \<and> ok t \<and> env t = env s \<and> holds t a d \<and>
          (\<forall>b e. holds s b e \<longrightarrow> b mod 4096 = 0 \<longrightarrow> b \<noteq> a \<longrightarrow> length e \<le> cap \<longrightarrow> holds t b e)"
    and get_holds: "ok s \<Longrightarrow> holds s a d \<Longrightarrow> 0 < n \<Longrightarrow> length d \<le> n \<Longrightarrow> n \<le> cap \<Longrightarrow>
      get a n s = Some (0, d)"
    and get_total: "get a n s \<noteq> None"
begin

lemma put_get:
  assumes "ok s" and "a mod 4096 = 0" and "d \<noteq> []" and "length d \<le> n" and "n \<le> cap"
  obtains t where "put a d s = Some (0, t)" and "ok t" and "env t = env s" and "holds t a d"
    and "get a n t = Some (0, d)"
    and "\<And>b e. holds s b e \<Longrightarrow> b mod 4096 = 0 \<Longrightarrow> b \<noteq> a \<Longrightarrow> length e \<le> cap \<Longrightarrow> holds t b e"
proof -
  have len: "length d \<le> cap" "0 < n" using assms(3-5) by (auto intro: less_le_trans [of 0 "length d"])
  from put_holds [OF assms(1-3) len(1)] obtain t where
    t: "put a d s = Some (0, t)" "ok t" "env t = env s" "holds t a d"
    "\<forall>b e. holds s b e \<longrightarrow> b mod 4096 = 0 \<longrightarrow> b \<noteq> a \<longrightarrow> length e \<le> cap \<longrightarrow> holds t b e" by blast
  show thesis using that t get_holds [OF t(2,4) len(2) assms(4,5)] by blast
qed

text \<open>Two records in different sectors can be written in either order and both read back.\<close>

lemma put_put_get:
  assumes "ok s" and "a mod 4096 = 0" and "b mod 4096 = 0" and "a \<noteq> b"
    and "d \<noteq> []" and "e \<noteq> []" and "length d \<le> cap" and "length e \<le> cap"
  obtains t u where "put a d s = Some (0, t)" and "put b e t = Some (0, u)" and "ok u"
    and "env u = env s" and "holds u a d" and "holds u b e"
proof -
  from put_get [OF assms(1,2,5,7) order.refl] obtain t where
    t: "put a d s = Some (0, t)" "ok t" "env t = env s" "holds t a d" by blast
  from put_get [OF t(2) assms(3,6,8) order.refl] obtain u where
    u: "put b e t = Some (0, u)" "ok u" "env u = env t" "holds u b e"
    "\<And>b' e'. holds t b' e' \<Longrightarrow> b' mod 4096 = 0 \<Longrightarrow> b' \<noteq> b \<Longrightarrow> length e' \<le> cap \<Longrightarrow> holds u b' e'"
    by blast
  have "holds u a d" using u(5) [OF t(4) assms(2) assms(4) assms(7)] .
  with that t u show thesis by simp
qed

end

lemma sector_span_one: "0 < n \<Longrightarrow> n \<le> 4096 \<Longrightarrow> sector_span n = 4096"
proof -
  assume n: "0 < n" "n \<le> 4096"
  have "(n + 4095) div 4096 = 1" using n by (intro div_nat_eqI) auto
  then show ?thesis by (simp add: sector_span_def)
qed

lemma sector_disjoint:
  fixes a b :: nat
  assumes "a mod 4096 = 0" and "b mod 4096 = 0" and "a \<noteq> b"
  shows "a + 4096 \<le> b \<or> b + 4096 \<le> a"
proof -
  from assms(1,2) obtain p q where "a = 4096 * p" "b = 4096 * q" by (auto elim!: dvdE simp: mod_eq_0_iff_dvd)
  with assms(3) show ?thesis by (cases "p < q") auto
qed

lemma record_at_frame:
  assumes "record_at s b e" and "\<And>x. b \<le> x \<Longrightarrow> x < b + 4 + length e \<Longrightarrow> fl_mem t x = fl_mem s x"
  shows "record_at t b e"
proof -
  have "map (fl_mem t) [b..<b + 4 + length e] = map (fl_mem s) [b..<b + 4 + length e]"
    using assms(2) by simp
  with assms(1) show ?thesis by (simp add: record_at_def)
qed

lemma ya_read_body_total: "ya_read_body a n s \<noteq> None"
  by (auto simp: ya_read_body_def Let_def ya_hal_flash_read_def spi.dread_eq ya_flash_checksum_def
      slice_def rd_def split: option.splits)

lemma ya_write_one_block:
  assumes "board_ok s" and "a mod 4096 = 0" and "d \<noteq> []" and "length d \<le> 4086"
  shows "\<exists>t. ya_write_flash a d (length d) 1 s = Some (0, t) \<and> board_ok t \<and>
             board.more t = board.more s \<and> record_at t a d \<and>
             (\<forall>x. x < a \<or> a + 4096 \<le> x \<longrightarrow> fl_mem t x = fl_mem s x)"
proof -
  have "sector_span (length d + 8) = 4096" using assms(4) by (intro sector_span_one) auto
  with ya_write_flash_stores [OF assms(1,2), of 1 "length d" d] assms(3,4) show ?thesis
    by (simp add: MAX_DATA_LEN_def)
qed

interpretation ya: record_store board_ok board.more record_at
  "\<lambda>a d s. ya_write_flash a d (length d) 1 s" "\<lambda>a n s. ya_read_flash_with_var_len a n 1 s" 4086
proof unfold_locales
  fix a n :: nat and d and s :: "'a board_scheme"
  show "\<exists>t. ya_write_flash a d (length d) 1 s = Some (0, t) \<and> board_ok t \<and>
          board.more t = board.more s \<and> record_at t a d \<and>
          (\<forall>b e. record_at s b e \<longrightarrow> b mod 4096 = 0 \<longrightarrow> b \<noteq> a \<longrightarrow> length e \<le> 4086 \<longrightarrow> record_at t b e)"
    if s: "board_ok s" "a mod 4096 = 0" "d \<noteq> []" "length d \<le> 4086"
  proof -
    from ya_write_one_block [OF s] obtain t where
      t: "ya_write_flash a d (length d) 1 s = Some (0, t)" "board_ok t" "board.more t = board.more s"
      "record_at t a d" "\<forall>x. x < a \<or> a + 4096 \<le> x \<longrightarrow> fl_mem t x = fl_mem s x" by blast
    have "record_at t b e" if "record_at s b e" "b mod 4096 = 0" "b \<noteq> a" "length e \<le> 4086" for b e
      using t(5) sector_disjoint [OF s(2) that(2) that(3) [symmetric]] that(4)
      by (intro record_at_frame [OF that(1)]) auto
    with t show ?thesis by blast
  qed
  show "ya_read_flash_with_var_len a n 1 s = Some (0, d)"
    if "board_ok s" "record_at s a d" "0 < n" "length d \<le> n" "n \<le> 4086"
    using that by (intro ya_read_var_record) (auto simp: board_ok_def MAX_DATA_LEN_def)
  show "ya_read_flash_with_var_len a n 1 s \<noteq> None"
    using ya_read_body_total by (auto simp: ya_read_flash_with_var_len_def Let_def split: prod.splits)
qed

section \<open>Properties\<close>

text \<open>C19: a record written with \<open>ya_write_flash\<close> (one block, at a sector boundary, on a board
  whose chip answers) is read back exactly by \<open>ya_read_flash_with_var_len\<close> and by \<open>ya_read_flash_with_fix_len\<close>,
  each given at least the length of the record, whatever the sector held before, and no byte outside the sector changes.\<close>

theorem ya_flash_roundtrip:
  assumes "board_ok s" and "a mod 4096 = 0" and "d \<noteq> []" and "length d \<le> n" and "n \<le> 4086"
  shows "\<exists>t. ya_write_flash a d (length d) 1 s = Some (0, t) \<and>
             ya_read_flash_with_var_len a n 1 t = Some (0, d) \<and>
             ya_read_flash_with_fix_len a n 1 t = Some (0, d) \<and>
             (\<forall>x. x < a \<or> a + 4096 \<le> x \<longrightarrow> fl_mem t x = fl_mem s x)"
proof -
  have l: "length d \<le> 4086" "0 < n" using assms(3-5) by (auto intro: Suc_le_lessD simp: Suc_le_eq simp flip: length_greater_0_conv)
  from ya_write_one_block [OF assms(1-3) l(1)] obtain t where
    t: "ya_write_flash a d (length d) 1 s = Some (0, t)" "board_ok t" "record_at t a d"
      "\<forall>x. x < a \<or> a + 4096 \<le> x \<longrightarrow> fl_mem t x = fl_mem s x" by blast
  have "ya_read_flash_with_fix_len a n 1 t = Some (0, take n d)"
    using t(2,3) l assms(5) by (intro ya_read_fix_record) (auto simp: board_ok_def MAX_DATA_LEN_def)
  with t ya.get_holds [OF t(2,3) l(2) assms(4,5)] assms(4) show ?thesis by auto
qed

definition board_demo :: board where
  "board_demo = \<lparr>fl_mem = (\<lambda>_. 0x5A), fl_rsp = [], heap = (\<lambda>_. Some (\<lambda>_. 0xCD)), ret_reg = 0\<rparr>"

lemma board_demo_ok: "board_ok board_demo"
  by (simp add: board_ok_def board_demo_def chip_ready_def)

theorem ya_flash_roundtrip_witness:
  "\<exists>t. ya_write_flash 0xAD000 [1, 2, 3] 3 1 board_demo = Some (0, t) \<and>
       ya_read_flash_with_var_len 0xAD000 64 1 t = Some (0, [1, 2, 3]) \<and>
       ya_read_flash_with_fix_len 0xAD000 64 1 t = Some (0, [1, 2, 3])"
  using ya_flash_roundtrip [OF board_demo_ok, of "0xAD000" "[1, 2, 3]" 64]
  by (auto simp: numeral_3_eq_3)

lemma corrupted_body:
  assumes "map (fl_mem s) [a..<a + 4 + length d] = take 4 (record_bytes d) @ e"
    and "one_byte_apart d e"
  shows "ya_read_body a (length d) s = Some (-1, [])"
proof (cases "mem_alloc s (length d + 4 - length d mod 4 + 4)")
  case None
  then show ?thesis by (simp add: ya_read_body_def Let_def)
next
  case (Some b)
  let ?al = "length d + 4 - length d mod 4"
  have ne: "foldl (+) 0 d \<noteq> foldl (+) 0 e" by (rule flash_sum.detects_one_byte [OF assms(2)])
  have le: "length e = length d" using assms(2) by (auto simp: one_byte_apart_def)
  have "[a..<a + (?al + 4)] = [a..<a + 4 + length d] @ [a + 4 + length d..<a + (?al + 4)]"
    by (intro upt_split) auto
  then have "map (fl_mem s) [a..<a + (?al + 4)] =
      (0xAA # of_nat (length d) # of_nat (length d div 256) # foldl (+) 0 d # e) @
      map (fl_mem s) [a + 4 + length d..<a + (?al + 4)]"
    using assms(1) by (simp add: record_bytes_def)
  with Some ne le show ?thesis
    by (simp add: ya_read_body_def Let_def ya_hal_flash_read_def spi.dread_eq ya_flash_checksum_def
        slice_def rd_def)
qed

text \<open>C26: a record whose payload has one corrupted byte is rejected by both readers.\<close>

theorem ya_flash_detects_corruption:
  assumes "map (fl_mem s) [a..<a + 4 + length d] = take 4 (record_bytes d) @ e"
    and "one_byte_apart d e" and "length d \<le> 4086"
  shows "ya_read_flash_with_var_len a n fb s = Some (-1, []) \<and>
         ya_read_flash_with_fix_len a n fb s = Some (-1, [])"
proof -
  have "map (fl_mem s) [a..<a + 4] = take 4 (map (fl_mem s) [a..<a + 4 + length d])"
    by (simp add: take_map min_def)
  also have "\<dots> = take 4 (record_bytes d)" by (simp only: assms(1)) simp
  finally have h: "map (fl_mem s) [a..<a + 4] =
      [0xAA, of_nat (length d), of_nat (length d div 256), foldl (+) 0 d]"
    by (simp add: record_bytes_def)
  have "length d < 65536" using assms(3) by simp
  note * = h corrupted_body [OF assms(1,2)] le16_of_nat [OF this]
  show ?thesis
    by (simp add: ya_read_flash_with_var_len_def ya_read_flash_with_fix_len_def
        ya_hal_flash_read_def spi.dread_eq Let_def *)
qed

theorem ya_flash_detects_corruption_witness:
  "ya_read_flash_with_var_len 0 64 1
     (board_demo\<lparr>fl_mem := (\<lambda>x. ([0xAA, 2, 0, 3, 1, 9] :: bytes) ! (x mod 6))\<rparr>) = Some (-1, [])"
proof (rule ya_flash_detects_corruption [THEN conjunct1, of _ _ "[1, 2]" "[1, 9]"])
  show "one_byte_apart [1, 2 :: u8] [1, 9]"
    unfolding one_byte_apart_def by (rule exI [of _ 1], rule exI [of _ 9]) simp
qed (simp_all add: record_bytes_def upt_conv_Cons)

text \<open>Whatever the flash holds and whether or not memory is available, neither reader
  touches memory outside its buffers: the two functions always return.\<close>

theorem ya_flash_readers_safe:
  "ya_read_flash_with_var_len a n fb s \<noteq> None \<and> ya_read_flash_with_fix_len a n fb s \<noteq> None"
proof -
  obtain r p where "ya_hal_flash_read a 4 s = (r, p)" by fastforce
  then show ?thesis
    by (auto simp del: not_None_eq simp: ya_read_body_total ya_read_flash_with_var_len_def
        ya_read_flash_with_fix_len_def Let_def split: Option.bind_splits)
qed

lemma record_too_long:
  assumes "record_at s a d" and "4086 < length d" and "length d < 65536"
  shows "ya_read_flash_with_var_len a m fb s = Some (-1, [])"
    and "ya_read_flash_with_fix_len a m fb s = Some (-1, [])"
  using record_at_header [OF assms(1)] assms(2) le16_of_nat [OF assms(3)]
  by (simp_all add: ya_read_flash_with_var_len_def ya_read_flash_with_fix_len_def
      ya_hal_flash_read_def spi.dread_eq Let_def MAX_DATA_LEN_def)

text \<open>A payload of 4087 up to 65531 bytes is accepted and stored by \<open>ya_write_flash\<close> when
  the caller passes enough flash blocks, but no reader ever accepts the record: both bound the
  stored length by one block.\<close>

theorem ya_flash_multi_block_unreadable:
  assumes "board_ok s" and "a mod 4096 = 0" and "4086 < n" and "n < 65532"
    and "n \<le> 4096 * unat fb - 10" and "n \<le> length data"
  shows "\<exists>t. ya_write_flash a data n fb s = Some (0, t) \<and> record_at t a (take n data) \<and>
             (\<forall>m fb'. ya_read_flash_with_var_len a m fb' t = Some (-1, []) \<and>
                      ya_read_flash_with_fix_len a m fb' t = Some (-1, []))"
proof -
  have fb: "fb \<noteq> 0" using assms(3,5) by (cases "fb = 0") auto
  from ya_write_flash_stores [OF assms(1,2) fb _ _ assms(4,6)] assms(3,5) obtain t where
    t: "ya_write_flash a data n fb s = Some (0, t)" "record_at t a (take n data)"
    by (auto simp: MAX_DATA_LEN_def)
  have len: "length (take n data) = n" using assms(6) by simp
  have "ya_read_flash_with_var_len a m fb' t = Some (-1, []) \<and>
        ya_read_flash_with_fix_len a m fb' t = Some (-1, [])" for m fb'
    using record_too_long [OF t(2)] assms(3,4) len by simp
  with t show ?thesis by blast
qed

theorem ya_flash_multi_block_unreadable_witness:
  "\<exists>t. ya_write_flash 0xAD000 (replicate 5000 7) 5000 2 board_demo = Some (0, t) \<and>
       ya_read_flash_with_var_len 0xAD000 8000 2 t = Some (-1, [])"
  using ya_flash_multi_block_unreadable [OF board_demo_ok, of "0xAD000" 5000 2 "replicate 5000 7"]
  by auto

text \<open>\<open>ya_erase_flash\<close> reports the opposite of what happened: it returns -1 after a
  successful erase of every sector touched by the range, and 0 when the address is not at a sector
  boundary and nothing was erased.\<close>

theorem ya_erase_flash_inverted:
  assumes "chip_ready s" and "0 < n"
  shows "if a mod 4096 = 0
         then fst (ya_erase_flash a n s) = -1 \<and>
              fl_mem (snd (ya_erase_flash a n s)) = erase_range a (sector_span n) (fl_mem s)
         else ya_erase_flash a n s = (0, s)"
proof (cases "a mod 4096 = 0")
  case True
  with ya_hal_erase_loop_ready [OF assms(1) True, of "(n + 4095) div 4096"] show ?thesis
    by (auto simp: ya_erase_flash_def ya_hal_flash_erase_eq sector_span_def split: prod.splits)
next
  case False
  have "0 < (n + 4095) div 4096" using assms(2) by (simp add: div_greater_zero_iff)
  then obtain k where "(n + 4095) div 4096 = Suc k" by (cases "(n + 4095) div 4096") auto
  with False hal_spiflash_erase_misaligned [of a 4096 s] show ?thesis
    by (simp add: ya_erase_flash_def ya_hal_flash_erase_eq SPIFLASH_SECTOR_SIZE_def)
qed

theorem ya_erase_flash_inverted_witness:
  "fst (ya_erase_flash 0xB3000 4096 board_demo) = -1 \<and> ya_erase_flash 0xB3004 4 board_demo = (0, board_demo)"
proof -
  have "chip_ready board_demo" using board_demo_ok by (simp add: board_ok_def)
  from ya_erase_flash_inverted [OF this, of 4096 "0xB3000"] ya_erase_flash_inverted [OF this, of 4 "0xB3004"]
  show ?thesis by simp
qed

end
