(* ===== verification/AmtNv.thy ===== *)
theory AmtNv
  imports YaFlash
begin

text \<open>
  The factory parameter store \<^verbatim>\<open>src/nv/amtNv/amtNv.c\<close> with the layout of
  \<^verbatim>\<open>src/nv/inc/amtNV.h\<close> and the partition lookup \<open>partion_info_get\<close> of
  \<^verbatim>\<open>src/nv/src/ef_env.c\<close>.

  One 4096-byte sector holds two blocks of 2048 bytes.  A parameter has the same offset in
  both blocks; each copy is a six-byte little-endian head (magic, state, length, CRC-8)
  followed by the value.  A write goes to the first block whose copy is blank and then marks
  the old copy deleted; when both are used, \<open>amt_nv_gc\<close> compacts the live copies into block
  0, going through a backup sector.  (The preprocessor evaluates \<open>AMT_NV_BLOCK_SIZE\<close> to 2048.)
\<close>

section \<open>State\<close>

record partion_info =
  pi_key :: string
  pi_base :: nat
  pi_length :: nat

text \<open>\<open>nv_cache\<close> is the RAM at \<open>0x253000\<close>, which the code uses without allocating it.\<close>

record amt = board +
  amt_partion_base :: nat
  amt_partion_flag :: u8
  partionDev :: "partion_info list"
  nv_cache :: "nat \<Rightarrow> u8"

record amt_nv_head_t =
  magic :: nat
  nv_state :: nat
  val_len :: nat
  nv_crc8 :: u8

definition AMT_PARTION_SIZE :: nat where "AMT_PARTION_SIZE = 4096"
definition AMT_NV_BLOCK_SIZE :: nat where "AMT_NV_BLOCK_SIZE = 2048"
definition AMT_NV_BLOCK_NUM :: nat where "AMT_NV_BLOCK_NUM = 2"
definition AMT_NV_SIZE :: nat where "AMT_NV_SIZE = 2047"
definition AMT_NV_HEAD_SIZE :: nat where "AMT_NV_HEAD_SIZE = 6"
definition AMT_NV_MAGIC_VALUE :: nat where "AMT_NV_MAGIC_VALUE = 0x4E56"
definition AMT_NV_MAGIC_NONE :: nat where "AMT_NV_MAGIC_NONE = 0xFFFF"
definition AMT_NV_STATE_USED :: nat where "AMT_NV_STATE_USED = 0xFF00"
definition AMT_NV_STATE_DELE :: nat where "AMT_NV_STATE_DELE = 0x0000"
definition AMT_NV_BACKUP_BASE :: nat where "AMT_NV_BACKUP_BASE = 0xFE000"
definition AMT_NV_BACKUP_COMP :: nat where "AMT_NV_BACKUP_COMP = 0xFE004"
definition AMT_NV_BACKUP_ADDR :: nat where "AMT_NV_BACKUP_ADDR = 0xFE010"

lemmas amt_sizes = AMT_PARTION_SIZE_def AMT_NV_BLOCK_SIZE_def AMT_NV_BLOCK_NUM_def AMT_NV_SIZE_def
  AMT_NV_HEAD_SIZE_def
lemmas amt_marks = AMT_NV_MAGIC_VALUE_def AMT_NV_MAGIC_NONE_def AMT_NV_STATE_USED_def
  AMT_NV_STATE_DELE_def
lemmas amt_backup = AMT_NV_BACKUP_BASE_def AMT_NV_BACKUP_COMP_def AMT_NV_BACKUP_ADDR_def
lemmas amt_consts = amt_sizes amt_marks amt_backup

definition DRV_ERROR :: int where "DRV_ERROR = -1"
definition DRV_ERR_INVALID_PARAM :: int where "DRV_ERR_INVALID_PARAM = -4"
definition DRV_ERR_MEM_ALLOC :: int where "DRV_ERR_MEM_ALLOC = -5"

definition WORD_ALIGN :: "nat \<Rightarrow> nat" where
  "WORD_ALIGN x = (x + 3) div 4 * 4"

text \<open>The in-memory image of a head, and the head that six bytes denote.\<close>

definition amt_head_bytes :: "amt_nv_head_t \<Rightarrow> bytes" where
  "amt_head_bytes h =
     [of_nat (magic h), of_nat (magic h div 256), of_nat (nv_state h), of_nat (nv_state h div 256),
      of_nat (val_len h), nv_crc8 h]"

definition amt_head_of :: "bytes \<Rightarrow> amt_nv_head_t" where
  "amt_head_of b =
     \<lparr>magic = le16 (b ! 0) (b ! 1), nv_state = le16 (b ! 2) (b ! 3),
      val_len = unat (b ! 4), nv_crc8 = b ! 5\<rparr>"

section \<open>Partition table\<close>

text \<open>
  The result is the return code with the base and length found.  \<open>strncmp(key, p, n)\<close> is 0
  when the first \<open>n\<close> characters agree.
\<close>

definition strncmp_eq :: "string \<Rightarrow> string \<Rightarrow> nat \<Rightarrow> bool" where
  "strncmp_eq a b n \<longleftrightarrow> take n a = take n b"

definition partion_info_get :: "partion_info list \<Rightarrow> string \<Rightarrow> int \<times> nat \<times> nat" where
  "partion_info_get tab key =
     (if tab = [] then
        (if strncmp_eq key ''cpu1'' 4 then (0, 0x4000, 0x7C000)
         else if strncmp_eq key ''cpu2'' 4 then (0, 0x80000, 0x7C000)
         else if strncmp_eq key ''nv_usr'' 6 then (0, 0xFB000, 0x3000)
         else if strncmp_eq key ''nv_amt'' 6 then (0, 0xFF000, 0x1000)
         else (-1, 0, 0))
      else
        (case find (\<lambda>p. strncmp_eq key (pi_key p) (length key)) tab of
           None \<Rightarrow> (-1, 0, 0)
         | Some p \<Rightarrow> (0, pi_base p, pi_length p)))"

text \<open>The block every entry point starts with.\<close>

definition amt_partion_setup :: "'a amt_scheme \<Rightarrow> 'a amt_scheme" where
  "amt_partion_setup s =
     (if amt_partion_flag s = 0 then
        (let (ret, base, len) = partion_info_get (partionDev s) ''nv_amt'';
             s = (if ret = 0 then s\<lparr>amt_partion_base := base\<rparr> else s)
         in s\<lparr>amt_partion_flag := 1\<rparr>)
      else s)"

section \<open>CRC and search\<close>

definition amt_crc_step :: "u8 \<Rightarrow> u8 \<Rightarrow> u8" where
  "amt_crc_step crc b = (crc_round 7 0x31 ^^ 8) (crc XOR b)"

definition amt_nv_crc8 :: "bytes \<Rightarrow> nat \<Rightarrow> u8 option" where
  "amt_nv_crc8 buf len = map_option (foldl amt_crc_step 0) (slice buf 0 (len mod 65536))"

definition amt_read_head :: "nat \<Rightarrow> 'a flash_scheme \<Rightarrow> amt_nv_head_t" where
  "amt_read_head a s = amt_head_of (snd (hal_spiflash_read a AMT_NV_HEAD_SIZE s))"

text \<open>
  The loop of \<open>amt_nv_search\<close> over the block indices still to visit.  The results are the
  head stored through \<open>pHead\<close>, \<open>index_search\<close> and \<open>index_alloc\<close>.
\<close>

fun amt_nv_search_loop ::
    "nat \<Rightarrow> nat list \<Rightarrow> nat \<Rightarrow> amt_nv_head_t \<Rightarrow> 'a amt_scheme \<Rightarrow>
     (amt_nv_head_t \<times> nat \<times> nat) \<times> 'a amt_scheme" where
  "amt_nv_search_loop addr [] search_id ph s = ((ph, search_id, AMT_NV_BLOCK_NUM), s)"
| "amt_nv_search_loop addr (i # is) search_id ph s =
     (let head = amt_read_head (addr + i * AMT_NV_BLOCK_SIZE) s
      in if magic head = AMT_NV_MAGIC_VALUE then
           (if nv_state head = AMT_NV_STATE_USED then
              (if search_id = AMT_NV_BLOCK_NUM then amt_nv_search_loop addr is i head s
               else
                 let (_, s') = hal_spifiash_write (addr + i * AMT_NV_BLOCK_SIZE + 2) [0, 0] s
                 in amt_nv_search_loop addr is search_id ph s')
            else amt_nv_search_loop addr is search_id ph s)
         else if magic head = AMT_NV_MAGIC_NONE then
           (if i = 0 then ((ph, AMT_NV_BLOCK_NUM, 0), s)
            else if search_id < AMT_NV_BLOCK_NUM then ((ph, search_id, i), s)
            else ((ph, AMT_NV_BLOCK_NUM, i), s))
         else amt_nv_search_loop addr is search_id ph s)"

definition amt_nv_search ::
    "nat \<Rightarrow> amt_nv_head_t \<Rightarrow> 'a amt_scheme \<Rightarrow> (amt_nv_head_t \<times> nat \<times> nat) \<times> 'a amt_scheme" where
  "amt_nv_search addr ph s =
     amt_nv_search_loop addr [0..<AMT_NV_BLOCK_NUM] AMT_NV_BLOCK_NUM ph (amt_partion_setup s)"

section \<open>Garbage collection\<close>

definition cget :: "nat \<Rightarrow> nat \<Rightarrow> (nat \<Rightarrow> u8) \<Rightarrow> bytes" where
  "cget off n c = map c [off..<off + n]"

definition cput :: "nat \<Rightarrow> bytes \<Rightarrow> (nat \<Rightarrow> u8) \<Rightarrow> (nat \<Rightarrow> u8)" where
  "cput off bs c = (\<lambda>x. if off \<le> x \<and> x < off + length bs then bs ! (x - off) else c x)"

text \<open>
  One round of the scan over the cached block: a deleted copy is replaced by the live one.
  Note that the step to the next record uses the length found in the cache after the
  replacement, also when the head has just been overwritten with \<open>0xFF\<close>.
\<close>

definition amt_gc_step :: "nat \<Rightarrow> 'a amt_scheme \<Rightarrow> nat \<times> 'a amt_scheme" where
  "amt_gc_step offset s =
     (let ph = amt_head_of (cget offset AMT_NV_HEAD_SIZE (nv_cache s))
      in if magic ph = AMT_NV_MAGIC_VALUE \<and> nv_state ph = AMT_NV_STATE_DELE then
           (let base = amt_partion_base s;
                ((ph', index_search, index_alloc), s1) = amt_nv_search (base + offset) ph s;
                c1 = cput offset (amt_head_bytes ph') (nv_cache s1);
                c2 = (if index_search < AMT_NV_BLOCK_NUM then
                        cput (offset + AMT_NV_HEAD_SIZE)
                          (snd (hal_spiflash_read
                             (base + offset + index_search * AMT_NV_BLOCK_SIZE + AMT_NV_HEAD_SIZE)
                             (val_len ph') s1)) c1
                      else cput offset (replicate (val_len ph' + AMT_NV_HEAD_SIZE) 0xFF) c1);
                len2 = val_len (amt_head_of (cget offset AMT_NV_HEAD_SIZE c2))
            in (offset + WORD_ALIGN (AMT_NV_HEAD_SIZE + len2), s1\<lparr>nv_cache := c2\<rparr>))
         else if magic ph = AMT_NV_MAGIC_VALUE \<and> nv_state ph = AMT_NV_STATE_USED then
           (offset + WORD_ALIGN (AMT_NV_HEAD_SIZE + val_len ph), s)
         else (offset + 4, s))"

lemma WORD_ALIGN_ge: "x \<le> WORD_ALIGN x"
  unfolding WORD_ALIGN_def by presburger

lemma amt_gc_step_advances: "offset < fst (amt_gc_step offset s)"
proof -
  have "0 < WORD_ALIGN (AMT_NV_HEAD_SIZE + n)" for n
    using WORD_ALIGN_ge [of "AMT_NV_HEAD_SIZE + n"] by (simp add: AMT_NV_HEAD_SIZE_def)
  then show ?thesis by (auto simp: amt_gc_step_def Let_def split: prod.split)
qed

function amt_gc_loop :: "nat \<Rightarrow> 'a amt_scheme \<Rightarrow> 'a amt_scheme" where
  "amt_gc_loop offset s =
     (let (offset', s') = amt_gc_step offset s
      in if offset' < AMT_NV_SIZE then amt_gc_loop offset' s' else s')"
  by pat_completeness auto
termination
proof (relation "measure (\<lambda>(offset, s). AMT_NV_SIZE - offset)", goal_cases)
  case (2 offset s p offset' s')
  then show ?case using amt_gc_step_advances [of offset s] by (cases "amt_gc_step offset s") simp
qed simp

declare amt_gc_loop.simps [simp del]

text \<open>The flash operations of a commit, in program order; their results are ignored.\<close>

datatype flash_op = Prog nat bytes | Erase nat nat

fun run_op :: "flash_op \<Rightarrow> 'a flash_scheme \<Rightarrow> 'a flash_scheme" where
  "run_op (Prog a bs) s = snd (hal_spifiash_write a bs s)"
| "run_op (Erase a n) s = snd (hal_spiflash_erase a n s)"

definition amt_commit_ops :: "nat \<Rightarrow> bytes \<Rightarrow> flash_op list" where
  "amt_commit_ops base img =
     [Prog AMT_NV_BACKUP_BASE [0], Prog AMT_NV_BACKUP_ADDR img, Prog AMT_NV_BACKUP_COMP [0],
      Erase base AMT_PARTION_SIZE, Prog base img, Erase AMT_NV_BACKUP_BASE AMT_PARTION_SIZE]"

definition amt_nv_gc_scan :: "'a amt_scheme \<Rightarrow> 'a amt_scheme" where
  "amt_nv_gc_scan s =
     amt_gc_loop 0 (s\<lparr>nv_cache :=
       cput 0 (snd (hal_spiflash_read (amt_partion_base s) AMT_NV_SIZE s)) (nv_cache s)\<rparr>)"

definition amt_nv_gc :: "nat \<Rightarrow> bytes option \<Rightarrow> 'a amt_scheme \<Rightarrow> 'a amt_scheme" where
  "amt_nv_gc addr buf s =
     (let s = amt_partion_setup s;
          base = amt_partion_base s;
          s = amt_nv_gc_scan s;
          s = (case buf of None \<Rightarrow> s
               | Some b \<Rightarrow> s\<lparr>nv_cache := cput (addr - base) b (nv_cache s)\<rparr>)
      in fold run_op (amt_commit_ops base (cget 0 AMT_NV_SIZE (nv_cache s))) s)"

section \<open>Entry points\<close>

text \<open>\<open>None\<close> for \<open>buf\<close> is the null pointer.\<close>

definition amt_nv_write ::
    "nat \<Rightarrow> bytes option \<Rightarrow> nat \<Rightarrow> 'a amt_scheme \<Rightarrow> (int \<times> 'a amt_scheme) option" where
  "amt_nv_write addr buf len s =
     (let s = amt_partion_setup s;
          base = amt_partion_base s
      in if addr < base \<or> addr > base + AMT_NV_SIZE then Some (DRV_ERR_INVALID_PARAM, s)
         else case buf of None \<Rightarrow> Some (DRV_ERR_INVALID_PARAM, s)
         | Some b \<Rightarrow>
           (case mem_alloc s (len + AMT_NV_HEAD_SIZE) of None \<Rightarrow> Some (DRV_ERR_MEM_ALLOC, s)
            | Some _ \<Rightarrow> do {
                crc \<leftarrow> amt_nv_crc8 b len;
                val \<leftarrow> slice b 0 len;
                let rec = amt_head_bytes \<lparr>magic = AMT_NV_MAGIC_VALUE, nv_state = AMT_NV_STATE_USED,
                                          val_len = len mod 256, nv_crc8 = crc\<rparr> @ val;
                    ((head, index_search, index_alloc), s1) =
                      amt_nv_search addr \<lparr>magic = 0, nv_state = 0, val_len = 0, nv_crc8 = 0\<rparr> s
                in if index_alloc = AMT_NV_BLOCK_NUM then Some (0, amt_nv_gc addr (Some rec) s1)
                   else
                     let s2 = run_op (Prog (addr + index_alloc * AMT_NV_BLOCK_SIZE) rec) s1;
                         s3 = (if index_search < AMT_NV_BLOCK_NUM
                               then run_op (Prog (addr + index_search * AMT_NV_BLOCK_SIZE + 2) [0, 0]) s2
                               else s2)
                     in Some (0, s3)
              }))"

definition le32 :: "bytes \<Rightarrow> nat" where
  "le32 b = unat (b ! 0) + 256 * unat (b ! 1) + 65536 * unat (b ! 2) + 16777216 * unat (b ! 3)"

definition amt_nv_init :: "'a amt_scheme \<Rightarrow> 'a amt_scheme" where
  "amt_nv_init s =
     (let s = amt_partion_setup s;
          base = amt_partion_base s;
          backup_begin = le32 (snd (hal_spiflash_read AMT_NV_BACKUP_BASE 4 s));
          backup_comp = le32 (snd (hal_spiflash_read AMT_NV_BACKUP_COMP 4 s))
      in if backup_comp = 0xFFFFFFFF \<and> backup_begin = 0xFFFFFFFF then s
         else if backup_comp = 0xFFFFFF00 \<and> backup_begin = 0xFFFFFF00 then
           (let s = s\<lparr>nv_cache := cput 0 (snd (hal_spiflash_read AMT_NV_BACKUP_ADDR AMT_NV_SIZE s))
                                     (nv_cache s)\<rparr>
            in fold run_op [Erase base AMT_PARTION_SIZE, Prog base (cget 0 AMT_NV_SIZE (nv_cache s)),
                            Erase AMT_NV_BACKUP_BASE AMT_PARTION_SIZE] s)
         else run_op (Erase AMT_NV_BACKUP_BASE AMT_PARTION_SIZE) s)"

text \<open>The scan of \<open>amt_nv_read\<close>: the first block whose copy is in use, with its head.\<close>

fun amt_find_used :: "nat \<Rightarrow> nat list \<Rightarrow> 'a flash_scheme \<Rightarrow> (nat \<times> amt_nv_head_t) option" where
  "amt_find_used addr [] s = None"
| "amt_find_used addr (i # is) s =
     (let head = amt_read_head (addr + i * AMT_NV_BLOCK_SIZE) s
      in if magic head = AMT_NV_MAGIC_VALUE \<and> nv_state head = AMT_NV_STATE_USED then Some (i, head)
         else amt_find_used addr is s)"

text \<open>
  The result is the code and the caller's buffer after the call, which the value is read
  into before the CRC is compared; \<open>buf\<close> must really have the \<open>len\<close> bytes the caller claims.
\<close>

definition amt_nv_read ::
    "nat \<Rightarrow> bytes option \<Rightarrow> nat \<Rightarrow> 'a amt_scheme \<Rightarrow> ((int \<times> bytes) \<times> 'a amt_scheme) option" where
  "amt_nv_read addr buf len s =
     (let s = amt_partion_setup s;
          base = amt_partion_base s
      in case buf of None \<Rightarrow> Some ((DRV_ERR_INVALID_PARAM, []), s)
         | Some b \<Rightarrow>
           if addr < base \<or> addr > base + AMT_NV_SIZE then Some ((DRV_ERR_INVALID_PARAM, b), s)
           else (case amt_find_used addr [0..<AMT_NV_BLOCK_NUM] s of
               None \<Rightarrow> Some ((DRV_ERROR, b), s)
             | Some (i, head) \<Rightarrow>
                 if val_len head > len then Some ((DRV_ERROR, b), s)
                 else do {
                   b' \<leftarrow> memcpy_at b 0 (snd (hal_spiflash_read
                          (addr + i * AMT_NV_BLOCK_SIZE + AMT_NV_HEAD_SIZE) (val_len head) s));
                   crc \<leftarrow> amt_nv_crc8 b' (val_len head);
                   Some ((if nv_crc8 head = crc then 0 else DRV_ERROR, b'), s)
                 }))"

section \<open>The console commands\<close>

text \<open>The layout of \<^verbatim>\<open>amtNV.h\<close>: name, length and distance to the next parameter.\<close>

definition amt_layout :: "(string \<times> nat \<times> nat) list" where
  "amt_layout =
    [(''SN'', 64, 72), (''MAC'', 18, 24), (''PIN_FLAG'', 2, 8), (''PSM_FLAG'', 2, 8),
     (''WIFI_FLAG'', 2, 8), (''UPDATE_FLAG'', 2, 8), (''SN_FLAG'', 2, 8), (''MAC_FLAG'', 2, 8),
     (''FREQOFFSET_FLAG'', 2, 8), (''FREQOFFSET'', 8, 16), (''TXPOWER_FLAG'', 2, 8),
     (''TXPOWER_HTCH1'', 8, 16), (''TXPOWER_HTCH6'', 8, 16), (''TXPOWER_HTCH11'', 8, 16),
     (''TXPOWER_HTCH3'', 8, 16), (''TXPOWER_HTCH8'', 8, 16), (''TXPOWER_NONHTCH1'', 8, 16),
     (''TXPOWER_NONHTCH6'', 8, 16), (''TXPOWER_NONHTCH11'', 8, 16), (''TXPOWER_11BCH1'', 8, 16),
     (''TXPOWER_11BCH6'', 8, 16), (''TXPOWER_11BCH11'', 8, 16), (''CALIBRATION'', 2, 8),
     (''PDK'', 32, 40), (''PDS'', 32, 40), (''DN'', 32, 40), (''DS'', 32, 40), (''ALY_FLAG'', 2, 8)]"

fun amt_addrs :: "nat \<Rightarrow> (string \<times> nat \<times> nat) list \<Rightarrow> (string \<times> nat \<times> nat) list" where
  "amt_addrs a [] = []"
| "amt_addrs a ((k, len, dist) # r) = (k, a, len) # amt_addrs (a + dist) r"

definition amt_key :: "nat \<Rightarrow> string \<Rightarrow> (nat \<times> nat) option" where
  "amt_key base key = map_of (amt_addrs base amt_layout) key"

definition CMD_RET_SUCCESS :: int where "CMD_RET_SUCCESS = 0"
definition CMD_RET_FAILURE :: int where "CMD_RET_FAILURE = 1"

text \<open>
  \<open>nvsamt key value\<close>.  A value argument is the memory from its first character to the end of
  the command line buffer: the write copies as many bytes as the parameter has, even when the
  string is shorter.  \<open>argv\<close> is the list of arguments, the command's name first.
\<close>

definition amt_nv_set ::
    "(string \<times> bytes) list \<Rightarrow> 'a amt_scheme \<Rightarrow> (int \<times> 'a amt_scheme) option" where
  "amt_nv_set argv s =
     (let s = amt_partion_setup s
      in if length argv \<noteq> 3 then Some (CMD_RET_FAILURE, s)
         else case amt_key (amt_partion_base s) (fst (argv ! 1)) of
           None \<Rightarrow> Some (CMD_RET_FAILURE, s)
         | Some (addr, len) \<Rightarrow> do {
             (ret, s) \<leftarrow> amt_nv_write addr (Some (snd (argv ! 2))) len s;
             if ret \<noteq> 0 then Some (CMD_RET_FAILURE, s)
             else do {
               ((ret, readvalue), s) \<leftarrow> amt_nv_read addr (Some (replicate 256 0)) len s;
               if ret \<noteq> 0 then Some (CMD_RET_FAILURE, s)
               else do {
                 r \<leftarrow> cstr readvalue;
                 v \<leftarrow> cstr (snd (argv ! 2));
                 Some (if r \<noteq> v then CMD_RET_FAILURE else CMD_RET_SUCCESS, s)
               }
             }
           })"

text \<open>\<open>nvgamt key\<close>, with the value it prints on success.\<close>

definition amt_nv_get ::
    "string list \<Rightarrow> 'a amt_scheme \<Rightarrow> ((int \<times> bytes) \<times> 'a amt_scheme) option" where
  "amt_nv_get argv s =
     (let s = amt_partion_setup s
      in if length argv \<noteq> 2 then Some ((CMD_RET_FAILURE, []), s)
         else case amt_key (amt_partion_base s) (argv ! 1) of
           None \<Rightarrow> Some ((if argv ! 1 = ''all'' then CMD_RET_SUCCESS else CMD_RET_FAILURE, []), s)
         | Some (addr, len) \<Rightarrow> do {
             ((ret, readvalue), s) \<leftarrow> amt_nv_read addr (Some (replicate 256 0)) len s;
             if ret \<noteq> 0 then Some ((CMD_RET_FAILURE, []), s)
             else do { v \<leftarrow> cstr readvalue; Some ((CMD_RET_SUCCESS, v), s) }
           })"

section \<open>Basic facts\<close>

interpretation amt_crc: byte_check amt_crc_step
proof unfold_locales
  have inj: "c = d" if "(crc_round 7 0x31 ^^ 8) c = (crc_round 7 0x31 ^^ 8) d" for c d :: u8
    using that by (rule crc_rounds_inj [rotated 2]) simp_all
  show "c = d" if "amt_crc_step c b = amt_crc_step d b" for c d b
    using inj [OF that [unfolded amt_crc_step_def]] by (rule xor_right_cancel)
  show "a = b" if "amt_crc_step c a = amt_crc_step c b" for c a b
    using inj [OF that [unfolded amt_crc_step_def]] by (auto simp: xor.commute [of c] dest: xor_right_cancel)
qed

lemma cget_cput_same: "n = length bs \<Longrightarrow> cget off n (cput off bs c) = bs"
  by (intro nth_equalityI) (auto simp: cget_def cput_def)

lemma cput_outside: "x < off \<or> off + length bs \<le> x \<Longrightarrow> cput off bs c x = c x"
  by (auto simp: cput_def)

lemma cget_length [simp]: "length (cget off n c) = n"
  by (simp add: cget_def)

lemma amt_head_of_bytes:
  assumes "magic h < 65536" and "nv_state h < 65536" and "val_len h < 256"
  shows "amt_head_of (amt_head_bytes h @ v) = h"
  using assms le16_of_nat [of "magic h"] le16_of_nat [of "nv_state h"]
  by (simp add: amt_head_of_def amt_head_bytes_def unat_of_nat)

lemma amt_more:
  assumes "flash.more s = flash.more (t :: 'a amt_scheme)"
  shows "heap s = heap t" and "amt_partion_base s = amt_partion_base t"
    and "amt_partion_flag s = amt_partion_flag t" and "partionDev s = partionDev t"
    and "nv_cache s = nv_cache t"
  using assms by (cases s, cases t, simp)+

lemma amt_partion_setup_flag [simp]: "amt_partion_flag s \<noteq> 0 \<Longrightarrow> amt_partion_setup s = s"
  by (simp add: amt_partion_setup_def)

lemma amt_setup_flag: "amt_partion_flag (amt_partion_setup s) \<noteq> 0"
  by (simp add: amt_partion_setup_def Let_def split: prod.split)

lemma run_op_more [simp]: "flash.more (run_op op s) = flash.more s"
  using hal_spifiash_write_prefix [of _ _ s] hal_spiflash_erase_prefix [of _ _ s]
  by (cases op) (metis prod.collapse run_op.simps)+

lemma run_op_Prog:
  assumes "chip_ready s"
  shows "chip_ready (run_op (Prog a bs) s)" and "fl_mem (run_op (Prog a bs) s) = nor_range a bs (fl_mem s)"
  using spi.dprog_ready [OF assms] spi.dprog_cells [OF assms] by auto

lemma run_op_Erase:
  assumes "chip_ready s" and "a mod 4096 = 0" and "n mod 4096 = 0"
  shows "chip_ready (run_op (Erase a n) s)"
    and "fl_mem (run_op (Erase a n) s) = erase_range a n (fl_mem s)"
  using spi.derase_ready [OF assms] spi.derase_cells [OF assms] by auto

declare run_op.simps [simp del]

section \<open>What a parameter slot holds\<close>

text \<open>\<open>amt_ok\<close>: a booted board whose parameter sector is not the backup sector.\<close>

definition amt_ok :: "'a amt_scheme \<Rightarrow> bool" where
  "amt_ok s \<longleftrightarrow> chip_ready s \<and> (\<forall>n. heap s n \<noteq> None) \<and> amt_partion_flag s \<noteq> 0 \<and>
     amt_partion_base s mod 4096 = 0 \<and> amt_partion_base s \<noteq> AMT_NV_BACKUP_BASE"

definition amt_crc :: "bytes \<Rightarrow> u8" where
  "amt_crc v = foldl amt_crc_step 0 v"

definition used_head :: "bytes \<Rightarrow> amt_nv_head_t" where
  "used_head v = \<lparr>magic = AMT_NV_MAGIC_VALUE, nv_state = AMT_NV_STATE_USED, val_len = length v,
                  nv_crc8 = amt_crc v\<rparr>"

definition used_rec :: "bytes \<Rightarrow> bytes" where
  "used_rec v = amt_head_bytes (used_head v) @ v"

definition copy_used :: "(nat \<Rightarrow> u8) \<Rightarrow> nat \<Rightarrow> bytes \<Rightarrow> bool" where
  "copy_used m a v \<longleftrightarrow> length v < 256 \<and> cget a (6 + length v) m = used_rec v"

definition copy_dele :: "(nat \<Rightarrow> u8) \<Rightarrow> nat \<Rightarrow> nat \<Rightarrow> bool" where
  "copy_dele m a len \<longleftrightarrow>
     (\<exists>c. amt_head_of (cget a 6 m) = \<lparr>magic = AMT_NV_MAGIC_VALUE, nv_state = AMT_NV_STATE_DELE,
                                     val_len = len, nv_crc8 = c\<rparr>)"

text \<open>
  The states a slot of a parameter of length \<open>len\<close> at address \<open>a\<close> goes through, with the value
  it denotes: blank in both blocks, live in block 0, or deleted in block 0 and live in block 1.
\<close>

datatype slot_state = Blank | Live0 bytes | Live1 bytes

fun slot_holds :: "(nat \<Rightarrow> u8) \<Rightarrow> nat \<Rightarrow> nat \<Rightarrow> slot_state \<Rightarrow> bool" where
  "slot_holds m a len Blank \<longleftrightarrow>
     erased a (WORD_ALIGN (6 + len)) m \<and> erased (a + 2048) (WORD_ALIGN (6 + len)) m"
| "slot_holds m a len (Live0 v) \<longleftrightarrow>
     length v = len \<and> copy_used m a v \<and> erased (a + 2048) (WORD_ALIGN (6 + len)) m"
| "slot_holds m a len (Live1 v) \<longleftrightarrow>
     length v = len \<and> copy_dele m a len \<and> copy_used m (a + 2048) v"

fun slot_value :: "slot_state \<Rightarrow> bytes option" where
  "slot_value Blank = None"
| "slot_value (Live0 v) = Some v"
| "slot_value (Live1 v) = Some v"

lemma amt_head_at: "amt_read_head a s = amt_head_of (cget a 6 (fl_mem s))"
  by (simp add: amt_read_head_def spi.dread_eq cget_def AMT_NV_HEAD_SIZE_def)

lemma amt_head_bytes_length [simp]: "length (amt_head_bytes h) = 6"
  by (simp add: amt_head_bytes_def)

lemma used_rec_length [simp]: "length (used_rec v) = 6 + length v"
  by (simp add: used_rec_def)

lemma cget_split: "cget a (n + k) m = cget a n m @ cget (a + n) k m"
proof -
  have "[a..<a + (n + k)] = [a..<a + n] @ [a + n..<a + n + k]" by (rule upt_split) auto
  then show ?thesis by (simp add: cget_def)
qed

lemma used_rec_split:
  assumes "length v < 256" and "cget a (6 + length v) m = used_rec v"
  shows "amt_head_of (cget a 6 m) = used_head v" and "cget (a + 6) (length v) m = v"
proof -
  have *: "cget a 6 m @ cget (a + 6) (length v) m = amt_head_bytes (used_head v) @ v"
    using assms(2) by (simp add: used_rec_def cget_split)
  then have h: "cget a 6 m = amt_head_bytes (used_head v)" and v: "cget (a + 6) (length v) m = v"
    by (simp_all add: append_eq_append_conv)
  show "cget (a + 6) (length v) m = v" by (rule v)
  show "amt_head_of (cget a 6 m) = used_head v"
    using amt_head_of_bytes [of "used_head v" "[]"] assms(1)
    by (simp add: h used_head_def amt_marks)
qed

lemma copy_used_head: "copy_used m a v \<Longrightarrow> amt_head_of (cget a 6 m) = used_head v"
  and copy_used_value: "copy_used m a v \<Longrightarrow> cget (a + 6) (length v) m = v"
  using used_rec_split by (auto simp: copy_used_def)

lemma erased_head:
  assumes "erased a n m" and "2 \<le> n"
  shows "magic (amt_head_of (cget a 6 m)) = AMT_NV_MAGIC_NONE"
  using assms by (auto simp: erased_def amt_head_of_def cget_def le16_def amt_marks)

lemma WORD_ALIGN_head: "2 \<le> WORD_ALIGN (6 + n)"
  using WORD_ALIGN_ge [of "6 + n"] by simp

lemma magic_NONE_VALUE [simp]: "AMT_NV_MAGIC_NONE \<noteq> AMT_NV_MAGIC_VALUE"
    "AMT_NV_MAGIC_VALUE \<noteq> AMT_NV_MAGIC_NONE" "AMT_NV_STATE_DELE \<noteq> AMT_NV_STATE_USED"
    "AMT_NV_STATE_USED \<noteq> AMT_NV_STATE_DELE"
  by (simp_all add: amt_marks)

lemma used_head_simps [simp]:
  "magic (used_head v) = AMT_NV_MAGIC_VALUE" "nv_state (used_head v) = AMT_NV_STATE_USED"
  "val_len (used_head v) = length v" "nv_crc8 (used_head v) = amt_crc v"
  by (simp_all add: used_head_def)

lemma copy_dele_head:
  assumes "copy_dele m a len"
  shows "magic (amt_head_of (cget a 6 m)) = AMT_NV_MAGIC_VALUE"
    and "nv_state (amt_head_of (cget a 6 m)) = AMT_NV_STATE_DELE"
    and "val_len (amt_head_of (cget a 6 m)) = len"
  using assms by (auto simp: copy_dele_def)

lemma slot_heads:
  assumes "slot_holds m a len st"
  shows "case st of
      Blank \<Rightarrow> magic (amt_head_of (cget a 6 m)) = AMT_NV_MAGIC_NONE \<and>
               magic (amt_head_of (cget (a + 2048) 6 m)) = AMT_NV_MAGIC_NONE
    | Live0 v \<Rightarrow> amt_head_of (cget a 6 m) = used_head v \<and>
                 magic (amt_head_of (cget (a + 2048) 6 m)) = AMT_NV_MAGIC_NONE
    | Live1 v \<Rightarrow> magic (amt_head_of (cget a 6 m)) = AMT_NV_MAGIC_VALUE \<and>
                 nv_state (amt_head_of (cget a 6 m)) = AMT_NV_STATE_DELE \<and>
                 amt_head_of (cget (a + 2048) 6 m) = used_head v"
  using assms
  by (cases st) (auto intro: erased_head [OF _ WORD_ALIGN_head] copy_used_head copy_dele_head)

lemma upt_blocks: "[0..<AMT_NV_BLOCK_NUM] = [0, 1]"
  by (simp add: AMT_NV_BLOCK_NUM_def upt_conv_Cons)

text \<open>What \<open>amt_nv_search\<close> reports for each state of a slot; it writes nothing.\<close>

lemma amt_search_slot:
  assumes "amt_partion_flag s \<noteq> 0" and "slot_holds (fl_mem s) a len st"
  shows "amt_nv_search a ph s =
    (case st of Blank \<Rightarrow> ((ph, 2, 0), s)
     | Live0 v \<Rightarrow> ((used_head v, 0, 1), s)
     | Live1 v \<Rightarrow> ((used_head v, 1, 2), s))"
  unfolding amt_nv_search_def upt_blocks using slot_heads [OF assms(2)] assms(1)
  by (cases st) (simp_all add: Let_def amt_head_at amt_sizes)

lemma amt_find_used_slot:
  assumes "slot_holds (fl_mem s) a len st"
  shows "amt_find_used a [0..<AMT_NV_BLOCK_NUM] s =
    (case st of Blank \<Rightarrow> None | Live0 v \<Rightarrow> Some (0, used_head v) | Live1 v \<Rightarrow> Some (1, used_head v))"
  unfolding upt_blocks using slot_heads [OF assms]
  by (cases st) (simp_all add: Let_def amt_head_at amt_sizes)

text \<open>\<open>amt_nv_read\<close> returns the value a slot denotes.\<close>

lemma amt_crc8_prefix: "n = length v \<Longrightarrow> n < 65536 \<Longrightarrow> amt_nv_crc8 (v @ r) n = Some (amt_crc v)"
  by (simp add: amt_nv_crc8_def slice_def amt_crc_def)

lemma amt_read_copy:
  assumes "amt_partion_flag s \<noteq> 0" and "amt_partion_base s \<le> a" and "a \<le> amt_partion_base s + 2047"
    and "amt_find_used a [0..<AMT_NV_BLOCK_NUM] s = Some (i, used_head v)"
    and "copy_used (fl_mem s) (a + i * 2048) v" and "length v \<le> n" and "n \<le> length b"
  shows "amt_nv_read a (Some b) n s = Some ((0, v @ drop (length v) b), s)"
proof -
  have "hal_spiflash_read (a + i * AMT_NV_BLOCK_SIZE + AMT_NV_HEAD_SIZE) (length v) s = (0, v)"
    using copy_used_value [OF assms(5)] by (simp add: spi.dread_eq cget_def amt_sizes)
  moreover have "length v < 256" using assms(5) by (simp add: copy_used_def)
  ultimately show ?thesis using assms
    by (simp add: amt_nv_read_def Let_def memcpy_at_def amt_crc8_prefix AMT_NV_SIZE_def)
qed

lemma amt_read_slot:
  assumes "amt_partion_flag s \<noteq> 0" and "slot_holds (fl_mem s) a len st"
    and "amt_partion_base s \<le> a" and "a \<le> amt_partion_base s + 2047"
    and "len \<le> n" and "n \<le> length b"
  shows "amt_nv_read a (Some b) n s =
    (case slot_value st of None \<Rightarrow> Some ((DRV_ERROR, b), s)
     | Some v \<Rightarrow> Some ((0, v @ drop (length v) b), s))"
proof (cases st)
  case Blank
  with assms amt_find_used_slot [OF assms(2)] show ?thesis
    by (simp add: amt_nv_read_def Let_def AMT_NV_SIZE_def)
next
  case (Live0 v)
  with assms amt_find_used_slot [OF assms(2)] show ?thesis
    by (auto intro!: amt_read_copy [where i = 0])
next
  case (Live1 v)
  with assms amt_find_used_slot [OF assms(2)] show ?thesis
    by (auto intro!: amt_read_copy [where i = 1])
qed

section \<open>The parameter area\<close>

definition amt_slots :: "(nat \<times> nat) list" where
  "amt_slots = map snd (amt_addrs 0 amt_layout)"

text \<open>Slots follow each other without gaps: \<open>chained a ss e\<close> when \<open>ss\<close> covers \<open>a\<close> up to \<open>e\<close>.\<close>

fun chained :: "nat \<Rightarrow> (nat \<times> nat) list \<Rightarrow> nat \<Rightarrow> bool" where
  "chained a [] e \<longleftrightarrow> a = e"
| "chained a ((off, len) # ss) e \<longleftrightarrow>
     off = a \<and> len < 256 \<and> chained (a + WORD_ALIGN (6 + len)) ss e"

definition amt_inv :: "'a amt_scheme \<Rightarrow> (nat \<Rightarrow> slot_state) \<Rightarrow> bool" where
  "amt_inv s f \<longleftrightarrow> amt_ok s \<and>
     (\<forall>(off, len) \<in> set amt_slots. slot_holds (fl_mem s) (amt_partion_base s + off) len (f off)) \<and>
     erased (amt_partion_base s + 528) 1519 (fl_mem s) \<and> erased AMT_NV_BACKUP_BASE 4096 (fl_mem s)"

lemma amt_slots_chained: "chained 0 amt_slots 528"
  by (simp add: amt_slots_def amt_layout_def WORD_ALIGN_def)

lemma chained_le: "chained a ss e \<Longrightarrow> a \<le> e"
  by (induction ss arbitrary: a) (fastforce dest: add_leD1)+

lemma chained_bounds:
  "chained a ss e \<Longrightarrow> (off, len) \<in> set ss \<Longrightarrow> a \<le> off \<and> off + WORD_ALIGN (6 + len) \<le> e \<and> len < 256"
proof (induction ss arbitrary: a)
  case (Cons s ss)
  obtain o' l' where s: "s = (o', l')" by fastforce
  have c: "chained (a + WORD_ALIGN (6 + l')) ss e" "o' = a" "l' < 256" using Cons.prems(1) s by auto
  show ?case using Cons.prems(2) s c Cons.IH [OF c(1)] chained_le [OF c(1)] by auto
qed simp

lemma chained_disjoint:
  assumes "chained a ss e" and "(off, len) \<in> set ss" and "(off', len') \<in> set ss" and "off \<noteq> off'"
  shows "off + WORD_ALIGN (6 + len) \<le> off' \<or> off' + WORD_ALIGN (6 + len') \<le> off"
  using assms
proof (induction ss arbitrary: a)
  case (Cons s ss)
  obtain o' l' where s: "s = (o', l')" by fastforce
  have c: "chained (a + WORD_ALIGN (6 + l')) ss e" "o' = a" using Cons.prems(1) s by auto
  show ?case using Cons.prems(2-4) s c Cons.IH [OF c(1)] chained_bounds [OF c(1)] by auto
qed simp

lemma slot_bounds:
  assumes "(off, len) \<in> set amt_slots"
  shows "6 + len \<le> WORD_ALIGN (6 + len)" and "off + WORD_ALIGN (6 + len) \<le> 528" and "len < 256"
  using chained_bounds [OF amt_slots_chained assms] WORD_ALIGN_ge by auto

lemmas slot_disjoint = chained_disjoint [OF amt_slots_chained]

lemma slot_unique:
  assumes "(off, len) \<in> set amt_slots" and "(off, len') \<in> set amt_slots"
  shows "len = len'"
proof -
  have "distinct (map fst amt_slots)" by (simp add: amt_slots_def amt_layout_def)
  with assms show ?thesis by (metis eq_key_imp_eq_value)
qed

lemma cget_cong: "(\<And>x. a \<le> x \<Longrightarrow> x < a + n \<Longrightarrow> m' x = m x) \<Longrightarrow> cget a n m' = cget a n m"
  by (simp add: cget_def)

lemma erased_cong: "(\<And>x. a \<le> x \<Longrightarrow> x < a + n \<Longrightarrow> m' x = m x) \<Longrightarrow> erased a n m' = erased a n m"
  by (auto simp: erased_def)

lemma copy_used_frame:
  assumes "copy_used m a v" and "\<And>x. a \<le> x \<Longrightarrow> x < a + (6 + length v) \<Longrightarrow> m' x = m x"
  shows "copy_used m' a v"
  using assms(1) cget_cong [of a "6 + length v" m' m, OF assms(2)] by (simp add: copy_used_def)

lemma slot_holds_frame:
  assumes "slot_holds m a len st"
    and "\<And>x. a \<le> x \<and> x < a + WORD_ALIGN (6 + len) \<or>
              a + 2048 \<le> x \<and> x < a + 2048 + WORD_ALIGN (6 + len) \<Longrightarrow> m' x = m x"
  shows "slot_holds m' a len st"
proof -
  have w: "6 + len \<le> WORD_ALIGN (6 + len)" by (rule WORD_ALIGN_ge)
  have c: "cget a (6 + k) m' = cget a (6 + k) m" "cget (a + 2048) (6 + k) m' = cget (a + 2048) (6 + k) m"
    if "k \<le> len" for k using that w by (auto intro!: cget_cong assms(2))
  have e: "erased a (WORD_ALIGN (6 + len)) m' = erased a (WORD_ALIGN (6 + len)) m"
    "erased (a + 2048) (WORD_ALIGN (6 + len)) m' = erased (a + 2048) (WORD_ALIGN (6 + len)) m"
    by (auto intro!: erased_cong assms(2))
  show ?thesis using assms(1) c(1) [of 0] c [of len] e
    by (cases st) (auto simp: copy_used_def copy_dele_def)
qed

lemma nor_range_outside: "x < a \<or> a + length bs \<le> x \<Longrightarrow> nor_range a bs m x = m x"
  by (auto simp: nor_range_def)

lemma nor_range_changed: "nor_range a bs m x \<noteq> m x \<Longrightarrow> a \<le> x \<and> x < a + length bs"
  using nor_range_outside [of x a bs m] by force

lemma nor_range_copy_used:
  assumes "erased a n m" and "6 + length v \<le> n" and "length v < 256"
  shows "copy_used (nor_range a (used_rec v) m) a v"
proof -
  have "erased a (length (used_rec v)) m" using assms(1,2) by (auto simp: erased_def)
  from spi.nor_range_read_back [OF this] show ?thesis
    using assms(3) by (simp add: copy_used_def cget_def)
qed

lemma cget_6: "cget a 6 m = [m a, m (a + 1), m (a + 2), m (a + 3), m (a + 4), m (a + 5)]"
  by (simp add: cget_def upt_conv_Cons eval_nat_numeral)

lemma nor_range_copy_dele:
  assumes "copy_used m a v"
  shows "copy_dele (nor_range (a + 2) [0, 0] m) a (length v)"
proof -
  have "amt_head_of (cget a 6 m) = used_head v" using assms by (rule copy_used_head)
  then show ?thesis
    by (auto simp: copy_dele_def cget_6 amt_head_of_def nor_range_def used_head_def le16_def
        AMT_NV_STATE_DELE_def nth_Cons')
qed

text \<open>What a write does, by the state of the slot.\<close>

lemma amt_write_slot:
  assumes "amt_ok s" and "slot_holds (fl_mem s) a len st" and "len < 256" and "len \<le> length b"
    and "amt_partion_base s \<le> a" and "a \<le> amt_partion_base s + 2047"
  shows "amt_nv_write a (Some b) len s =
    (case st of
       Blank \<Rightarrow> Some (0, run_op (Prog a (used_rec (take len b))) s)
     | Live0 _ \<Rightarrow> Some (0, run_op (Prog (a + 2) [0, 0]) (run_op (Prog (a + 2048) (used_rec (take len b))) s))
     | Live1 _ \<Rightarrow> Some (0, amt_nv_gc a (Some (used_rec (take len b))) s))"
proof -
  have fl: "amt_partion_flag s \<noteq> 0" using assms(1) by (simp add: amt_ok_def)
  have "heap s (len + AMT_NV_HEAD_SIZE) \<noteq> None" using assms(1) by (simp add: amt_ok_def)
  then obtain bl where bl: "mem_alloc s (len + AMT_NV_HEAD_SIZE) = Some bl" by (auto simp: mem_alloc_def)
  have crc: "amt_nv_crc8 b len = Some (amt_crc (take len b))"
    using assms(3,4) by (simp add: amt_nv_crc8_def slice_def amt_crc_def)
  have rec: "amt_head_bytes \<lparr>magic = AMT_NV_MAGIC_VALUE, nv_state = AMT_NV_STATE_USED,
      val_len = len mod 256, nv_crc8 = amt_crc (take len b)\<rparr> @ take len b = used_rec (take len b)"
    using assms(3,4) by (simp add: used_rec_def used_head_def)
  note simps = amt_nv_write_def Let_def fl AMT_NV_SIZE_def bl crc slice_def rec
    amt_search_slot [OF fl assms(2)]
  show ?thesis
  proof (cases st)
    case Blank
    with assms(4-6) show ?thesis by (simp add: simps amt_sizes(2,3))
  next
    case (Live0 v)
    with assms(4-6) show ?thesis by (simp add: simps amt_sizes(2,3))
  next
    case (Live1 v)
    with assms(4-6) show ?thesis by (simp add: simps amt_sizes(2,3))
  qed
qed

text \<open>A change confined to one slot keeps the invariant.\<close>

lemma amt_inv_slot_update:
  assumes inv: "amt_inv s f" and slot: "(off, len) \<in> set amt_slots"
    and ready: "chip_ready t" and more: "flash.more t = flash.more s"
    and new: "slot_holds (fl_mem t) (amt_partion_base s + off) len st"
    and frame: "\<And>x. fl_mem t x \<noteq> fl_mem s x \<Longrightarrow>
        amt_partion_base s + off \<le> x \<and> x < amt_partion_base s + off + WORD_ALIGN (6 + len) \<or>
        amt_partion_base s + off + 2048 \<le> x \<and> x < amt_partion_base s + off + 2048 + WORD_ALIGN (6 + len)"
  shows "amt_inv t (f(off := st))"
proof -
  let ?b = "amt_partion_base s"
  note [simp] = amt_more [OF more]
  have ok: "amt_ok s" and tail: "erased (?b + 528) 1519 (fl_mem s)"
    and bak: "erased AMT_NV_BACKUP_BASE 4096 (fl_mem s)"
    and slots: "\<And>o' l'. (o', l') \<in> set amt_slots \<Longrightarrow> slot_holds (fl_mem s) (?b + o') l' (f o')"
    using inv by (auto simp: amt_inv_def)
  have bk: "AMT_NV_BACKUP_BASE + 4096 \<le> ?b \<or> ?b + 4096 \<le> AMT_NV_BACKUP_BASE"
    using ok sector_disjoint [of AMT_NV_BACKUP_BASE ?b] by (auto simp: amt_ok_def amt_backup)
  note sb = slot_bounds [OF slot]
  have ok': "amt_ok t" using ok ready by (simp add: amt_ok_def)
  moreover have "erased (?b + 528) 1519 (fl_mem t)"
    using tail frame sb by (subst erased_cong [of _ _ _ "fl_mem s"]) fastforce+
  moreover have "erased AMT_NV_BACKUP_BASE 4096 (fl_mem t)"
    using bak frame sb bk by (subst erased_cong [of _ _ _ "fl_mem s"]) fastforce+
  moreover have "slot_holds (fl_mem t) (?b + o') l' ((f(off := st)) o')"
    if o': "(o', l') \<in> set amt_slots" for o' l'
  proof (cases "o' = off")
    case True
    with new slot_unique [OF slot] o' show ?thesis by auto
  next
    case False
    have "slot_holds (fl_mem t) (?b + o') l' (f o')"
      using slot_disjoint [OF slot o'] False sb slot_bounds [OF o'] frame
      by (intro slot_holds_frame [OF slots [OF o']]) fastforce
    with False show ?thesis by simp
  qed
  ultimately show ?thesis by (auto simp: amt_inv_def)
qed

lemma amt_write_blank:
  assumes "amt_inv s f" and "(off, len) \<in> set amt_slots" and "f off = Blank" and "length v = len"
  shows "amt_inv (run_op (Prog (amt_partion_base s + off) (used_rec v)) s) (f(off := Live0 v))"
proof (rule amt_inv_slot_update [OF assms(1,2)])
  let ?a = "amt_partion_base s + off"
  note sb = slot_bounds [OF assms(2)]
  have rdy: "chip_ready s" and h: "slot_holds (fl_mem s) ?a len Blank"
    using assms by (auto simp: amt_inv_def amt_ok_def)
  note mem = run_op_Prog [OF rdy, of ?a "used_rec v"]
  show "chip_ready (run_op (Prog ?a (used_rec v)) s)" by (rule mem)
  show "flash.more (run_op (Prog ?a (used_rec v)) s) = flash.more s" by simp
  have "copy_used (nor_range ?a (used_rec v) (fl_mem s)) ?a v"
    using h sb assms(4) by (intro nor_range_copy_used) auto
  moreover have "erased (?a + 2048) (WORD_ALIGN (6 + len)) (nor_range ?a (used_rec v) (fl_mem s))"
    using h sb assms(4) by (subst erased_cong [of _ _ _ "fl_mem s"]) (auto simp: nor_range_outside)
  ultimately show "slot_holds (fl_mem (run_op (Prog ?a (used_rec v)) s)) ?a len (Live0 v)"
    using assms(4) by (simp add: mem(2))
  show "?a \<le> x \<and> x < ?a + WORD_ALIGN (6 + len) \<or> ?a + 2048 \<le> x \<and> x < ?a + 2048 + WORD_ALIGN (6 + len)"
    if "fl_mem (run_op (Prog ?a (used_rec v)) s) x \<noteq> fl_mem s x" for x
    using nor_range_changed [OF that [unfolded mem(2)]] sb(1) assms(4) by auto
qed

lemma amt_write_live0:
  assumes "amt_inv s f" and "(off, len) \<in> set amt_slots" and "f off = Live0 w" and "length v = len"
  shows "amt_inv (run_op (Prog (amt_partion_base s + off + 2) [0, 0])
                   (run_op (Prog (amt_partion_base s + off + 2048) (used_rec v)) s)) (f(off := Live1 v))"
    (is "amt_inv ?t _")
proof (rule amt_inv_slot_update [OF assms(1,2)])
  let ?a = "amt_partion_base s + off"
  note sb = slot_bounds [OF assms(2)]
  have rdy: "chip_ready s" and h: "slot_holds (fl_mem s) ?a len (Live0 w)"
    using assms by (force simp: amt_inv_def amt_ok_def)+
  define m1 where "m1 = nor_range (?a + 2048) (used_rec v) (fl_mem s)"
  note p1 = run_op_Prog [OF rdy, of "?a + 2048" "used_rec v"]
  note p2 = run_op_Prog [OF p1(1), of "?a + 2" "[0, 0]"]
  have mem: "fl_mem ?t = nor_range (?a + 2) [0, 0] m1" by (simp only: p2(2) p1(2) m1_def)
  show "chip_ready ?t" by (rule p2(1))
  show "flash.more ?t = flash.more s" by simp
  have "copy_used m1 (?a + 2048) v"
    using h sb assms(4) unfolding m1_def by (intro nor_range_copy_used) auto
  then have "copy_used (nor_range (?a + 2) [0, 0] m1) (?a + 2048) v"
    by (rule copy_used_frame) (auto intro!: nor_range_outside)
  moreover have "copy_used m1 ?a w"
  proof (rule copy_used_frame)
    show "copy_used (fl_mem s) ?a w" using h by simp
    have "length w = len" using h by simp
    then show "m1 x = fl_mem s x" if "x < ?a + (6 + length w)" for x
      using that sb unfolding m1_def by (intro nor_range_outside) linarith
  qed
  then have "copy_dele (nor_range (?a + 2) [0, 0] m1) ?a len"
    using nor_range_copy_dele [of m1 ?a w] h by (simp del: add_2_eq_Suc')
  ultimately show "slot_holds (fl_mem ?t) ?a len (Live1 v)"
    unfolding mem using assms(4) by simp
  show "?a \<le> x \<and> x < ?a + WORD_ALIGN (6 + len) \<or> ?a + 2048 \<le> x \<and> x < ?a + 2048 + WORD_ALIGN (6 + len)"
    if "fl_mem ?t x \<noteq> fl_mem s x" for x
  proof (cases "m1 x = fl_mem s x")
    case True
    then have "nor_range (?a + 2) [0, 0] m1 x \<noteq> m1 x" using that unfolding mem by simp
    from nor_range_changed [OF this] show ?thesis using sb(1) by auto
  next
    case False
    from nor_range_changed [OF this [unfolded m1_def]] show ?thesis using sb(1) assms(4) by auto
  qed
qed

section \<open>Compaction\<close>

lemma cput_append: "cput (off + length xs) ys (cput off xs c) = cput off (xs @ ys) c"
  by (rule ext) (auto simp: cput_def nth_append)

lemma gc_step_blank:
  assumes "nv_cache s off = 0xFF" and "nv_cache s (off + 1) = 0xFF"
  shows "amt_gc_step off s = (off + 4, s)"
  using assms by (simp add: amt_gc_step_def AMT_NV_HEAD_SIZE_def cget_6 amt_head_of_def le16_def amt_marks)

lemma gc_step_live0:
  assumes "amt_head_of (cget off 6 (nv_cache s)) = used_head v"
  shows "amt_gc_step off s = (off + WORD_ALIGN (6 + length v), s)"
  using assms by (simp add: amt_gc_step_def AMT_NV_HEAD_SIZE_def)

lemma gc_step_live1:
  assumes "amt_partion_flag s \<noteq> 0" and "slot_holds (fl_mem s) (amt_partion_base s + off) len (Live1 v)"
    and "cget off 6 (nv_cache s) = cget (amt_partion_base s + off) 6 (fl_mem s)"
  shows "amt_gc_step off s = (off + WORD_ALIGN (6 + len), s\<lparr>nv_cache := cput off (used_rec v) (nv_cache s)\<rparr>)"
proof -
  let ?a = "amt_partion_base s + off"
  have v: "copy_used (fl_mem s) (?a + 2048) v" "length v = len" using assms(2) by auto
  have rd: "hal_spiflash_read (?a + 2048 + 6) (length v) s = (0, v)"
    using copy_used_value [OF v(1)] by (simp add: spi.dread_eq cget_def)
  have c2: "cput (off + 6) v (cput off (amt_head_bytes (used_head v)) (nv_cache s)) =
      cput off (used_rec v) (nv_cache s)"
    using cput_append [of off "amt_head_bytes (used_head v)" v] by (simp add: used_rec_def)
  have "length v < 256" using v(1) by (simp add: copy_used_def)
  then have "amt_head_of (cget off 6 (cput off (used_rec v) (nv_cache s))) = used_head v"
    using cget_cput_same [of "6 + length v" "used_rec v" off] by (intro used_rec_split(1)) simp_all
  with c2 rd v(2) slot_heads [OF assms(2)] assms(3) show ?thesis
    by (simp add: amt_gc_step_def Let_def amt_search_slot [OF assms(1,2)] amt_sizes(2,3,5))
qed

lemma gc_loop_next:
  assumes "amt_gc_step off s = (off', s')" and "off' < 2047"
  shows "amt_gc_loop off s = amt_gc_loop off' s'"
  using assms by (simp add: amt_gc_loop.simps [of off s] AMT_NV_SIZE_def)

lemma gc_loop_blank:
  assumes "erased off (4 * k) (nv_cache s)" and "off + 4 * k < 2047"
  shows "amt_gc_loop off s = amt_gc_loop (off + 4 * k) s"
  using assms
proof (induction k arbitrary: off)
  case (Suc k)
  have "amt_gc_step off s = (off + 4, s)" using Suc.prems(1) by (intro gc_step_blank) (auto simp: erased_def)
  then have "amt_gc_loop off s = amt_gc_loop (off + 4) s"
    using Suc.prems(2) by (intro gc_loop_next) auto
  also have "\<dots> = amt_gc_loop (off + 4 + 4 * k) s"
    using Suc.prems by (intro Suc.IH) (auto simp: erased_def)
  finally show ?case by (simp add: ac_simps)
qed simp

lemma gc_loop_tail:
  assumes "erased off (2047 - off) (nv_cache s)" and "off < 2047" and "off mod 4 = 0"
  shows "amt_gc_loop off s = s"
proof -
  obtain k where k: "off = 4 * k" using assms(3) by auto
  have "511 - k \<le> 511" and "off + 4 * (511 - k) = 2044" using k assms(2) by auto
  then have "amt_gc_loop off s = amt_gc_loop 2044 s"
    using gc_loop_blank [of off "511 - k" s] assms(1) by (simp add: erased_def)
  also have "amt_gc_step 2044 s = (2048, s)"
  proof -
    have "off \<le> 2044" using k assms(2) by simp
    then have "nv_cache s 2044 = 0xFF" "nv_cache s (2044 + 1) = 0xFF" using assms(1) by (auto simp: erased_def)
    from gc_step_blank [OF this] show ?thesis by simp
  qed
  then have "amt_gc_loop 2044 s = s" by (simp add: amt_gc_loop.simps [of 2044 s] AMT_NV_SIZE_def)
  finally show ?thesis .
qed

text \<open>The image the scan leaves for a slot.\<close>

definition slot_image :: "(nat \<Rightarrow> u8) \<Rightarrow> nat \<Rightarrow> nat \<Rightarrow> slot_state \<Rightarrow> bool" where
  "slot_image c off len st \<longleftrightarrow>
     (case slot_value st of None \<Rightarrow> erased off (WORD_ALIGN (6 + len)) c
      | Some v \<Rightarrow> length v = len \<and> copy_used c off v)"

lemma slot_image_frame:
  assumes "slot_image c off len st" and "\<And>x. x < off + WORD_ALIGN (6 + len) \<Longrightarrow> c' x = c x"
  shows "slot_image c' off len st"
proof (cases "slot_value st")
  case None
  with assms show ?thesis by (auto simp: slot_image_def erased_def)
next
  case (Some v)
  with assms(1) have "copy_used c off v" "length v = len" by (simp_all add: slot_image_def)
  moreover have "copy_used c' off v"
  proof (rule copy_used_frame [OF \<open>copy_used c off v\<close>])
    fix x
    assume "x < off + (6 + length v)"
    then show "c' x = c x"
      using assms(2) [of x] WORD_ALIGN_ge [of "6 + len"] \<open>length v = len\<close> by linarith
  qed
  ultimately show ?thesis using Some by (simp add: slot_image_def)
qed

text \<open>One slot of the scan: the loop moves on to the next slot, with this slot's live copy in place.\<close>

lemma WORD_ALIGN_4: "WORD_ALIGN n = 4 * (WORD_ALIGN n div 4)"
  by (simp add: WORD_ALIGN_def)

lemma gc_loop_slot:
  assumes "amt_partion_flag s \<noteq> 0" and "slot_holds (fl_mem s) (amt_partion_base s + off) len st"
    and "\<And>x. off \<le> x \<Longrightarrow> x < 2047 \<Longrightarrow> nv_cache s x = fl_mem s (amt_partion_base s + x)"
    and "off + WORD_ALIGN (6 + len) < 2047"
  shows "\<exists>c. amt_gc_loop off s = amt_gc_loop (off + WORD_ALIGN (6 + len)) (s\<lparr>nv_cache := c\<rparr>) \<and>
             slot_image c off len st \<and>
             (\<forall>x. x < off \<or> off + WORD_ALIGN (6 + len) \<le> x \<longrightarrow> c x = nv_cache s x)"
proof -
  let ?a = "amt_partion_base s + off"
  have w: "6 + len \<le> WORD_ALIGN (6 + len)" by (rule WORD_ALIGN_ge)
  have shift: "cget off n (nv_cache s) = cget ?a n (fl_mem s)" if "n \<le> 6 + len" for n
    using that assms(3,4) w by (intro nth_equalityI) (auto simp: cget_def ac_simps)
  show ?thesis
  proof (cases st)
    case Blank
    have e: "erased off (WORD_ALIGN (6 + len)) (nv_cache s)"
      using assms(2-4) Blank by (auto simp: erased_def)
    then have "amt_gc_loop off s = amt_gc_loop (off + WORD_ALIGN (6 + len)) s"
      using gc_loop_blank [of off "WORD_ALIGN (6 + len) div 4" s] assms(4) WORD_ALIGN_4 [of "6 + len"] by simp
    then show ?thesis using e Blank by (intro exI [of _ "nv_cache s"]) (simp add: slot_image_def)
  next
    case (Live0 v)
    then have v: "copy_used (fl_mem s) ?a v" "length v = len" using assms(2) by auto
    then have c: "copy_used (nv_cache s) off v" using shift [of "6 + len"] by (simp add: copy_used_def)
    from gc_loop_next [OF gc_step_live0 [OF copy_used_head [OF c]]] v(2) assms(4)
    have "amt_gc_loop off s = amt_gc_loop (off + WORD_ALIGN (6 + len)) s" by simp
    with c v(2) Live0 show ?thesis by (intro exI [of _ "nv_cache s"]) (simp add: slot_image_def)
  next
    case (Live1 v)
    with assms(2) have h: "slot_holds (fl_mem s) ?a len (Live1 v)" by simp
    then have v: "length v = len" "length v < 256" by (auto simp: copy_used_def)
    from gc_loop_next [OF gc_step_live1 [OF assms(1) h] assms(4)] shift [of 6]
    have "amt_gc_loop off s = amt_gc_loop (off + WORD_ALIGN (6 + len))
        (s\<lparr>nv_cache := cput off (used_rec v) (nv_cache s)\<rparr>)" by simp
    then show ?thesis using v w Live1 cput_outside [of _ off "used_rec v" "nv_cache s"]
      by (intro exI [of _ "cput off (used_rec v) (nv_cache s)"])
        (auto simp: slot_image_def copy_used_def cget_cput_same)
  qed
qed

lemma gc_scan_slots:
  assumes "chained off ss e" and "e < 2047" and "e mod 4 = 0" and "amt_partion_flag s \<noteq> 0"
    and "\<And>o' l. (o', l) \<in> set ss \<Longrightarrow> slot_holds (fl_mem s) (amt_partion_base s + o') l (f o')"
    and "\<And>x. off \<le> x \<Longrightarrow> x < 2047 \<Longrightarrow> nv_cache s x = fl_mem s (amt_partion_base s + x)"
    and "erased (amt_partion_base s + e) (2047 - e) (fl_mem s)"
  shows "\<exists>c. amt_gc_loop off s = s\<lparr>nv_cache := c\<rparr> \<and> (\<forall>x < off. c x = nv_cache s x) \<and>
             (\<forall>(o', l) \<in> set ss. slot_image c o' l (f o')) \<and> erased e (2047 - e) c"
  using assms
proof (induction ss arbitrary: off s)
  case Nil
  then have "erased off (2047 - off) (nv_cache s)" by (auto simp: erased_def)
  with Nil gc_loop_tail [OF this] show ?case by (intro exI [of _ "nv_cache s"]) auto
next
  case (Cons sl ss)
  obtain len where sl: "sl = (off, len)" and ch: "chained (off + WORD_ALIGN (6 + len)) ss e"
    using Cons.prems(1) by (cases sl) auto
  have lt: "off + WORD_ALIGN (6 + len) < 2047" using chained_le [OF ch] Cons.prems(2) by simp
  from gc_loop_slot [OF Cons.prems(4) _ Cons.prems(6) lt, of "f off"] Cons.prems(5) [of off len] sl
  obtain c where c: "amt_gc_loop off s = amt_gc_loop (off + WORD_ALIGN (6 + len)) (s\<lparr>nv_cache := c\<rparr>)"
    "slot_image c off len (f off)"
    "\<And>x. x < off \<or> off + WORD_ALIGN (6 + len) \<le> x \<Longrightarrow> c x = nv_cache s x" by auto
  from Cons.IH [OF ch Cons.prems(2,3), of "s\<lparr>nv_cache := c\<rparr>"] Cons.prems(4-7) c(3) obtain c' where
    c': "amt_gc_loop (off + WORD_ALIGN (6 + len)) (s\<lparr>nv_cache := c\<rparr>) = s\<lparr>nv_cache := c'\<rparr>"
    "\<forall>x < off + WORD_ALIGN (6 + len). c' x = c x"
    "\<forall>(o', l) \<in> set ss. slot_image c' o' l (f o')" "erased e (2047 - e) c'" by auto
  have "slot_image c' off len (f off)" using c'(2) by (intro slot_image_frame [OF c(2)]) simp
  with c(1,3) c' sl show ?case by (intro exI [of _ c']) auto
qed

section \<open>The commit\<close>

definition sector_image :: "bytes \<Rightarrow> nat \<Rightarrow> u8" where
  "sector_image img i = (if i < length img then img ! i else 0xFF)"

lemma amt_commit_run:
  fixes s :: "'a amt_scheme"
  assumes "chip_ready s" and "base mod 4096 = 0" and "base \<noteq> AMT_NV_BACKUP_BASE" and "length img = 2047"
  defines "t \<equiv> fold run_op (amt_commit_ops base img) s"
  shows "chip_ready t" and "flash.more t = flash.more s"
    and "fl_mem t x = (if base \<le> x \<and> x < base + 4096 then sector_image img (x - base)
           else if AMT_NV_BACKUP_BASE \<le> x \<and> x < AMT_NV_BACKUP_BASE + 4096 then 0xFF else fl_mem s x)"
proof -
  define s1 where "s1 = run_op (Prog AMT_NV_BACKUP_BASE [0]) s"
  define s2 where "s2 = run_op (Prog AMT_NV_BACKUP_ADDR img) s1"
  define s3 where "s3 = run_op (Prog AMT_NV_BACKUP_COMP [0]) s2"
  define s4 where "s4 = run_op (Erase base 4096) s3"
  define s5 where "s5 = run_op (Prog base img) s4"
  have t: "t = run_op (Erase AMT_NV_BACKUP_BASE 4096) s5"
    by (simp add: t_def amt_commit_ops_def s1_def s2_def s3_def s4_def s5_def AMT_PARTION_SIZE_def)
  note r1 = run_op_Prog [OF assms(1), of AMT_NV_BACKUP_BASE "[0]", folded s1_def]
  note r2 = run_op_Prog [OF r1(1), of AMT_NV_BACKUP_ADDR img, folded s2_def]
  note r3 = run_op_Prog [OF r2(1), of AMT_NV_BACKUP_COMP "[0]", folded s3_def]
  have r4: "chip_ready s4" "fl_mem s4 = erase_range base 4096 (fl_mem s3)"
    using run_op_Erase [OF r3(1) assms(2), of 4096, folded s4_def] by simp_all
  note r5 = run_op_Prog [OF r4(1), of base img, folded s5_def]
  have r6: "chip_ready t" "fl_mem t = erase_range AMT_NV_BACKUP_BASE 4096 (fl_mem s5)"
    using run_op_Erase [OF r5(1), of AMT_NV_BACKUP_BASE 4096] unfolding t by (simp_all add: AMT_NV_BACKUP_BASE_def)
  show "chip_ready t" by (rule r6)
  show "flash.more t = flash.more s" by (simp add: t s1_def s2_def s3_def s4_def s5_def)
  have dis: "AMT_NV_BACKUP_BASE + 4096 \<le> base \<or> base + 4096 \<le> AMT_NV_BACKUP_BASE"
    using assms(2,3) sector_disjoint [of AMT_NV_BACKUP_BASE base] by (auto simp: AMT_NV_BACKUP_BASE_def)
  have s3: "fl_mem s3 x = fl_mem s x"
    if "x < AMT_NV_BACKUP_BASE \<or> AMT_NV_BACKUP_BASE + 4096 \<le> x"
    using that assms(4) unfolding r3(2) r2(2) r1(2)
    by (auto simp: nor_range_def amt_backup)
  show "fl_mem t x = (if base \<le> x \<and> x < base + 4096 then sector_image img (x - base)
           else if AMT_NV_BACKUP_BASE \<le> x \<and> x < AMT_NV_BACKUP_BASE + 4096 then 0xFF else fl_mem s x)"
    using dis s3 assms(4) unfolding r6(2) r5(2) r4(2)
    by (auto simp: erase_range_def nor_range_def sector_image_def)
qed

text \<open>After the whole garbage collection every value is back in block 0.\<close>

definition gc_state :: "(nat \<Rightarrow> slot_state) \<Rightarrow> nat \<Rightarrow> slot_state" where
  "gc_state f off = (case slot_value (f off) of None \<Rightarrow> Blank | Some v \<Rightarrow> Live0 v)"

lemma slot_value_gc [simp]: "slot_value (gc_state f off) = slot_value (f off)"
  by (simp add: gc_state_def split: option.split)

lemma slot_image_holds:
  assumes "(off, len) \<in> set amt_slots" and "slot_image c off len (f off)"
    and "\<And>i. i < 4096 \<Longrightarrow> m (base + i) = sector_image (cget 0 2047 c) i"
  shows "slot_holds m (base + off) len (gc_state f off)"
proof -
  note sb = slot_bounds [OF assms(1)]
  have lo: "m (base + x) = c x" if "x < 528" for x
    using that assms(3) [of x] by (simp add: sector_image_def cget_def)
  have "m x = 0xFF" if "base + off + 2048 \<le> x" "x < base + off + 2048 + WORD_ALIGN (6 + len)" for x
  proof -
    have "x - base < 4096" "2047 \<le> x - base" "base + (x - base) = x" using that sb by auto
    then show ?thesis using assms(3) [of "x - base"] by (simp add: sector_image_def)
  qed
  then have hi: "erased (base + off + 2048) (WORD_ALIGN (6 + len)) m" by (simp add: erased_def)
  show ?thesis
  proof (cases "slot_value (f off)")
    case None
    then have e: "erased off (WORD_ALIGN (6 + len)) c" using assms(2) by (simp add: slot_image_def)
    have "m x = 0xFF" if "base + off \<le> x" "x < base + off + WORD_ALIGN (6 + len)" for x
    proof -
      have "x - base < 528" "base + (x - base) = x" "off \<le> x - base" "x - base < off + WORD_ALIGN (6 + len)"
        using that sb by auto
      then show ?thesis using lo [of "x - base"] e by (simp add: erased_def)
    qed
    with None hi show ?thesis by (simp add: gc_state_def erased_def)
  next
    case (Some v)
    then have v: "length v = len" "copy_used c off v" using assms(2) by (simp_all add: slot_image_def)
    have "cget (base + off) (6 + len) m = cget off (6 + len) c"
      using sb lo by (intro nth_equalityI) (auto simp: cget_def add.assoc)
    then have "copy_used m (base + off) v" using v by (simp add: copy_used_def)
    with Some v hi show ?thesis by (simp add: gc_state_def)
  qed
qed

lemma slot_image_put:
  assumes slot: "(off, len) \<in> set amt_slots" and v: "length v = len"
    and o': "(o', l) \<in> set amt_slots" and c: "slot_image c o' l (f o')"
  shows "slot_image (cput off (used_rec v) c) o' l ((f(off := Live0 v)) o')"
proof (cases "o' = off")
  case True
  then show ?thesis using slot_unique [OF slot, of l] o' v slot_bounds [OF slot]
      cget_cput_same [of "6 + len" "used_rec v" off c]
    by (auto simp: slot_image_def copy_used_def)
next
  case False
  have ne: "cput off (used_rec v) c x = c x" if "o' \<le> x" "x < o' + WORD_ALIGN (6 + l)" for x
    using that slot_disjoint [OF slot o'] False slot_bounds [OF slot] v by (intro cput_outside) auto
  show ?thesis
  proof (cases "slot_value (f o')")
    case None
    with c ne False show ?thesis by (auto simp: slot_image_def erased_def)
  next
    case (Some w)
    with c ne False slot_bounds(1) [OF o'] show ?thesis
      by (auto simp: slot_image_def intro!: copy_used_frame [of c])
  qed
qed

text \<open>The image a garbage collection commits: every live value, and the new one.\<close>

lemma amt_gc_image:
  assumes inv: "amt_inv s f" and slot: "(off, len) \<in> set amt_slots" and v: "length v = len"
  obtains c where "amt_nv_gc (amt_partion_base s + off) (Some (used_rec v)) s =
      fold run_op (amt_commit_ops (amt_partion_base s) (cget 0 2047 c)) (s\<lparr>nv_cache := c\<rparr>)"
    and "\<And>o' l. (o', l) \<in> set amt_slots \<Longrightarrow> slot_image c o' l ((f(off := Live0 v)) o')"
    and "erased 528 1519 c"
proof -
  let ?b = "amt_partion_base s"
  have ok: "amt_ok s" and tail: "erased (?b + 528) 1519 (fl_mem s)"
    and slots: "\<And>o' l'. (o', l') \<in> set amt_slots \<Longrightarrow> slot_holds (fl_mem s) (?b + o') l' (f o')"
    using inv by (auto simp: amt_inv_def)
  define c0 where "c0 = cput 0 (snd (hal_spiflash_read ?b AMT_NV_SIZE s)) (nv_cache s)"
  have c0: "c0 x = fl_mem s (?b + x)" if "x < 2047" for x
    using that by (simp add: c0_def cput_def spi.dread_eq AMT_NV_SIZE_def)
  have "\<exists>c. amt_gc_loop 0 (s\<lparr>nv_cache := c0\<rparr>) = s\<lparr>nv_cache := c0\<rparr>\<lparr>nv_cache := c\<rparr> \<and>
      (\<forall>x < 0. c x = nv_cache (s\<lparr>nv_cache := c0\<rparr>) x) \<and>
      (\<forall>(o', l) \<in> set amt_slots. slot_image c o' l (f o')) \<and> erased 528 (2047 - 528) c"
    using ok slots tail c0 by (intro gc_scan_slots [OF amt_slots_chained]) (auto simp: amt_ok_def)
  then obtain c where c: "amt_gc_loop 0 (s\<lparr>nv_cache := c0\<rparr>) = s\<lparr>nv_cache := c\<rparr>"
    "\<And>o' l. (o', l) \<in> set amt_slots \<Longrightarrow> slot_image c o' l (f o')" "erased 528 1519 c" by auto
  have "amt_nv_gc (?b + off) (Some (used_rec v)) s =
      fold run_op (amt_commit_ops ?b (cget 0 2047 (cput off (used_rec v) c)))
        (s\<lparr>nv_cache := cput off (used_rec v) c\<rparr>)"
    using ok c(1)
    by (simp add: amt_nv_gc_def amt_nv_gc_scan_def Let_def amt_ok_def c0_def AMT_NV_SIZE_def)
  moreover have "erased 528 1519 (cput off (used_rec v) c)"
    using c(3) slot_bounds [OF slot] v by (auto simp: erased_def cput_def)
  ultimately show thesis using that slot_image_put [OF slot v] c(2) by blast
qed

lemma amt_gc_inv:
  assumes inv: "amt_inv s f" and slot: "(off, len) \<in> set amt_slots" and v: "length v = len"
  shows "amt_inv (amt_nv_gc (amt_partion_base s + off) (Some (used_rec v)) s)
           ((gc_state f)(off := Live0 v))"
    and "amt_partion_base (amt_nv_gc (amt_partion_base s + off) (Some (used_rec v)) s) = amt_partion_base s"
proof -
  let ?b = "amt_partion_base s" and ?f = "f(off := Live0 v)"
  from amt_gc_image [OF assms] obtain c where
    gc: "amt_nv_gc (?b + off) (Some (used_rec v)) s =
      fold run_op (amt_commit_ops ?b (cget 0 2047 c)) (s\<lparr>nv_cache := c\<rparr>)"
    and img: "\<And>o' l. (o', l) \<in> set amt_slots \<Longrightarrow> slot_image c o' l (?f o')" and tail: "erased 528 1519 c"
    by blast
  define t where "t = fold run_op (amt_commit_ops ?b (cget 0 2047 c)) (s\<lparr>nv_cache := c\<rparr>)"
  have ok: "amt_ok s" using inv by (simp add: amt_inv_def)
  then have al: "?b mod 4096 = 0" "?b \<noteq> AMT_NV_BACKUP_BASE" and rdy: "chip_ready (s\<lparr>nv_cache := c\<rparr>)"
    by (auto simp: amt_ok_def chip_ready_def)
  note run = amt_commit_run [OF rdy al, of "cget 0 2047 c", folded t_def, simplified]
  note [simp] = amt_more [OF run(2)]
  have mem: "fl_mem t (?b + i) = sector_image (cget 0 2047 c) i" if "i < 4096" for i
    using that by (simp add: run(3))
  have dis: "AMT_NV_BACKUP_BASE + 4096 \<le> ?b \<or> ?b + 4096 \<le> AMT_NV_BACKUP_BASE"
    using al sector_disjoint [of AMT_NV_BACKUP_BASE ?b] by (auto simp: AMT_NV_BACKUP_BASE_def)
  have "slot_holds (fl_mem t) (?b + o') l (((gc_state f)(off := Live0 v)) o')"
    if o': "(o', l) \<in> set amt_slots" for o' l
    using slot_image_holds [where f = ?f, OF o' img [OF o'] mem] by (auto simp: gc_state_def)
  moreover have "erased (?b + 528) 1519 (fl_mem t)"
    using tail by (auto simp: erased_def run(3) sector_image_def cget_def)
  moreover have "erased AMT_NV_BACKUP_BASE 4096 (fl_mem t)" using dis by (auto simp: erased_def run(3))
  moreover have "amt_ok t" using ok run(1) by (simp add: amt_ok_def)
  ultimately show "amt_inv (amt_nv_gc (?b + off) (Some (used_rec v)) s) ((gc_state f)(off := Live0 v))"
    unfolding gc t_def [symmetric] by (auto simp: amt_inv_def)
  show "amt_partion_base (amt_nv_gc (?b + off) (Some (used_rec v)) s) = ?b"
    unfolding gc t_def [symmetric] by simp
qed

section \<open>The store as a map\<close>

text \<open>
  The specification of the store: a map from parameters to values.  \<open>amt_view\<close> reads it off
  the flash, \<open>amt_wf\<close> is the invariant with the slot states hidden.
\<close>

definition amt_view :: "'a amt_scheme \<Rightarrow> nat \<times> nat \<Rightarrow> bytes option" where
  "amt_view s k =
     (let a = amt_partion_base s + fst k
      in case amt_find_used a [0..<AMT_NV_BLOCK_NUM] s of None \<Rightarrow> None
         | Some (i, h) \<Rightarrow> Some (cget (a + i * AMT_NV_BLOCK_SIZE + AMT_NV_HEAD_SIZE) (val_len h) (fl_mem s)))"

definition amt_wf :: "'a amt_scheme \<Rightarrow> bool" where
  "amt_wf s \<longleftrightarrow> (\<exists>f. amt_inv s f)"

lemma amt_view_slot:
  assumes "slot_holds (fl_mem s) (amt_partion_base s + off) len st"
  shows "amt_view s (off, len) = slot_value st"
  using amt_find_used_slot [OF assms] assms
  by (cases st) (auto simp: amt_view_def amt_sizes dest: copy_used_value)

lemma amt_view_inv: "amt_inv s f \<Longrightarrow> (off, len) \<in> set amt_slots \<Longrightarrow> amt_view s (off, len) = slot_value (f off)"
  by (rule amt_view_slot) (auto simp: amt_inv_def)

lemma amt_write_inv:
  assumes inv: "amt_inv s f" and slot: "(off, len) \<in> set amt_slots" and b: "len \<le> length b"
  shows "\<exists>t f'. amt_nv_write (amt_partion_base s + off) (Some b) len s = Some (0, t) \<and> amt_inv t f' \<and>
           amt_partion_base t = amt_partion_base s \<and>
           slot_value (f' off) = Some (take len b) \<and> (\<forall>o'. o' \<noteq> off \<longrightarrow> slot_value (f' o') = slot_value (f o'))"
proof -
  have h: "slot_holds (fl_mem s) (amt_partion_base s + off) len (f off)" and ok: "amt_ok s"
    using inv slot by (auto simp: amt_inv_def)
  have v: "length (take len b) = len" using b by simp
  note w = amt_write_slot [OF ok h slot_bounds(3) [OF slot] b] and sb = slot_bounds(2) [OF slot]
  have base: "amt_partion_base (run_op op u) = amt_partion_base u" for op and u :: "'a amt_scheme"
    by (rule amt_more(2) [OF run_op_more])
  show ?thesis
  proof (cases "f off")
    case Blank
    with w sb amt_write_blank [OF inv slot Blank v] base show ?thesis by fastforce
  next
    case (Live0 u)
    with w sb amt_write_live0 [OF inv slot Live0 v] base show ?thesis by fastforce
  next
    case (Live1 u)
    with w sb amt_gc_inv [OF inv slot v] show ?thesis by fastforce
  qed
qed

text \<open>
  A persistent map: every write succeeds and changes exactly its own key, every read
  returns the map's value.  Writing a sequence of updates leaves the last one of each key.
\<close>

primrec put_all :: "('k \<Rightarrow> 'v \<Rightarrow> 's \<Rightarrow> (int \<times> 's) option) \<Rightarrow> ('k \<times> 'v) list \<Rightarrow> 's \<Rightarrow> 's option" where
  "put_all put [] s = Some s"
| "put_all put (kv # r) s =
     do { (ret, s') \<leftarrow> put (fst kv) (snd kv) s; if ret \<noteq> 0 then None else put_all put r s' }"

locale param_store =
  fixes wf :: "'s \<Rightarrow> bool"
    and keys :: "'k set"
    and fits :: "'k \<Rightarrow> bytes \<Rightarrow> bool"
    and view :: "'s \<Rightarrow> 'k \<Rightarrow> bytes option"
    and put :: "'k \<Rightarrow> bytes \<Rightarrow> 's \<Rightarrow> (int \<times> 's) option"
    and get :: "'k \<Rightarrow> 's \<Rightarrow> (int \<times> bytes) option"
  assumes put_law: "wf s \<Longrightarrow> k \<in> keys \<Longrightarrow> fits k v \<Longrightarrow>
      \<exists>t. put k v s = Some (0, t) \<and> wf t \<and> (\<forall>k' \<in> keys. view t k' = (if k' = k then Some v else view s k'))"
    and get_law: "wf s \<Longrightarrow> k \<in> keys \<Longrightarrow>
      get k s = (case view s k of None \<Rightarrow> Some (-1, []) | Some v \<Rightarrow> Some (0, v))"
begin

lemma put_all_view:
  assumes "wf s" and "\<And>k v. (k, v) \<in> set kvs \<Longrightarrow> k \<in> keys \<and> fits k v"
  shows "\<exists>t. put_all put kvs s = Some t \<and> wf t \<and>
    (\<forall>k \<in> keys. view t k = (case map_of (rev kvs) k of None \<Rightarrow> view s k | Some v \<Rightarrow> Some v))"
  using assms
proof (induction kvs arbitrary: s)
  case Nil
  then show ?case by simp
next
  case (Cons kv r)
  obtain k v where kv: "kv = (k, v)" by fastforce
  with Cons.prems have "k \<in> keys" "fits k v" by auto
  from put_law [OF Cons.prems(1) this] obtain u where
    u: "put k v s = Some (0, u)" "wf u" "\<forall>k' \<in> keys. view u k' = (if k' = k then Some v else view s k')"
    by blast
  from Cons.IH [OF u(2)] Cons.prems(2) obtain t where
    t: "put_all put r u = Some t" "wf t"
    "\<forall>k \<in> keys. view t k = (case map_of (rev r) k of None \<Rightarrow> view u k | Some v \<Rightarrow> Some v)" by auto
  have "view t k' = (case map_of (rev (kv # r)) k' of None \<Rightarrow> view s k' | Some v \<Rightarrow> Some v)"
    if "k' \<in> keys" for k'
    using that t(3) u(3) kv by (auto simp: map_add_def split: option.splits)
  with kv u(1) t(1,2) show ?case by simp
qed

lemma put_all_get:
  assumes "wf s" and "\<And>k v. (k, v) \<in> set kvs \<Longrightarrow> k \<in> keys \<and> fits k v"
    and "k \<in> keys" and "map_of (rev kvs) k = Some v"
  shows "\<exists>t. put_all put kvs s = Some t \<and> wf t \<and> get k t = Some (0, v)"
proof -
  from put_all_view [OF assms(1,2)] obtain t where t: "put_all put kvs s = Some t" "wf t"
    "\<forall>k \<in> keys. view t k = (case map_of (rev kvs) k of None \<Rightarrow> view s k | Some v \<Rightarrow> Some v)" by blast
  then show ?thesis using get_law [OF t(2) assms(3)] assms(3,4) by simp
qed

end

text \<open>The operations as the store's clients use them: parameter \<open>(off, len)\<close>, whole values.\<close>

definition amt_put :: "nat \<times> nat \<Rightarrow> bytes \<Rightarrow> 'a amt_scheme \<Rightarrow> (int \<times> 'a amt_scheme) option" where
  "amt_put k v s = amt_nv_write (amt_partion_base (amt_partion_setup s) + fst k) (Some v) (snd k) s"

definition amt_get :: "nat \<times> nat \<Rightarrow> 'a amt_scheme \<Rightarrow> (int \<times> bytes) option" where
  "amt_get k s =
     do { ((ret, b), s') \<leftarrow> amt_nv_read (amt_partion_base (amt_partion_setup s) + fst k)
                             (Some (replicate (snd k) 0)) (snd k) s;
          Some (ret, if ret = 0 then b else []) }"

lemma amt_wf_flag: "amt_wf s \<Longrightarrow> amt_partion_flag s \<noteq> 0"
  by (auto simp: amt_wf_def amt_inv_def amt_ok_def)

lemma slot_value_length: "slot_holds m a len st \<Longrightarrow> slot_value st = Some v \<Longrightarrow> length v = len"
  by (cases st) auto

interpretation amt: param_store amt_wf "set amt_slots" "\<lambda>k v. length v = snd k" amt_view amt_put amt_get
proof unfold_locales
  fix s :: "'a amt_scheme" and k v
  assume wf: "amt_wf s" and k: "k \<in> set amt_slots"
  obtain off len where kk: "k = (off, len)" by fastforce
  obtain f where f: "amt_inv s f" using wf by (auto simp: amt_wf_def)
  show "\<exists>t. amt_put k v s = Some (0, t) \<and> amt_wf t \<and>
      (\<forall>k' \<in> set amt_slots. amt_view t k' = (if k' = k then Some v else amt_view s k'))"
    if "length v = snd k"
  proof -
    from amt_write_inv [OF f, of off len v] k kk that obtain t f' where
      t: "amt_put k v s = Some (0, t)" "amt_inv t f'" "slot_value (f' off) = Some v"
      "\<And>o'. o' \<noteq> off \<Longrightarrow> slot_value (f' o') = slot_value (f o')"
      using amt_wf_flag [OF wf] by (auto simp: amt_put_def)
    have "amt_view t k' = (if k' = k then Some v else amt_view s k')" if k': "k' \<in> set amt_slots" for k'
    proof -
      obtain o' l' where kk': "k' = (o', l')" by fastforce
      have v': "amt_view t k' = slot_value (f' o')" "amt_view s k' = slot_value (f o')"
        using k' amt_view_inv [OF t(2), of o' l'] amt_view_inv [OF f, of o' l'] unfolding kk' by blast+
      have "o' = off \<longleftrightarrow> k' = k" using slot_unique [of off len l'] k k' unfolding kk kk' by blast
      then show ?thesis using v' t(3,4) by (cases "o' = off") simp_all
    qed
    with t(1,2) show ?thesis by (auto simp: amt_wf_def)
  qed
  show "amt_get k s = (case amt_view s k of None \<Rightarrow> Some (-1, []) | Some v \<Rightarrow> Some (0, v))"
  proof -
    have h: "slot_holds (fl_mem s) (amt_partion_base s + off) len (f off)"
      using f k kk by (auto simp: amt_inv_def)
    have "off + WORD_ALIGN (6 + len) \<le> 528" using slot_bounds(2) k kk by auto
    with amt_read_slot [OF amt_wf_flag [OF wf] h, of len "replicate len 0"] kk amt_view_slot [OF h]
      slot_value_length [OF h] amt_wf_flag [OF wf]
    show ?thesis by (auto simp: amt_get_def DRV_ERROR_def split: option.splits)
  qed
qed

section \<open>Power loss\<close>

text \<open>
  What the cells may hold when power is lost while a list of flash operations runs: a
  program has written a prefix of its data, an erase may leave anything in its range.
\<close>

fun op_mem :: "flash_op \<Rightarrow> (nat \<Rightarrow> u8) \<Rightarrow> (nat \<Rightarrow> u8)" where
  "op_mem (Prog a bs) m = nor_range a bs m"
| "op_mem (Erase a n) m = erase_range a n m"

inductive power_cut :: "flash_op list \<Rightarrow> (nat \<Rightarrow> u8) \<Rightarrow> (nat \<Rightarrow> u8) \<Rightarrow> bool" where
  cut_now: "power_cut ops m m"
| cut_prog: "power_cut (Prog a bs # ops) m (nor_range a (take k bs) m)"
| cut_erase: "(\<And>x. x < a \<or> a + n \<le> x \<Longrightarrow> m' x = m x) \<Longrightarrow> power_cut (Erase a n # ops) m m'"
| cut_later: "power_cut ops (op_mem op m) m' \<Longrightarrow> power_cut (op # ops) m m'"

inductive_cases power_cut_Nil: "power_cut [] m m'"
inductive_cases power_cut_Prog: "power_cut (Prog a bs # ops) m m'"
inductive_cases power_cut_Erase: "power_cut (Erase a n # ops) m m'"

text \<open>The three kinds of backup sector \<open>amt_nv_init\<close> distinguishes.\<close>

definition bak_mark :: "nat \<Rightarrow> u8 \<Rightarrow> (nat \<Rightarrow> u8) \<Rightarrow> bool" where
  "bak_mark a b m \<longleftrightarrow> m a = b \<and> m (a + 1) = 0xFF \<and> m (a + 2) = 0xFF \<and> m (a + 3) = 0xFF"

lemma le32_mark:
  assumes "bak_mark a b (fl_mem s)"
  shows "le32 (snd (hal_spiflash_read a 4 s)) = 0xFFFFFF00 + unat b"
proof -
  have "map (fl_mem s) [a..<a + 4] = [fl_mem s a, fl_mem s (a + 1), fl_mem s (a + 2), fl_mem s (a + 3)]"
    by (simp add: upt_conv_Cons eval_nat_numeral)
  with assms show ?thesis by (simp add: bak_mark_def le32_def spi.dread_eq)
qed

lemma amt_init_idle:
  assumes "amt_ok s" and "bak_mark AMT_NV_BACKUP_BASE 0xFF (fl_mem s)" and "bak_mark AMT_NV_BACKUP_COMP 0xFF (fl_mem s)"
  shows "amt_nv_init s = s"
  using assms by (simp add: amt_nv_init_def amt_ok_def Let_def le32_mark)

lemma amt_init_discard:
  assumes "amt_ok s" and "bak_mark AMT_NV_BACKUP_BASE 0 (fl_mem s)" and "bak_mark AMT_NV_BACKUP_COMP 0xFF (fl_mem s)"
  shows "fl_mem (amt_nv_init s) = erase_range AMT_NV_BACKUP_BASE 4096 (fl_mem s)"
proof -
  have "amt_nv_init s = run_op (Erase AMT_NV_BACKUP_BASE 4096) s"
    using assms by (simp add: amt_nv_init_def amt_ok_def Let_def le32_mark AMT_PARTION_SIZE_def)
  with assms(1) show ?thesis
    using run_op_Erase(2) [of s AMT_NV_BACKUP_BASE 4096] by (simp add: amt_ok_def AMT_NV_BACKUP_BASE_def)
qed

lemma amt_init_restore:
  assumes "amt_ok s" and "bak_mark AMT_NV_BACKUP_BASE 0 (fl_mem s)" and "bak_mark AMT_NV_BACKUP_COMP 0 (fl_mem s)"
    and "cget AMT_NV_BACKUP_ADDR 2047 (fl_mem s) = img"
  shows "fl_mem (amt_nv_init s) =
    erase_range AMT_NV_BACKUP_BASE 4096 (nor_range (amt_partion_base s) img
      (erase_range (amt_partion_base s) 4096 (fl_mem s)))"
proof -
  let ?b = "amt_partion_base s"
  define s0 where "s0 = s\<lparr>nv_cache := cput 0 img (nv_cache s)\<rparr>"
  have rd: "snd (hal_spiflash_read AMT_NV_BACKUP_ADDR AMT_NV_SIZE s) = img"
    using assms(4) by (simp add: spi.dread_eq cget_def AMT_NV_SIZE_def)
  have len: "length img = 2047" using assms(4) by auto
  have run: "amt_nv_init s = fold run_op [Erase ?b 4096, Prog ?b img, Erase AMT_NV_BACKUP_BASE 4096] s0"
    using assms(1-3) rd cget_cput_same [of 2047 img 0 "nv_cache s"] len
    by (simp add: amt_nv_init_def amt_ok_def Let_def le32_mark AMT_PARTION_SIZE_def s0_def AMT_NV_SIZE_def)
  have ok: "chip_ready s0" "?b mod 4096 = 0" "fl_mem s0 = fl_mem s"
    using assms(1) by (simp_all add: amt_ok_def s0_def chip_ready_def)
  note r1 = run_op_Erase [OF ok(1,2), of 4096, simplified]
  note r2 = run_op_Prog [OF r1(1), of ?b img]
  note r3 = run_op_Erase [OF r2(1), of AMT_NV_BACKUP_BASE 4096]
  show ?thesis unfolding run using r3(2) by (simp add: r2(2) r1(2) ok(3) AMT_NV_BACKUP_BASE_def)
qed

text \<open>The cells when power is lost before the final erase of the backup.\<close>

definition cut_before :: "(nat \<Rightarrow> u8) \<Rightarrow> (nat \<Rightarrow> u8) \<Rightarrow> bool" where
  "cut_before m m' \<longleftrightarrow>
     (m' = m \<or> bak_mark AMT_NV_BACKUP_BASE 0 m' \<and> bak_mark AMT_NV_BACKUP_COMP 0xFF m') \<and>
     (\<forall>x. x < AMT_NV_BACKUP_BASE \<or> AMT_NV_BACKUP_BASE + 4096 \<le> x \<longrightarrow> m' x = m x)"

definition cut_after :: "nat \<Rightarrow> bytes \<Rightarrow> (nat \<Rightarrow> u8) \<Rightarrow> (nat \<Rightarrow> u8) \<Rightarrow> bool" where
  "cut_after base img m m' \<longleftrightarrow>
     bak_mark AMT_NV_BACKUP_BASE 0 m' \<and> bak_mark AMT_NV_BACKUP_COMP 0 m' \<and>
     cget AMT_NV_BACKUP_ADDR 2047 m' = img \<and>
     (\<forall>x. (x < AMT_NV_BACKUP_BASE \<or> AMT_NV_BACKUP_BASE + 4096 \<le> x) \<and> (x < base \<or> base + 4096 \<le> x) \<longrightarrow>
          m' x = m x)"

lemma take_one: "take k [b] = [] \<or> take k [b] = [b]"
  by (cases k) auto

lemma cut_after_frame:
  assumes "cut_after base img m m'" and "\<And>x. x < base \<or> base + 4096 \<le> x \<Longrightarrow> m'' x = m' x"
    and "AMT_NV_BACKUP_BASE + 4096 \<le> base \<or> base + 4096 \<le> AMT_NV_BACKUP_BASE"
  shows "cut_after base img m m''"
proof -
  have bk: "m'' x = m' x" if "AMT_NV_BACKUP_BASE \<le> x" "x < AMT_NV_BACKUP_BASE + 4096" for x
    using that assms(2) [of x] assms(3) by linarith
  have "cget AMT_NV_BACKUP_ADDR 2047 m'' = cget AMT_NV_BACKUP_ADDR 2047 m'"
    by (intro cget_cong bk) (auto simp: amt_backup)
  moreover have "bak_mark AMT_NV_BACKUP_BASE 0 m''" "bak_mark AMT_NV_BACKUP_COMP 0 m''"
    using assms(1) bk by (auto simp: cut_after_def bak_mark_def amt_backup)
  ultimately show ?thesis using assms(1,2) by (auto simp: cut_after_def)
qed

lemma commit_backup_cells:
  assumes "erased AMT_NV_BACKUP_BASE 4096 m" and "length img = 2047"
  defines "m1 \<equiv> nor_range AMT_NV_BACKUP_BASE [0] m"
  shows "cut_before m m1" and "cut_before m (nor_range AMT_NV_BACKUP_ADDR (take k img) m1)"
    and "cut_after base img m (nor_range AMT_NV_BACKUP_COMP [0] (nor_range AMT_NV_BACKUP_ADDR img m1))"
proof -
  have FF: "m x = 0xFF" if "AMT_NV_BACKUP_BASE \<le> x" "x < AMT_NV_BACKUP_BASE + 4096" for x
    using assms(1) that by (simp add: erased_def)
  show "cut_before m m1" "cut_before m (nor_range AMT_NV_BACKUP_ADDR (take k img) m1)"
    using FF assms(2) by (auto simp: cut_before_def m1_def nor_range_def bak_mark_def amt_backup)
  have e: "erased AMT_NV_BACKUP_ADDR (length img) m1"
    using FF assms(2) by (auto simp: erased_def m1_def nor_range_def amt_backup)
  have "cget AMT_NV_BACKUP_ADDR 2047 (nor_range AMT_NV_BACKUP_ADDR img m1) = img"
    using spi.nor_range_read_back [OF e] assms(2) by (simp add: cget_def)
  moreover have "cget AMT_NV_BACKUP_ADDR 2047 (nor_range AMT_NV_BACKUP_COMP [0] (nor_range AMT_NV_BACKUP_ADDR img m1)) =
      cget AMT_NV_BACKUP_ADDR 2047 (nor_range AMT_NV_BACKUP_ADDR img m1)"
    by (intro cget_cong nor_range_outside) (auto simp: amt_backup)
  ultimately show "cut_after base img m (nor_range AMT_NV_BACKUP_COMP [0] (nor_range AMT_NV_BACKUP_ADDR img m1))"
    using FF assms(2) by (auto simp: cut_after_def m1_def nor_range_def bak_mark_def amt_backup)
qed

lemma commit_cut:
  assumes cut: "power_cut (butlast (amt_commit_ops base img)) m m'"
    and er: "erased AMT_NV_BACKUP_BASE 4096 m" and len: "length img = 2047"
    and dis: "AMT_NV_BACKUP_BASE + 4096 \<le> base \<or> base + 4096 \<le> AMT_NV_BACKUP_BASE"
  shows "cut_before m m' \<or> cut_after base img m m'"
proof -
  define m1 where "m1 = nor_range AMT_NV_BACKUP_BASE [0] m"
  define m2 where "m2 = nor_range AMT_NV_BACKUP_ADDR img m1"
  define m3 where "m3 = nor_range AMT_NV_BACKUP_COMP [0] m2"
  note cells = commit_backup_cells [OF er len, folded m1_def]
  have before: "cut_before m m" "cut_before m m1" "cut_before m m2"
    using cells(1) cells(2) [of "length img"] by (auto simp: m2_def cut_before_def)
  have after: "cut_after base img m m3" using cells(3) by (simp add: m3_def m2_def)
  have erase: "cut_after base img m x" if "\<And>y. y < base \<or> base + 4096 \<le> y \<Longrightarrow> x y = m3 y" for x
    using cut_after_frame [OF after that dis] .
  have er4: "cut_after base img m (erase_range base 4096 m3)"
    by (rule erase) (auto simp: erase_range_def)
  have prog: "cut_after base img m (nor_range base (take k img) (erase_range base 4096 m3))" for k
    using len by (intro cut_after_frame [OF er4 _ dis] nor_range_outside) auto
  from prog [of "length img"] have prog': "cut_after base img m (nor_range base img (erase_range base 4096 m3))"
    by simp
  have one: "nor_range a (take k [b]) c = c \<or> nor_range a (take k [b]) c = nor_range a [b] c" for a k b c
    using take_one [of k b] by auto
  show ?thesis using cut before after er4 prog prog' erase cells(2)
      one [of AMT_NV_BACKUP_BASE _ 0 m, folded m1_def] one [of AMT_NV_BACKUP_COMP _ 0 m2, folded m3_def]
    unfolding amt_commit_ops_def AMT_PARTION_SIZE_def
    by (auto simp: m1_def [symmetric] m2_def [symmetric] m3_def [symmetric]
        elim!: power_cut_Prog power_cut_Erase power_cut_Nil) metis+
qed

section \<open>Facts on the commands\<close>

lemma amt_addrs_shift:
  "amt_addrs (base + a) l = map (\<lambda>(k, off, len). (k, base + off, len)) (amt_addrs a l)"
  by (induction a l rule: amt_addrs.induct) (simp_all add: add.assoc)

lemma amt_key_slot:
  assumes "amt_key base key = Some (addr, len)"
  obtains off where "addr = base + off" and "(off, len) \<in> set amt_slots"
proof -
  have "(key, addr, len) \<in> set (amt_addrs (base + 0) amt_layout)"
    using assms by (auto simp: amt_key_def dest: map_of_SomeD)
  then obtain off where "addr = base + off" "(key, off, len) \<in> set (amt_addrs 0 amt_layout)"
    unfolding amt_addrs_shift by auto
  with that show thesis by (force simp: amt_slots_def)
qed

text \<open>The string found in a zeroed buffer that received the first \<open>len\<close> bytes of an argument.\<close>

lemma cstr_take_zeros:
  assumes "cstr vm = Some v" and "len \<le> length vm" and "0 < k"
  shows "cstr (take len vm @ replicate k 0) = Some (take len v)"
proof -
  obtain k' where k: "k = Suc k'" using assms(3) by (cases k) auto
  have nz: "0 \<notin> set v" by (rule cstr_SomeD(1) [OF assms(1)])
  note sp = cstr_Some_split [OF assms(1)]
  show ?thesis
  proof (cases "len \<le> length v")
    case True
    then have "take len vm = take len v" by (subst sp) simp
    moreover have "0 \<notin> set (take len v)" using nz by (auto dest: in_set_takeD)
    ultimately show ?thesis using cstr_append_nul [of "take len v"] k by simp
  next
    case False
    then obtain n where "len - length v = Suc n" by (cases "len - length v") auto
    then have "take len vm = v @ 0 # take n (drop (Suc (length v)) vm)" using False by (subst sp) simp
    then show ?thesis using cstr_append_nul [OF nz] False by simp
  qed
qed

lemma amt_read_param:
  assumes inv: "amt_inv s f" and slot: "(off, len) \<in> set amt_slots" and v: "slot_value (f off) = Some v"
  shows "amt_nv_read (amt_partion_base s + off) (Some (replicate 256 0)) len s =
         Some ((0, v @ replicate (256 - len) 0), s) \<and> length v = len"
proof -
  have h: "slot_holds (fl_mem s) (amt_partion_base s + off) len (f off)"
    using inv slot by (auto simp: amt_inv_def)
  have fl: "amt_partion_flag s \<noteq> 0" using inv by (simp add: amt_inv_def amt_ok_def)
  have l: "length v = len" by (rule slot_value_length [OF h v])
  with amt_read_slot [OF fl h, of len "replicate 256 0"] v slot_bounds(2,3) [OF slot] show ?thesis by simp
qed

section \<open>Properties\<close>

text \<open>C1: the store is a persistent map.  Any sequence of writes to parameters of the layout, of any
  length (so with any number of garbage collections), succeeds, and afterwards reading a parameter
  gives the value written last, or what it gave before when the sequence did not write it.\<close>

theorem amt_store_last_write:
  assumes "amt_wf s" and "\<And>k v. (k, v) \<in> set kvs \<Longrightarrow> k \<in> set amt_slots \<and> length v = snd k"
  shows "\<exists>t. put_all amt_put kvs s = Some t \<and> amt_wf t \<and>
    (\<forall>k \<in> set amt_slots. amt_get k t =
       (case map_of (rev kvs) k of None \<Rightarrow> amt_get k s | Some v \<Rightarrow> Some (0, v)))"
proof -
  from amt.put_all_view [OF assms] obtain t where
    t: "put_all amt_put kvs s = Some t" "amt_wf t"
    "\<forall>k \<in> set amt_slots. amt_view t k =
       (case map_of (rev kvs) k of None \<Rightarrow> amt_view s k | Some v \<Rightarrow> Some v)" by blast
  have "amt_get k t = (case map_of (rev kvs) k of None \<Rightarrow> amt_get k s | Some v \<Rightarrow> Some (0, v))"
    if "k \<in> set amt_slots" for k
    using that t(3) amt.get_law [OF t(2) that] amt.get_law [OF assms(1) that] by (auto split: option.splits)
  with t show ?thesis by blast
qed

definition amt_demo :: amt where
  "amt_demo = \<lparr>fl_mem = (\<lambda>_. 0xFF), fl_rsp = [], heap = (\<lambda>_. Some (\<lambda>_. 0xCD)), ret_reg = 0,
     amt_partion_base = 0xFF000, amt_partion_flag = 1, partionDev = [], nv_cache = (\<lambda>_. 0)\<rparr>"

lemma amt_demo_wf: "amt_wf amt_demo"
  unfolding amt_wf_def
  by (intro exI [of _ "\<lambda>_. Blank"])
    (auto simp: amt_inv_def amt_ok_def amt_demo_def chip_ready_def erased_def AMT_NV_BACKUP_BASE_def)

theorem amt_store_last_write_witness:
  "\<exists>t. put_all amt_put [((96, 2), [1, 0]), ((96, 2), [2, 0]), ((104, 2), [9, 9]), ((96, 2), [3, 0])]
         amt_demo = Some t \<and> amt_get (96, 2) t = Some (0, [3, 0]) \<and> amt_get (104, 2) t = Some (0, [9, 9])"
proof -
  have k: "(96, 2) \<in> set amt_slots" "(104, 2) \<in> set amt_slots"
    by (simp_all add: amt_slots_def amt_layout_def)
  then show ?thesis
    using amt_store_last_write [OF amt_demo_wf,
        of "[((96, 2), [1, 0]), ((96, 2), [2, 0]), ((104, 2), [9, 9]), ((96, 2), [3, 0])]"]
    by fastforce
qed

text \<open>C2: a garbage collection survives a loss of power.  Wherever the commit is interrupted before
  the backup is erased (between operations, inside a program, or inside the erase of the parameter
  sector), the next \<open>amt_nv_init\<close> leaves the parameter sector either as it was or with the
  complete new contents, and the backup sector is blank again.\<close>

theorem amt_gc_power_loss:
  assumes "amt_ok s" and "erased AMT_NV_BACKUP_BASE 4096 m" and "length img = AMT_NV_SIZE"
    and "power_cut (butlast (amt_commit_ops (amt_partion_base s) img)) m (fl_mem s)"
  shows "erased AMT_NV_BACKUP_BASE 4096 (fl_mem (amt_nv_init s)) \<and>
    ((\<forall>i < 4096. fl_mem (amt_nv_init s) (amt_partion_base s + i) = m (amt_partion_base s + i)) \<or>
     (\<forall>i < 4096. fl_mem (amt_nv_init s) (amt_partion_base s + i) = sector_image img i))"
proof -
  let ?b = "amt_partion_base s"
  have len: "length img = 2047" using assms(3) by (simp add: AMT_NV_SIZE_def)
  have dis: "AMT_NV_BACKUP_BASE + 4096 \<le> ?b \<or> ?b + 4096 \<le> AMT_NV_BACKUP_BASE"
    using assms(1) sector_disjoint [of AMT_NV_BACKUP_BASE ?b] by (auto simp: amt_ok_def AMT_NV_BACKUP_BASE_def)
  consider "fl_mem s = m" | "cut_before m (fl_mem s)" "fl_mem s \<noteq> m" | "cut_after ?b img m (fl_mem s)"
    using commit_cut [OF assms(4,2) len dis] by blast
  then show ?thesis
  proof cases
    case 1
    then have "amt_nv_init s = s"
      using assms(1,2) by (intro amt_init_idle) (auto simp: bak_mark_def erased_def amt_backup)
    with 1 assms(2) show ?thesis by simp
  next
    case 2
    then have "fl_mem (amt_nv_init s) = erase_range AMT_NV_BACKUP_BASE 4096 (fl_mem s)"
      using assms(1) by (intro amt_init_discard) (auto simp: cut_before_def)
    with 2 dis show ?thesis by (auto simp: cut_before_def erased_def erase_range_def)
  next
    case 3
    then have "fl_mem (amt_nv_init s) =
        erase_range AMT_NV_BACKUP_BASE 4096 (nor_range ?b img (erase_range ?b 4096 (fl_mem s)))"
      using assms(1) by (intro amt_init_restore) (auto simp: cut_after_def)
    with dis len show ?thesis by (auto simp: erased_def erase_range_def nor_range_def sector_image_def)
  qed
qed

theorem amt_gc_power_loss_witness:
  "let s = amt_nv_init (amt_demo\<lparr>fl_mem := nor_range AMT_NV_BACKUP_BASE [0] (\<lambda>_. 0xFF)\<rparr>)
   in erased AMT_NV_BACKUP_BASE 4096 (fl_mem s) \<and>
      fl_mem s (0xFF000 + 5) \<in> {0xFF, sector_image (replicate AMT_NV_SIZE 7) 5}"
proof -
  let ?s = "amt_demo\<lparr>fl_mem := nor_range AMT_NV_BACKUP_BASE [0] (\<lambda>_. 0xFF)\<rparr>"
  have "power_cut (butlast (amt_commit_ops (amt_partion_base ?s) (replicate AMT_NV_SIZE 7))) (\<lambda>_. 0xFF) (fl_mem ?s)"
    using cut_prog [of AMT_NV_BACKUP_BASE "[0]" _ "\<lambda>_. 0xFF" 1] by (simp add: amt_commit_ops_def)
  moreover have "amt_ok ?s"
    by (simp add: amt_ok_def amt_demo_def chip_ready_def AMT_NV_BACKUP_BASE_def)
  moreover have "erased AMT_NV_BACKUP_BASE 4096 (\<lambda>_. 0xFF)" by (simp add: erased_def)
  ultimately show ?thesis
    using amt_gc_power_loss [of ?s "\<lambda>_. 0xFF" "replicate AMT_NV_SIZE 7"]
    by (auto simp: amt_demo_def Let_def dest: spec [of _ 5])
qed

text \<open>C25: the CRC-8 detects a corrupted byte.  When the value of the live copy, in whichever of the two blocks
  the search finds it, differs from the value its head was computed for in exactly one byte, \<open>amt_nv_read\<close> reports an
  error.\<close>

theorem amt_read_detects_corruption:
  assumes "amt_partion_flag s \<noteq> 0" and "amt_partion_base s \<le> a" and "a \<le> amt_partion_base s + 2047"
    and "amt_find_used a [0..<AMT_NV_BLOCK_NUM] s = Some (i, used_head v)"
    and "cget (a + i * 2048 + 6) (length v) (fl_mem s) = w" and "one_byte_apart v w"
    and "length v < 256" and "length v \<le> n" and "n \<le> length b"
  shows "amt_nv_read a (Some b) n s = Some ((DRV_ERROR, w @ drop (length w) b), s)"
proof -
  have lw: "length w = length v" using assms(6) by (auto simp: one_byte_apart_def)
  have "hal_spiflash_read (a + i * AMT_NV_BLOCK_SIZE + AMT_NV_HEAD_SIZE) (length v) s = (0, w)"
    using assms(5) by (simp add: spi.dread_eq cget_def amt_sizes)
  moreover have "amt_crc v \<noteq> amt_crc w"
    unfolding amt_crc_def by (rule amt_crc.detects_one_byte [OF assms(6)])
  ultimately show ?thesis using assms(1-4,7-9) lw
    by (simp add: amt_nv_read_def Let_def memcpy_at_def amt_crc8_prefix AMT_NV_SIZE_def)
qed

theorem amt_read_detects_corruption_witness:
  "amt_nv_read 0xFF000 (Some [0, 0]) 2
     (amt_demo\<lparr>fl_mem := (\<lambda>x. if x < 0xFF800 then 0xFF else (amt_head_bytes (used_head [1, 2]) @ [1, 3]) ! (x mod 8))\<rparr>) =
   Some ((DRV_ERROR, [1, 3]),
     amt_demo\<lparr>fl_mem := (\<lambda>x. if x < 0xFF800 then 0xFF else (amt_head_bytes (used_head [1, 2]) @ [1, 3]) ! (x mod 8))\<rparr>)"
    (is "_ = Some (_, ?s)")
proof -
  have one: "one_byte_apart [1, 2 :: u8] [1, 3]"
    unfolding one_byte_apart_def by (rule exI [of _ 1], rule exI [of _ 3]) simp
  have h0: "cget 0xFF000 6 (fl_mem ?s) = [0xFF, 0xFF, 0xFF, 0xFF, 0xFF, 0xFF]"
    by (simp add: cget_6)
  have h1: "cget 0xFF800 6 (fl_mem ?s) = amt_head_bytes (used_head [1, 2])"
    by (simp add: cget_6 amt_head_bytes_def)
  have "amt_head_of (cget 0xFF800 6 (fl_mem ?s)) = used_head [1, 2]"
    unfolding h1 using amt_head_of_bytes [of "used_head [1, 2]" "[]"] by (simp add: used_head_def amt_marks)
  then have f: "amt_find_used 0xFF000 [0..<AMT_NV_BLOCK_NUM] ?s = Some (1, used_head [1, 2])"
    unfolding upt_blocks using h0
    by (simp add: Let_def amt_head_at amt_sizes amt_head_of_def le16_def amt_marks used_head_def)
  have w: "cget (0xFF000 + 1 * 2048 + 6) (length [1, 2 :: u8]) (fl_mem ?s) = [1, 3]"
    by (simp add: cget_def upt_conv_Cons amt_head_bytes_def)
  have p: "amt_partion_flag ?s \<noteq> 0" "amt_partion_base ?s \<le> 0xFF000" "0xFF000 \<le> amt_partion_base ?s + 2047"
    by (simp_all add: amt_demo_def)
  show ?thesis using amt_read_detects_corruption [OF p f w one, of 2 "[0, 0]"] by simp
qed

text \<open>The console commands \<open>nvsamt\<close> and \<open>nvgamt\<close>.  Setting a parameter of the layout reports
  success exactly when the string fits the parameter; afterwards \<open>nvgamt\<close> prints the string, cut to
  the parameter's length, and the store is still well formed.\<close>

theorem amt_set_get:
  assumes "amt_wf s" and "amt_key (amt_partion_base s) key = Some (addr, len)"
    and "cstr vm = Some v" and "len \<le> length vm"
  shows "\<exists>t. amt_nv_set [cmd, (key, km), (val, vm)] s =
               Some (if length v \<le> len then CMD_RET_SUCCESS else CMD_RET_FAILURE, t) \<and>
             amt_wf t \<and> amt_nv_get [cmd', key] t = Some ((CMD_RET_SUCCESS, take len v), t)"
proof -
  from assms(1) obtain f where inv: "amt_inv s f" by (auto simp: amt_wf_def)
  from assms(2) obtain off where addr: "addr = amt_partion_base s + off" and slot: "(off, len) \<in> set amt_slots"
    by (rule amt_key_slot)
  from amt_write_inv [OF inv slot assms(4)] obtain t f' where
    t: "amt_nv_write addr (Some vm) len s = Some (0, t)" "amt_inv t f'"
    "slot_value (f' off) = Some (take len vm)" "amt_partion_base t = amt_partion_base s"
    unfolding addr by blast
  have fl: "amt_partion_flag s \<noteq> 0" "amt_partion_flag t \<noteq> 0"
    using inv t(2) by (auto simp: amt_inv_def amt_ok_def)
  have rd: "amt_nv_read addr (Some (replicate 256 0)) len t = Some ((0, take len vm @ replicate (256 - len) 0), t)"
    using amt_read_param [OF t(2) slot t(3)] unfolding addr t(4) by blast
  have str: "cstr (take len vm @ replicate (256 - len) 0) = Some (take len v)"
    using slot_bounds(3) [OF slot] by (intro cstr_take_zeros [OF assms(3,4)]) simp
  have "take len v = v \<longleftrightarrow> length v \<le> len" by auto
  then have "amt_nv_set [cmd, (key, km), (val, vm)] s =
      Some (if length v \<le> len then CMD_RET_SUCCESS else CMD_RET_FAILURE, t)"
    using assms(2,3) fl t(1)
    unfolding amt_nv_set_def by (simp add: rd str)
  moreover have "amt_nv_get [cmd', key] t = Some ((CMD_RET_SUCCESS, take len v), t)"
    using assms(2) fl
    unfolding amt_nv_get_def by (simp add: rd str t(4))
  ultimately show ?thesis using t(2) by (auto simp: amt_wf_def)
qed

theorem amt_set_get_witness:
  "\<exists>t. amt_nv_set [(''nvsamt'', []), (''PIN_FLAG'', []), (''1'', [49, 0, 0, 0])] amt_demo =
         Some (CMD_RET_SUCCESS, t) \<and>
       amt_nv_get [''nvgamt'', ''PIN_FLAG''] t = Some ((CMD_RET_SUCCESS, [49]), t)"
proof -
  have "amt_key (amt_partion_base amt_demo) ''PIN_FLAG'' = Some (0xFF060, 2)"
    by (simp add: amt_key_def amt_layout_def amt_demo_def)
  from amt_set_get [OF amt_demo_wf this, of "[49, 0, 0, 0]" "[49]" "(''nvsamt'', [])" "[]" "''1''" "''nvgamt''"]
  show ?thesis by auto
qed

text \<open>When a deleted record has no live copy, the scan of the garbage collector overwrites its
  head before it reads the length from it, and so always advances by 264 bytes, whatever the length
  of the record was: the records in between are not compacted.\<close>

theorem amt_gc_skips_after_lost_record:
  assumes "amt_partion_flag s \<noteq> 0" and "amt_head_of (cget off 6 (nv_cache s)) =
      \<lparr>magic = AMT_NV_MAGIC_VALUE, nv_state = AMT_NV_STATE_DELE, val_len = len, nv_crc8 = c\<rparr>"
    and "amt_find_used (amt_partion_base s + off) [0..<AMT_NV_BLOCK_NUM] s = None"
  shows "fst (amt_gc_step off s) = off + 264"
proof -
  let ?a = "amt_partion_base s + off"
  have "\<exists>al. amt_nv_search ?a ph s = ((ph, 2, al), s)" for ph
    using assms(3) unfolding amt_nv_search_def upt_blocks
    by (auto simp: assms(1) Let_def AMT_NV_BLOCK_NUM_def split: if_splits)
  then obtain al where "amt_nv_search ?a \<lparr>magic = AMT_NV_MAGIC_VALUE, nv_state = AMT_NV_STATE_DELE,
      val_len = len, nv_crc8 = c\<rparr> s = ((\<lparr>magic = AMT_NV_MAGIC_VALUE, nv_state = AMT_NV_STATE_DELE,
      val_len = len, nv_crc8 = c\<rparr>, 2, al), s)" by blast
  moreover have "val_len (amt_head_of (cget off 6 (cput off (replicate (len + 6) 0xFF) m))) = 255" for m
    by (simp add: cget_6 cput_def amt_head_of_def)
  ultimately show ?thesis using assms(2)
    by (simp add: amt_gc_step_def Let_def amt_sizes(3,5) WORD_ALIGN_def)
qed

theorem amt_gc_skips_after_lost_record_witness:
  "fst (amt_gc_step 0 (amt_demo\<lparr>nv_cache := (\<lambda>x. [0x56, 0x4E, 0, 0, 2, 0] ! (x mod 6))\<rparr>)) = 264"
    (is "fst (amt_gc_step 0 ?s) = _")
proof -
  have "amt_head_of (cget 0 6 (nv_cache ?s)) =
      \<lparr>magic = AMT_NV_MAGIC_VALUE, nv_state = AMT_NV_STATE_DELE, val_len = 2, nv_crc8 = 0\<rparr>"
    by (simp add: cget_6 amt_head_of_def le16_def amt_marks)
  moreover have "amt_find_used (amt_partion_base ?s + 0) [0..<AMT_NV_BLOCK_NUM] ?s = None"
    unfolding upt_blocks
    by (simp add: Let_def amt_head_at cget_6 amt_head_of_def le16_def amt_marks amt_demo_def)
  ultimately show ?thesis using amt_gc_skips_after_lost_record [of ?s 0 2 0] by (simp add: amt_demo_def)
qed

end
