(* ===== verification/CertFlash.thy ===== *)
theory CertFlash
  imports YaFlash
begin

text \<open>
  The licence data of the two clouds,
  \<^verbatim>\<open>src/apps/akeeta_tr6260/akeeta/app/src/ya_cert_flash_api.c\<close>: the four AWS
  fields (certificate, private key, client id, thing type), each a record of its own sector,
  and the Aliyun triple (product key, device id, secret), one record of three
  length-prefixed fields.  Loaded fields live in heap blocks the module keeps pointers to.

  mbedTLS is not part of this component: what \<open>mbedtls_x509_crt_parse\<close> and
  \<open>mbedtls_pk_parse_key\<close> return for a buffer are the parameters \<open>crt_parse\<close> and \<open>pk_parse\<close>.
  The macros \<open>MBEDCHECK\<close> is defined and \<open>MBEDCHECK_READ\<close> is not, as in the source.
\<close>

section \<open>State\<close>

text \<open>\<open>None\<close> is the null pointer, otherwise the bytes of the heap block pointed to.\<close>

record cert = board +
  aws_certificateBuff :: "bytes option"
  aws_privateKeyBuff :: "bytes option"
  aws_client_id :: "bytes option"
  aws_thing_type :: "bytes option"
  aliyun_productkey :: "bytes option"
  aliyun_deviceid :: "bytes option"
  aliyun_productsecret :: "bytes option"

definition C_OK :: int where "C_OK = 0"
definition C_ERROR :: int where "C_ERROR = -1"

definition MAX_CERT_LEN :: nat where "MAX_CERT_LEN = 1024 + 512"
definition MAX_RSA_LEN :: nat where "MAX_RSA_LEN = 2048 + 512"
definition MAX_CLIENT_ID_LEN :: nat where "MAX_CLIENT_ID_LEN = 128"
definition MAX_THING_TYPE_LEN :: nat where "MAX_THING_TYPE_LEN = 128"
definition YA_PRODUCT_KEY_LEN :: nat where "YA_PRODUCT_KEY_LEN = 20"
definition YA_DEVICE_ID_LEN :: nat where "YA_DEVICE_ID_LEN = 32"
definition YA_DEVICE_SECRET_LEN :: nat where "YA_DEVICE_SECRET_LEN = 64"

definition YA_LICENSE_DEVICE_CERT_ADDR :: nat where "YA_LICENSE_DEVICE_CERT_ADDR = 0xAF000"
definition YA_LICENSE_DEVICE_RSA_PRIVATE_KEY_ADDR :: nat where
  "YA_LICENSE_DEVICE_RSA_PRIVATE_KEY_ADDR = 0xB0000"
definition YA_LICENSE_DEVICE_ID_ADDR :: nat where "YA_LICENSE_DEVICE_ID_ADDR = 0xB1000"
definition YA_LICENSE_THING_TYPE_ADDR :: nat where "YA_LICENSE_THING_TYPE_ADDR = 0xB2000"
definition YA_LICENSE_ALIYUUN :: nat where "YA_LICENSE_ALIYUUN = 0xB3000"

lemmas cert_max = MAX_CERT_LEN_def MAX_RSA_LEN_def MAX_CLIENT_ID_LEN_def MAX_THING_TYPE_LEN_def
lemmas cert_codes = C_OK_def C_ERROR_def
lemmas cert_addrs = YA_LICENSE_DEVICE_CERT_ADDR_def YA_LICENSE_DEVICE_RSA_PRIVATE_KEY_ADDR_def
  YA_LICENSE_DEVICE_ID_ADDR_def YA_LICENSE_THING_TYPE_ADDR_def YA_LICENSE_ALIYUUN_def
lemmas aliyun_max = YA_PRODUCT_KEY_LEN_def YA_DEVICE_ID_LEN_def YA_DEVICE_SECRET_LEN_def

section \<open>Reading and writing one AWS field\<close>

text \<open>
  The four readers have the same body up to the maximal length: read the record into a
  zeroed scratch block, then copy it, NUL-terminated, to the destination.
\<close>

definition read_check_field :: "nat \<Rightarrow> bytes \<Rightarrow> nat \<Rightarrow> 'a board_scheme \<Rightarrow> (int \<times> bytes) option" where
  "read_check_field max_len dst addr s =
     (case mem_alloc s max_len of None \<Rightarrow> Some (C_ERROR, dst)
      | Some buf \<Rightarrow> do {
          buf \<leftarrow> memset buf 0 max_len;
          (ret, payload) \<leftarrow> ya_read_flash_with_var_len addr (max_len - 1) 1 s;
          if ret \<noteq> C_OK \<or> length payload = 0 then Some (C_ERROR, dst)
          else do {
            buf \<leftarrow> memcpy_at buf 0 payload;
            dst \<leftarrow> memset dst 0 (length payload + 1);
            src \<leftarrow> slice buf 0 (length payload);
            dst \<leftarrow> memcpy_at dst 0 src;
            Some (C_OK, dst)
          }
        })"

definition ya_aws_read_check_device_cert where
  "ya_aws_read_check_device_cert dst addr s = read_check_field MAX_CERT_LEN dst addr s"

definition ya_aws_read_check_device_rsa_private_key where
  "ya_aws_read_check_device_rsa_private_key dst addr s = read_check_field MAX_RSA_LEN dst addr s"

definition ya_aws_read_check_device_id where
  "ya_aws_read_check_device_id dst addr s = read_check_field MAX_CLIENT_ID_LEN dst addr s"

definition ya_aws_read_check_thing_type where
  "ya_aws_read_check_thing_type dst addr s = read_check_field MAX_THING_TYPE_LEN dst addr s"

text \<open>The writers; the first two validate the field first, writing a NUL after it in the caller's buffer.\<close>

definition write_field ::
    "bytes \<Rightarrow> nat \<Rightarrow> nat \<Rightarrow> 'a board_scheme \<Rightarrow> ((int \<times> bytes) \<times> 'a board_scheme) option" where
  "write_field buf data_len addr s =
     do { (ret, s') \<leftarrow> ya_write_flash addr buf data_len 1 s;
          Some ((if ret \<noteq> C_OK then C_ERROR else C_OK, buf), s') }"

definition ya_write_check_aws_para_device_cert ::
    "(bytes \<Rightarrow> int) \<Rightarrow> bytes \<Rightarrow> nat \<Rightarrow> nat \<Rightarrow> 'a board_scheme \<Rightarrow>
     ((int \<times> bytes) \<times> 'a board_scheme) option" where
  "ya_write_check_aws_para_device_cert crt_parse buf data_len cert_addr s =
     do { buf \<leftarrow> wr buf data_len 0;
          src \<leftarrow> slice buf 0 (data_len + 1);
          if crt_parse src \<noteq> C_OK then Some ((C_ERROR, buf), s)
          else write_field buf data_len cert_addr s }"

definition ya_write_check_aws_para_device_rsa_private_key ::
    "(bytes \<Rightarrow> int) \<Rightarrow> bytes \<Rightarrow> nat \<Rightarrow> nat \<Rightarrow> 'a board_scheme \<Rightarrow>
     ((int \<times> bytes) \<times> 'a board_scheme) option" where
  "ya_write_check_aws_para_device_rsa_private_key pk_parse buf data_len private_key_addr s =
     do { buf \<leftarrow> wr buf data_len 0;
          src \<leftarrow> slice buf 0 (data_len + 1);
          if pk_parse src \<noteq> C_OK then Some ((C_ERROR, buf), s)
          else write_field buf data_len private_key_addr s }"

definition ya_write_check_aws_para_device_id ::
    "bytes \<Rightarrow> nat \<Rightarrow> nat \<Rightarrow> 'a board_scheme \<Rightarrow> ((int \<times> bytes) \<times> 'a board_scheme) option" where
  "ya_write_check_aws_para_device_id buf data_len device_id_addr s = write_field buf data_len device_id_addr s"

definition ya_write_check_aws_para_thing_type ::
    "bytes \<Rightarrow> nat \<Rightarrow> nat \<Rightarrow> 'a board_scheme \<Rightarrow> ((int \<times> bytes) \<times> 'a board_scheme) option" where
  "ya_write_check_aws_para_thing_type buf data_len thing_type_addr s = write_field buf data_len thing_type_addr s"

section \<open>The AWS fields in memory\<close>

definition ya_aws_para_free :: "'a cert_scheme \<Rightarrow> int \<times> 'a cert_scheme" where
  "ya_aws_para_free s =
     (0, s\<lparr>aws_certificateBuff := None, aws_privateKeyBuff := None, aws_client_id := None,
          aws_thing_type := None\<rparr>)"

text \<open>
  One block of \<open>ya_aws_para_init\<close>: a field that is already loaded is kept; otherwise allocate,
  clear and read it.  The flag says whether control goes on; the pointer is set either way.
\<close>

definition aws_load ::
    "bytes option \<Rightarrow> nat \<Rightarrow> (bytes \<Rightarrow> nat \<Rightarrow> 'a board_scheme \<Rightarrow> (int \<times> bytes) option) \<Rightarrow> nat \<Rightarrow>
     'a board_scheme \<Rightarrow> (bool \<times> bytes option) option" where
  "aws_load cur max_len reader addr s =
     (case cur of Some b \<Rightarrow> Some (True, Some b)
      | None \<Rightarrow>
          (case mem_alloc s max_len of None \<Rightarrow> Some (False, None)
           | Some b \<Rightarrow> do {
               b \<leftarrow> memset b 0 max_len;
               (ret, b) \<leftarrow> reader b addr s;
               Some (ret = C_OK, Some b)
             }))"

definition ya_aws_para_init :: "'a cert_scheme \<Rightarrow> (int \<times> 'a cert_scheme) option" where
  "ya_aws_para_init s =
     do { (ok, p) \<leftarrow> aws_load (aws_certificateBuff s) MAX_CERT_LEN ya_aws_read_check_device_cert
                      YA_LICENSE_DEVICE_CERT_ADDR s;
          let s = s\<lparr>aws_certificateBuff := p\<rparr> in
          if \<not> ok then Some (C_ERROR, snd (ya_aws_para_free s))
          else do {
            (ok, p) \<leftarrow> aws_load (aws_privateKeyBuff s) MAX_RSA_LEN ya_aws_read_check_device_rsa_private_key
                        YA_LICENSE_DEVICE_RSA_PRIVATE_KEY_ADDR s;
            let s = s\<lparr>aws_privateKeyBuff := p\<rparr> in
            if \<not> ok then Some (C_ERROR, snd (ya_aws_para_free s))
            else do {
              (ok, p) \<leftarrow> aws_load (aws_client_id s) MAX_CLIENT_ID_LEN ya_aws_read_check_device_id
                          YA_LICENSE_DEVICE_ID_ADDR s;
              let s = s\<lparr>aws_client_id := p\<rparr> in
              if \<not> ok then Some (C_ERROR, snd (ya_aws_para_free s))
              else do {
                (ok, p) \<leftarrow> aws_load (aws_thing_type s) MAX_THING_TYPE_LEN ya_aws_read_check_thing_type
                            YA_LICENSE_THING_TYPE_ADDR s;
                let s = s\<lparr>aws_thing_type := p\<rparr> in
                if \<not> ok then Some (C_ERROR, snd (ya_aws_para_free s))
                else Some (C_OK, s)
              }
            }
          } }"

definition ya_get_private_key :: "'a cert_scheme \<Rightarrow> bytes option" where
  "ya_get_private_key s = aws_privateKeyBuff s"
definition ya_get_client_cert :: "'a cert_scheme \<Rightarrow> bytes option" where
  "ya_get_client_cert s = aws_certificateBuff s"
definition ya_aws_get_client_id :: "'a cert_scheme \<Rightarrow> bytes option" where
  "ya_aws_get_client_id s = aws_client_id s"
definition ya_aws_get_thing_type :: "'a cert_scheme \<Rightarrow> bytes option" where
  "ya_aws_get_thing_type s = aws_thing_type s"

section \<open>The Aliyun triple\<close>

definition ya_read_aliyun_cert :: "nat \<Rightarrow> nat \<Rightarrow> 'a board_scheme \<Rightarrow> (int \<times> bytes) option" where
  "ya_read_aliyun_cert data_len aliyun_addr s = ya_read_flash_with_var_len aliyun_addr data_len 1 s"

text \<open>
  One field of the parse loop: \<open>Some None\<close> is the jump to \<open>err\<close>, \<open>Some (Some b)\<close> the block the
  pointer refers to afterwards.  An existing block is reused whatever its size.
\<close>

definition aliyun_store ::
    "bytes option \<Rightarrow> bytes \<Rightarrow> nat \<Rightarrow> nat \<Rightarrow> 'a board_scheme \<Rightarrow> bytes option option" where
  "aliyun_store cur buf index limit s =
     do { n \<leftarrow> rd buf index;
          if unat n > limit then Some None
          else case (case cur of None \<Rightarrow> mem_alloc s (unat n + 1) | Some b \<Rightarrow> Some b) of
            None \<Rightarrow> Some None
          | Some b \<Rightarrow> do {
              b \<leftarrow> memset b 0 (unat n + 1);
              v \<leftarrow> slice buf (index + 1) (unat n);
              b \<leftarrow> memcpy_at b 0 v;
              Some (Some b)
            } }"

function aliyun_parse ::
    "bytes \<Rightarrow> nat \<Rightarrow> nat \<Rightarrow> nat \<Rightarrow> 'a cert_scheme \<Rightarrow> (int \<times> 'a cert_scheme) option" where
  "aliyun_parse buf len index count s =
     (if index < len then
        (if count = 0 then do {
           r \<leftarrow> aliyun_store (aliyun_productkey s) buf index YA_PRODUCT_KEY_LEN s;
           case r of None \<Rightarrow> Some (C_ERROR, s)
           | Some b \<Rightarrow> aliyun_parse buf len (index + 1 + unat (buf ! index)) (count + 1)
                        (s\<lparr>aliyun_productkey := Some b\<rparr>) }
         else if count = 1 then do {
           r \<leftarrow> aliyun_store (aliyun_deviceid s) buf index YA_DEVICE_ID_LEN s;
           case r of None \<Rightarrow> Some (C_ERROR, s)
           | Some b \<Rightarrow> aliyun_parse buf len (index + 1 + unat (buf ! index)) (count + 1)
                        (s\<lparr>aliyun_deviceid := Some b\<rparr>) }
         else if count = 2 then do {
           r \<leftarrow> aliyun_store (aliyun_productsecret s) buf index YA_DEVICE_SECRET_LEN s;
           case r of None \<Rightarrow> Some (C_ERROR, s)
           | Some b \<Rightarrow> aliyun_parse buf len (index + 1 + unat (buf ! index)) (count + 1)
                        (s\<lparr>aliyun_productsecret := Some b\<rparr>) }
         else Some (C_OK, s))
      else Some (C_OK, s))"
  by pat_completeness auto
termination
  by (relation "measure (\<lambda>(buf, len, index, count, s). 3 - count)") auto

declare aliyun_parse.simps [simp del]

definition ya_read_parse_aliyun_cert :: "nat \<Rightarrow> 'a cert_scheme \<Rightarrow> (int \<times> 'a cert_scheme) option" where
  "ya_read_parse_aliyun_cert aliyun_addr s =
     (case mem_alloc s 1024 of None \<Rightarrow> Some (C_ERROR, s)
      | Some buf \<Rightarrow> do {
          buf \<leftarrow> memset buf 0 1024;
          (ret, payload) \<leftarrow> ya_read_flash_with_var_len aliyun_addr 1024 1 s;
          if ret \<noteq> C_OK \<or> length payload = 0 then Some (C_ERROR, s)
          else do {
            buf \<leftarrow> memcpy_at buf 0 payload;
            aliyun_parse buf (length payload) 0 0 s
          }
        })"

text \<open>The check of the fields' lengths before a triple is written: does the loop get through?\<close>

function aliyun_check :: "bytes \<Rightarrow> nat \<Rightarrow> nat \<Rightarrow> nat \<Rightarrow> bool option" where
  "aliyun_check buf len index count =
     (if index < len \<and> count \<le> 2 then do {
        n \<leftarrow> rd buf index;
        if unat n > (if count = 0 then YA_PRODUCT_KEY_LEN
                     else if count = 1 then YA_DEVICE_ID_LEN else YA_DEVICE_SECRET_LEN)
        then Some False
        else aliyun_check buf len (index + 1 + unat n) (count + 1) }
      else Some True)"
  by pat_completeness auto
termination
  by (relation "measure (\<lambda>(buf, len, index, count). 3 - count)") auto

declare aliyun_check.simps [simp del]

definition ya_write_aliyun_cert ::
    "bytes \<Rightarrow> nat \<Rightarrow> nat \<Rightarrow> 'a board_scheme \<Rightarrow> (int \<times> 'a board_scheme) option" where
  "ya_write_aliyun_cert buf data_len aliyun_addr s =
     do { ok \<leftarrow> aliyun_check buf data_len 0 0;
          if \<not> ok then Some (C_ERROR, s)
          else do { (ret, s') \<leftarrow> ya_write_flash aliyun_addr buf data_len 1 s;
                    Some (if ret \<noteq> C_OK then C_ERROR else C_OK, s') } }"

text \<open>The getters copy to the caller's array; the result is the returned length and the array.\<close>

definition get_field :: "bytes option \<Rightarrow> nat \<Rightarrow> bytes \<Rightarrow> (int \<times> bytes) option" where
  "get_field p max_len dst =
     (case p of
        Some b \<Rightarrow> do { dst \<leftarrow> strcpy dst b; n \<leftarrow> strlen dst; Some (int n, dst) }
      | None \<Rightarrow> do { dst \<leftarrow> memset dst 0 (max_len + 1); Some (0, dst) })"

definition ya_get_productKey :: "bytes \<Rightarrow> 'a cert_scheme \<Rightarrow> (int \<times> bytes) option" where
  "ya_get_productKey product_key s = get_field (aliyun_productkey s) YA_PRODUCT_KEY_LEN product_key"
definition ya_get_deviceID :: "bytes \<Rightarrow> 'a cert_scheme \<Rightarrow> (int \<times> bytes) option" where
  "ya_get_deviceID device_id s = get_field (aliyun_deviceid s) YA_DEVICE_ID_LEN device_id"
definition ya_get_deviceSecret :: "bytes \<Rightarrow> 'a cert_scheme \<Rightarrow> (int \<times> bytes) option" where
  "ya_get_deviceSecret device_secret s = get_field (aliyun_productsecret s) YA_DEVICE_SECRET_LEN device_secret"

definition ya_aliyun_para_init :: "'a cert_scheme \<Rightarrow> (int \<times> 'a cert_scheme) option" where
  "ya_aliyun_para_init s =
     (if aliyun_productkey s = None \<or> aliyun_deviceid s = None \<or> aliyun_productsecret s = None
      then ya_read_parse_aliyun_cert YA_LICENSE_ALIYUUN s
      else Some (0, s))"

definition ya_aliyun_para_free :: "'a cert_scheme \<Rightarrow> int \<times> 'a cert_scheme" where
  "ya_aliyun_para_free s =
     (0, s\<lparr>aliyun_productkey := None, aliyun_deviceid := None, aliyun_productsecret := None\<rparr>)"

section \<open>Licences set by test code\<close>

text \<open>Allocate when needed (without checking), clear, then copy the string.\<close>

definition obj_buf :: "bytes option \<Rightarrow> nat \<Rightarrow> 'a board_scheme \<Rightarrow> bytes option" where
  "obj_buf cur n s =
     do { b \<leftarrow> (case cur of Some b \<Rightarrow> Some b | None \<Rightarrow> mem_alloc s n); memset b 0 n }"

definition ya_test_akeeta_cn_with_obj_cert ::
    "bytes option \<Rightarrow> bytes option \<Rightarrow> bytes option \<Rightarrow> 'a cert_scheme \<Rightarrow> (int \<times> 'a cert_scheme) option" where
  "ya_test_akeeta_cn_with_obj_cert productkey deviceid secret s =
     (case (productkey, deviceid, secret) of
        (Some pk, Some di, Some se) \<Rightarrow> do {
          lp \<leftarrow> strlen pk; ld \<leftarrow> strlen di; ls \<leftarrow> strlen se;
          if lp > YA_PRODUCT_KEY_LEN \<or> ld > YA_DEVICE_ID_LEN \<or> ls > YA_DEVICE_SECRET_LEN
          then Some (C_ERROR, s)
          else do {
            p \<leftarrow> obj_buf (aliyun_productkey s) (YA_PRODUCT_KEY_LEN + 1) s;
            d \<leftarrow> obj_buf (aliyun_deviceid s) (YA_DEVICE_ID_LEN + 1) s;
            e \<leftarrow> obj_buf (aliyun_productsecret s) (YA_DEVICE_SECRET_LEN + 1) s;
            p \<leftarrow> strcpy p pk; d \<leftarrow> strcpy d di; e \<leftarrow> strcpy e se;
            Some (C_OK, s\<lparr>aliyun_productkey := Some p, aliyun_deviceid := Some d,
                          aliyun_productsecret := Some e\<rparr>)
          } }
      | _ \<Rightarrow> Some (C_ERROR, s))"

definition ya_test_akeeta_us_with_obj_cert ::
    "bytes option \<Rightarrow> bytes option \<Rightarrow> bytes option \<Rightarrow> bytes option \<Rightarrow> 'a cert_scheme \<Rightarrow>
     (int \<times> 'a cert_scheme) option" where
  "ya_test_akeeta_us_with_obj_cert certificateBuff privateKeyBuff client_id thing_type s =
     (case (certificateBuff, privateKeyBuff, client_id, thing_type) of
        (Some ce, Some pr, Some ci, Some tt) \<Rightarrow> do {
          c \<leftarrow> obj_buf (aws_certificateBuff s) MAX_CERT_LEN s;
          p \<leftarrow> obj_buf (aws_privateKeyBuff s) MAX_RSA_LEN s;
          i \<leftarrow> obj_buf (aws_client_id s) MAX_CLIENT_ID_LEN s;
          t \<leftarrow> obj_buf (aws_thing_type s) MAX_THING_TYPE_LEN s;
          c \<leftarrow> strcpy c ce; p \<leftarrow> strcpy p pr; i \<leftarrow> strcpy i ci; t \<leftarrow> strcpy t tt;
          Some (C_OK, s\<lparr>aws_certificateBuff := Some c, aws_privateKeyBuff := Some p,
                        aws_client_id := Some i, aws_thing_type := Some t\<rparr>)
        }
      | _ \<Rightarrow> Some (C_ERROR, s))"

definition ya_check_us_license_exit :: "'a cert_scheme \<Rightarrow> (int \<times> 'a cert_scheme) option" where
  "ya_check_us_license_exit s = ya_aws_para_init s"
definition ya_check_cn_license_exit :: "'a cert_scheme \<Rightarrow> (int \<times> 'a cert_scheme) option" where
  "ya_check_cn_license_exit s = ya_aliyun_para_init s"
definition ya_check_us_license_exit_internal :: "'a cert_scheme \<Rightarrow> int" where
  "ya_check_us_license_exit_internal s =
     (if aws_certificateBuff s = None \<or> aws_privateKeyBuff s = None \<or> aws_client_id s = None \<or>
         aws_thing_type s = None then -1 else 0)"
definition ya_check_cn_license_exit_internal :: "'a cert_scheme \<Rightarrow> int" where
  "ya_check_cn_license_exit_internal s =
     (if aliyun_productkey s = None \<or> aliyun_deviceid s = None \<or> aliyun_productsecret s = None
      then -1 else 0)"

section \<open>Facts on fields\<close>

lemma ya_write_flash_prefix: "ya_write_flash a (d @ r) (length d) fb s = ya_write_flash a d (length d) fb s"
proof -
  have sl: "slice (d @ r) 0 (length d) = slice d 0 (length d)" by (simp add: slice_def)
  then have sum: "ya_flash_checksum (d @ r) (length d) = ya_flash_checksum d (length d)"
    by (simp add: ya_flash_checksum_def)
  show ?thesis unfolding ya_write_flash_def sl sum ..
qed

lemma write_field_stores:
  assumes "board_ok s" and "a mod 4096 = 0" and "d \<noteq> []" and "length d \<le> 4086"
  obtains t where "write_field (d @ r) (length d) a s = Some ((C_OK, d @ r), t)" and "board_ok t"
    and "board.more t = board.more s" and "record_at t a d"
    and "\<forall>b e. record_at s b e \<longrightarrow> b mod 4096 = 0 \<longrightarrow> b \<noteq> a \<longrightarrow> length e \<le> 4086 \<longrightarrow> record_at t b e"
proof -
  from ya.put_holds [OF assms] obtain t where
    t: "ya_write_flash a d (length d) 1 s = Some (0, t)" "board_ok t" "board.more t = board.more s"
    "record_at t a d"
    "\<forall>b e. record_at s b e \<longrightarrow> b mod 4096 = 0 \<longrightarrow> b \<noteq> a \<longrightarrow> length e \<le> 4086 \<longrightarrow> record_at t b e"
    by blast
  show thesis using that [OF _ t(2-5)] t(1) by (simp add: write_field_def ya_write_flash_prefix C_OK_def)
qed

lemma memset_string:
  assumes "length v < length dst"
  shows "memset dst 0 (length v + 1) = Some (replicate (length v) 0 @ 0 # drop (length v + 1) dst)"
  using assms by (simp add: memset_Some Suc_le_eq replicate_append_same [symmetric])

lemma memcpy_string:
  "memcpy_at (replicate (length v) 0 @ 0 # r) 0 v = Some (v @ 0 # r)"
  by (simp add: memcpy_at_def)

lemma read_check_field_holds:
  assumes "board_ok s" and "record_at s a d" and "d \<noteq> []" and "length d < m" and "m \<le> 4087"
    and "length dst = m"
  shows "read_check_field m dst a s = Some (C_OK, d @ 0 # drop (length d + 1) dst)"
proof -
  obtain b where b: "mem_alloc s m = Some b" "length b = m" using mem_alloc_board_ok [OF assms(1)] .
  have "ya_read_flash_with_var_len a (m - 1) 1 s = Some (0, d)"
    using assms(3-5) by (intro ya.get_holds [OF assms(1,2)]) (auto simp: neq_Nil_conv)
  moreover have "memset b 0 m = Some (replicate m 0)" using b by (simp add: memset_Some)
  moreover have "memcpy_at (replicate m 0) 0 d = Some (d @ replicate (m - length d) 0)"
    using assms(4) by (simp add: memcpy_at_def)
  ultimately show ?thesis
    using b assms(3,4,6) memset_string [of d dst] memcpy_string [of d]
    by (simp add: read_check_field_def C_OK_def slice_def)
qed

lemma read_check_field_too_long:
  assumes "board_ok s" and "record_at s a d" and "m \<le> length d" and "length d \<le> 4086" and "1 < m"
  shows "read_check_field m dst a s = Some (C_ERROR, dst)"
proof -
  obtain b where b: "mem_alloc s m = Some b" "length b = m" using mem_alloc_board_ok [OF assms(1)] .
  have "le16 (of_nat (length d)) (of_nat (length d div 256)) = length d" using assms(4) by (intro le16_of_nat) simp
  moreover have "m - 1 < length d" "0 < m - 1" "m - 1 \<le> 4086" using assms(3-5) by auto
  ultimately have "ya_read_flash_with_var_len a (m - 1) 1 s = Some (-1, [])"
    using record_at_header [OF assms(2)]
    by (simp add: ya_read_flash_with_var_len_def ya_hal_flash_read_def spi.dread_eq Let_def MAX_DATA_LEN_def)
  moreover have "memset b 0 m = Some (replicate m 0)" using b(2) by (simp add: memset_Some)
  ultimately show ?thesis using b(1) by (simp add: read_check_field_def C_OK_def)
qed

lemma aws_load_holds:
  assumes "board_ok s" and "record_at s a d" and "d \<noteq> []" and "length d < m" and "m \<le> 4087"
  shows "aws_load None m (read_check_field m) a s = Some (True, Some (d @ replicate (m - length d) 0))"
proof -
  obtain b where b: "mem_alloc s m = Some b" "length b = m" using mem_alloc_board_ok [OF assms(1)] .
  have "0 # drop (length d + 1) (replicate m 0) = replicate (m - length d) (0 :: u8)"
    using assms(4) by (simp add: Suc_diff_Suc flip: replicate_Suc)
  with read_check_field_holds [OF assms, of "replicate m 0"] b show ?thesis
    by (simp add: aws_load_def memset_Some [THEN iffD2] C_OK_def)
qed

lemma aws_load_too_long:
  assumes "board_ok s" and "record_at s a d" and "m \<le> length d" and "length d \<le> 4086" and "1 < m"
  shows "aws_load None m (read_check_field m) a s = Some (False, Some (replicate m 0))"
proof -
  obtain b where "mem_alloc s m = Some b" "length b = m" using mem_alloc_board_ok [OF assms(1)] .
  with read_check_field_too_long [OF assms] show ?thesis by (simp add: aws_load_def memset_Some [THEN iffD2] C_OK_def C_ERROR_def)
qed

lemma aws_load_record:
  assumes "board_ok s" and "record_at s a d" and "d \<noteq> []" and "length d \<le> 4086" and "1 < m" and "m \<le> 4087"
  shows "\<exists>p. aws_load None m (read_check_field m) a s = Some (length d < m, Some p) \<and>
    (length d < m \<longrightarrow> p = d @ replicate (m - length d) 0)"
  using aws_load_holds [OF assms(1-3) _ assms(6)] aws_load_too_long [OF assms(1,2) _ assms(4,5)] by (cases "length d < m") auto

text \<open>Whatever is on flash, a reader stays inside buffers of the right size.\<close>

lemma ya_read_body_length: "ya_read_body a n s = Some (r, p) \<Longrightarrow> length p \<le> n"
  by (auto simp: ya_read_body_def Let_def slice_def split: option.splits prod.splits if_splits Option.bind_splits)

lemma ya_read_var_length: "ya_read_flash_with_var_len a n fb s = Some (r, p) \<Longrightarrow> length p \<le> n"
  by (auto simp: ya_read_flash_with_var_len_def Let_def split: prod.splits if_splits
      dest!: ya_read_body_length)

lemma read_check_field_total:
  assumes "length dst = m" and "0 < m" and "0 \<in> set dst"
  shows "\<exists>r d. read_check_field m dst a s = Some (r, d) \<and> length d = m \<and> 0 \<in> set d"
proof (cases "mem_alloc s m")
  case None
  then show ?thesis using assms by (simp add: read_check_field_def)
next
  case (Some b)
  then have b: "memset b 0 m = Some (replicate m 0)" by (simp add: memset_Some mem_alloc_length)
  obtain r p where p: "ya_read_flash_with_var_len a (m - 1) 1 s = Some (r, p)"
    using ya.get_total [of a "m - 1" s] by auto
  then have l: "length p < m" using ya_read_var_length [OF p] assms(2) by simp
  show ?thesis using assms Some b p l memset_string [of p dst] memcpy_string [of p]
    by (cases "r \<noteq> C_OK \<or> p = []")
      (auto simp: read_check_field_def memcpy_at_def [of "replicate _ _"] slice_def)
qed

text \<open>A loaded field has its full block and a terminating NUL.\<close>

definition sized :: "nat \<Rightarrow> bytes option \<Rightarrow> bool" where
  "sized m p \<longleftrightarrow> (case p of None \<Rightarrow> True | Some b \<Rightarrow> length b = m \<and> 0 \<in> set b)"

lemma aws_load_total:
  assumes "sized m cur" and "0 < m"
  obtains ok p where "aws_load cur m (read_check_field m) a s = Some (ok, p)" and "sized m p"
    and "ok \<Longrightarrow> p \<noteq> None"
proof (cases cur)
  case (Some b)
  with that [of True cur] assms show thesis by (simp add: aws_load_def)
next
  case None
  show thesis
  proof (cases "mem_alloc s m")
    case None
    with that [of False None] \<open>cur = None\<close> show thesis by (simp add: aws_load_def sized_def)
  next
    case (Some b)
    then have "memset b 0 m = Some (replicate m 0)" by (simp add: memset_Some mem_alloc_length)
    moreover obtain r d where "read_check_field m (replicate m 0) a s = Some (r, d)" "length d = m" "0 \<in> set d"
      using read_check_field_total [of "replicate m 0" m a s] assms(2) by auto
    ultimately show thesis using that [of "r = C_OK" "Some d"] \<open>cur = None\<close> Some
      by (simp add: aws_load_def sized_def)
  qed
qed

section \<open>Facts on the Aliyun triple\<close>

definition aliyun_tlv :: "bytes \<Rightarrow> bytes \<Rightarrow> bytes \<Rightarrow> bytes" where
  "aliyun_tlv k d e =
     of_nat (length k) # k @ of_nat (length d) # d @ of_nat (length e) # e"

lemma unat_of_nat_u8: "n < 256 \<Longrightarrow> unat (of_nat n :: u8) = n"
  by (simp add: unat_of_nat)

lemma aliyun_store_fresh:
  assumes "board_ok s" and "length pre = i" and "length v \<le> limit" and "limit < 256"
  shows "aliyun_store None (pre @ of_nat (length v) # v @ post) i limit s = Some (Some (v @ [0]))"
proof -
  obtain b where b: "mem_alloc s (length v + 1) = Some b" "length b = length v + 1"
    using mem_alloc_board_ok [OF assms(1)] .
  have n: "unat (of_nat (length v) :: u8) = length v" using assms(3,4) by (intro unat_of_nat_u8) simp
  have sl: "slice (pre @ of_nat (length v) # v @ post) (i + 1) (length v) = Some v"
    using assms(2) slice_append [of "pre @ [of_nat (length v)]" v post] by simp
  have rd: "rd (pre @ of_nat (length v) # v @ post) i = Some (of_nat (length v))"
    using assms(2) by (simp add: rd_Some nth_append)
  show ?thesis using assms(3) b memset_string [of v b] memcpy_string [of v "[]"]
    by (simp add: aliyun_store_def n sl [simplified] rd)
qed

lemma aliyun_parse_fields:
  fixes s :: "'a cert_scheme"
  assumes ok: "board_ok s" and "length k \<le> YA_PRODUCT_KEY_LEN" and "length d \<le> YA_DEVICE_ID_LEN"
    and "length e \<le> YA_DEVICE_SECRET_LEN"
    and fresh: "aliyun_productkey s = None" "aliyun_deviceid s = None" "aliyun_productsecret s = None"
  shows "aliyun_parse (aliyun_tlv k d e @ z) (length (aliyun_tlv k d e)) 0 0 s =
    Some (C_OK, s\<lparr>aliyun_productkey := Some (k @ [0]), aliyun_deviceid := Some (d @ [0]),
                  aliyun_productsecret := Some (e @ [0])\<rparr>)"
proof -
  let ?k = "of_nat (length k) # k" and ?d = "of_nat (length d) # d" and ?e = "of_nat (length e) # e"
  let ?b = "aliyun_tlv k d e @ z"
  note lens = assms(2-4) [unfolded aliyun_max]
  have n: "unat (of_nat (length k) :: u8) = length k" "unat (of_nat (length d) :: u8) = length d"
    "unat (of_nat (length e) :: u8) = length e" using lens by (auto intro!: unat_of_nat_u8)
  have st: "board_ok (s\<lparr>aliyun_productkey := x\<rparr>)" "board_ok (s\<lparr>aliyun_productkey := x, aliyun_deviceid := y\<rparr>)"
    for x y using ok by (simp_all add: board_ok_def chip_ready_def)
  have b: "?b = [] @ of_nat (length k) # k @ (?d @ ?e @ z)" "?b = ?k @ of_nat (length d) # d @ (?e @ z)"
    "?b = (?k @ ?d) @ of_nat (length e) # e @ z" by (simp_all add: aliyun_tlv_def)
  have s1: "aliyun_store None ?b 0 YA_PRODUCT_KEY_LEN s = Some (Some (k @ [0]))"
    unfolding b(1) using ok lens by (intro aliyun_store_fresh) (simp_all add: aliyun_max)
  have s2: "aliyun_store None ?b (length ?k) YA_DEVICE_ID_LEN (s\<lparr>aliyun_productkey := x\<rparr>) = Some (Some (d @ [0]))" for x
    unfolding b(2) using st lens by (intro aliyun_store_fresh) (simp_all add: aliyun_max)
  have s3: "aliyun_store None ?b (length (?k @ ?d)) YA_DEVICE_SECRET_LEN (s\<lparr>aliyun_productkey := x, aliyun_deviceid := y\<rparr>) =
      Some (Some (e @ [0]))" for x y
    unfolding b(3) using st lens by (intro aliyun_store_fresh) (simp_all add: aliyun_max)
  have i: "?b ! 0 = of_nat (length k)" "?b ! length ?k = of_nat (length d)" "?b ! length (?k @ ?d) = of_nat (length e)"
    using nth_append_length [of ?k] nth_append_length [of "?k @ ?d"]
    by (simp_all only: b(1), simp_all only: b(2-3)) (simp_all add: nth_append)
  show ?thesis using fresh s1 s2 s3 i n
    by (simp add: aliyun_parse.simps [of _ _ 0 0] aliyun_parse.simps [of _ _ _ "Suc 0"]
        aliyun_parse.simps [of _ _ _ "Suc (Suc 0)"] aliyun_parse.simps [of _ _ _ "Suc (Suc (Suc 0))"]
        aliyun_tlv_def)
qed

lemma aliyun_check_tlv:
  assumes "length k \<le> YA_PRODUCT_KEY_LEN" and "length d \<le> YA_DEVICE_ID_LEN"
    and "length e \<le> YA_DEVICE_SECRET_LEN"
  shows "aliyun_check (aliyun_tlv k d e) (length (aliyun_tlv k d e)) 0 0 = Some True"
proof -
  let ?k = "of_nat (length k) # k" and ?d = "of_nat (length d) # d" and ?e = "of_nat (length e) # e"
  note lens = assms [unfolded aliyun_max]
  have n: "unat (of_nat (length k) :: u8) = length k" "unat (of_nat (length d) :: u8) = length d"
    "unat (of_nat (length e) :: u8) = length e" using lens by (auto intro!: unat_of_nat_u8)
  have r: "rd (aliyun_tlv k d e) 0 = Some (of_nat (length k))"
    "rd (aliyun_tlv k d e) (Suc (length k)) = Some (of_nat (length d))"
    "rd (aliyun_tlv k d e) (Suc (Suc (length k + length d))) = Some (of_nat (length e))"
    by (simp_all add: aliyun_tlv_def rd_Some nth_append)
  show ?thesis using assms
    by (simp add: aliyun_check.simps [of _ _ 0 0] aliyun_check.simps [of _ _ _ "Suc 0"] r n
        aliyun_check.simps [of _ _ _ "Suc (Suc 0)"] aliyun_check.simps [of _ _ _ "Suc (Suc (Suc 0))"])
qed

lemma read_parse_run:
  assumes "board_ok s" and "record_at s a d" and "d \<noteq> []" and "length d \<le> 1024"
  shows "ya_read_parse_aliyun_cert a s = aliyun_parse (d @ replicate (1024 - length d) 0) (length d) 0 0 s"
proof -
  obtain b where b: "mem_alloc s 1024 = Some b" "length b = 1024" using mem_alloc_board_ok [OF assms(1)] .
  have "ya_read_flash_with_var_len a 1024 1 s = Some (0, d)"
    using assms(3,4) by (intro ya.get_holds [OF assms(1,2)]) auto
  moreover have "memset b 0 1024 = Some (replicate 1024 0)" using b by (simp add: memset_Some)
  moreover have "memcpy_at (replicate 1024 0) 0 d = Some (d @ replicate (1024 - length d) 0)"
    using assms(4) by (simp add: memcpy_at_def)
  ultimately show ?thesis using b assms(3) by (simp add: ya_read_parse_aliyun_cert_def C_OK_def)
qed

lemma aliyun_tlv_length [simp]: "length (aliyun_tlv k d e) = length k + length d + length e + 3"
  by (simp add: aliyun_tlv_def)

lemma get_field_string:
  assumes "p = Some (v @ [0])" and "0 \<notin> set v" and "length v \<le> m" and "length dst = m + 1"
  shows "get_field p m dst = Some (int (length v), v @ 0 # drop (length v + 1) dst)"
proof -
  have "cstr (v @ [0]) = Some v" "cstr (v @ 0 # drop (length v + 1) dst) = Some v"
    using assms(2) by (simp_all add: cstr_append_nul)
  then have "strcpy dst (v @ [0]) = Some (v @ 0 # drop (length v + 1) dst)"
    "strlen (v @ 0 # drop (length v + 1) dst) = Some (length v)"
    using assms(3,4) by (simp_all add: strcpy_Some strlen_def)
  with assms(1) show ?thesis by (simp add: get_field_def)
qed

definition aws_sized :: "'a cert_scheme \<Rightarrow> bool" where
  "aws_sized s \<longleftrightarrow> sized MAX_CERT_LEN (aws_certificateBuff s) \<and> sized MAX_RSA_LEN (aws_privateKeyBuff s) \<and>
     sized MAX_CLIENT_ID_LEN (aws_client_id s) \<and> sized MAX_THING_TYPE_LEN (aws_thing_type s)"

definition aws_fields :: "'a cert_scheme \<Rightarrow> bytes option list" where
  "aws_fields s = [aws_certificateBuff s, aws_privateKeyBuff s, aws_client_id s, aws_thing_type s]"

lemmas aws_readers = ya_aws_read_check_device_cert_def ya_aws_read_check_device_rsa_private_key_def
  ya_aws_read_check_device_id_def ya_aws_read_check_thing_type_def

lemma aws_readers_eq:
  "ya_aws_read_check_device_cert = read_check_field MAX_CERT_LEN"
  "ya_aws_read_check_device_rsa_private_key = read_check_field MAX_RSA_LEN"
  "ya_aws_read_check_device_id = read_check_field MAX_CLIENT_ID_LEN"
  "ya_aws_read_check_thing_type = read_check_field MAX_THING_TYPE_LEN"
  by (simp_all add: fun_eq_iff aws_readers)

lemma aws_init_run:
  assumes "aws_sized s"
  shows "\<exists>r t. ya_aws_para_init s = Some (r, t) \<and> aws_sized t \<and> fl_mem t = fl_mem s \<and>
    (r = C_OK \<and> None \<notin> set (aws_fields t) \<or> r = C_ERROR \<and> set (aws_fields t) = {None})"
proof -
  have pos: "0 < MAX_CERT_LEN" "0 < MAX_RSA_LEN" "0 < MAX_CLIENT_ID_LEN" "0 < MAX_THING_TYPE_LEN"
    by (simp_all add: cert_max)
  have sz: "sized MAX_CERT_LEN (aws_certificateBuff s)" "sized MAX_RSA_LEN (aws_privateKeyBuff s)"
    "sized MAX_CLIENT_ID_LEN (aws_client_id s)" "sized MAX_THING_TYPE_LEN (aws_thing_type s)"
    using assms by (simp_all add: aws_sized_def)
  obtain k1 p1 where 1: "aws_load (aws_certificateBuff s) MAX_CERT_LEN (read_check_field MAX_CERT_LEN)
      YA_LICENSE_DEVICE_CERT_ADDR s = Some (k1, p1)" "sized MAX_CERT_LEN p1" "k1 \<Longrightarrow> p1 \<noteq> None"
    using aws_load_total [OF sz(1) pos(1)] by blast
  define s1 where "s1 = s\<lparr>aws_certificateBuff := p1\<rparr>"
  obtain k2 p2 where 2: "aws_load (aws_privateKeyBuff s) MAX_RSA_LEN (read_check_field MAX_RSA_LEN)
      YA_LICENSE_DEVICE_RSA_PRIVATE_KEY_ADDR s1 = Some (k2, p2)" "sized MAX_RSA_LEN p2" "k2 \<Longrightarrow> p2 \<noteq> None"
    using aws_load_total [OF sz(2) pos(2)] by blast
  define s2 where "s2 = s1\<lparr>aws_privateKeyBuff := p2\<rparr>"
  obtain k3 p3 where 3: "aws_load (aws_client_id s) MAX_CLIENT_ID_LEN (read_check_field MAX_CLIENT_ID_LEN)
      YA_LICENSE_DEVICE_ID_ADDR s2 = Some (k3, p3)" "sized MAX_CLIENT_ID_LEN p3" "k3 \<Longrightarrow> p3 \<noteq> None"
    using aws_load_total [OF sz(3) pos(3)] by blast
  define s3 where "s3 = s2\<lparr>aws_client_id := p3\<rparr>"
  obtain k4 p4 where 4: "aws_load (aws_thing_type s) MAX_THING_TYPE_LEN (read_check_field MAX_THING_TYPE_LEN)
      YA_LICENSE_THING_TYPE_ADDR s3 = Some (k4, p4)" "sized MAX_THING_TYPE_LEN p4" "k4 \<Longrightarrow> p4 \<noteq> None"
    using aws_load_total [OF sz(4) pos(4)] by blast
  show ?thesis using 1 2 3 4 sz
    by (cases k1; cases k2; cases k3; cases k4)
      (auto simp: ya_aws_para_init_def aws_readers_eq s1_def s2_def s3_def ya_aws_para_free_def
        aws_sized_def aws_fields_def sized_def)
qed

lemma aws_upd:
  "(t\<lparr>aws_certificateBuff := a, aws_privateKeyBuff := b, aws_client_id := c, aws_thing_type := d\<rparr>)
     \<lparr>aws_certificateBuff := aws_certificateBuff t, aws_privateKeyBuff := aws_privateKeyBuff t,
      aws_client_id := aws_client_id t, aws_thing_type := aws_thing_type t\<rparr> = t"
  by simp

lemma aws_init_frame:
  assumes "ya_aws_para_init s = Some (r, t)"
  shows "\<exists>a b c d. t = s\<lparr>aws_certificateBuff := a, aws_privateKeyBuff := b, aws_client_id := c, aws_thing_type := d\<rparr>"
proof -
  have "t\<lparr>aws_certificateBuff := aws_certificateBuff s, aws_privateKeyBuff := aws_privateKeyBuff s,
      aws_client_id := aws_client_id s, aws_thing_type := aws_thing_type s\<rparr> = s"
    using assms by (auto simp: ya_aws_para_init_def ya_aws_para_free_def Let_def split: Option.bind_splits if_splits)
  then have "t = s\<lparr>aws_certificateBuff := aws_certificateBuff t, aws_privateKeyBuff := aws_privateKeyBuff t,
      aws_client_id := aws_client_id t, aws_thing_type := aws_thing_type t\<rparr>" by (metis (no_types) aws_upd)
  then show ?thesis by blast
qed

text \<open>Loading the triple into fresh pointers is defined whatever the flash holds.\<close>

lemma aliyun_store_total:
  assumes "length buf = 1024" and "i + limit < 1024"
  obtains r n where "aliyun_store None buf i limit s = Some r" and "r \<noteq> None \<longrightarrow> unat (buf ! i) \<le> limit"
proof (cases "unat (buf ! i) > limit")
  case True
  then show thesis using that [of None] assms by (simp add: aliyun_store_def rd_def)
next
  case False
  show thesis
  proof (cases "mem_alloc s (unat (buf ! i) + 1)")
    case None
    then show thesis using that [of None] assms False by (simp add: aliyun_store_def rd_def)
  next
    case (Some b)
    have sl: "slice buf (i + 1) (unat (buf ! i)) = Some (take (unat (buf ! i)) (drop (i + 1) buf))" (is "_ = Some ?v")
      using assms False by (simp add: slice_def)
    have v: "length ?v = unat (buf ! i)" using assms False by simp
    have b: "length ?v < length b" using mem_alloc_length [OF Some] v by simp
    have "aliyun_store None buf i limit s = Some (Some (?v @ 0 # drop (length ?v + 1) b))"
      using assms False Some sl memset_string [OF b] memcpy_string [of ?v "drop (length ?v + 1) b"] v
      by (simp add: aliyun_store_def rd_def)
    then show thesis using that False by simp
  qed
qed

lemma aliyun_parse_total:
  assumes "length buf = 1024" and "aliyun_productkey s = None" and "aliyun_deviceid s = None" and "aliyun_productsecret s = None"
  shows "\<exists>r a b c. aliyun_parse buf len 0 0 s =
     Some (r, s\<lparr>aliyun_productkey := a, aliyun_deviceid := b, aliyun_productsecret := c\<rparr>)"
proof -
  have null: "\<exists>z. s\<lparr>aliyun_productkey := a, aliyun_deviceid := b\<rparr> =
      s\<lparr>aliyun_productkey := a, aliyun_deviceid := b, aliyun_productsecret := z\<rparr>"
    "\<exists>y z. s\<lparr>aliyun_productkey := a\<rparr> = s\<lparr>aliyun_productkey := a, aliyun_deviceid := y, aliyun_productsecret := z\<rparr>"
    "\<exists>x y z. s = s\<lparr>aliyun_productkey := x, aliyun_deviceid := y, aliyun_productsecret := z\<rparr>" for a b
    by (cases s, simp)+
  have then_secret: "\<exists>r c'. aliyun_parse buf len i 2 (s\<lparr>aliyun_productkey := a, aliyun_deviceid := b\<rparr>) =
      Some (r, s\<lparr>aliyun_productkey := a, aliyun_deviceid := b, aliyun_productsecret := c'\<rparr>)" if "i \<le> 54" for i a b
  proof -
    have "i + YA_DEVICE_SECRET_LEN < 1024" using that by (simp add: aliyun_max)
    then obtain x where x: "aliyun_store None buf i YA_DEVICE_SECRET_LEN (s\<lparr>aliyun_productkey := a, aliyun_deviceid := b\<rparr>) = Some x"
      using aliyun_store_total [OF assms(1)] by blast
    then show ?thesis using assms(4)
      by (cases x) (auto simp: aliyun_parse.simps [of _ _ _ 2] aliyun_parse.simps [of _ _ _ 3] intro: null)
  qed
  have then_id: "\<exists>r b' c'. aliyun_parse buf len i 1 (s\<lparr>aliyun_productkey := a\<rparr>) =
      Some (r, s\<lparr>aliyun_productkey := a, aliyun_deviceid := b', aliyun_productsecret := c'\<rparr>)" if "i \<le> 21" for i a
  proof -
    have "i + YA_DEVICE_ID_LEN < 1024" using that by (simp add: aliyun_max)
    then obtain x where x: "aliyun_store None buf i YA_DEVICE_ID_LEN (s\<lparr>aliyun_productkey := a\<rparr>) = Some x"
      "x \<noteq> None \<longrightarrow> unat (buf ! i) \<le> YA_DEVICE_ID_LEN" using aliyun_store_total [OF assms(1)] by blast
    show ?thesis
    proof (cases x)
      case None
      with x assms(3,4) show ?thesis by (auto simp: aliyun_parse.simps [of _ _ _ "Suc 0"] intro: null)
    next
      case (Some y)
      have "i + 1 + unat (buf ! i) \<le> 54" using x Some that by (simp add: aliyun_max)
      from then_secret [OF this, where a = a and b = "Some y"] x Some assms(3,4) show ?thesis
        by (auto simp: aliyun_parse.simps [of _ _ i "Suc 0"] numeral_2_eq_2 intro: null)
    qed
  qed
  have "0 + YA_PRODUCT_KEY_LEN < 1024" by (simp add: aliyun_max)
  then obtain x where x: "aliyun_store None buf 0 YA_PRODUCT_KEY_LEN s = Some x"
    "x \<noteq> None \<longrightarrow> unat (buf ! 0) \<le> YA_PRODUCT_KEY_LEN" using aliyun_store_total [OF assms(1)] by blast
  show ?thesis
  proof (cases x)
    case None
    with x assms show ?thesis by (auto simp: aliyun_parse.simps [of _ _ _ 0] intro: null)
  next
    case (Some y)
    have "1 + unat (buf ! 0) \<le> 21" using x Some by (simp add: aliyun_max)
    from then_id [OF this, where a = "Some y"] x Some assms show ?thesis
      by (auto simp: aliyun_parse.simps [of _ _ 0 0] intro: null)
  qed
qed

lemma aliyun_init_fresh:
  assumes "aliyun_productkey s = None" and "aliyun_deviceid s = None" and "aliyun_productsecret s = None"
  shows "\<exists>r a b c. ya_aliyun_para_init s =
     Some (r, s\<lparr>aliyun_productkey := a, aliyun_deviceid := b, aliyun_productsecret := c\<rparr>)"
proof -
  have null: "\<exists>x y z. s = s\<lparr>aliyun_productkey := x, aliyun_deviceid := y, aliyun_productsecret := z\<rparr>"
    by (cases s) simp
  show ?thesis
  proof (cases "mem_alloc s 1024")
    case None
    then show ?thesis using assms null by (simp add: ya_aliyun_para_init_def ya_read_parse_aliyun_cert_def)
  next
    case (Some b)
    then have m: "memset b 0 1024 = Some (replicate 1024 0)" by (simp add: memset_Some mem_alloc_length)
    obtain r p where p: "ya_read_flash_with_var_len YA_LICENSE_ALIYUUN 1024 1 s = Some (r, p)" "length p \<le> 1024"
      using ya.get_total [of YA_LICENSE_ALIYUUN 1024 s] ya_read_var_length by fastforce
    have "memcpy_at (replicate 1024 0) 0 p = Some (p @ replicate (1024 - length p) 0)"
      using p(2) by (simp add: memcpy_at_def)
    moreover have "length (p @ replicate (1024 - length p) 0) = 1024" using p(2) by simp
    note aliyun_parse_total [OF this assms, of "length p"]
    ultimately show ?thesis using assms null Some m p(1)
      by (auto simp: ya_aliyun_para_init_def ya_read_parse_aliyun_cert_def)
  qed
qed

section \<open>Properties\<close>

text \<open>C21: \<open>ya_aws_para_init\<close> is all or nothing.  From a state whose loaded fields have their full
  block size it never leaves its buffers; when it returns \<open>C_OK\<close> all four fields are loaded and
  when it returns \<open>C_ERROR\<close> none is; every loaded block has its size and a terminating NUL, and the flash
  is not written.\<close>

theorem aws_init_all_or_nothing:
  assumes "aws_sized s"
  shows "\<exists>r t. ya_aws_para_init s = Some (r, t) \<and> aws_sized t \<and> fl_mem t = fl_mem s \<and>
    (r = C_OK \<and> None \<notin> set (aws_fields t) \<or> r = C_ERROR \<and> set (aws_fields t) = {None})"
  using aws_init_run [OF assms] .

definition cert_demo :: cert where
  "cert_demo = \<lparr>fl_mem = (\<lambda>_. 0xFF), fl_rsp = [], heap = (\<lambda>_. Some (\<lambda>_. 0xCD)), ret_reg = 0,
     aws_certificateBuff = None, aws_privateKeyBuff = None, aws_client_id = None, aws_thing_type = None,
     aliyun_productkey = None, aliyun_deviceid = None, aliyun_productsecret = None\<rparr>"

lemma cert_demo_ok: "board_ok cert_demo"
  by (simp add: board_ok_def cert_demo_def chip_ready_def)

theorem aws_init_all_or_nothing_witness:
  "\<exists>r t. ya_aws_para_init cert_demo = Some (r, t) \<and> aws_sized t \<and>
     (r = C_OK \<and> None \<notin> set (aws_fields t) \<or> r = C_ERROR \<and> set (aws_fields t) = {None})"
proof -
  have "aws_sized cert_demo" by (simp add: aws_sized_def sized_def cert_demo_def)
  from aws_init_all_or_nothing [OF this] show ?thesis by blast
qed

lemma cert_more:
  assumes "board.more s = board.more (t :: 'a cert_scheme)"
  shows "aws_fields s = aws_fields t"
    and "aliyun_productkey s = aliyun_productkey t" and "aliyun_deviceid s = aliyun_deviceid t"
    and "aliyun_productsecret s = aliyun_productsecret t"
  using assms by (cases s, cases t, simp add: aws_fields_def)+

definition aws_fits :: "bytes \<Rightarrow> bytes \<Rightarrow> bytes \<Rightarrow> bytes \<Rightarrow> bool" where
  "aws_fits c k i y \<longleftrightarrow> length c < MAX_CERT_LEN \<and> length k < MAX_RSA_LEN \<and> length i < MAX_CLIENT_ID_LEN \<and> length y < MAX_THING_TYPE_LEN"

lemma aws_init_loads:
  fixes s :: "'a cert_scheme"
  assumes "board_ok s" and "set (aws_fields s) = {None}"
    and "record_at s YA_LICENSE_DEVICE_CERT_ADDR c" and "c \<noteq> []" and "length c \<le> 4086"
    and "record_at s YA_LICENSE_DEVICE_RSA_PRIVATE_KEY_ADDR k" and "k \<noteq> []" and "length k \<le> 4086"
    and "record_at s YA_LICENSE_DEVICE_ID_ADDR i" and "i \<noteq> []" and "length i \<le> 4086"
    and "record_at s YA_LICENSE_THING_TYPE_ADDR y" and "y \<noteq> []" and "length y \<le> 4086"
  shows "\<exists>t. ya_aws_para_init s = Some (if aws_fits c k i y then C_OK else C_ERROR, t) \<and>
    aws_fields t = (if aws_fits c k i y
      then [Some (c @ replicate (MAX_CERT_LEN - length c) 0), Some (k @ replicate (MAX_RSA_LEN - length k) 0),
            Some (i @ replicate (MAX_CLIENT_ID_LEN - length i) 0), Some (y @ replicate (MAX_THING_TYPE_LEN - length y) 0)]
      else [None, None, None, None])"
proof -
  have null: "aws_certificateBuff s = None" "aws_privateKeyBuff s = None" "aws_client_id s = None" "aws_thing_type s = None"
    using assms(2) by (auto simp: aws_fields_def)
  have up: "board_ok (s\<lparr>aws_certificateBuff := p\<rparr>)" "board_ok (s\<lparr>aws_certificateBuff := p, aws_privateKeyBuff := q\<rparr>)"
    "board_ok (s\<lparr>aws_certificateBuff := p, aws_privateKeyBuff := q, aws_client_id := r\<rparr>)"
    "record_at (s\<lparr>aws_certificateBuff := p\<rparr>) a d = record_at s a d"
    "record_at (s\<lparr>aws_certificateBuff := p, aws_privateKeyBuff := q\<rparr>) a d = record_at s a d"
    "record_at (s\<lparr>aws_certificateBuff := p, aws_privateKeyBuff := q, aws_client_id := r\<rparr>) a d = record_at s a d"
    for p q r a d using assms(1) by (simp_all add: board_ok_def chip_ready_def record_at_def)
  have max: "1 < MAX_CERT_LEN" "MAX_CERT_LEN \<le> 4087" "1 < MAX_RSA_LEN" "MAX_RSA_LEN \<le> 4087"
    "1 < MAX_CLIENT_ID_LEN" "MAX_CLIENT_ID_LEN \<le> 4087" "1 < MAX_THING_TYPE_LEN" "MAX_THING_TYPE_LEN \<le> 4087"
    by (simp_all add: cert_max)
  obtain p where p: "aws_load None MAX_CERT_LEN (read_check_field MAX_CERT_LEN) YA_LICENSE_DEVICE_CERT_ADDR s =
      Some (length c < MAX_CERT_LEN, Some p)" "length c < MAX_CERT_LEN \<longrightarrow> p = c @ replicate (MAX_CERT_LEN - length c) 0"
    using aws_load_record [OF assms(1,3-5) max(1,2)] by blast
  let ?s = "s\<lparr>aws_certificateBuff := Some p\<rparr>"
  obtain q where q: "aws_load None MAX_RSA_LEN (read_check_field MAX_RSA_LEN) YA_LICENSE_DEVICE_RSA_PRIVATE_KEY_ADDR ?s =
      Some (length k < MAX_RSA_LEN, Some q)" "length k < MAX_RSA_LEN \<longrightarrow> q = k @ replicate (MAX_RSA_LEN - length k) 0"
    using aws_load_record [OF up(1) _ assms(7,8) max(3,4), unfolded up(4), OF assms(6)] by blast
  let ?t = "?s\<lparr>aws_privateKeyBuff := Some q\<rparr>"
  obtain r where r: "aws_load None MAX_CLIENT_ID_LEN (read_check_field MAX_CLIENT_ID_LEN) YA_LICENSE_DEVICE_ID_ADDR ?t =
      Some (length i < MAX_CLIENT_ID_LEN, Some r)" "length i < MAX_CLIENT_ID_LEN \<longrightarrow> r = i @ replicate (MAX_CLIENT_ID_LEN - length i) 0"
    using aws_load_record [OF up(2) _ assms(10,11) max(5,6), unfolded up(5), OF assms(9)] by blast
  let ?u = "?t\<lparr>aws_client_id := Some r\<rparr>"
  obtain v where v: "aws_load None MAX_THING_TYPE_LEN (read_check_field MAX_THING_TYPE_LEN) YA_LICENSE_THING_TYPE_ADDR ?u =
      Some (length y < MAX_THING_TYPE_LEN, Some v)" "length y < MAX_THING_TYPE_LEN \<longrightarrow> v = y @ replicate (MAX_THING_TYPE_LEN - length y) 0"
    using aws_load_record [OF up(3) _ assms(13,14) max(7,8), unfolded up(6), OF assms(12)] by blast
  have "\<exists>t. ya_aws_para_init s = Some (if aws_fits c k i y then C_OK else C_ERROR, t) \<and>
    aws_fields t = (if aws_fits c k i y then [Some p, Some q, Some r, Some v] else [None, None, None, None])"
    by (cases "length c < MAX_CERT_LEN"; cases "length k < MAX_RSA_LEN"; cases "length i < MAX_CLIENT_ID_LEN";
        simp add: ya_aws_para_init_def aws_readers_eq null p(1) q(1) r(1) v(1) aws_fields_def aws_fits_def ya_aws_para_free_def)
  with p(2) q(2) r(2) v(2) show ?thesis by (auto simp: aws_fits_def)
qed

text \<open>C22: provisioning and boot agree on the AWS licence.  The four writers accept a certificate, a private key (both
  accepted by the mbedTLS parsers), a client id and a thing type of up to 4086 bytes each.  When each is shorter than the
  buffer the boot reserves for it, \<open>ya_aws_para_init\<close> then loads exactly these four strings; when one is not, it fails and
  loads none.\<close>

theorem aws_licence_roundtrip:
  fixes s :: "'a cert_scheme"
  assumes "board_ok s" and "set (aws_fields s) = {None}"
    and "crt_parse (c @ [0]) = C_OK" and "c \<noteq> []" and "length c \<le> 4086"
    and "pk_parse (k @ [0]) = C_OK" and "k \<noteq> []" and "length k \<le> 4086"
    and "i \<noteq> []" and "length i \<le> 4086" and "y \<noteq> []" and "length y \<le> 4086"
  shows "\<exists>s1 s2 s3 s4 t.
    ya_write_check_aws_para_device_cert crt_parse (c @ [0xFF]) (length c) YA_LICENSE_DEVICE_CERT_ADDR s =
      Some ((C_OK, c @ [0]), s1) \<and>
    ya_write_check_aws_para_device_rsa_private_key pk_parse (k @ [0xFF]) (length k)
      YA_LICENSE_DEVICE_RSA_PRIVATE_KEY_ADDR s1 = Some ((C_OK, k @ [0]), s2) \<and>
    ya_write_check_aws_para_device_id i (length i) YA_LICENSE_DEVICE_ID_ADDR s2 = Some ((C_OK, i), s3) \<and>
    ya_write_check_aws_para_thing_type y (length y) YA_LICENSE_THING_TYPE_ADDR s3 = Some ((C_OK, y), s4) \<and>
    (if length c < MAX_CERT_LEN \<and> length k < MAX_RSA_LEN \<and> length i < MAX_CLIENT_ID_LEN \<and> length y < MAX_THING_TYPE_LEN
     then ya_aws_para_init s4 = Some (C_OK, t) \<and>
       ya_get_client_cert t = Some (c @ replicate (MAX_CERT_LEN - length c) 0) \<and>
       ya_get_private_key t = Some (k @ replicate (MAX_RSA_LEN - length k) 0) \<and>
       ya_aws_get_client_id t = Some (i @ replicate (MAX_CLIENT_ID_LEN - length i) 0) \<and>
       ya_aws_get_thing_type t = Some (y @ replicate (MAX_THING_TYPE_LEN - length y) 0)
     else ya_aws_para_init s4 = Some (C_ERROR, t) \<and> set (aws_fields t) = {None})"
proof -
  have al: "YA_LICENSE_DEVICE_CERT_ADDR mod 4096 = 0" "YA_LICENSE_DEVICE_RSA_PRIVATE_KEY_ADDR mod 4096 = 0"
    "YA_LICENSE_DEVICE_ID_ADDR mod 4096 = 0" "YA_LICENSE_THING_TYPE_ADDR mod 4096 = 0" by (simp_all add: cert_addrs)
  have l: "length c \<le> 4086" "length k \<le> 4086" "length i \<le> 4086" "length y \<le> 4086" using assms by simp_all
  have ne: "YA_LICENSE_DEVICE_CERT_ADDR \<noteq> YA_LICENSE_DEVICE_RSA_PRIVATE_KEY_ADDR"
    "YA_LICENSE_DEVICE_CERT_ADDR \<noteq> YA_LICENSE_DEVICE_ID_ADDR" "YA_LICENSE_DEVICE_CERT_ADDR \<noteq> YA_LICENSE_THING_TYPE_ADDR"
    "YA_LICENSE_DEVICE_RSA_PRIVATE_KEY_ADDR \<noteq> YA_LICENSE_DEVICE_ID_ADDR"
    "YA_LICENSE_DEVICE_RSA_PRIVATE_KEY_ADDR \<noteq> YA_LICENSE_THING_TYPE_ADDR"
    "YA_LICENSE_DEVICE_ID_ADDR \<noteq> YA_LICENSE_THING_TYPE_ADDR" by (simp_all add: cert_addrs)
  obtain s1 where w1: "write_field (c @ [0]) (length c) YA_LICENSE_DEVICE_CERT_ADDR s = Some ((C_OK, c @ [0]), s1)"
    "board_ok s1" "board.more s1 = board.more s" "record_at s1 YA_LICENSE_DEVICE_CERT_ADDR c"
    by (rule write_field_stores [OF assms(1) al(1) assms(4) l(1), of "[0]"])
  obtain s2 where w2: "write_field (k @ [0]) (length k) YA_LICENSE_DEVICE_RSA_PRIVATE_KEY_ADDR s1 = Some ((C_OK, k @ [0]), s2)"
    "board_ok s2" "board.more s2 = board.more s1" "record_at s2 YA_LICENSE_DEVICE_RSA_PRIVATE_KEY_ADDR k"
    "\<forall>b e. record_at s1 b e \<longrightarrow> b mod 4096 = 0 \<longrightarrow> b \<noteq> YA_LICENSE_DEVICE_RSA_PRIVATE_KEY_ADDR \<longrightarrow> length e \<le> 4086 \<longrightarrow> record_at s2 b e"
    by (rule write_field_stores [OF w1(2) al(2) assms(7) l(2), of "[0]"])
  have c2: "record_at s2 YA_LICENSE_DEVICE_CERT_ADDR c" using w2(5) w1(4) al(1) ne(1) l(1) by simp
  obtain s3 where w3: "write_field (i @ []) (length i) YA_LICENSE_DEVICE_ID_ADDR s2 = Some ((C_OK, i @ []), s3)"
    "board_ok s3" "board.more s3 = board.more s2" "record_at s3 YA_LICENSE_DEVICE_ID_ADDR i"
    "\<forall>b e. record_at s2 b e \<longrightarrow> b mod 4096 = 0 \<longrightarrow> b \<noteq> YA_LICENSE_DEVICE_ID_ADDR \<longrightarrow> length e \<le> 4086 \<longrightarrow> record_at s3 b e"
    by (rule write_field_stores [OF w2(2) al(3) assms(9) l(3), of "[]"])
  have c3: "record_at s3 YA_LICENSE_DEVICE_CERT_ADDR c" using w3(5) c2 al(1) ne(2) l(1) by simp
  have k3: "record_at s3 YA_LICENSE_DEVICE_RSA_PRIVATE_KEY_ADDR k" using w3(5) w2(4) al(2) ne(4) l(2) by simp
  obtain s4 where w4: "write_field (y @ []) (length y) YA_LICENSE_THING_TYPE_ADDR s3 = Some ((C_OK, y @ []), s4)"
    "board_ok s4" "board.more s4 = board.more s3" "record_at s4 YA_LICENSE_THING_TYPE_ADDR y"
    "\<forall>b e. record_at s3 b e \<longrightarrow> b mod 4096 = 0 \<longrightarrow> b \<noteq> YA_LICENSE_THING_TYPE_ADDR \<longrightarrow> length e \<le> 4086 \<longrightarrow> record_at s4 b e"
    by (rule write_field_stores [OF w3(2) al(4) assms(11) l(4), of "[]"])
  have c4: "record_at s4 YA_LICENSE_DEVICE_CERT_ADDR c" using w4(5) c3 al(1) ne(3) l(1) by simp
  have k4: "record_at s4 YA_LICENSE_DEVICE_RSA_PRIVATE_KEY_ADDR k" using w4(5) k3 al(2) ne(5) l(2) by simp
  have i4: "record_at s4 YA_LICENSE_DEVICE_ID_ADDR i" using w4(5) w3(4) al(3) ne(6) l(3) by simp
  have "set (aws_fields s4) = {None}"
    using cert_more(1) [of s4 s] w1(3) w2(3) w3(3) w4(3) assms(2) by simp
  from aws_init_loads [OF w4(2) this c4 assms(4,5) k4 assms(7,8) i4 assms(9,10) w4(4) assms(11,12)]
  obtain t where t: "ya_aws_para_init s4 = Some (if aws_fits c k i y then C_OK else C_ERROR, t)"
    "aws_fields t = (if aws_fits c k i y
      then [Some (c @ replicate (MAX_CERT_LEN - length c) 0), Some (k @ replicate (MAX_RSA_LEN - length k) 0),
            Some (i @ replicate (MAX_CLIENT_ID_LEN - length i) 0), Some (y @ replicate (MAX_THING_TYPE_LEN - length y) 0)]
      else [None, None, None, None])"
    by blast
  have put: "wr (d @ [0xFF]) (length d) 0 = Some (d @ [0])" "slice (d @ [0]) 0 (length d + 1) = Some (d @ [0])"
    for d :: bytes by (simp_all add: wr_def slice_def)
  have w: "ya_write_check_aws_para_device_cert crt_parse (c @ [0xFF]) (length c) YA_LICENSE_DEVICE_CERT_ADDR s =
      Some ((C_OK, c @ [0]), s1)"
    "ya_write_check_aws_para_device_rsa_private_key pk_parse (k @ [0xFF]) (length k)
      YA_LICENSE_DEVICE_RSA_PRIVATE_KEY_ADDR s1 = Some ((C_OK, k @ [0]), s2)"
    "ya_write_check_aws_para_device_id i (length i) YA_LICENSE_DEVICE_ID_ADDR s2 = Some ((C_OK, i), s3)"
    "ya_write_check_aws_para_thing_type y (length y) YA_LICENSE_THING_TYPE_ADDR s3 = Some ((C_OK, y), s4)"
    using w1(1) w2(1) w3(1) w4(1) put assms(3,6)
    by (simp_all add: ya_write_check_aws_para_device_cert_def ya_write_check_aws_para_device_rsa_private_key_def
        ya_write_check_aws_para_device_id_def ya_write_check_aws_para_thing_type_def)
  have g: "aws_fields t = [ya_get_client_cert t, ya_get_private_key t, ya_aws_get_client_id t, ya_aws_get_thing_type t]"
    by (simp add: aws_fields_def ya_get_client_cert_def ya_get_private_key_def ya_aws_get_client_id_def ya_aws_get_thing_type_def)
  show ?thesis
  proof (intro exI conjI)
    show "if length c < MAX_CERT_LEN \<and> length k < MAX_RSA_LEN \<and> length i < MAX_CLIENT_ID_LEN \<and> length y < MAX_THING_TYPE_LEN
      then ya_aws_para_init s4 = Some (C_OK, t) \<and>
        ya_get_client_cert t = Some (c @ replicate (MAX_CERT_LEN - length c) 0) \<and>
        ya_get_private_key t = Some (k @ replicate (MAX_RSA_LEN - length k) 0) \<and>
        ya_aws_get_client_id t = Some (i @ replicate (MAX_CLIENT_ID_LEN - length i) 0) \<and>
        ya_aws_get_thing_type t = Some (y @ replicate (MAX_THING_TYPE_LEN - length y) 0)
      else ya_aws_para_init s4 = Some (C_ERROR, t) \<and> set (aws_fields t) = {None}"
      unfolding aws_fits_def [symmetric] using t g by (cases "aws_fits c k i y") simp_all
  qed (rule w)+
qed

theorem aws_licence_roundtrip_witness:
  "\<exists>s4 t. ya_aws_para_init s4 = Some (C_OK, t) \<and>
     ya_aws_get_client_id t = Some ([65 :: u8] @ replicate 127 0) \<and>
     ya_get_client_cert (t :: cert) = Some ([66, 67] @ replicate 1534 0)"
proof -
  have null: "set (aws_fields cert_demo) = {None}" by (simp add: aws_fields_def cert_demo_def)
  from aws_licence_roundtrip [OF cert_demo_ok null, of "\<lambda>_. C_OK" "[66, 67]" "\<lambda>_. C_OK" "[68]" "[65]" "[69]"]
  show ?thesis by (auto simp: cert_max)
qed

text \<open>C23: the Aliyun triple survives a write and a reload.  A triple whose fields fit their maximal
  lengths is accepted by \<open>ya_write_aliyun_cert\<close>; a boot that has nothing loaded then loads it, and
  the three getters return its strings and their lengths.\<close>

theorem aliyun_licence_roundtrip:
  fixes s :: "'a cert_scheme"
  assumes "board_ok s" and "aliyun_productkey s = None" "aliyun_deviceid s = None" "aliyun_productsecret s = None"
    and "length k \<le> YA_PRODUCT_KEY_LEN" and "length d \<le> YA_DEVICE_ID_LEN" and "length e \<le> YA_DEVICE_SECRET_LEN"
    and "0 \<notin> set k \<union> set d \<union> set e"
    and "length bk = 21" and "length bd = 33" and "length be = 65"
  shows "\<exists>t u. ya_write_aliyun_cert (aliyun_tlv k d e) (length (aliyun_tlv k d e)) YA_LICENSE_ALIYUUN s = Some (C_OK, t) \<and>
    ya_aliyun_para_init t = Some (C_OK, u) \<and>
    ya_get_productKey bk u = Some (int (length k), k @ 0 # drop (length k + 1) bk) \<and>
    ya_get_deviceID bd u = Some (int (length d), d @ 0 # drop (length d + 1) bd) \<and>
    ya_get_deviceSecret be u = Some (int (length e), e @ 0 # drop (length e + 1) be)"
proof -
  let ?v = "aliyun_tlv k d e"
  have al: "YA_LICENSE_ALIYUUN mod 4096 = 0" by (simp add: cert_addrs)
  have len: "?v \<noteq> []" "length ?v \<le> 1024" "length ?v \<le> 4086"
    using assms(5-7) by (simp_all add: aliyun_max, simp add: aliyun_tlv_def)
  from ya.put_holds [OF assms(1) al len(1,3)] obtain t where
    t: "ya_write_flash YA_LICENSE_ALIYUUN ?v (length ?v) 1 s = Some (0, t)" "board_ok t"
    "board.more t = board.more s" "record_at t YA_LICENSE_ALIYUUN ?v" by blast
  have w: "ya_write_aliyun_cert ?v (length ?v) YA_LICENSE_ALIYUUN s = Some (C_OK, t)"
    using t(1) aliyun_check_tlv [OF assms(5-7)] by (simp add: ya_write_aliyun_cert_def C_OK_def)
  define u where "u = t\<lparr>aliyun_productkey := Some (k @ [0]), aliyun_deviceid := Some (d @ [0]),
      aliyun_productsecret := Some (e @ [0])\<rparr>"
  have null: "aliyun_productkey t = None" "aliyun_deviceid t = None" "aliyun_productsecret t = None"
    using cert_more [OF t(3)] assms(2-4) by simp_all
  have "ya_aliyun_para_init t = Some (C_OK, u)"
    unfolding ya_aliyun_para_init_def read_parse_run [OF t(2,4) len(1,2)]
    using aliyun_parse_fields [OF t(2) assms(5-7) null] null by (simp add: u_def)
  moreover have "ya_get_productKey bk u = Some (int (length k), k @ 0 # drop (length k + 1) bk)"
    "ya_get_deviceID bd u = Some (int (length d), d @ 0 # drop (length d + 1) bd)"
    "ya_get_deviceSecret be u = Some (int (length e), e @ 0 # drop (length e + 1) be)"
    unfolding ya_get_productKey_def ya_get_deviceID_def ya_get_deviceSecret_def
    using assms(8) by (intro get_field_string; simp add: u_def assms(5-7,9-11) aliyun_max [symmetric])+
  ultimately show ?thesis using w by blast
qed

theorem aliyun_licence_roundtrip_witness:
  "\<exists>t u. ya_aliyun_para_init t = Some (C_OK, u) \<and>
     ya_get_deviceID (replicate 33 7) (u :: cert) = Some (2, [68, 69, 0] @ replicate 30 7)"
proof -
  have "aliyun_productkey cert_demo = None" "aliyun_deviceid cert_demo = None" "aliyun_productsecret cert_demo = None"
    by (simp_all add: cert_demo_def)
  from aliyun_licence_roundtrip [OF cert_demo_ok this, of "[65]" "[68, 69]" "[70]" "replicate 21 7"
      "replicate 33 7" "replicate 65 7"]
  show ?thesis by (auto simp: aliyun_max)
qed

text \<open>Loading a licence over a smaller block corrupts the heap.  When a product key is still
  loaded while another field is not, and the stored licence has a longer product key, the next
  \<open>ya_aliyun_para_init\<close> clears and fills the old block beyond its end.\<close>

theorem aliyun_reload_overflows:
  fixes s :: "'a cert_scheme"
  assumes "board_ok s" and "record_at s YA_LICENSE_ALIYUUN (aliyun_tlv k d e)"
    and "length k \<le> YA_PRODUCT_KEY_LEN" and "length d \<le> YA_DEVICE_ID_LEN" and "length e \<le> YA_DEVICE_SECRET_LEN"
    and "aliyun_productkey s = Some b" and "length b \<le> length k" and "aliyun_deviceid s = None"
  shows "ya_aliyun_para_init s = None"
proof -
  let ?v = "aliyun_tlv k d e" and ?buf = "aliyun_tlv k d e @ replicate (1024 - length (aliyun_tlv k d e)) 0"
  have len: "?v \<noteq> []" "length ?v \<le> 1024"
    using assms(3-5) by (simp_all add: aliyun_max, simp add: aliyun_tlv_def)
  have n: "unat (of_nat (length k) :: u8) = length k" using assms(3) by (intro unat_of_nat_u8) (simp add: aliyun_max)
  have "rd ?buf 0 = Some (of_nat (length k))" by (simp add: rd_Some aliyun_tlv_def)
  moreover have "memset b 0 (length k + 1) = None" using assms(7) by (simp add: memset_def memcpy_at_def)
  ultimately have "aliyun_store (Some b) ?buf 0 YA_PRODUCT_KEY_LEN s = None"
    using assms(3) by (simp add: aliyun_store_def n)
  then have "aliyun_parse ?buf (length ?v) 0 0 s = None"
    using assms(6) by (simp add: aliyun_parse.simps [of _ _ 0 0])
  then show ?thesis
    unfolding ya_aliyun_para_init_def read_parse_run [OF assms(1,2) len] using assms(8) by simp
qed

theorem aliyun_reload_overflows_witness:
  "ya_aliyun_para_init (cert_demo\<lparr>fl_mem := (\<lambda>x. (record_bytes (aliyun_tlv [65, 66] [67] [68])) ! ((x - 0xB3000) mod 11)),
     aliyun_productkey := Some [0]\<rparr>) = None"
proof (rule aliyun_reload_overflows [of _ "[65, 66]" "[67]" "[68]" "[0]"])
  show "record_at (cert_demo\<lparr>fl_mem := (\<lambda>x. (record_bytes (aliyun_tlv [65, 66] [67] [68])) ! ((x - 0xB3000) mod 11)),
     aliyun_productkey := Some [0]\<rparr>) YA_LICENSE_ALIYUUN (aliyun_tlv [65, 66] [67] [68])"
    by (simp add: record_at_def record_bytes_def aliyun_tlv_def cert_addrs upt_conv_Cons)
qed (simp_all add: board_ok_def chip_ready_def cert_demo_def aliyun_max)

text \<open>A licence with the product key only is accepted when written and loaded with the result
  \<open>C_OK\<close>, although the device id and the secret are still missing afterwards.\<close>

theorem aliyun_truncated_accepted:
  fixes s :: "'a cert_scheme"
  assumes "board_ok s" and "aliyun_productkey s = None" "aliyun_deviceid s = None" "aliyun_productsecret s = None"
    and "length k \<le> YA_PRODUCT_KEY_LEN"
  shows "\<exists>t u. ya_write_aliyun_cert (of_nat (length k) # k) (length k + 1) YA_LICENSE_ALIYUUN s = Some (C_OK, t) \<and>
    ya_aliyun_para_init t = Some (C_OK, u) \<and> ya_check_cn_license_exit_internal u = -1"
proof -
  let ?v = "of_nat (length k) # k :: bytes"
  have al: "YA_LICENSE_ALIYUUN mod 4096 = 0" by (simp add: cert_addrs)
  have len: "?v \<noteq> []" "length ?v \<le> 1024" "length ?v \<le> 4086" using assms(5) by (simp_all add: aliyun_max)
  have n: "unat (of_nat (length k) :: u8) = length k" using assms(5) by (intro unat_of_nat_u8) (simp add: aliyun_max)
  from ya.put_holds [OF assms(1) al len(1,3)] obtain t where
    t: "ya_write_flash YA_LICENSE_ALIYUUN ?v (length ?v) 1 s = Some (0, t)" "board_ok t"
    "board.more t = board.more s" "record_at t YA_LICENSE_ALIYUUN ?v" by blast
  have "aliyun_check ?v (length k + 1) 0 0 = Some True"
    using assms(5) by (simp add: aliyun_check.simps [of _ _ 0 0] aliyun_check.simps [of _ _ _ "Suc 0"] rd_def n)
  then have "ya_write_aliyun_cert ?v (length k + 1) YA_LICENSE_ALIYUUN s = Some (C_OK, t)"
    using t(1) by (simp add: ya_write_aliyun_cert_def C_OK_def)
  moreover have null: "aliyun_productkey t = None" "aliyun_deviceid t = None" "aliyun_productsecret t = None"
    using cert_more [OF t(3)] assms(2-4) by simp_all
  have "aliyun_store None ([] @ of_nat (length k) # k @ z) 0 YA_PRODUCT_KEY_LEN t = Some (Some (k @ [0]))" for z
    using assms(5) by (intro aliyun_store_fresh [OF t(2)]) (simp_all add: aliyun_max)
  then have "aliyun_parse (?v @ z) (length ?v) 0 0 t = Some (C_OK, t\<lparr>aliyun_productkey := Some (k @ [0])\<rparr>)" for z
    using null by (simp add: aliyun_parse.simps [of _ _ 0 0] aliyun_parse.simps [of _ _ _ "Suc 0"] n)
  then have "ya_aliyun_para_init t = Some (C_OK, t\<lparr>aliyun_productkey := Some (k @ [0])\<rparr>)"
    unfolding ya_aliyun_para_init_def read_parse_run [OF t(2,4) len(1,2)] using null by simp
  ultimately show ?thesis using null by (auto simp: ya_check_cn_license_exit_internal_def)
qed

theorem aliyun_truncated_accepted_witness:
  "\<exists>t u. ya_aliyun_para_init (t :: cert) = Some (C_OK, u) \<and> ya_check_cn_license_exit_internal u = -1"
  using aliyun_truncated_accepted [OF cert_demo_ok, of "[65]"] by (auto simp: cert_demo_def aliyun_max)

end
