(* ===== verification/CommonFunc.thy ===== *)
theory CommonFunc
  imports Prelude
begin

text \<open>
  The hexadecimal and decimal conversions of
  \<^verbatim>\<open>src/apps/akeeta_tr6260/akeeta/app/src/ya_common_func.c\<close>.
\<close>

section \<open>The routines\<close>

definition Num2CharTable :: bytes where
  "Num2CharTable = [0x30, 0x31, 0x32, 0x33, 0x34, 0x35, 0x36, 0x37, 0x38, 0x39,
                    0x41, 0x42, 0x43, 0x44, 0x45, 0x46]"

text \<open>The loop from index \<open>i\<close> on, with its final NUL; \<open>string\<close> is the output buffer.\<close>

function hex_loop :: "bytes \<Rightarrow> nat \<Rightarrow> nat \<Rightarrow> bytes \<Rightarrow> bytes option" where
  "hex_loop hexarray len i string =
     (if i < len then do {
        b \<leftarrow> rd hexarray i;
        string \<leftarrow> wr string (2 * i) (Num2CharTable ! unat (drop_bit 4 b AND 0x0F));
        string \<leftarrow> wr string (2 * i + 1) (Num2CharTable ! unat (b AND 0x0F));
        hex_loop hexarray len (i + 1) string }
      else wr string (2 * i) 0)"
  by pat_completeness auto
termination
  by (relation "measure (\<lambda>(h, len, i, s). len - i)") auto

declare hex_loop.simps [simp del]

definition HexArrayToString :: "bytes \<Rightarrow> nat \<Rightarrow> bytes \<Rightarrow> bytes option" where
  "HexArrayToString hexarray len string = hex_loop hexarray len 0 string"

text \<open>\<open>snprintf("%d")\<close>: the argument is read as a signed number.\<close>

fun dec_digits :: "nat \<Rightarrow> bytes" where
  "dec_digits n = (if n < 10 then [of_nat (48 + n)] else dec_digits (n div 10) @ [of_nat (48 + n mod 10)])"

declare dec_digits.simps [simp del]

definition ya_int_to_string :: "u32 \<Rightarrow> bytes" where
  "ya_int_to_string v =
     (if sint v < 0 then 45 # dec_digits (nat (- sint v)) else dec_digits (nat (sint v)))"

definition hex_value :: "u8 \<Rightarrow> u8 option" where
  "hex_value c =
     (if 0x61 \<le> c \<and> c \<le> 0x66 then Some (c - 0x61 + 10)
      else if 0x41 \<le> c \<and> c \<le> 0x46 then Some (c - 0x41 + 10)
      else if 0x30 \<le> c \<and> c \<le> 0x39 then Some (c - 0x30)
      else None)"

fun unhex_loop :: "bytes \<Rightarrow> nat \<Rightarrow> nat \<Rightarrow> bytes \<Rightarrow> (int \<times> bytes) option" where
  "unhex_loop [] index array_index hexarray = Some (int array_index, hexarray)"
| "unhex_loop (c # cs) index array_index hexarray =
     (case hex_value c of None \<Rightarrow> Some (-1, hexarray)
      | Some v \<Rightarrow>
          if index mod 2 = 0 then do {
            h \<leftarrow> wr hexarray array_index (push_bit 4 v);
            unhex_loop cs (index + 1) array_index h }
          else do {
            x \<leftarrow> rd hexarray array_index;
            h \<leftarrow> wr hexarray array_index (x + v);
            unhex_loop cs (index + 1) (array_index + 1) h })"

text \<open>The length of the string is kept in 16 bits.\<close>

definition StringToHexArray :: "bytes \<Rightarrow> nat \<Rightarrow> bytes \<Rightarrow> (int \<times> bytes) option" where
  "StringToHexArray hexarray len string =
     do { s \<leftarrow> cstr string;
          let total_len = length s mod 65536 in
          if 2 * len < total_len then Some (-1, hexarray)
          else unhex_loop (take total_len s) 0 0 hexarray }"

section \<open>Facts\<close>

definition hi_nibble :: "u8 \<Rightarrow> u8" where "hi_nibble b = drop_bit 4 b AND 0x0F"
definition lo_nibble :: "u8 \<Rightarrow> u8" where "lo_nibble b = b AND 0x0F"

definition hex2 :: "u8 \<Rightarrow> bytes" where
  "hex2 b = [Num2CharTable ! unat (hi_nibble b), Num2CharTable ! unat (lo_nibble b)]"

lemma nibble_bound: "unat (hi_nibble b) < 16" "unat (lo_nibble b) < 16"
proof -
  have "b AND 0x0F \<le> 0x0F" "drop_bit 4 b AND 0x0F \<le> 0x0F" by (rule word_and_le1)+
  then show "unat (hi_nibble b) < 16" "unat (lo_nibble b) < 16"
    by (simp_all add: hi_nibble_def lo_nibble_def word_le_nat_alt)
qed

lemma nibbles_join: "push_bit 4 (hi_nibble b) + lo_nibble b = b"
proof -
  have "(0x0F :: u8) = mask 4" by (simp add: mask_eq_exp_minus_1)
  then have lo: "lo_nibble b = take_bit 4 b" and hi: "hi_nibble b = take_bit 4 (drop_bit 4 b)"
    by (simp_all add: lo_nibble_def hi_nibble_def take_bit_eq_mask)
  have "take_bit 4 (drop_bit 4 b) = drop_bit 4 b"
    by (rule bit_eqI) (auto simp: bit_take_bit_iff bit_drop_bit_eq dest: bit_imp_le_length)
  then show ?thesis unfolding lo hi by (metis bits_ident)
qed

lemma hex_digit_cases:
  assumes "n < 16"
  shows "hex_value (Num2CharTable ! n) = Some (of_nat n) \<and> Num2CharTable ! n \<noteq> 0"
proof -
  have "\<forall>n \<in> {0..<16}. hex_value (Num2CharTable ! n) = Some (of_nat n) \<and> Num2CharTable ! n \<noteq> 0"
    by (simp add: atLeastLessThan_upt upt_conv_Cons hex_value_def Num2CharTable_def)
  with assms show ?thesis by simp
qed

lemma hex_value_nibble:
  "hex_value (Num2CharTable ! unat (hi_nibble b)) = Some (hi_nibble b)"
  "hex_value (Num2CharTable ! unat (lo_nibble b)) = Some (lo_nibble b)"
  using hex_digit_cases [OF nibble_bound(1), of b] hex_digit_cases [OF nibble_bound(2), of b] by simp_all

lemma hex2_nonzero: "0 \<notin> set (concat (map hex2 bs))"
  using hex_digit_cases [OF nibble_bound(1)] hex_digit_cases [OF nibble_bound(2)]
  by (induction bs) (auto simp: hex2_def)

lemma hex2_length [simp]: "length (concat (map hex2 bs)) = 2 * length bs"
  by (induction bs) (simp_all add: hex2_def)

lemma hex_loop_run:
  assumes "n \<le> length h" and "i \<le> n" and "2 * n < length st"
    and "take (2 * i) st = concat (map hex2 (take i h))"
  shows "hex_loop h n i st = Some (concat (map hex2 (take n h)) @ 0 # drop (2 * n + 1) st)"
  using assms(2-4)
proof (induction "n - i" arbitrary: i st)
  case 0
  then have "i = n" by simp
  with 0 show ?case
    by (simp add: hex_loop.simps wr_def upd_conv_take_nth_drop)
next
  case (Suc k)
  then have i: "i < n" by simp
  let ?st = "st[2 * i := Num2CharTable ! unat (hi_nibble (h ! i)), 2 * i + 1 := Num2CharTable ! unat (lo_nibble (h ! i))]"
  have step: "hex_loop h n i st = hex_loop h n (i + 1) ?st"
    using i assms(1) Suc.prems(2)
    by (simp add: hex_loop.simps [of h n i] rd_def wr_def hi_nibble_def lo_nibble_def)
  have "take (2 * (i + 1)) ?st = take (2 * i) st @ hex2 (h ! i)"
    using i Suc.prems(2)
    by (intro nth_equalityI) (auto simp: hex2_def nth_append nth_list_update less_Suc_eq nth_Cons')
  also have "\<dots> = concat (map hex2 (take (i + 1) h))"
    using i assms(1) Suc.prems(3) by (simp add: take_Suc_conv_app_nth)
  finally have "hex_loop h n (i + 1) ?st = Some (concat (map hex2 (take n h)) @ 0 # drop (2 * n + 1) ?st)"
    using Suc.hyps i Suc.prems(2) by (intro Suc.hyps(1)) auto
  moreover have "drop (2 * n + 1) ?st = drop (2 * n + 1) st" using i by simp
  ultimately show ?case using step by simp
qed

lemma hex2_two [simp]: "length (hex2 b) = 2"
  by (simp add: hex2_def)

lemma hex_write:
  assumes "n \<le> length h" and "2 * n < length st"
  shows "HexArrayToString h n st = Some (concat (map hex2 (take n h)) @ 0 # drop (2 * n + 1) st)"
  unfolding HexArrayToString_def using hex_loop_run [of n h 0 st] assms by simp

lemma unhex_loop_run:
  assumes "length done = k" and "length bs \<le> length r"
  shows "unhex_loop (concat (map hex2 bs)) (2 * k) k (done @ r) =
    Some (int (k + length bs), done @ bs @ drop (length bs) r)"
  using assms
proof (induction bs arbitrary: k "done" r)
  case Nil
  then show ?case by simp
next
  case (Cons b bs)
  then obtain x r' where r: "r = x # r'" by (cases r) auto
  have "unhex_loop (concat (map hex2 (b # bs))) (2 * k) k (done @ r) =
      unhex_loop (concat (map hex2 bs)) (2 * (k + 1)) (k + 1) ((done @ [b]) @ r')"
    using Cons.prems(1) r
    by (simp add: hex2_def hex_value_nibble wr_def rd_def nth_append list_update_append nibbles_join)
  also have "\<dots> = Some (int (k + 1 + length bs), (done @ [b]) @ bs @ drop (length bs) r')"
    using Cons.prems r by (intro Cons.IH) auto
  finally show ?case using r by simp
qed

section \<open>Properties\<close>

text \<open>Converting bytes to a hexadecimal string and back gives the same bytes, for up to 32767
  bytes and buffers that are large enough; the string is NUL-terminated and nothing else in the
  buffers changes.\<close>

theorem hex_roundtrip:
  assumes "n = length h" and "n < 32768" and "2 * n < length st" and "n \<le> len" and "n \<le> length dst"
  shows "\<exists>str. HexArrayToString h n st = Some str \<and>
    StringToHexArray dst len str = Some (int n, h @ drop n dst)"
proof -
  let ?s = "concat (map hex2 h)"
  have run: "HexArrayToString h n st = Some (?s @ 0 # drop (2 * n + 1) st)"
    using hex_loop_run [of n h 0 st] assms(1,3) by (simp add: HexArrayToString_def)
  have "cstr (?s @ 0 # drop (2 * n + 1) st) = Some ?s" by (rule cstr_append_nul [OF hex2_nonzero])
  moreover have "length ?s = 2 * n" using assms(1) by simp
  moreover have "unhex_loop ?s 0 0 dst = Some (int n, h @ drop n dst)"
    using unhex_loop_run [of "[]" 0 h dst] assms(1,5) by simp
  ultimately have "StringToHexArray dst len (?s @ 0 # drop (2 * n + 1) st) = Some (int n, h @ drop n dst)"
    using assms(2,4) by (simp add: StringToHexArray_def)
  with run show ?thesis by blast
qed

theorem hex_roundtrip_witness:
  "\<exists>str. HexArrayToString [0x5A, 0x01, 0xFF] 3 (replicate 10 9) = Some str \<and>
     StringToHexArray [0, 0, 0, 7] 4 str = Some (3, [0x5A, 0x01, 0xFF, 7])"
  using hex_roundtrip [of 3 "[0x5A, 0x01, 0xFF]" "replicate 10 9" 4 "[0, 0, 0, 7]"] by simp

end
