(* ===== verification/HalTimer.thy ===== *)
theory HalTimer
  imports Prelude
begin

text \<open>
  The countdown timers of \<^verbatim>\<open>src/apps/akeeta_tr6260/akeeta/hal/src/ya_hal_timer.c\<close>.
  All arithmetic is 32-bit; the tick counter is the argument \<open>tick\<close> (what
  \<open>xTaskGetTickCount\<close> returns).  With \<open>configTICK_RATE_HZ\<close> 200 a tick is 5 ms.
\<close>

section \<open>The routines\<close>

datatype ya_timer_type = YA_TIMER_TYPE_MS | YA_TIMER_TYPE_S

record Ya_Timer =
  time_out :: u32
  init_tick :: u32
  ttype :: ya_timer_type

definition portTICK_RATE_MS :: u32 where "portTICK_RATE_MS = 5"

definition timer_delta :: "u32 \<Rightarrow> u32 \<Rightarrow> u32" where
  "timer_delta cur start = (if cur \<ge> start then cur - start else 0xffffffff - start + cur)"

definition ya_has_timer_expired :: "u32 \<Rightarrow> Ya_Timer \<Rightarrow> int" where
  "ya_has_timer_expired tick t =
     (let delta = timer_delta (tick * portTICK_RATE_MS) (init_tick t * portTICK_RATE_MS)
      in case ttype t of
           YA_TIMER_TYPE_MS \<Rightarrow> if delta > time_out t then 0 else -1
         | YA_TIMER_TYPE_S \<Rightarrow> if delta div 1000 > time_out t then 0 else -1)"

definition ya_countdown_ms :: "u32 \<Rightarrow> u32 \<Rightarrow> Ya_Timer \<Rightarrow> Ya_Timer" where
  "ya_countdown_ms tick timeout t =
     (if timeout = 0 then t
      else t\<lparr>init_tick := tick, time_out := timeout, ttype := YA_TIMER_TYPE_MS\<rparr>)"

definition ya_countdown_sec :: "u32 \<Rightarrow> u32 \<Rightarrow> Ya_Timer \<Rightarrow> Ya_Timer" where
  "ya_countdown_sec tick timeout t =
     (if timeout = 0 then t
      else t\<lparr>init_tick := tick, time_out := timeout, ttype := YA_TIMER_TYPE_S\<rparr>)"

definition ya_left_ms :: "u32 \<Rightarrow> Ya_Timer \<Rightarrow> u32" where
  "ya_left_ms tick t =
     (let delta = timer_delta tick (init_tick t)
      in case ttype t of
           YA_TIMER_TYPE_MS \<Rightarrow> time_out t - delta * portTICK_RATE_MS
         | YA_TIMER_TYPE_S \<Rightarrow> time_out t * 1000 - delta * portTICK_RATE_MS)"

definition ya_timer_compare :: "u32 \<Rightarrow> u32 \<Rightarrow> u32 \<Rightarrow> int" where
  "ya_timer_compare time_start_ms time_end_ms timeout_ms =
     (let delta_timer = (if time_end_ms < time_start_ms then 0xffffffff - time_start_ms + time_end_ms
                         else time_end_ms - time_start_ms)
      in if delta_timer > timeout_ms then 0 else -1)"

definition ya_init_timer :: "Ya_Timer \<Rightarrow> Ya_Timer" where
  "ya_init_timer t = t\<lparr>time_out := 0, init_tick := 0, ttype := YA_TIMER_TYPE_MS\<rparr>"

section \<open>Facts\<close>

lemma u32_minus_one: "(0xffffffff :: u32) = -1"
  by simp

text \<open>The true distance modulo \<open>2 ^ 32\<close>, one less when the counter has wrapped.\<close>

lemma timer_delta_eq: "timer_delta cur start = (if start \<le> cur then cur - start else cur - start - 1)"
  unfolding timer_delta_def u32_minus_one by simp

lemma ya_timer_compare_eq:
  "ya_timer_compare a b t = (if timer_delta b a > t then 0 else -1)"
  by (auto simp: ya_timer_compare_def timer_delta_def Let_def not_le)

section \<open>Properties\<close>

text \<open>What the timer comparison decides.  For an interval of \<open>d\<close> milliseconds it reports
  expiry exactly when \<open>d\<close> exceeds the timeout as long as the counter does not wrap; across the wrap
  it measures one millisecond too little, so it reports expiry exactly when \<open>d - 1\<close> exceeds it.\<close>

theorem timer_compare_wraparound:
  assumes "0 < d"
  shows "ya_timer_compare a (a + d) t = 0 \<longleftrightarrow> (if a \<le> a + d then t < d else t < d - 1)"
  by (simp add: ya_timer_compare_eq timer_delta_eq)

theorem timer_compare_wraparound_witness:
  "ya_timer_compare 0xFFFFFFF0 (0xFFFFFFF0 + 0x20) 0x1F = -1 \<and> ya_timer_compare 0x10 (0x10 + 0x20) 0x1F = 0"
proof -
  have "ya_timer_compare 0xFFFFFFF0 (0xFFFFFFF0 + 0x20) 0x1F \<noteq> 0"
    using timer_compare_wraparound [of "0x20" "0xFFFFFFF0" "0x1F"] by simp
  moreover have "ya_timer_compare 0x10 (0x10 + 0x20) 0x1F = 0"
    using timer_compare_wraparound [of "0x20" "0x10" "0x1F"] by simp
  ultimately show ?thesis by (auto simp: ya_timer_compare_def Let_def)
qed

text \<open>A millisecond countdown.  Started at a tick with a non-zero timeout, it is not expired at
  that tick, and as long as neither the tick counter nor the millisecond value wraps it is expired
  exactly when more than the timeout has passed; until then \<open>ya_left_ms\<close> is the remaining time and
  afterwards it wraps around to a value close to \<open>2 ^ 32\<close>.\<close>

theorem countdown_ms_behaviour:
  fixes tm :: Ya_Timer
  assumes "timeout \<noteq> 0" and "unat tick + n < 2 ^ 32" and "(unat tick + n) * 5 < 2 ^ 32"
  defines "t \<equiv> ya_countdown_ms tick timeout tm"
  shows "ya_has_timer_expired (tick + of_nat n) t = (if 5 * n > unat timeout then 0 else -1) \<and>
    int (unat (ya_left_ms (tick + of_nat n) t)) = (int (unat timeout) - 5 * int n) mod 2 ^ 32"
proof -
  have t: "init_tick t = tick" "time_out t = timeout" "ttype t = YA_TIMER_TYPE_MS"
    using assms(1) by (simp_all add: t_def ya_countdown_ms_def)
  have n: "n < 2 ^ 32" "5 * n < 2 ^ 32" using assms(2,3) by simp_all
  have un: "unat (of_nat n :: u32) = n" "unat (of_nat (5 * n) :: u32) = 5 * n"
    using n by (simp_all only: unat_of_nat len_bit0 len_bit1 len_num1) simp_all
  have cur: "unat (tick + of_nat n) = unat tick + n"
    using assms(2) un by (simp add: unat_add_lem [THEN iffD1])
  have le: "tick \<le> tick + of_nat n" by (simp add: word_le_nat_alt cur)
  have m: "unat (w * 5) = unat w * 5" if "unat w * 5 < 2 ^ 32" for w :: u32
    using that by (simp add: unat_mult_lem [THEN iffD1])
  have le5: "tick * portTICK_RATE_MS \<le> (tick + of_nat n) * portTICK_RATE_MS"
    using m [of tick] m [of "tick + of_nat n"] assms(3) cur by (simp add: word_le_nat_alt portTICK_RATE_MS_def)
  have d: "timer_delta (tick + of_nat n) tick = of_nat n" using le by (simp add: timer_delta_eq)
  have d5: "timer_delta ((tick + of_nat n) * portTICK_RATE_MS) (tick * portTICK_RATE_MS) = of_nat (5 * n)"
    using le5 by (simp add: timer_delta_eq portTICK_RATE_MS_def algebra_simps)
  have "ya_has_timer_expired (tick + of_nat n) t = (if 5 * n > unat timeout then 0 else -1)"
    unfolding ya_has_timer_expired_def t d5 Let_def using un(2) by (simp add: word_less_nat_alt)
  moreover have "ya_left_ms (tick + of_nat n) t = timeout - of_nat (5 * n)"
    unfolding ya_left_ms_def t d Let_def by (simp add: portTICK_RATE_MS_def mult.commute)
  moreover have "int (unat (timeout - of_nat (5 * n))) = (int (unat timeout) - 5 * int n) mod 2 ^ 32"
  proof -
    have "uint (timeout - of_nat (5 * n)) = (uint timeout - uint (of_nat (5 * n) :: u32)) mod 2 ^ 32"
      by (simp only: uint_word_ariths(2)) simp
    moreover have "uint (of_nat (5 * n) :: u32) = int (5 * n)" by (simp only: uint_nat un(2))
    ultimately show ?thesis by (simp only: uint_nat) simp
  qed
  ultimately show ?thesis by simp
qed

theorem countdown_ms_behaviour_witness:
  "ya_has_timer_expired (1000 + of_nat 3) (ya_countdown_ms 1000 10 \<lparr>time_out = 0, init_tick = 0, ttype = YA_TIMER_TYPE_S\<rparr>) = 0 \<and>
   int (unat (ya_left_ms (1000 + of_nat 3) (ya_countdown_ms 1000 10 \<lparr>time_out = 0, init_tick = 0, ttype = YA_TIMER_TYPE_S\<rparr>))) = 2 ^ 32 - 5"
  using countdown_ms_behaviour [of 10 1000 3 "\<lparr>time_out = 0, init_tick = 0, ttype = YA_TIMER_TYPE_S\<rparr>"] by simp

end
