(* ===== verification/Cjson.thy ===== *)
theory Cjson
  imports Prelude
begin

text \<open>
  JSON values as the handlers of cloud messages see them: the node of
  \<^verbatim>\<open>src/include/json/cJSON.h\<close> and the accessors of \<^verbatim>\<open>src/platform/json/cJSON.c\<close>.  The
  parser and the printer are a \<open>cjson_lib\<close>, an argument of the handlers.

  The C library functions \<open>atoi\<close> and \<open>sscanf("%d-%d-%d")\<close> are here as well; a number that
  does not fit an \<open>int\<close> is undefined behaviour, hence \<open>None\<close>.
\<close>

section \<open>Nodes and accessors\<close>

datatype cJSON_type =
  cJSON_False | cJSON_True | cJSON_NULL | cJSON_Number | cJSON_String | cJSON_Array | cJSON_Object

text \<open>\<open>jname\<close> is the member \<open>string\<close>, \<open>valuestring\<close> is the null pointer unless the node is a string.\<close>

datatype cJSON = Node (jtype: cJSON_type) (jname: "string option") (valuestring: "bytes option")
  (child: "cJSON list")

record cjson_lib =
  cJSON_Parse :: "bytes \<Rightarrow> cJSON option"
  cJSON_PrintUnformatted :: "cJSON \<Rightarrow> bytes option"

definition tolower :: "char \<Rightarrow> char" where
  "tolower c = (let n = of_char c :: nat in if 65 \<le> n \<and> n \<le> 90 then char_of (n + 32) else c)"

definition cJSON_strcasecmp :: "string option \<Rightarrow> string \<Rightarrow> bool" where
  "cJSON_strcasecmp s1 s2 \<longleftrightarrow> (case s1 of None \<Rightarrow> False | Some s \<Rightarrow> map tolower s = map tolower s2)"

definition cJSON_GetArraySize :: "cJSON \<Rightarrow> nat" where
  "cJSON_GetArraySize array = length (child array)"

definition cJSON_GetArrayItem :: "cJSON \<Rightarrow> nat \<Rightarrow> cJSON option" where
  "cJSON_GetArrayItem array i = rd (child array) i"

definition cJSON_GetObjectItem :: "cJSON \<Rightarrow> string \<Rightarrow> cJSON option" where
  "cJSON_GetObjectItem object key = find (\<lambda>c. cJSON_strcasecmp (jname c) key) (child object)"

section \<open>Numbers in strings\<close>

definition isspace :: "u8 \<Rightarrow> bool" where
  "isspace c \<longleftrightarrow> c = 32 \<or> 9 \<le> c \<and> c \<le> 13"

definition isdigit :: "u8 \<Rightarrow> bool" where
  "isdigit c \<longleftrightarrow> 48 \<le> c \<and> c \<le> 57"

definition digits_val :: "bytes \<Rightarrow> int" where
  "digits_val ds = foldl (\<lambda>n d. 10 * n + (int (unat d) - 48)) 0 ds"

text \<open>\<open>%d\<close>: blanks, a sign, digits; \<open>None\<close> when there is no digit.\<close>

definition scan_int :: "bytes \<Rightarrow> (int \<times> bytes) option" where
  "scan_int b =
     (let b = dropWhile isspace b;
          neg = (b \<noteq> [] \<and> hd b = 45);
          b = (if b \<noteq> [] \<and> (hd b = 45 \<or> hd b = 43) then tl b else b);
          ds = takeWhile isdigit b
      in if ds = [] then None
         else Some (if neg then - digits_val ds else digits_val ds, dropWhile isdigit b))"

definition int32 :: "int \<Rightarrow> int option" where
  "int32 n = (if -(2 ^ 31) \<le> n \<and> n < 2 ^ 31 then Some n else None)"

definition atoi :: "bytes \<Rightarrow> int option" where
  "atoi b = (case scan_int b of None \<Rightarrow> Some 0 | Some (n, _) \<Rightarrow> int32 n)"

text \<open>\<open>sscanf(b, "%d-%d-%d", ...)\<close>: the inner value is \<open>None\<close> when fewer than three numbers match.\<close>

definition dash :: "bytes \<Rightarrow> bytes option" where
  "dash b = (case b of [] \<Rightarrow> None | c # r \<Rightarrow> if c = 45 then Some r else None)"

definition sscanf_date :: "bytes \<Rightarrow> (int \<times> int \<times> int) option option" where
  "sscanf_date b =
     (case do { (p1, r) \<leftarrow> scan_int b; r \<leftarrow> dash r; (p2, r) \<leftarrow> scan_int r; r \<leftarrow> dash r;
                (p3, _) \<leftarrow> scan_int r; Some (p1, p2, p3) } of
        None \<Rightarrow> Some None
      | Some (p1, p2, p3) \<Rightarrow>
          do { p1 \<leftarrow> int32 p1; p2 \<leftarrow> int32 p2; p3 \<leftarrow> int32 p3; Some (Some (p1, p2, p3)) })"

section \<open>Control flow of the handlers\<close>

text \<open>
  A handler that leaves with \<open>goto err\<close> is a value of type \<open>'a option option\<close>: \<open>Some None\<close> is the
  error exit, \<open>None\<close> undefined behaviour.  \<open>jmember\<close> looks a member up and takes the error exit
  when it is absent.
\<close>

definition jmember :: "cJSON \<Rightarrow> string \<Rightarrow> (cJSON \<Rightarrow> 'b option option) \<Rightarrow> 'b option option" where
  "jmember obj key k = (case cJSON_GetObjectItem obj key of None \<Rightarrow> Some None | Some p \<Rightarrow> k p)"

definition check_err :: "bool \<Rightarrow> 'b option option \<Rightarrow> 'b option option" where
  "check_err b k = (if b then Some None else k)"

lemma check_err_simps [simp]: "check_err True k = Some None" "check_err False k = k"
  by (simp_all add: check_err_def)

lemma check_err_Ok: "check_err b k = Some (Some x) \<longleftrightarrow> \<not> b \<and> k = Some (Some x)"
  by (simp add: check_err_def)

lemma jmember_Ok:
  "jmember obj key k = Some (Some x) \<longleftrightarrow>
   (\<exists>p. cJSON_GetObjectItem obj key = Some p \<and> k p = Some (Some x))"
  by (simp add: jmember_def split: option.split)

lemma jmember_found [simp]: "cJSON_GetObjectItem obj key = Some p \<Longrightarrow> jmember obj key k = k p"
  by (simp add: jmember_def)

lemma atoi_bound: "atoi b = Some n \<Longrightarrow> -(2 ^ 31) \<le> n \<and> n < 2 ^ 31"
  by (auto simp: atoi_def int32_def split: option.splits if_splits)

end
