(* ===== verification/HwClock.thy ===== *)
theory HwClock
  imports YaFlash HalTimer Cjson
begin

text \<open>
  The wall clock of \<^verbatim>\<open>src/apps/akeeta_tr6260/akeeta/app/src/ya_hardware_timer.c\<close>: one-second
  steps, the setting of the time by the cloud, and its drive from the millisecond tick in
  \<^verbatim>\<open>app/src/internal_hal/ya_hardware_timer_hal.c\<close> (built with
  \<open>YA_WITHOUT_HARDWARE_TIMER\<close>, so that starting and stopping the hardware timer do nothing).
\<close>

section \<open>The routines\<close>

record sys_time_t =
  year :: u16
  month :: u8
  day :: u8
  hour :: u8
  minute :: u8
  second :: u8
  week :: u8

record hwclock = board +
  sys_time :: sys_time_t
  check_enable :: u8
  ya_start_timer :: "64 word"
  ya_end_timer :: "64 word"

definition is_leap_year :: "nat \<Rightarrow> bool" where
  "is_leap_year y \<longleftrightarrow> y mod 4 = 0 \<and> y mod 100 \<noteq> 0 \<or> y mod 400 = 0"

definition days_in_month :: "u8 \<Rightarrow> u16 \<Rightarrow> u8" where
  "days_in_month m y =
     (if m \<in> {1, 3, 5, 7, 8, 10, 12} then 31
      else if m \<in> {4, 6, 9, 10} then 30
      else if m = 2 then 28 + (if is_leap_year (unat y) then 1 else 0)
      else 31)"

text \<open>The innermost block of \<open>sys_update_cloud_time\<close>, and the carry through minute and hour.\<close>

definition sys_next_day :: "sys_time_t \<Rightarrow> sys_time_t" where
  "sys_next_day t =
     (let t = t\<lparr>day := day t + 1, week := week t + 1\<rparr>;
          t = (if week t > 7 then t\<lparr>week := 1\<rparr> else t)
      in if day t > days_in_month (month t) (year t) then
           (let t = t\<lparr>day := 1, month := month t + 1\<rparr>
            in if month t > 12 then t\<lparr>month := 1, year := year t + 1\<rparr> else t)
         else t)"

definition sys_time_add :: "u8 \<Rightarrow> sys_time_t \<Rightarrow> sys_time_t" where
  "sys_time_add second_add t =
     (let t = t\<lparr>second := second t + second_add\<rparr>
      in if second t > 59 then
           (let t = t\<lparr>second := second t - 60, minute := minute t + 1\<rparr>
            in if minute t > 59 then
                 (let t = t\<lparr>minute := 0, hour := hour t + 1\<rparr>
                  in if hour t > 23 then sys_next_day (t\<lparr>hour := 0\<rparr>) else t)
               else t)
         else t)"

definition sys_update_cloud_time :: "u8 \<Rightarrow> 'a hwclock_scheme \<Rightarrow> 'a hwclock_scheme" where
  "sys_update_cloud_time second_add s =
     (if second_add \<ge> 60 then s
      else s\<lparr>sys_time := sys_time_add second_add (sys_time s), check_enable := 1\<rparr>)"

definition sys_abstime_running :: "'a hwclock_scheme \<Rightarrow> 'a hwclock_scheme" where
  "sys_abstime_running s = sys_update_cloud_time 1 s"

definition sys_abstime_init :: "'a hwclock_scheme \<Rightarrow> 'a hwclock_scheme" where
  "sys_abstime_init s = s\<lparr>sys_time :=
     \<lparr>year = 2000, month = 1, day = 1, hour = 0, minute = 0, second = 0, week = 6\<rparr>\<rparr>"

text \<open>\<open>tick\<close> is the value of the tick counter; the product is computed in 32 bits.\<close>

definition ya_hal_os_ticks_to_msec :: "u32 \<Rightarrow> 64 word" where
  "ya_hal_os_ticks_to_msec tick = ucast (tick * portTICK_RATE_MS)"

definition sys_start_abstime :: "u32 \<Rightarrow> 'a hwclock_scheme \<Rightarrow> 'a hwclock_scheme" where
  "sys_start_abstime tick s =
     s\<lparr>ya_start_timer := ya_hal_os_ticks_to_msec tick, ya_end_timer := ya_hal_os_ticks_to_msec tick\<rparr>"

definition sys_run_abstime_1s :: "u32 \<Rightarrow> 'a hwclock_scheme \<Rightarrow> 'a hwclock_scheme" where
  "sys_run_abstime_1s tick s =
     (let s = s\<lparr>ya_end_timer := ya_hal_os_ticks_to_msec tick\<rparr>
      in if ya_timer_compare (ucast (ya_start_timer s)) (ucast (ya_end_timer s)) 1000 = 0 then
           (let s = sys_update_cloud_time 1 s in s\<lparr>ya_start_timer := ya_start_timer s + 1000\<rparr>)
         else s)"

text \<open>
  The time sent by the cloud.  Each number is cut to the width of its field before it is
  checked; the callback \<open>ya_callback_servertimer_set\<close> only informs the product.
\<close>

definition jnum :: "cJSON \<Rightarrow> string \<Rightarrow> (int \<Rightarrow> 'b option option) \<Rightarrow> 'b option option" where
  "jnum obj key k = jmember obj key (\<lambda>p. do { v \<leftarrow> valuestring p; n \<leftarrow> atoi v; k n })"

definition severtime_fields :: "cJSON \<Rightarrow> sys_time_t option option" where
  "severtime_fields root =
     jmember root ''time'' (\<lambda>time.
     jnum time ''year'' (\<lambda>n. let y = word_of_int n in check_err (y < 2020) (
     jnum time ''month'' (\<lambda>n. let mo = word_of_int n in check_err (mo > 12 \<or> mo = 0) (
     jnum time ''day'' (\<lambda>n. let d = word_of_int n in check_err (d > 31 \<or> d = 0) (
     jnum time ''hour'' (\<lambda>n. let h = word_of_int n in check_err (h > 23) (
     jnum time ''minute'' (\<lambda>n. let mi = word_of_int n in check_err (mi > 59) (
     jnum time ''second'' (\<lambda>n. let sec = word_of_int n in check_err (sec > 59) (
     jnum time ''week'' (\<lambda>n. let w = word_of_int n in check_err (w > 7 \<or> w = 0) (
       Some (Some \<lparr>year = y, month = mo, day = d, hour = h, minute = mi, second = sec, week = w\<rparr>))))))))))))))))"

definition device_handle_severtime_set ::
    "cjson_lib \<Rightarrow> bytes \<Rightarrow> 'a hwclock_scheme \<Rightarrow> (int \<times> 'a hwclock_scheme) option" where
  "device_handle_severtime_set lib data_buf s =
     (case cJSON_Parse lib data_buf of None \<Rightarrow> Some (-1, s)
      | Some root \<Rightarrow> do {
          r \<leftarrow> severtime_fields root;
          case r of None \<Rightarrow> Some (-1, s) | Some t \<Rightarrow> Some (0, s\<lparr>sys_time := t\<rparr>)
        })"

section \<open>The calendar\<close>

definition month_len :: "nat \<Rightarrow> nat \<Rightarrow> nat" where
  "month_len y m =
     (if m \<in> {4, 6, 9, 11} then 30 else if m = 2 then (if is_leap_year y then 29 else 28) else 31)"

primrec days_before_year :: "nat \<Rightarrow> nat" where
  "days_before_year 0 = 0"
| "days_before_year (Suc y) = days_before_year y + (if is_leap_year y then 366 else 365)"

definition day_number :: "sys_time_t \<Rightarrow> nat" where
  "day_number t = days_before_year (unat (year t)) +
     (\<Sum>m \<in> {1..<unat (month t)}. month_len (unat (year t)) m) + unat (day t)"

definition secs :: "sys_time_t \<Rightarrow> nat" where
  "secs t = ((day_number t * 24 + unat (hour t)) * 60 + unat (minute t)) * 60 + unat (second t)"

definition date_ok :: "sys_time_t \<Rightarrow> bool" where
  "date_ok t \<longleftrightarrow> 1 \<le> unat (month t) \<and> unat (month t) \<le> 12 \<and> 1 \<le> unat (day t) \<and>
     unat (day t) \<le> month_len (unat (year t)) (unat (month t)) \<and> unat (year t) < 65535"

definition time_ok :: "sys_time_t \<Rightarrow> bool" where
  "time_ok t \<longleftrightarrow> unat (hour t) < 24 \<and> unat (minute t) < 60 \<and> unat (second t) < 60"

text \<open>Day of the week, Monday being 1; 1 January 2000 was a Saturday.\<close>

definition week_ok :: "sys_time_t \<Rightarrow> bool" where
  "week_ok t \<longleftrightarrow> unat (week t) = (day_number t + 4) mod 7 + 1"

definition last_of_november :: "sys_time_t \<Rightarrow> bool" where
  "last_of_november t \<longleftrightarrow> month t = 11 \<and> day t = 30"

lemma u8_plus_one: "unat x < 255 \<Longrightarrow> unat (x + 1 :: u8) = unat x + 1"
  by (simp add: unat_add_lem [THEN iffD1])

lemma u8_add_unat: "unat x + unat y < 256 \<Longrightarrow> unat (x + y :: u8) = unat x + unat y"
  by (simp add: unat_add_lem [THEN iffD1])

lemma u8_minus: "unat (y :: u8) \<le> unat x \<Longrightarrow> unat (x - y) = unat x - unat y"
  by (simp add: unat_sub word_le_nat_alt)

lemma year_split: "(\<Sum>m \<in> {1..<12}. month_len y m) + 31 = (if is_leap_year y then 366 else 365)"
proof -
  have "{1..<12 :: nat} = {1, 2, 3, 4, 5, 6, 7, 8, 9, 10, 11}" by (auto; presburger)
  then show ?thesis by (simp add: month_len_def)
qed

lemma month_cases:
  assumes "unat (m :: u8) \<le> 12"
  shows "m \<in> {0, 1, 2, 3, 4, 5, 6, 7, 8, 9, 10, 11, 12}"
proof -
  have "m = of_nat (unat m)" by simp
  moreover have "unat m \<in> {0, 1, 2, 3, 4, 5, 6, 7, 8, 9, 10, 11, 12}" using assms by (auto; presburger)
  ultimately show ?thesis by (elim insertE) auto
qed

lemma days_in_month_eq:
  assumes "1 \<le> unat m" and "unat m \<le> 12" and "m \<noteq> 11"
  shows "unat (days_in_month m y) = month_len (unat y) (unat m)"
  using month_cases [OF assms(2)] assms(1,3)
  by (elim insertE) (simp_all add: days_in_month_def month_len_def)

lemma days_in_month_le: "unat (days_in_month m y) \<le> 31"
  by (simp add: days_in_month_def)

lemma month_len_bounds: "28 \<le> month_len y m" "month_len y m \<le> 31"
  by (simp_all add: month_len_def)

lemma next_day_advances:
  assumes "date_ok t" and "\<not> last_of_november t"
  shows "day_number (sys_next_day t) = day_number t + 1"
    and "1 \<le> unat (month (sys_next_day t)) \<and> unat (month (sys_next_day t)) \<le> 12 \<and>
         1 \<le> unat (day (sys_next_day t)) \<and>
         unat (day (sys_next_day t)) \<le> month_len (unat (year (sys_next_day t))) (unat (month (sys_next_day t)))"
proof -
  let ?y = "unat (year t)" and ?m = "unat (month t)" and ?d = "unat (day t)"
  have r: "1 \<le> ?m" "?m \<le> 12" "1 \<le> ?d" "?d \<le> month_len ?y ?m" "?y < 65535"
    using assms(1) by (auto simp: date_ok_def)
  have d31: "?d \<le> 31" using r(4) month_len_bounds(2) [of ?y ?m] by simp
  have d1: "unat (day t + 1) = ?d + 1" using d31 by (intro u8_plus_one) simp
  have m1: "unat (month t + 1) = ?m + 1" using r by (intro u8_plus_one) simp
  have y1: "unat (year t + 1) = ?y + 1" using r(5) by (simp add: unat_add_lem [THEN iffD1])
  have nov: "day t + 1 > days_in_month 11 (year t) \<longleftrightarrow> 31 < ?d + 1" if "month t = 11"
    by (simp add: word_less_nat_alt d1 days_in_month_def)
  have over: "day t + 1 > days_in_month (month t) (year t) \<longleftrightarrow> month_len ?y ?m < ?d + 1"
  proof (cases "month t = 11")
    case True
    moreover have "day t = of_nat ?d" by simp
    ultimately have "?d \<noteq> 30" using assms(2) unfolding last_of_november_def by (metis of_nat_numeral)
    with True r(4) nov show ?thesis by (auto simp: month_len_def)
  next
    case False
    then show ?thesis using days_in_month_eq [OF r(1,2) False, of "year t"] by (simp add: word_less_nat_alt d1)
  qed
  have dec: "month t + 1 > 12 \<longleftrightarrow> ?m = 12" using r(2) by (simp add: word_less_nat_alt m1) linarith
  have sum: "sum f {Suc 0..<Suc ?m} = sum f {Suc 0..<?m} + f ?m" for f :: "nat \<Rightarrow> nat"
    using r(1) by simp
  have m12: "month_len ?y 12 = 31" by (simp add: month_len_def)
  have ml: "1 \<le> month_len y m" for y m using month_len_bounds(1) [of y m] by simp
  note nd = sys_next_day_def Let_def over dec d1 m1 y1
  show "day_number (sys_next_day t) = day_number t + 1"
    using r(4) year_split [of ?y] sum [of "month_len ?y"] m12
    by (auto simp: day_number_def nd simp del: sum.op_ivl_Suc)
  show "1 \<le> unat (month (sys_next_day t)) \<and> unat (month (sys_next_day t)) \<le> 12 \<and>
         1 \<le> unat (day (sys_next_day t)) \<and>
         unat (day (sys_next_day t)) \<le> month_len (unat (year (sys_next_day t))) (unat (month (sys_next_day t)))"
    using r ml by (auto simp: nd)
qed

lemma next_day_time [simp]:
  "hour (sys_next_day t) = hour t" "minute (sys_next_day t) = minute t" "second (sys_next_day t) = second t"
  by (simp_all add: sys_next_day_def Let_def)

lemma next_day_week:
  "week (sys_next_day t) = (if week t + 1 > 7 then 1 else week t + 1)"
  by (simp add: sys_next_day_def Let_def)

lemma next_day_week_ok:
  assumes "day_number (sys_next_day t) = day_number t + 1" and "week_ok t"
  shows "week_ok (sys_next_day t)"
proof -
  let ?k = "(day_number t + 4) mod 7"
  have w: "unat (week t) = ?k + 1" using assms(2) by (simp add: week_ok_def)
  have k: "?k < 7" by simp
  have w1: "unat (week t + 1) = ?k + 2" using w k by (subst u8_plus_one) auto
  have "unat (week (sys_next_day t)) = (if ?k = 6 then 1 else ?k + 2)"
    using k w1 by (auto simp: next_day_week word_less_nat_alt)
  moreover have "(day_number t + 1 + 4) mod 7 = (if ?k = 6 then 0 else ?k + 1)" by presburger
  ultimately show ?thesis by (simp add: week_ok_def assms(1))
qed

text \<open>The carry chain on numbers.\<close>

definition rolls_over :: "u8 \<Rightarrow> sys_time_t \<Rightarrow> bool" where
  "rolls_over n t \<longleftrightarrow> hour t = 23 \<and> minute t = 59 \<and> 60 \<le> unat (second t) + unat n"

lemma unat_eq_numeral: "unat (x :: u8) = numeral k \<Longrightarrow> x = numeral k"
  by (drule arg_cong [of _ _ "of_nat :: nat \<Rightarrow> u8"]) simp

lemma date_fields [simp]:
  "day_number (t\<lparr>second := a\<rparr>) = day_number t" "day_number (t\<lparr>minute := a\<rparr>) = day_number t"
  "day_number (t\<lparr>hour := a\<rparr>) = day_number t" "date_ok (t\<lparr>second := a\<rparr>) = date_ok t"
  "date_ok (t\<lparr>minute := a\<rparr>) = date_ok t" "date_ok (t\<lparr>hour := a\<rparr>) = date_ok t"
  "week_ok (t\<lparr>second := a\<rparr>) = week_ok t" "week_ok (t\<lparr>minute := a\<rparr>) = week_ok t"
  "week_ok (t\<lparr>hour := a\<rparr>) = week_ok t" "last_of_november (t\<lparr>second := a\<rparr>) = last_of_november t"
  "last_of_november (t\<lparr>minute := a\<rparr>) = last_of_november t"
  "last_of_november (t\<lparr>hour := a\<rparr>) = last_of_november t"
  by (simp_all add: day_number_def date_ok_def week_ok_def last_of_november_def)

lemma sys_time_add_carry:
  assumes "time_ok t" and "unat n < 60"
  shows "\<exists>sec. unat sec = (unat (second t) + unat n) mod 60 \<and>
    sys_time_add n t =
      (if unat (second t) + unat n < 60 then t\<lparr>second := sec\<rparr>
       else if unat (minute t) < 59 then t\<lparr>second := sec, minute := minute t + 1\<rparr>
       else if unat (hour t) < 23 then t\<lparr>second := sec, minute := 0, hour := hour t + 1\<rparr>
       else sys_next_day (t\<lparr>second := sec, minute := 0, hour := 0\<rparr>))"
proof -
  have r: "unat (hour t) < 24" "unat (minute t) < 60" "unat (second t) < 60"
    using assms(1) by (auto simp: time_ok_def)
  have s1: "unat (second t + n) = unat (second t) + unat n" using r assms(2) by (intro u8_add_unat) simp
  have m1: "unat (minute t + 1) = unat (minute t) + 1" using r by (intro u8_plus_one) simp
  have h1: "unat (hour t + 1) = unat (hour t) + 1" using r by (intro u8_plus_one) simp
  have s60: "unat (second t + n - 60) = unat (second t) + unat n - 60" if "60 \<le> unat (second t) + unat n"
    using that s1 by (subst u8_minus) auto
  have s: "(59 < second t + n) = (60 \<le> unat (second t) + unat n)"
    by (simp add: word_less_nat_alt s1) linarith
  have m: "(59 < minute t + 1) = (\<not> unat (minute t) < 59)" by (simp add: word_less_nat_alt m1) linarith
  have h: "(23 < hour t + 1) = (\<not> unat (hour t) < 23)" by (simp add: word_less_nat_alt h1) linarith
  have md: "(unat (second t) + unat n) mod 60 = unat (second t) + unat n - 60"
    if "60 \<le> unat (second t) + unat n" using that r assms(2) by (simp add: mod_if)
  show ?thesis
  proof (cases "60 \<le> unat (second t) + unat n")
    case True
    then show ?thesis
      by (intro exI [of _ "second t + n - 60"]) (simp add: sys_time_add_def Let_def s m h s60 md)
  next
    case False
    then show ?thesis by (intro exI [of _ "second t + n"]) (simp add: sys_time_add_def Let_def s s1)
  qed
qed

lemma next_day_secs:
  assumes "date_ok t" and "\<not> last_of_november t"
  shows "secs (sys_next_day t) = secs t + 86400"
  using next_day_advances(1) [OF assms] by (simp add: secs_def)

lemma sys_time_add_advances:
  assumes "date_ok t" and "time_ok t" and "unat n < 60" and "\<not> (last_of_november t \<and> rolls_over n t)"
  shows "secs (sys_time_add n t) = secs t + unat n \<and> time_ok (sys_time_add n t) \<and>
    (week_ok t \<longrightarrow> week_ok (sys_time_add n t))"
proof -
  have r: "unat (hour t) < 24" "unat (minute t) < 60" "unat (second t) < 60"
    using assms(2) by (auto simp: time_ok_def)
  from sys_time_add_carry [OF assms(2,3)] obtain sec where
    sec: "unat sec = (unat (second t) + unat n) mod 60" and
    add: "sys_time_add n t =
      (if unat (second t) + unat n < 60 then t\<lparr>second := sec\<rparr>
       else if unat (minute t) < 59 then t\<lparr>second := sec, minute := minute t + 1\<rparr>
       else if unat (hour t) < 23 then t\<lparr>second := sec, minute := 0, hour := hour t + 1\<rparr>
       else sys_next_day (t\<lparr>second := sec, minute := 0, hour := 0\<rparr>))" by blast
  have m1: "unat (minute t + 1) = unat (minute t) + 1" using r by (intro u8_plus_one) simp
  have h1: "unat (hour t + 1) = unat (hour t) + 1" using r by (intro u8_plus_one) simp
  have sec': "unat sec = unat (second t) + unat n - 60" if "\<not> unat (second t) + unat n < 60"
    using that r assms(3) by (simp add: sec mod_if)
  show ?thesis
  proof (cases "unat (second t) + unat n < 60 \<or> unat (minute t) < 59 \<or> unat (hour t) < 23")
    case True
    then show ?thesis using r sec by (auto simp: add secs_def time_ok_def m1 h1 sec')
  next
    case False
    let ?u = "t\<lparr>second := sec, minute := 0, hour := 0\<rparr>"
    have h: "unat (hour t) = 23" "unat (minute t) = 59" using False r by auto
    have nn: "\<not> last_of_november t"
      using assms(4) False unat_eq_numeral [OF h(1)] unat_eq_numeral [OF h(2)] by (auto simp: rolls_over_def)
    have adv: "day_number (sys_next_day ?u) = day_number ?u + 1"
      using assms(1) nn by (intro next_day_advances(1)) simp_all
    have "secs (sys_next_day ?u) = secs ?u + 86400" using assms(1) nn by (intro next_day_secs) simp_all
    then have "secs (sys_time_add n t) = secs t + unat n"
      using False sec' h by (simp add: add secs_def)
    moreover have "time_ok (sys_time_add n t)" using False r sec by (simp add: add time_ok_def)
    moreover have "week_ok (sys_time_add n t)" if "week_ok t"
      using next_day_week_ok [OF adv] that False by (simp add: add)
    ultimately show ?thesis by blast
  qed
qed

section \<open>Ranges\<close>

text \<open>What the clock keeps whatever the cloud sends: the day may not exist in its month.\<close>

definition clock_range :: "sys_time_t \<Rightarrow> bool" where
  "clock_range t \<longleftrightarrow> 1 \<le> month t \<and> month t \<le> 12 \<and> 1 \<le> day t \<and> day t \<le> 31 \<and> hour t \<le> 23 \<and>
     minute t \<le> 59 \<and> second t \<le> 59 \<and> 1 \<le> week t \<and> week t \<le> 7"

text \<open>The life of the clock: started, advanced, set by the cloud.\<close>

inductive clock_reach :: "cjson_lib \<Rightarrow> 'a hwclock_scheme \<Rightarrow> bool" for lib where
  started: "clock_reach lib (sys_abstime_init s)"
| ticked: "clock_reach lib s \<Longrightarrow> clock_reach lib (sys_update_cloud_time n s)"
| driven: "clock_reach lib s \<Longrightarrow> clock_reach lib (sys_run_abstime_1s tick s)"
| server: "clock_reach lib s \<Longrightarrow> device_handle_severtime_set lib b s = Some (r, s') \<Longrightarrow>
    clock_reach lib s'"

inductive_cases clock_reach_cases: "clock_reach lib s"

lemma clock_range_unat:
  "clock_range t \<longleftrightarrow> 1 \<le> unat (month t) \<and> unat (month t) \<le> 12 \<and> 1 \<le> unat (day t) \<and> unat (day t) \<le> 31 \<and>
     unat (hour t) \<le> 23 \<and> unat (minute t) \<le> 59 \<and> unat (second t) \<le> 59 \<and>
     1 \<le> unat (week t) \<and> unat (week t) \<le> 7"
  by (simp add: clock_range_def word_le_nat_alt)

lemma next_day_range: "clock_range t \<Longrightarrow> clock_range (sys_next_day t)"
proof -
  assume "clock_range t"
  then have r: "unat (month t) \<le> 12" "1 \<le> unat (month t)" "unat (day t) \<le> 31" "unat (week t) \<le> 7"
    "unat (hour t) \<le> 23" "unat (minute t) \<le> 59" "unat (second t) \<le> 59"
    by (simp_all add: clock_range_unat)
  have "unat (month t + 1) = unat (month t) + 1" "unat (day t + 1) = unat (day t) + 1"
    "unat (week t + 1) = unat (week t) + 1" using r by (simp_all add: u8_plus_one)
  with r days_in_month_le [of "month t" "year t"] show ?thesis
    by (auto simp: sys_next_day_def Let_def clock_range_unat word_less_nat_alt)
qed

lemma sys_time_add_range:
  assumes "clock_range t" and "unat n < 60"
  shows "clock_range (sys_time_add n t)"
proof -
  have t: "time_ok t" using assms(1) by (auto simp: clock_range_unat time_ok_def)
  from sys_time_add_carry [OF t assms(2)] obtain sec where
    sec: "unat sec = (unat (second t) + unat n) mod 60" and
    add: "sys_time_add n t =
      (if unat (second t) + unat n < 60 then t\<lparr>second := sec\<rparr>
       else if unat (minute t) < 59 then t\<lparr>second := sec, minute := minute t + 1\<rparr>
       else if unat (hour t) < 23 then t\<lparr>second := sec, minute := 0, hour := hour t + 1\<rparr>
       else sys_next_day (t\<lparr>second := sec, minute := 0, hour := 0\<rparr>))" by blast
  have s59: "unat sec \<le> 59" using sec by simp
  have "unat (minute t + 1) = unat (minute t) + 1" "unat (hour t + 1) = unat (hour t) + 1"
    using t by (simp_all add: u8_plus_one time_ok_def)
  moreover have "clock_range (sys_next_day (t\<lparr>second := sec, minute := 0, hour := 0\<rparr>))"
    using assms(1) s59 by (intro next_day_range) (simp add: clock_range_unat)
  ultimately show ?thesis using assms(1) s59 by (simp add: add) (simp add: clock_range_unat)
qed

lemma update_range:
  assumes "clock_range (sys_time s)"
  shows "clock_range (sys_time (sys_update_cloud_time n s))"
  using assms sys_time_add_range [of "sys_time s" n]
  by (simp add: sys_update_cloud_time_def word_le_nat_alt)

lemma run_range:
  assumes "clock_range (sys_time s)"
  shows "clock_range (sys_time (sys_run_abstime_1s tick s))"
proof -
  have "clock_range (sys_time (s\<lparr>ya_end_timer := ya_hal_os_ticks_to_msec tick\<rparr>))" using assms by simp
  from update_range [OF this, of 1] show ?thesis using assms by (simp add: sys_run_abstime_1s_def Let_def)
qed

lemma severtime_fields_range: "severtime_fields root = Some (Some t) \<Longrightarrow> clock_range t \<and> 2020 \<le> year t"
  unfolding severtime_fields_def jnum_def
  by (auto simp: jmember_Ok check_err_Ok Let_def bind_eq_Some_conv clock_range_def not_less word_le_nat_alt
      word_less_nat_alt Suc_le_eq unat_gt_0)

lemma severtime_set_cases:
  assumes "device_handle_severtime_set lib b s = Some (r, s')"
  shows "r = -1 \<and> s' = s \<or> r = 0 \<and> (\<exists>t. s' = s\<lparr>sys_time := t\<rparr> \<and> clock_range t \<and> 2020 \<le> year t)"
  using assms severtime_fields_range
  by (fastforce simp: device_handle_severtime_set_def bind_eq_Some_conv split: option.splits)

section \<open>Drive\<close>

text \<open>Moments in milliseconds at which the task polls: at most a second apart, counter not wrapped.\<close>

fun dense :: "nat \<Rightarrow> u32 list \<Rightarrow> bool" where
  "dense now [] = True"
| "dense now (k # ks) = (now \<le> unat k * 5 \<and> unat k * 5 \<le> now + 1000 \<and> unat k * 5 < 2 ^ 32 \<and> dense (unat k * 5) ks)"

definition last_poll :: "nat \<Rightarrow> u32 list \<Rightarrow> nat" where
  "last_poll now ks = (if ks = [] then now else unat (last ks) * 5)"

lemma ticks_to_msec_unat: "unat k * 5 < 2 ^ 32 \<Longrightarrow> unat (ya_hal_os_ticks_to_msec k) = unat k * 5"
  by (simp add: ya_hal_os_ticks_to_msec_def portTICK_RATE_MS_def unsigned_ucast_eq take_bit_nat_eq_self
      unat_mult_lem [THEN iffD1])

lemma run_abstime_step:
  assumes "unat k * 5 < 2 ^ 32" and "unat (ya_start_timer s) \<le> unat k * 5"
  shows "sys_run_abstime_1s k s =
    (if unat k * 5 - unat (ya_start_timer s) > 1000
     then s\<lparr>ya_end_timer := ya_hal_os_ticks_to_msec k, sys_time := sys_time_add 1 (sys_time s),
            check_enable := 1, ya_start_timer := ya_start_timer s + 1000\<rparr>
     else s\<lparr>ya_end_timer := ya_hal_os_ticks_to_msec k\<rparr>)"
proof -
  have e: "unat (ucast (ya_hal_os_ticks_to_msec k) :: u32) = unat k * 5"
    using assms(1) ticks_to_msec_unat [OF assms(1)] by (simp add: unsigned_ucast_eq take_bit_nat_eq_self)
  have st: "unat (ucast (ya_start_timer s) :: u32) = unat (ya_start_timer s)"
    using assms by (simp add: unsigned_ucast_eq take_bit_nat_eq_self)
  have le: "(ucast (ya_start_timer s) :: u32) \<le> ucast (ya_hal_os_ticks_to_msec k)"
    using assms(2) by (simp add: word_le_nat_alt e st)
  then have "timer_delta (ucast (ya_hal_os_ticks_to_msec k)) (ucast (ya_start_timer s)) > 1000 \<longleftrightarrow>
      unat k * 5 - unat (ya_start_timer s) > 1000"
    by (simp add: timer_delta_eq word_less_nat_alt unat_sub e st)
  moreover have "\<not> (60 :: u8) \<le> 1" by (simp add: word_le_nat_alt)
  ultimately show ?thesis
    by (auto simp: sys_run_abstime_1s_def Let_def ya_timer_compare_eq sys_update_cloud_time_def)
qed

lemma last_poll_Cons: "last_poll now (k # ks) = last_poll (unat k * 5) ks"
  by (simp add: last_poll_def)

lemma run_abstime_polls:
  assumes "dense now ks" and "unat (ya_start_timer s) \<le> now" and "now \<le> unat (ya_start_timer s) + 1000"
    and "now < 2 ^ 32"
  shows "\<exists>n. sys_time (fold sys_run_abstime_1s ks s) = (sys_time_add 1 ^^ n) (sys_time s) \<and>
    unat (ya_start_timer s) + 1000 * n \<le> last_poll now ks \<and>
    last_poll now ks \<le> unat (ya_start_timer s) + 1000 * n + 1000"
  using assms
proof (induction ks arbitrary: now s)
  case Nil
  then show ?case by (intro exI [of _ 0]) (simp add: last_poll_def)
next
  case (Cons k ks)
  let ?st = "unat (ya_start_timer s)" and ?t = "sys_run_abstime_1s k s"
  have k: "now \<le> unat k * 5" "unat k * 5 \<le> now + 1000" "unat k * 5 < 2 ^ 32" "dense (unat k * 5) ks"
    using Cons.prems(1) by auto
  have step: "?t = (if unat k * 5 - ?st > 1000
     then s\<lparr>ya_end_timer := ya_hal_os_ticks_to_msec k, sys_time := sys_time_add 1 (sys_time s),
            check_enable := 1, ya_start_timer := ya_start_timer s + 1000\<rparr>
     else s\<lparr>ya_end_timer := ya_hal_os_ticks_to_msec k\<rparr>)"
    using k Cons.prems(2) by (intro run_abstime_step) auto
  have st1: "unat (ya_start_timer s + 1000) = ?st + 1000"
    using Cons.prems(2,4) by (simp add: unat_add_lem [THEN iffD1])
  define j where "j = (if unat k * 5 - ?st > 1000 then 1 else 0 :: nat)"
  have t: "sys_time ?t = (sys_time_add 1 ^^ j) (sys_time s)" "unat (ya_start_timer ?t) = ?st + 1000 * j"
    using st1 by (auto simp: step j_def)
  have "unat (ya_start_timer ?t) \<le> unat k * 5" "unat k * 5 \<le> unat (ya_start_timer ?t) + 1000"
    using k Cons.prems(2,3) by (auto simp: t(2) j_def)
  from Cons.IH [OF k(4) this k(3)] obtain n where
    n: "sys_time (fold sys_run_abstime_1s ks ?t) = (sys_time_add 1 ^^ n) (sys_time ?t)"
    "unat (ya_start_timer ?t) + 1000 * n \<le> last_poll (unat k * 5) ks"
    "last_poll (unat k * 5) ks \<le> unat (ya_start_timer ?t) + 1000 * n + 1000" by blast
  show ?case using n t
    by (intro exI [of _ "n + j"]) (simp add: last_poll_Cons funpow_add add_mult_distrib2)
qed

section \<open>Properties\<close>

text \<open>C6: the clock counts seconds of the calendar.  From a date that exists, adding up to 59 seconds
  advances the number of seconds since the epoch by exactly that many, across the ends of minutes,
  hours, days, months, leap years and years, and keeps the day of the week right; the only
  exception is the midnight after 30 November.\<close>

theorem clock_counts_calendar_seconds:
  assumes "date_ok (sys_time s)" and "time_ok (sys_time s)" and "unat n < 60"
    and "\<not> (last_of_november (sys_time s) \<and> rolls_over n (sys_time s))"
  defines "t \<equiv> sys_time (sys_update_cloud_time n s)"
  shows "secs t = secs (sys_time s) + unat n \<and> time_ok t \<and> (week_ok (sys_time s) \<longrightarrow> week_ok t)"
proof -
  have "t = sys_time_add n (sys_time s)"
    using assms(3) by (simp add: t_def sys_update_cloud_time_def word_le_nat_alt)
  with sys_time_add_advances [OF assms(1-4)] show ?thesis by simp
qed

definition clock_demo :: "sys_time_t \<Rightarrow> hwclock" where
  "clock_demo t = board.extend board_demo
     \<lparr>sys_time = t, check_enable = 0, ya_start_timer = 0, ya_end_timer = 0\<rparr>"

theorem clock_counts_calendar_seconds_witness:
  "secs (sys_time (sys_update_cloud_time 1
     (clock_demo \<lparr>year = 2024, month = 2, day = 29, hour = 23, minute = 59, second = 59, week = 4\<rparr>))) =
   secs \<lparr>year = 2024, month = 2, day = 29, hour = 23, minute = 59, second = 59, week = 4\<rparr> + 1"
  using clock_counts_calendar_seconds
    [of "clock_demo \<lparr>year = 2024, month = 2, day = 29, hour = 23, minute = 59, second = 59, week = 4\<rparr>" 1]
  by (simp add: clock_demo_def board.defs date_ok_def time_ok_def month_len_def is_leap_year_def
      last_of_november_def)

text \<open>November has 31 days.  At the midnight after 30 November of any year the clock shows
  31 November instead of 1 December, and it reaches 1 December a day late.\<close>

theorem clock_november_31:
  assumes "month t = 11" and "day t = 30" and "hour t = 23" and "minute t = 59" and "second t = 59"
  shows "month (sys_time_add 1 t) = 11 \<and> day (sys_time_add 1 t) = 31 \<and> \<not> date_ok (sys_time_add 1 t) \<and>
    month (sys_next_day (sys_time_add 1 t)) = 12 \<and> day (sys_next_day (sys_time_add 1 t)) = 1"
  using assms
  by (simp add: sys_time_add_def sys_next_day_def days_in_month_def Let_def date_ok_def month_len_def)

theorem clock_november_31_witness:
  "day (sys_time_add 1 \<lparr>year = 2023, month = 11, day = 30, hour = 23, minute = 59, second = 59, week = 4\<rparr>) = 31"
  using clock_november_31 [of "\<lparr>year = 2023, month = 11, day = 30, hour = 23, minute = 59, second = 59, week = 4\<rparr>"]
  by simp

text \<open>C28: whatever the cloud sends and however often the clock is driven, month, day, hour, minute,
  second and day of the week of every reachable clock are in their ranges.\<close>

theorem clock_stays_in_range:
  assumes "clock_reach lib s"
  shows "clock_range (sys_time s)"
  using assms
proof (induction rule: clock_reach.induct)
  case (started s)
  then show ?case by (simp add: sys_abstime_init_def clock_range_unat)
next
  case (server s b r s')
  then show ?case using severtime_set_cases [OF server.hyps(2)] by auto
qed (simp_all add: update_range run_range)

theorem clock_stays_in_range_witness:
  "clock_range (sys_time (sys_update_cloud_time 59 (sys_abstime_init 
     (clock_demo \<lparr>year = 2024, month = 2, day = 29, hour = 23, minute = 59, second = 59, week = 4\<rparr>))))"
  by (rule clock_stays_in_range
      [OF clock_reach.ticked [OF clock_reach.started
        [of "\<lparr>cJSON_Parse = (\<lambda>_. None), cJSON_PrintUnformatted = (\<lambda>_. None)\<rparr>"]]])

text \<open>C27: the clock does not drift.  Polled at least once a second, then after any number of polls, and
  while the counter does not wrap, the time that has passed since the start and is not yet counted
  is at most one second.\<close>

theorem clock_does_not_drift:
  assumes "dense (5 * unat k) ks" and "5 * unat k < 2 ^ 32"
  shows "\<exists>n. sys_time (fold sys_run_abstime_1s ks (sys_start_abstime k s)) = (sys_time_add 1 ^^ n) (sys_time s) \<and>
    5 * unat k + 1000 * n \<le> last_poll (5 * unat k) ks \<and>
    last_poll (5 * unat k) ks \<le> 5 * unat k + 1000 * n + 1000"
proof -
  have "unat (ya_start_timer (sys_start_abstime k s)) = 5 * unat k"
    using assms(2) ticks_to_msec_unat [of k] by (simp add: sys_start_abstime_def mult.commute)
  with run_abstime_polls [OF assms(1), of "sys_start_abstime k s"] assms(2) show ?thesis
    by (simp add: sys_start_abstime_def)
qed

theorem clock_does_not_drift_witness:
  "\<exists>n. sys_time (fold sys_run_abstime_1s [100, 290, 480] (sys_start_abstime 100 (sys_abstime_init (clock_demo
           \<lparr>year = 2024, month = 2, day = 29, hour = 23, minute = 59, second = 59, week = 4\<rparr>)))) =
         (sys_time_add 1 ^^ n) \<lparr>year = 2000, month = 1, day = 1, hour = 0, minute = 0, second = 0, week = 6\<rparr> \<and>
       1000 * n \<le> 1900 \<and> 900 \<le> 1000 * n"
  using clock_does_not_drift [of 100 "[100, 290, 480]" "sys_abstime_init (clock_demo
    \<lparr>year = 2024, month = 2, day = 29, hour = 23, minute = 59, second = 59, week = 4\<rparr>)"]
  by (simp add: last_poll_def sys_abstime_init_def)

end
