(* ===== verification/HwTimer.thy ===== *)
theory HwTimer
  imports HwClock CertFlash
begin

text \<open>
  The scheduled actions of \<^verbatim>\<open>src/apps/akeeta_tr6260/akeeta/app/src/ya_hardware_timer.c\<close>, the
  message queue and task of \<^verbatim>\<open>ya_hardware_app.c\<close> in the same directory and the dispatch of
  cloud messages in \<^verbatim>\<open>ya_hardware_translate.c\<close>.

  The linked list of timers is the list \<open>timers\<close>; its nodes are owned by the list.  \<open>action\<close> is
  the memory from the pointer to the end of its block, so that running off the block is visible
  as \<open>None\<close>.
\<close>

section \<open>State\<close>

record device_common_timer =
  t_year :: u16
  t_month :: u8
  t_day :: u8
  t_hour :: u8
  t_minute :: u8
  t_week :: u8
  enable :: u8
  timer_id :: bytes
  t_second :: u8
  triggered :: u8
  action_len :: u16
  action :: bytes

datatype hw_msg = CloudData bytes | TimerAction bytes | UartData bytes | ClearTimerFlash

text \<open>
  What the task does outside: property data for the product, bytes for the UART, a request for
  the time (\<open>ya_thing_request_server_timer\<close>), the state of the cloud connection.
\<close>

datatype hw_event = Downlink bytes | UartWrite bytes | RequestServerTime | CloudDebind | CloudOnline | CloudOffline

record hwt = hwclock +
  timers :: "device_common_timer list"
  hw_queue :: "hw_msg list"
  hw_events :: "hw_event list"
  ya_aws_hardware_timer_app :: Ya_Timer

definition MAX_TIMER_DEVICE_DATA :: nat where "MAX_TIMER_DEVICE_DATA = 4096 * 2 - 256"
definition MAX_ACTION_LEN :: nat where "MAX_ACTION_LEN = 256"
definition MAX_TIMER_NUM :: nat where "MAX_TIMER_NUM = 20"
definition MAX_TIMER_ID_LEN :: nat where "MAX_TIMER_ID_LEN = 16"

lemmas hwt_consts = MAX_TIMER_DEVICE_DATA_def MAX_ACTION_LEN_def MAX_TIMER_NUM_def MAX_TIMER_ID_LEN_def

section \<open>The list of timers\<close>

definition device_delete_all_timer :: "'a hwt_scheme \<Rightarrow> int \<times> 'a hwt_scheme" where
  "device_delete_all_timer s = (0, s\<lparr>timers := []\<rparr>)"

definition device_delete_list_timer :: "bytes \<Rightarrow> 'a hwt_scheme \<Rightarrow> int \<times> 'a hwt_scheme" where
  "device_delete_list_timer tid s =
     (let pre = takeWhile (\<lambda>n. timer_id n \<noteq> tid) (timers s)
      in case dropWhile (\<lambda>n. timer_id n \<noteq> tid) (timers s) of
           [] \<Rightarrow> (-1, s)
         | cur_node # rest \<Rightarrow> (0, s\<lparr>timers := pre @ rest\<rparr>))"

text \<open>
  The node takes 44 bytes.  The \<open>memset\<close> of the action block is given \<open>sizeof\<close> of an \<open>int\<close>: it
  clears four bytes, also when the block has fewer.
\<close>

definition device_add_list_timer ::
    "device_common_timer \<Rightarrow> 'a hwt_scheme \<Rightarrow> (int \<times> 'a hwt_scheme) option" where
  "device_add_list_timer node s =
     (if \<exists>n \<in> set (timers s). timer_id n = timer_id node then Some (0, s)
      else if length (timers s) mod 256 > MAX_TIMER_NUM then Some (-1, s)
      else case mem_alloc s 44 of None \<Rightarrow> Some (-1, s)
      | Some _ \<Rightarrow>
        (case mem_alloc s (unat (action_len node) + 1) of None \<Rightarrow> Some (-1, s)
         | Some blk \<Rightarrow> do {
             blk \<leftarrow> memset blk 0 4;
             blk \<leftarrow> strcpy blk (action node);
             let add_node = node\<lparr>action := blk, action_len := action_len node + 1, triggered := 0\<rparr>
             in Some (0, s\<lparr>timers := timers s @ [add_node]\<rparr>)
           }))"

section \<open>Timers on flash\<close>

definition timer_head :: "device_common_timer \<Rightarrow> bytes" where
  "timer_head n =
     [ucast (drop_bit 8 (t_year n)), ucast (t_year n), t_month n, t_day n, t_hour n, t_minute n, t_week n, enable n]"

text \<open>The loop over the list: \<open>Some None\<close> is the error exit.\<close>

fun save_loop :: "device_common_timer list \<Rightarrow> bytes \<Rightarrow> nat \<Rightarrow> (bytes \<times> nat) option option" where
  "save_loop [] buf pos = Some (Some (buf, pos))"
| "save_loop (n # ns) buf pos =
     (if pos + 8 + MAX_TIMER_ID_LEN + 8 + 2 + unat (action_len n) > MAX_TIMER_DEVICE_DATA then Some None
      else do {
        buf \<leftarrow> memcpy_at buf pos (timer_head n);
        buf \<leftarrow> memcpy_at buf (pos + 8) (timer_id n);
        buf \<leftarrow> wr buf (pos + 8 + MAX_TIMER_ID_LEN) (t_second n);
        let pos = pos + 8 + MAX_TIMER_ID_LEN + 8
        in if unat (action_len n) < MAX_ACTION_LEN then do {
             buf \<leftarrow> memcpy_at buf pos [ucast (drop_bit 8 (action_len n)), ucast (action_len n)];
             act \<leftarrow> slice (action n) 0 (unat (action_len n));
             buf \<leftarrow> memcpy_at buf (pos + 2) act;
             save_loop ns buf (pos + 2 + unat (action_len n))
           }
           else Some None
      })"

definition device_save_timer_into_flash :: "'a hwt_scheme \<Rightarrow> (int \<times> 'a hwt_scheme) option" where
  "device_save_timer_into_flash s =
     (case mem_alloc s MAX_TIMER_DEVICE_DATA of None \<Rightarrow> Some (-1, s)
      | Some buf \<Rightarrow> do {
          buf \<leftarrow> memset buf 0 MAX_TIMER_DEVICE_DATA;
          r \<leftarrow> save_loop (timers s) buf 0;
          case r of None \<Rightarrow> Some (-1, s)
          | Some (buf, pos) \<Rightarrow>
              if pos > 0 then do { (_, s) \<leftarrow> ya_write_flash YA_DEVICE_TIMER_ADDR buf pos 2 s; Some (0, s) }
              else Some (0, snd (ya_erase_flash YA_DEVICE_TIMER_ADDR 1 s))
        })"

text \<open>The scan of the stored bytes; the results of adding the timers are ignored.\<close>

definition timer_at :: "bytes \<Rightarrow> nat \<Rightarrow> device_common_timer option" where
  "timer_at buf pos = do {
     h \<leftarrow> slice buf pos 8;
     tid \<leftarrow> slice buf (pos + 8) MAX_TIMER_ID_LEN;
     sec \<leftarrow> rd buf (pos + 8 + MAX_TIMER_ID_LEN);
     l \<leftarrow> slice buf (pos + 16 + MAX_TIMER_ID_LEN) 2;
     Some \<lparr>t_year = push_bit 8 (ucast (h ! 0)) + ucast (h ! 1), t_month = h ! 2, t_day = h ! 3,
           t_hour = h ! 4, t_minute = h ! 5, t_week = h ! 6, enable = h ! 7, timer_id = tid,
           t_second = sec, triggered = 0,
           action_len = push_bit 8 (ucast (l ! 0)) + ucast (l ! 1),
           action = drop (pos + 18 + MAX_TIMER_ID_LEN) buf\<rparr>
   }"

function restore_loop :: "bytes \<Rightarrow> nat \<Rightarrow> nat \<Rightarrow> 'a hwt_scheme \<Rightarrow> (int \<times> 'a hwt_scheme) option" where
  "restore_loop buf read_len pos s =
     (if pos < read_len then
        (if pos + 16 + MAX_TIMER_ID_LEN + 2 > read_len then Some (-1, s)
         else do {
           n \<leftarrow> timer_at buf pos;
           let pos = pos + 18 + MAX_TIMER_ID_LEN
           in if pos + unat (action_len n) > read_len then Some (-1, s)
              else if unat (action_len n) < MAX_ACTION_LEN then do {
                (_, s) \<leftarrow> device_add_list_timer n s;
                restore_loop buf read_len (pos + unat (action_len n)) s
              }
              else Some (-1, s)
         })
      else Some (0, s))"
  by pat_completeness auto
termination by (relation "measure (\<lambda>(buf, read_len, pos, s). read_len - pos)") auto

declare restore_loop.simps [simp del]

definition device_read_timer_into_flash :: "'a hwt_scheme \<Rightarrow> (int \<times> 'a hwt_scheme) option" where
  "device_read_timer_into_flash s =
     (case mem_alloc s MAX_TIMER_DEVICE_DATA of None \<Rightarrow> Some (-1, s)
      | Some buf \<Rightarrow> do {
          buf \<leftarrow> memset buf 0 MAX_TIMER_DEVICE_DATA;
          (ret, data) \<leftarrow> ya_read_flash_with_var_len YA_DEVICE_TIMER_ADDR MAX_TIMER_DEVICE_DATA 2 s;
          if ret \<noteq> 0 \<or> data = [] then Some (-1, s)
          else do { buf \<leftarrow> memcpy_at buf 0 data; restore_loop buf (length data) 0 s }
        })"

definition ya_hardware_timer_init :: "'a hwt_scheme \<Rightarrow> 'a hwt_scheme option" where
  "ya_hardware_timer_init s = map_option snd (device_read_timer_into_flash s)"

definition ya_clear_timer_flash :: "'a hwt_scheme \<Rightarrow> 'a hwt_scheme option" where
  "ya_clear_timer_flash s = map_option snd (device_save_timer_into_flash (snd (device_delete_all_timer s)))"

section \<open>Cloud commands\<close>

text \<open>Bit \<open>i\<close> of the week is set when the string contains the digit \<open>i + 1\<close>.\<close>

definition week_mask :: "bytes \<Rightarrow> u8" where
  "week_mask v = foldl (\<lambda>w i. if of_nat (49 + i) \<in> set v then w + push_bit i 1 else w) 0 [0..<7]"

definition clock_field :: "cJSON \<Rightarrow> string \<Rightarrow> (u8 \<Rightarrow> 'b option option) \<Rightarrow> 'b option option" where
  "clock_field obj key k = jmember obj key (\<lambda>p. do {
     v \<leftarrow> valuestring p;
     check_err (v = []) (do { n \<leftarrow> atoi v; k (word_of_int n) })
   })"

definition second_field :: "cJSON \<Rightarrow> u8 option" where
  "second_field obj =
     (case cJSON_GetObjectItem obj ''second'' of None \<Rightarrow> Some 0
      | Some p \<Rightarrow> do { v \<leftarrow> valuestring p; if v = [] then Some 0 else map_option word_of_int (atoi v) })"

definition date_field :: "cJSON \<Rightarrow> (u16 \<Rightarrow> u8 \<Rightarrow> u8 \<Rightarrow> 'b option option) \<Rightarrow> 'b option option" where
  "date_field obj k = jmember obj ''date'' (\<lambda>p. do {
     v \<leftarrow> valuestring p;
     if length v \<ge> 8 then do {
       r \<leftarrow> sscanf_date v;
       case r of None \<Rightarrow> Some None
       | Some (p1, p2, p3) \<Rightarrow> k (word_of_int p1) (word_of_int p2) (word_of_int p3)
     }
     else k 0 0 0
   })"

text \<open>The fields of one timer after its id; the printed command is a C string.\<close>

definition timer_fields :: "cjson_lib \<Rightarrow> bytes \<Rightarrow> cJSON \<Rightarrow> device_common_timer option option" where
  "timer_fields lib tid array_node =
     jmember array_node ''enable'' (\<lambda>p. do { v \<leftarrow> valuestring p; n \<leftarrow> atoi v;
     let en = (if (word_of_int n :: u32) > 0 then 1 else 0) in
     jmember array_node ''timer'' (\<lambda>tm.
     jmember tm ''week'' (\<lambda>p. do { wk \<leftarrow> valuestring p;
     clock_field tm ''hour'' (\<lambda>h.
     clock_field tm ''minute'' (\<lambda>mi. do {
     sec \<leftarrow> second_field tm;
     date_field tm (\<lambda>y mo d.
     jmember array_node ''cmd'' (\<lambda>c. do {
       cmd \<leftarrow> cJSON_PrintUnformatted lib c;
       check_err (length cmd \<ge> MAX_ACTION_LEN)
         (Some (Some \<lparr>t_year = y, t_month = mo, t_day = d, t_hour = h, t_minute = mi, t_week = week_mask wk,
                     enable = en, timer_id = tid, t_second = sec, triggered = 0,
                     action_len = of_nat (length cmd), action = cmd @ [0]\<rparr>))
     })) })) })) })"

definition pad_id :: "bytes \<Rightarrow> bytes" where
  "pad_id v = v @ replicate (MAX_TIMER_ID_LEN - length v) 0"

text \<open>One element of an \<open>add\<close> or \<open>update\<close> array: the old timer goes before the new one is read.\<close>

definition cloud_item :: "cjson_lib \<Rightarrow> cJSON option \<Rightarrow> 'a hwt_scheme \<Rightarrow> (int \<times> 'a hwt_scheme) option" where
  "cloud_item lib node s =
     (case node of None \<Rightarrow> Some (-1, s)
      | Some array_node \<Rightarrow>
        (case cJSON_GetObjectItem array_node ''id'' of None \<Rightarrow> Some (-1, s)
         | Some p \<Rightarrow> do {
             v \<leftarrow> valuestring p;
             if length v \<ge> MAX_TIMER_ID_LEN then Some (-1, s)
             else
               let (_, s) = device_delete_list_timer (pad_id v) s
               in do {
                 r \<leftarrow> timer_fields lib (pad_id v) array_node;
                 case r of None \<Rightarrow> Some (-1, s)
                 | Some n \<Rightarrow> do { (ret, s) \<leftarrow> device_add_list_timer n s; Some (if ret \<noteq> 0 then -1 else 0, s) }
               }
           }))"

definition delete_item :: "cJSON option \<Rightarrow> 'a hwt_scheme \<Rightarrow> (int \<times> 'a hwt_scheme) option" where
  "delete_item node s =
     (case node of None \<Rightarrow> Some (-1, s)
      | Some array_node \<Rightarrow>
        (case cJSON_GetObjectItem array_node ''id'' of None \<Rightarrow> Some (-1, s)
         | Some p \<Rightarrow> do {
             v \<leftarrow> valuestring p;
             if length v \<ge> MAX_TIMER_ID_LEN then Some (-1, s)
             else Some (0, snd (device_delete_list_timer (pad_id v) s))
           }))"

fun cloud_items ::
    "(cJSON option \<Rightarrow> 'a hwt_scheme \<Rightarrow> (int \<times> 'a hwt_scheme) option) \<Rightarrow> cJSON option list \<Rightarrow>
     'a hwt_scheme \<Rightarrow> (int \<times> 'a hwt_scheme) option" where
  "cloud_items f [] s = Some (0, s)"
| "cloud_items f (c # cs) s = do { (r, s) \<leftarrow> f c s; if r \<noteq> 0 then Some (-1, s) else cloud_items f cs s }"

text \<open>The elements a loop with 16-bit counters visits.\<close>

definition array_items :: "cJSON \<Rightarrow> cJSON option list" where
  "array_items array = map (cJSON_GetArrayItem array) [0..<cJSON_GetArraySize array mod 65536]"

definition cloud_section ::
    "(cJSON option \<Rightarrow> 'a hwt_scheme \<Rightarrow> (int \<times> 'a hwt_scheme) option) \<Rightarrow> cJSON \<Rightarrow> string \<Rightarrow>
     bool \<Rightarrow> 'a hwt_scheme \<Rightarrow> (int \<times> bool \<times> 'a hwt_scheme) option" where
  "cloud_section f root key save_enable s =
     (case cJSON_GetObjectItem root key of None \<Rightarrow> Some (0, save_enable, s)
      | Some array \<Rightarrow> do {
          (r, s) \<leftarrow> cloud_items f (array_items array) s;
          Some (r, save_enable \<or> array_items array \<noteq> [], s)
        })"

fun cloud_sections ::
    "((cJSON option \<Rightarrow> 'a hwt_scheme \<Rightarrow> (int \<times> 'a hwt_scheme) option) \<times> string) list \<Rightarrow> cJSON \<Rightarrow>
     bool \<Rightarrow> 'a hwt_scheme \<Rightarrow> (int \<times> bool \<times> 'a hwt_scheme) option" where
  "cloud_sections [] root save_enable s = Some (0, save_enable, s)"
| "cloud_sections ((f, key) # fs) root save_enable s = do {
     (r, sv, s) \<leftarrow> cloud_section f root key save_enable s;
     if r \<noteq> 0 then Some (-1, sv, s) else cloud_sections fs root sv s
   }"

text \<open>The end of the handler: \<open>deleteAll\<close>, then save when something was changed.\<close>

definition cloud_finish :: "cJSON \<Rightarrow> bool \<Rightarrow> 'a hwt_scheme \<Rightarrow> (int \<times> 'a hwt_scheme) option" where
  "cloud_finish root save_enable s =
     (let (save_enable, s) = (if cJSON_GetObjectItem root ''deleteAll'' \<noteq> None
                              then (True, snd (device_delete_all_timer s)) else (save_enable, s))
      in if save_enable then do { (_, s) \<leftarrow> device_save_timer_into_flash s; Some (0, s) }
         else Some (0, s))"

definition device_handle_cloud_timer ::
    "cjson_lib \<Rightarrow> bytes \<Rightarrow> 'a hwt_scheme \<Rightarrow> (int \<times> 'a hwt_scheme) option" where
  "device_handle_cloud_timer lib data_buf s =
     (case cJSON_Parse lib data_buf of None \<Rightarrow> Some (-1, s)
      | Some root \<Rightarrow> do {
          (r, save_enable, s) \<leftarrow> cloud_sections
             [(cloud_item lib, ''add''), (cloud_item lib, ''update''), (delete_item, ''delete'')] root False s;
          if r \<noteq> 0 then Some (-1, s) else cloud_finish root save_enable s
        })"

section \<open>The queue of the task\<close>

definition hw_queue_send :: "hw_msg \<Rightarrow> 'a hwt_scheme \<Rightarrow> 'a hwt_scheme" where
  "hw_queue_send m s =
     (if length (hw_queue s) < MSG_QUEUE_LENGTH then s\<lparr>hw_queue := hw_queue s @ [m]\<rparr> else s)"

text \<open>The three senders differ in the type of the message only.  The length field has 16 bits.\<close>

definition put_into_queue :: "(bytes \<Rightarrow> hw_msg) \<Rightarrow> bytes \<Rightarrow> u16 \<Rightarrow> 'a hwt_scheme \<Rightarrow> 'a hwt_scheme option" where
  "put_into_queue f data data_len s =
     (case mem_alloc s (unat data_len + 1) of None \<Rightarrow> Some s
      | Some buff \<Rightarrow> do {
          buff \<leftarrow> memset buff 0 (unat data_len + 1);
          src \<leftarrow> slice data 0 (unat data_len);
          buff \<leftarrow> memcpy_at buff 0 src;
          Some (hw_queue_send (f (take (unat (data_len + 1)) buff)) s)
        })"

definition ya_put_cloud_data_into_queue :: "bytes \<Rightarrow> u16 \<Rightarrow> 'a hwt_scheme \<Rightarrow> 'a hwt_scheme option" where
  "ya_put_cloud_data_into_queue = put_into_queue CloudData"

definition ya_put_timer_action_into_queue :: "bytes \<Rightarrow> u16 \<Rightarrow> 'a hwt_scheme \<Rightarrow> 'a hwt_scheme option" where
  "ya_put_timer_action_into_queue = put_into_queue TimerAction"

definition ya_put_data_uart_into_queue :: "bytes \<Rightarrow> u16 \<Rightarrow> 'a hwt_scheme \<Rightarrow> 'a hwt_scheme option" where
  "ya_put_data_uart_into_queue = put_into_queue UartData"

definition ya_clear_timer_flash_into_hardware_queue :: "'a hwt_scheme \<Rightarrow> 'a hwt_scheme" where
  "ya_clear_timer_flash_into_hardware_queue s = hw_queue_send ClearTimerFlash s"

section \<open>Checking the timers\<close>

text \<open>
  Whether the day matches.  The day of the week is a shift count minus one: a count that is
  negative or too large for an \<open>int\<close> is undefined.
\<close>

definition timer_day :: "sys_time_t \<Rightarrow> device_common_timer \<Rightarrow> bool option" where
  "timer_day now n =
     (if enable n = 0 then Some False
      else if t_week n \<noteq> 0 then
        (if 1 \<le> week now \<and> week now \<le> 32 then Some (bit (t_week n) (unat (week now) - 1)) else None)
      else Some (t_year n \<noteq> 0 \<and> t_year n = year now \<and> t_month n = month now \<and> t_day n = day now))"

definition timer_cooldown :: "device_common_timer \<Rightarrow> u8" where
  "timer_cooldown n =
     (if enable n \<noteq> 0 \<and> triggered n \<noteq> 0
      then (if triggered n + 1 > 60 then 0 else triggered n + 1) else triggered n)"

definition timer_time :: "sys_time_t \<Rightarrow> device_common_timer \<Rightarrow> bool" where
  "timer_time now n \<longleftrightarrow> t_minute n = minute now \<and> t_hour n = hour now \<and> t_second n = second now"

fun check_loop ::
    "device_common_timer list \<Rightarrow> 'a hwt_scheme \<Rightarrow> (device_common_timer list \<times> 'a hwt_scheme) option" where
  "check_loop [] s = Some ([], s)"
| "check_loop (n # ns) s = do {
     flag \<leftarrow> timer_day (sys_time s) n;
     let n = n\<lparr>triggered := timer_cooldown n\<rparr>
     in if flag \<and> timer_time (sys_time s) n \<and> triggered n = 0 then do {
          s \<leftarrow> ya_put_timer_action_into_queue (action n) (action_len n) s;
          (ns, s) \<leftarrow> check_loop ns s;
          Some (n\<lparr>triggered := 1\<rparr> # ns, s)
        }
        else do { (ns, s) \<leftarrow> check_loop ns s; Some (n # ns, s) }
   }"

definition device_check_cloud_timer :: "'a hwt_scheme \<Rightarrow> 'a hwt_scheme option" where
  "device_check_cloud_timer s =
     (if check_enable s = 0 \<or> year (sys_time s) < 2020 then Some s
      else do {
        (ns, s) \<leftarrow> check_loop (timers s) (s\<lparr>check_enable := 0\<rparr>);
        Some (s\<lparr>timers := ns\<rparr>)
      })"

section \<open>Cloud messages and the task\<close>

definition ya_cloud_to_thing_translate :: "cjson_lib \<Rightarrow> bytes \<Rightarrow> 'a hwt_scheme \<Rightarrow> int \<times> 'a hwt_scheme" where
  "ya_cloud_to_thing_translate lib buf s =
     (case cJSON_Parse lib buf of None \<Rightarrow> (C_ERROR, s)
      | Some cmd \<Rightarrow>
        (case cJSON_GetObjectItem cmd ''property'' of None \<Rightarrow> (C_ERROR, s)
         | Some property \<Rightarrow>
           (case cJSON_PrintUnformatted lib property of None \<Rightarrow> (C_OK, s)
            | Some data \<Rightarrow> (C_OK, s\<lparr>hw_events := hw_events s @ [Downlink data]\<rparr>))))"

definition ya_handle_cloud_data :: "cjson_lib \<Rightarrow> bytes \<Rightarrow> 'a hwt_scheme \<Rightarrow> (int \<times> 'a hwt_scheme) option" where
  "ya_handle_cloud_data lib buf s =
     (case cJSON_Parse lib buf of None \<Rightarrow> Some (C_ERROR, s)
      | Some cmd \<Rightarrow>
        (case cJSON_GetObjectItem cmd ''method'' of None \<Rightarrow> Some (C_ERROR, s)
         | Some mth \<Rightarrow> do {
             v \<leftarrow> valuestring mth;
             if v = ascii ''thing.service.device.property.set'' then
               Some (C_OK, snd (ya_cloud_to_thing_translate lib buf s))
             else if v = ascii ''thing.service.device.severtime.set'' then do {
               (_, s) \<leftarrow> device_handle_severtime_set lib buf s; Some (C_OK, s) }
             else if v = ascii ''thing.service.device.timer.set'' then do {
               (_, s) \<leftarrow> device_handle_cloud_timer lib buf s; Some (C_OK, s) }
             else Some (C_OK, s)
           }))"

definition ya_hardware_handle_cloud_onff_event :: "bytes \<Rightarrow> 'a hwt_scheme \<Rightarrow> 'a hwt_scheme" where
  "ya_hardware_handle_cloud_onff_event data s =
     (case data of [] \<Rightarrow> s
      | d # _ \<Rightarrow>
        s\<lparr>hw_events := hw_events s @
          (if d = 2 then [CloudDebind]
           else if d = 1 then [CloudOnline, RequestServerTime]
           else if d = 0 then [CloudOffline] else [])\<rparr>)"

definition hw_handle_msg :: "cjson_lib \<Rightarrow> hw_msg \<Rightarrow> 'a hwt_scheme \<Rightarrow> 'a hwt_scheme option" where
  "hw_handle_msg lib m s =
     (case m of
        CloudData d \<Rightarrow> map_option snd (ya_handle_cloud_data lib d s)
      | TimerAction d \<Rightarrow> Some (s\<lparr>hw_events := hw_events s @ [Downlink d]\<rparr>)
      | UartData d \<Rightarrow> Some (s\<lparr>hw_events := hw_events s @ [UartWrite d]\<rparr>)
      | ClearTimerFlash \<Rightarrow> ya_clear_timer_flash s)"

definition SEVER_TIME_UPDATE_PERIOD :: u32 where "SEVER_TIME_UPDATE_PERIOD = 2 * 60 * 60 * 1000"

definition request_period :: "u32 \<Rightarrow> 'a hwt_scheme \<Rightarrow> 'a hwt_scheme" where
  "request_period tick s =
     (if ya_has_timer_expired tick (ya_aws_hardware_timer_app s) = 0
      then s\<lparr>ya_aws_hardware_timer_app :=
               ya_countdown_ms tick SEVER_TIME_UPDATE_PERIOD (ya_aws_hardware_timer_app s),
             hw_events := hw_events s @ [RequestServerTime]\<rparr>
      else s)"

text \<open>One turn of the loop of \<open>ya_hardware_app\<close>; \<open>tick\<close> is the tick counter during the turn.\<close>

definition ya_hardware_turn :: "cjson_lib \<Rightarrow> u32 \<Rightarrow> 'a hwt_scheme \<Rightarrow> 'a hwt_scheme option" where
  "ya_hardware_turn lib tick s = do {
     s \<leftarrow> device_check_cloud_timer (sys_run_abstime_1s tick s);
     let s = request_period tick s
     in case hw_queue s of [] \<Rightarrow> Some s | m # q \<Rightarrow> hw_handle_msg lib m (s\<lparr>hw_queue := q\<rparr>)
   }"

definition ya_hardware_app_init :: "u32 \<Rightarrow> 'a hwt_scheme \<Rightarrow> 'a hwt_scheme option" where
  "ya_hardware_app_init tick s = do {
     s \<leftarrow> ya_hardware_timer_init s;
     let s = sys_start_abstime tick (sys_abstime_init s)
     in Some (s\<lparr>ya_aws_hardware_timer_app :=
          ya_countdown_ms tick SEVER_TIME_UPDATE_PERIOD (ya_init_timer (ya_aws_hardware_timer_app s))\<rparr>)
   }"

text \<open>The loop; before a turn other tasks may have queued messages.\<close>

primrec ya_hardware_app :: "cjson_lib \<Rightarrow> (u32 \<times> hw_msg list) list \<Rightarrow> 'a hwt_scheme \<Rightarrow> 'a hwt_scheme option" where
  "ya_hardware_app lib [] s = Some s"
| "ya_hardware_app lib (k # ks) s = do {
     s \<leftarrow> ya_hardware_turn lib (fst k) (fold hw_queue_send (snd k) s);
     ya_hardware_app lib ks s
   }"

section \<open>The list invariant\<close>

text \<open>
  A stored timer owns a block of exactly \<open>action_len\<close> bytes that holds a C string.
\<close>

definition timer_ok :: "device_common_timer \<Rightarrow> bool" where
  "timer_ok n \<longleftrightarrow> length (timer_id n) = MAX_TIMER_ID_LEN \<and> length (action n) = unat (action_len n) \<and>
     cstr (action n) \<noteq> None \<and> 4 \<le> unat (action_len n) \<and> unat (action_len n) \<le> 256 \<and>
     unat (triggered n) \<le> 60"

definition timers_ok :: "'a hwt_scheme \<Rightarrow> bool" where
  "timers_ok s \<longleftrightarrow> list_all timer_ok (timers s) \<and> distinct (map timer_id (timers s)) \<and>
     length (timers s) \<le> MAX_TIMER_NUM + 1"

definition hw_inv :: "'a hwt_scheme \<Rightarrow> bool" where
  "hw_inv s \<longleftrightarrow> timers_ok s \<and> clock_range (sys_time s)"

lemma bind_eq_SomeE:
  assumes "Option.bind m f = Some y"
  obtains x where "m = Some x" and "f x = Some y"
  using assms by (auto simp: bind_eq_Some_conv)

lemma timers_ok_simps [simp]:
  "timers_ok (s\<lparr>hw_queue := q\<rparr>) = timers_ok s" "timers_ok (s\<lparr>hw_events := e\<rparr>) = timers_ok s"
  "timers_ok (s\<lparr>ya_aws_hardware_timer_app := w\<rparr>) = timers_ok s" "timers_ok (s\<lparr>timers := []\<rparr>)"
  by (simp_all add: timers_ok_def)

lemma delete_list_timer_eq:
  "device_delete_list_timer tid s =
   (if tid \<in> timer_id ` set (timers s)
    then (0, s\<lparr>timers := takeWhile (\<lambda>n. timer_id n \<noteq> tid) (timers s) @
                       tl (dropWhile (\<lambda>n. timer_id n \<noteq> tid) (timers s))\<rparr>)
    else (-1, s))"
proof (cases "dropWhile (\<lambda>n. timer_id n \<noteq> tid) (timers s)")
  case Nil
  moreover from Nil have "tid \<notin> timer_id ` set (timers s)" by (auto simp: dropWhile_eq_Nil_conv)
  ultimately show ?thesis unfolding device_delete_list_timer_def Let_def Nil by simp
next
  case (Cons n ns)
  then have split: "timers s = takeWhile (\<lambda>n. timer_id n \<noteq> tid) (timers s) @ n # ns" and id: "timer_id n = tid"
    by (simp_all add: dropWhile_eq_Cons_conv)
  have "n \<in> set (timers s)" by (subst split) simp
  with id have "tid \<in> timer_id ` set (timers s)" by blast
  then show ?thesis unfolding device_delete_list_timer_def Let_def Cons by simp
qed

lemma delete_first_filter:
  assumes "distinct (map f xs)"
  shows "takeWhile (\<lambda>n. f n \<noteq> v) xs @ tl (dropWhile (\<lambda>n. f n \<noteq> v) xs) = filter (\<lambda>n. f n \<noteq> v) xs"
  using assms
proof (induction xs)
  case (Cons x xs)
  have "f n \<noteq> f x" if "n \<in> set xs" for n using Cons.prems that by (metis distinct.simps(2) imageI list.simps(9) set_map)
  then have "filter (\<lambda>n. f n \<noteq> f x) xs = xs" by (simp add: filter_id_conv)
  with Cons show ?case by auto
qed simp

text \<open>On a list with distinct ids, deleting removes the timer with that id.\<close>

lemma delete_list_timer_filter:
  assumes "timers_ok s"
  shows "snd (device_delete_list_timer tid s) = s\<lparr>timers := filter (\<lambda>n. timer_id n \<noteq> tid) (timers s)\<rparr>"
proof (cases "tid \<in> timer_id ` set (timers s)")
  case True
  with assms show ?thesis by (simp add: delete_list_timer_eq timers_ok_def delete_first_filter)
next
  case False
  then have "filter (\<lambda>n. timer_id n \<noteq> tid) (timers s) = timers s" by (auto simp: filter_id_conv)
  with False show ?thesis by (simp add: delete_list_timer_eq)
qed

lemma delete_keeps: "timers_ok s \<Longrightarrow> timers_ok (snd (device_delete_list_timer tid s))"
  by (auto simp: delete_list_timer_filter)
    (auto simp: timers_ok_def list_all_iff distinct_map_filter intro: le_trans [OF length_filter_le])

text \<open>What a successful addition appends.\<close>

definition added :: "device_common_timer \<Rightarrow> device_common_timer \<Rightarrow> bool" where
  "added n m \<longleftrightarrow> (\<exists>a. m = n\<lparr>action := a, action_len := action_len n + 1, triggered := 0\<rparr> \<and>
     cstr a = cstr (action n) \<and> cstr (action n) \<noteq> None \<and> length a = unat (action_len n) + 1 \<and> 4 \<le> length a)"

lemma add_list_timer_cases:
  assumes "device_add_list_timer n s = Some (r, s')"
  shows "s' = s \<or> r = 0 \<and> timer_id n \<notin> timer_id ` set (timers s) \<and> length (timers s) mod 256 \<le> MAX_TIMER_NUM \<and>
    (\<exists>m. s' = s\<lparr>timers := timers s @ [m]\<rparr> \<and> added n m)"
  using assms
  by (fastforce simp: device_add_list_timer_def added_def Let_def bind_eq_Some_conv memset_Some strcpy_Some
      cstr_append_nul cstr_SomeD mem_alloc_length split: if_splits option.splits)

lemma add_keeps:
  assumes "timers_ok s" and "device_add_list_timer n s = Some (r, s')"
    and "length (timer_id n) = MAX_TIMER_ID_LEN" and "unat (action_len n) < 256"
  shows "timers_ok s'"
proof -
  have len: "unat (action_len n + 1) = unat (action_len n) + 1"
    using assms(4) by (simp add: unat_add_lem [THEN iffD1])
  from add_list_timer_cases [OF assms(2)] show ?thesis
  proof (elim disjE conjE exE)
    fix m assume m: "s' = s\<lparr>timers := timers s @ [m]\<rparr>" "added n m"
      and new: "timer_id n \<notin> timer_id ` set (timers s)" and room: "length (timers s) mod 256 \<le> MAX_TIMER_NUM"
    have "length (timers s) \<le> MAX_TIMER_NUM"
      using assms(1) room by (simp add: timers_ok_def MAX_TIMER_NUM_def)
    moreover have "timer_ok m" "timer_id m = timer_id n"
      using m(2) assms(3,4) len by (auto simp: added_def timer_ok_def)
    ultimately show ?thesis using assms(1) new by (auto simp: timers_ok_def m(1))
  qed (use assms(1) in simp)
qed

text \<open>
  An operation on the state that keeps the invariant, and what the loops of the cloud handler
  make of it.
\<close>

locale keeps_inv =
  fixes I :: "'a hwt_scheme \<Rightarrow> bool"
    and op :: "cJSON option \<Rightarrow> 'a hwt_scheme \<Rightarrow> (int \<times> 'a hwt_scheme) option"
  assumes keep: "I s \<Longrightarrow> op x s = Some (r, s') \<Longrightarrow> I s'"
begin

lemma items_keep: "I s \<Longrightarrow> cloud_items op xs s = Some (r, s') \<Longrightarrow> I s'"
  by (induction xs arbitrary: s) (auto simp: bind_eq_Some_conv split: if_splits dest: keep)

lemma section_keep: "I s \<Longrightarrow> cloud_section op root key sv s = Some (r, sv', s') \<Longrightarrow> I s'"
  by (auto simp: cloud_section_def bind_eq_Some_conv split: option.splits dest: items_keep)

end

lemma add_inv:
  assumes "hw_inv s" and "device_add_list_timer n s = Some (r, s')"
    and "length (timer_id n) = MAX_TIMER_ID_LEN" and "unat (action_len n) < 256"
  shows "hw_inv s'"
  using assms add_keeps [OF _ assms(2-4)] add_list_timer_cases [OF assms(2)] by (auto simp: hw_inv_def)

lemma delete_inv: "hw_inv s \<Longrightarrow> hw_inv (snd (device_delete_list_timer tid s))"
  using delete_keeps [of s tid] by (auto simp: hw_inv_def delete_list_timer_eq split: if_splits)

lemma pad_id_length [simp]: "length v < MAX_TIMER_ID_LEN \<Longrightarrow> length (pad_id v) = MAX_TIMER_ID_LEN"
  by (simp add: pad_id_def)

lemma timer_fields_shape:
  assumes "timer_fields lib tid j = Some (Some n)"
  shows "timer_id n = tid \<and> unat (action_len n) < MAX_ACTION_LEN \<and> length (action n) = unat (action_len n) + 1"
proof -
  have "unat (of_nat k :: u16) = k" if "k < 256" for k
    using that by (simp add: unat_of_nat)
  with assms show ?thesis
    unfolding timer_fields_def clock_field_def date_field_def
    by (auto simp: jmember_Ok check_err_Ok bind_eq_Some_conv Let_def MAX_ACTION_LEN_def
        split: if_splits option.splits)
qed

interpretation cloud_add: keeps_inv hw_inv "cloud_item lib" for lib
proof unfold_locales
  fix s s' :: "'a hwt_scheme" and x r
  assume ok: "hw_inv s" and run: "cloud_item lib x s = Some (r, s')"
  show "hw_inv s'"
  proof (cases "\<exists>j p v. x = Some j \<and> cJSON_GetObjectItem j ''id'' = Some p \<and> valuestring p = Some v \<and>
      length v < MAX_TIMER_ID_LEN")
    case True
    then obtain j p v where j: "x = Some j" "cJSON_GetObjectItem j ''id'' = Some p"
      "valuestring p = Some v" "length v < MAX_TIMER_ID_LEN" by blast
    let ?t = "snd (device_delete_list_timer (pad_id v) s)"
    have t: "hw_inv ?t" using ok by (rule delete_inv)
    have "s' = ?t \<or> (\<exists>n r'. timer_fields lib (pad_id v) j = Some (Some n) \<and> device_add_list_timer n ?t = Some (r', s'))"
      using run j by (auto simp: cloud_item_def bind_eq_Some_conv case_prod_beta split: option.splits if_splits)
    with t show ?thesis
    proof (elim disjE exE conjE)
      fix n r' assume n: "timer_fields lib (pad_id v) j = Some (Some n)" "device_add_list_timer n ?t = Some (r', s')"
      show ?thesis using timer_fields_shape [OF n(1)] j(4)
        by (intro add_inv [OF t n(2)]) (auto simp: MAX_ACTION_LEN_def)
    qed simp
  next
    case False
    with ok run show ?thesis
      by (auto simp: cloud_item_def bind_eq_Some_conv not_less split: option.splits if_splits)
  qed
qed

interpretation cloud_delete: keeps_inv hw_inv delete_item
  by unfold_locales
    (auto simp: delete_item_def bind_eq_Some_conv delete_inv split: option.splits if_splits)

lemma hwt_more:
  assumes "flash.more s = flash.more (t :: 'a hwt_scheme)"
  shows "timers s = timers t" and "sys_time s = sys_time t" and "check_enable s = check_enable t"
    and "hw_queue s = hw_queue t" and "hw_events s = hw_events t" and "heap s = heap t"
  using assms by (cases s, cases t, simp)+

lemma save_more:
  assumes "device_save_timer_into_flash s = Some (r, s')"
  shows "flash.more s' = flash.more s"
proof (cases "mem_alloc s MAX_TIMER_DEVICE_DATA")
  case None
  with assms show ?thesis by (simp add: device_save_timer_into_flash_def)
next
  case (Some blk)
  from assms obtain x where
    "(case x of None \<Rightarrow> Some (-1, s)
      | Some (buf, pos) \<Rightarrow>
          if pos > 0 then do { (_, s) \<leftarrow> ya_write_flash YA_DEVICE_TIMER_ADDR buf pos 2 s; Some (0, s) }
          else Some (0, snd (ya_erase_flash YA_DEVICE_TIMER_ADDR 1 s))) = Some (r, s')"
    unfolding device_save_timer_into_flash_def Some option.case by (elim bind_eq_SomeE) blast
  then show ?thesis
    by (cases x) (auto simp: bind_eq_Some_conv ya_erase_flash_more split: if_splits dest: ya_write_flash_more)
qed

lemma save_keeps:
  assumes "hw_inv s" and "device_save_timer_into_flash s = Some (r, s')"
  shows "hw_inv s'"
  using assms(1) hwt_more(1,2) [OF save_more [OF assms(2)]] by (simp add: hw_inv_def timers_ok_def)

lemma hw_inv_cleared [simp]: "hw_inv s \<Longrightarrow> hw_inv (s\<lparr>timers := []\<rparr>)"
  by (simp add: hw_inv_def)

lemma sections_keep:
  "\<forall>(f, k) \<in> set fs. keeps_inv hw_inv f \<Longrightarrow> hw_inv s \<Longrightarrow> cloud_sections fs root sv s = Some (r, sv', s') \<Longrightarrow>
   hw_inv s'"
  by (induction fs root sv s rule: cloud_sections.induct)
    (fastforce simp: bind_eq_Some_conv split: if_splits dest: keeps_inv.section_keep)+

lemma finish_keeps: "hw_inv s \<Longrightarrow> cloud_finish root sv s = Some (r, s') \<Longrightarrow> hw_inv s'"
  by (auto simp: cloud_finish_def device_delete_all_timer_def bind_eq_Some_conv split: if_splits
      dest: save_keeps [rotated])

lemma handle_cloud_keeps:
  assumes "hw_inv s" and "device_handle_cloud_timer lib b s = Some (r, s')"
  shows "hw_inv s'"
proof -
  have "\<forall>(f, k) \<in> set [(cloud_item lib, ''add''), (cloud_item lib, ''update''), (delete_item, ''delete'')].
      keeps_inv hw_inv f"
    by (simp add: cloud_add.keeps_inv_axioms cloud_delete.keeps_inv_axioms)
  note keep = sections_keep [OF this assms(1)]
  show ?thesis
  proof (cases "cJSON_Parse lib b")
    case None
    with assms show ?thesis by (simp add: device_handle_cloud_timer_def)
  next
    case (Some root)
    with assms(2) obtain r1 sv s1 where
      s1: "cloud_sections [(cloud_item lib, ''add''), (cloud_item lib, ''update''), (delete_item, ''delete'')]
             root False s = Some (r1, sv, s1)"
      "(if r1 \<noteq> 0 then Some (-1, s1) else cloud_finish root sv s1) = Some (r, s')"
      unfolding device_handle_cloud_timer_def Some option.case by (elim bind_eq_SomeE) auto
    show ?thesis using keep [OF s1(1)] s1(2) by (auto split: if_splits intro: finish_keeps)
  qed
qed

lemma clear_keeps: "hw_inv s \<Longrightarrow> ya_clear_timer_flash s = Some s' \<Longrightarrow> hw_inv s'"
  by (auto simp: ya_clear_timer_flash_def device_delete_all_timer_def intro: save_keeps [rotated])

lemma timer_at_shape:
  assumes "timer_at buf pos = Some n"
  shows "length (timer_id n) = MAX_TIMER_ID_LEN"
  using assms by (auto simp: timer_at_def bind_eq_Some_conv slice_Some MAX_TIMER_ID_LEN_def)

lemma restore_keeps:
  "timers_ok s \<Longrightarrow> restore_loop buf m pos s = Some (r, s') \<Longrightarrow> timers_ok s'"
proof (induction buf m pos s rule: restore_loop.induct)
  case (1 buf m pos s)
  show ?case
  proof (cases "\<exists>n r1 s1. pos < m \<and> timer_at buf pos = Some n \<and> device_add_list_timer n s = Some (r1, s1) \<and>
      unat (action_len n) < 256 \<and>
      restore_loop buf m (pos + 18 + MAX_TIMER_ID_LEN + unat (action_len n)) s1 = Some (r, s')")
    case True
    then obtain n r1 s1 where n: "timer_at buf pos = Some n" "device_add_list_timer n s = Some (r1, s1)"
      "unat (action_len n) < 256" by blast
    have "timers_ok s1" using n(2,3) timer_at_shape [OF n(1)] "1.prems"(1) by (blast intro: add_keeps)
    with 1 True n show ?thesis
      by (auto simp: restore_loop.simps [of buf m pos s] bind_eq_Some_conv Let_def split: if_splits)
  next
    case False
    with "1.prems" show ?thesis
      by (auto simp: restore_loop.simps [of buf m pos s] bind_eq_Some_conv Let_def MAX_ACTION_LEN_def split: if_splits)
  qed
qed

lemma read_keeps:
  assumes "timers_ok s" and "device_read_timer_into_flash s = Some (r, s')"
  shows "timers_ok s'"
  using assms
  by (auto simp: device_read_timer_into_flash_def bind_eq_Some_conv split: option.splits if_splits
      dest: restore_keeps)

section \<open>Firing\<close>

text \<open>When a timer fires, and what a check leaves of the mark that keeps it from firing again.\<close>

definition due :: "sys_time_t \<Rightarrow> device_common_timer \<Rightarrow> bool" where
  "due now n \<longleftrightarrow> enable n \<noteq> 0 \<and>
     (if t_week n \<noteq> 0 then bit (t_week n) (unat (week now) - 1)
      else t_year n \<noteq> 0 \<and> t_year n = year now \<and> t_month n = month now \<and> t_day n = day now) \<and>
     t_hour n = hour now \<and> t_minute n = minute now \<and> t_second n = second now \<and> triggered n \<in> {0, 60}"

definition checked :: "sys_time_t \<Rightarrow> device_common_timer \<Rightarrow> device_common_timer" where
  "checked now n = n\<lparr>triggered :=
     if due now n then 1 else if enable n = 0 then triggered n
     else if triggered n \<in> {0, 60} then 0 else triggered n + 1\<rparr>"

lemma u8_le_cases: "unat (x :: u8) \<le> 60 \<Longrightarrow> x + 1 > 60 \<longleftrightarrow> x = 60"
proof -
  assume x: "unat x \<le> 60"
  then have "unat (x + 1) = unat x + 1" by (intro u8_plus_one) simp
  then have "x + 1 > 60 \<longleftrightarrow> unat x = 60" using x by (auto simp: word_less_nat_alt)
  then show ?thesis using unat_eq_numeral [of x] by auto
qed

lemma cooldown_eq:
  assumes "timer_ok n"
  shows "timer_cooldown n = (if enable n = 0 then triggered n
     else if triggered n \<in> {0, 60} then 0 else triggered n + 1)"
  using u8_le_cases [of "triggered n"] assms by (auto simp: timer_cooldown_def timer_ok_def)

lemma check_node:
  assumes "clock_range now" and "timer_ok n"
  obtains d where "timer_day now n = Some d"
    and "d \<and> timer_time now n \<and> timer_cooldown n = 0 \<longleftrightarrow> due now n"
    and "\<not> due now n \<Longrightarrow> checked now n = n\<lparr>triggered := timer_cooldown n\<rparr>"
proof -
  have w: "1 \<le> week now" "week now \<le> 32"
    using assms(1) by (auto simp: clock_range_unat word_le_nat_alt)
  have p1: "triggered n + 1 = 0 \<Longrightarrow> 60 < unat (triggered n)"
  proof (rule ccontr)
    assume "triggered n + 1 = 0" "\<not> 60 < unat (triggered n)"
    moreover from this(2) have "unat (triggered n + 1) = unat (triggered n) + 1" by (intro u8_plus_one) simp
    ultimately show False by simp
  qed
  have t60: "unat (triggered n) \<le> 60" using assms(2) by (simp add: timer_ok_def)
  have "timer_day now n \<noteq> None" using w by (auto simp: timer_day_def)
  then obtain d where d: "timer_day now n = Some d" by blast
  show thesis
    by (rule that [OF d]) (use d w p1 t60 in \<open>auto simp: timer_day_def timer_time_def due_def checked_def
        cooldown_eq [OF assms(2)] split: if_splits\<close>)
qed

lemma hw_queue_send_frame: "\<exists>q. hw_queue_send m s = s\<lparr>hw_queue := q\<rparr> \<and> set q \<subseteq> insert m (set (hw_queue s))"
  by (auto simp: hw_queue_send_def intro: exI [of _ "hw_queue s"])

lemma fold_send_frame: "\<exists>q. fold hw_queue_send ms s = s\<lparr>hw_queue := q\<rparr>"
proof (induction ms arbitrary: s)
  case Nil
  then show ?case by (auto intro: exI [of _ "hw_queue s"])
next
  case (Cons m ms)
  obtain q where "hw_queue_send m s = s\<lparr>hw_queue := q\<rparr>" using hw_queue_send_frame by blast
  with Cons [of "s\<lparr>hw_queue := q\<rparr>"] show ?case by auto
qed

lemma put_action_result:
  assumes "timer_ok n"
  shows "ya_put_timer_action_into_queue (action n) (action_len n) s =
    Some (if heap s (unat (action_len n) + 1) = None then s else hw_queue_send (TimerAction (action n @ [0])) s)"
proof (cases "heap s (unat (action_len n) + 1)")
  case None
  then show ?thesis by (simp add: ya_put_timer_action_into_queue_def put_into_queue_def mem_alloc_def)
next
  case (Some f)
  let ?l = "unat (action_len n)"
  have l: "length (action n) = ?l" "?l \<le> 256" using assms by (auto simp: timer_ok_def)
  have l1: "unat (action_len n + 1) = ?l + 1" using l(2) by (simp add: unat_add_lem [THEN iffD1])
  obtain b where b: "mem_alloc s (?l + 1) = Some b" "length b = ?l + 1"
    using Some mem_alloc_length by (force simp: mem_alloc_def)
  have "memset b 0 (?l + 1) = Some (replicate (?l + 1) 0)" using b(2) by (simp add: memset_Some)
  moreover have "slice (action n) 0 ?l = Some (action n)" using l by (simp add: slice_def)
  moreover have "replicate (?l + 1) (0 :: u8) = replicate ?l 0 @ [0]" by (simp add: replicate_append_same)
  then have "memcpy_at (replicate (?l + 1) 0) 0 (action n) = Some (action n @ [0])"
    using l by (simp only: memcpy_at_Some) simp
  ultimately show ?thesis using Some b(1) l l1
    unfolding ya_put_timer_action_into_queue_def put_into_queue_def b(1) option.case by simp
qed

lemma check_loop_any:
  assumes "clock_range (sys_time s)" and "list_all timer_ok ns"
  shows "\<exists>q. check_loop ns s = Some (map (checked (sys_time s)) ns, s\<lparr>hw_queue := q\<rparr>) \<and>
    set q \<subseteq> set (hw_queue s) \<union> range TimerAction"
  using assms
proof (induction ns arbitrary: s)
  case Nil
  then show ?case by (auto intro: exI [of _ "hw_queue s"])
next
  case (Cons n ns)
  let ?now = "sys_time s"
  have "timer_ok n" using Cons.prems(2) by simp
  then obtain d where d: "timer_day ?now n = Some d" "d \<and> timer_time ?now n \<and> timer_cooldown n = 0 \<longleftrightarrow> due ?now n"
    "\<not> due ?now n \<Longrightarrow> checked ?now n = n\<lparr>triggered := timer_cooldown n\<rparr>"
    using check_node [OF Cons.prems(1)] by blast
  have fired: "due ?now n \<Longrightarrow> checked ?now n = n\<lparr>triggered := 1\<rparr>" by (simp add: checked_def)
  obtain q where put: "ya_put_timer_action_into_queue (action n) (action_len n) s = Some (s\<lparr>hw_queue := q\<rparr>)"
    and q: "set q \<subseteq> set (hw_queue s) \<union> range TimerAction"
  proof (cases "heap s (unat (action_len n) + 1) = None")
    case True
    then show thesis using put_action_result [of n s] Cons.prems(2) that [of "hw_queue s"] by simp
  next
    case False
    moreover obtain q where "hw_queue_send (TimerAction (action n @ [0])) s = s\<lparr>hw_queue := q\<rparr>"
      "set q \<subseteq> insert (TimerAction (action n @ [0])) (set (hw_queue s))" using hw_queue_send_frame by blast
    moreover from this(2) have "set q \<subseteq> set (hw_queue s) \<union> range TimerAction" by blast
    ultimately show thesis using put_action_result [of n s] Cons.prems(2) that [of q] by auto
  qed
  have tt: "timer_time ?now (n\<lparr>triggered := c\<rparr>) = timer_time ?now n" for c by (simp add: timer_time_def)
  show ?case
  proof (cases "due ?now n")
    case True
    obtain q' where "check_loop ns (s\<lparr>hw_queue := q\<rparr>) = Some (map (checked ?now) ns, s\<lparr>hw_queue := q'\<rparr>)"
      "set q' \<subseteq> set q \<union> range TimerAction" using Cons.IH [of "s\<lparr>hw_queue := q\<rparr>"] Cons.prems by auto
    with True d put q show ?thesis by (auto simp: fired Let_def tt)
  next
    case False
    with Cons.IH [of s] Cons.prems d show ?thesis by (auto simp: Let_def tt)
  qed
qed

lemma check_loop_fires:
  assumes "clock_range (sys_time s)" and "list_all timer_ok ns" and "\<forall>n. heap s n \<noteq> None"
  shows "check_loop ns s = Some (map (checked (sys_time s)) ns,
    fold hw_queue_send (map (\<lambda>n. TimerAction (action n @ [0])) (filter (due (sys_time s)) ns)) s)"
  using assms
proof (induction ns arbitrary: s)
  case (Cons n ns)
  let ?now = "sys_time s" and ?s = "hw_queue_send (TimerAction (action n @ [0])) s"
  have "timer_ok n" using Cons.prems(2) by simp
  then obtain d where d: "timer_day ?now n = Some d" "d \<and> timer_time ?now n \<and> timer_cooldown n = 0 \<longleftrightarrow> due ?now n"
    "\<not> due ?now n \<Longrightarrow> checked ?now n = n\<lparr>triggered := timer_cooldown n\<rparr>"
    using check_node [OF Cons.prems(1)] by blast
  have fired: "due ?now n \<Longrightarrow> checked ?now n = n\<lparr>triggered := 1\<rparr>" by (simp add: checked_def)
  have put: "ya_put_timer_action_into_queue (action n) (action_len n) s = Some ?s"
    using put_action_result [of n s] Cons.prems(2,3) by simp
  have same: "sys_time ?s = sys_time s" "heap ?s = heap s" by (simp_all add: hw_queue_send_def)
  have tt: "timer_time ?now (n\<lparr>triggered := c\<rparr>) = timer_time ?now n" for c by (simp add: timer_time_def)
  show ?case
  proof (cases "due ?now n")
    case True
    with Cons.IH [of ?s] Cons.prems d put show ?thesis
      by (auto simp: fired Let_def tt same)
  next
    case False
    with Cons.IH [of s] Cons.prems d show ?thesis by (auto simp: Let_def tt)
  qed
qed simp

lemma fold_send_room:
  "length (hw_queue s) + length ms \<le> MSG_QUEUE_LENGTH \<Longrightarrow>
   fold hw_queue_send ms s = s\<lparr>hw_queue := hw_queue s @ ms\<rparr>"
  by (induction ms arbitrary: s) (simp_all add: hw_queue_send_def)

lemma checked_ok: "timer_ok n \<Longrightarrow> timer_ok (checked now n) \<and> timer_id (checked now n) = timer_id n"
proof -
  assume n: "timer_ok n"
  then have t: "unat (triggered n) \<le> 60" by (simp add: timer_ok_def)
  then have "unat (triggered n + 1) = unat (triggered n) + 1" by (intro u8_plus_one) simp
  moreover have "unat (triggered n) < 60" if "triggered n \<noteq> 60"
    using t that unat_eq_numeral [of "triggered n"] by (cases "unat (triggered n) = 60") auto
  ultimately show ?thesis using n by (auto simp: timer_ok_def checked_def)
qed

lemma check_result:
  assumes "timers_ok s" and "clock_range (sys_time s)"
  shows "\<exists>t. device_check_cloud_timer s = Some t \<and> timers_ok t \<and> sys_time t = sys_time s \<and>
    set (hw_queue t) \<subseteq> set (hw_queue s) \<union> range TimerAction"
proof -
  from check_loop_any [of "s\<lparr>check_enable := 0\<rparr>" "timers s"] assms obtain q where
    q: "check_loop (timers s) (s\<lparr>check_enable := 0\<rparr>) =
        Some (map (checked (sys_time s)) (timers s), s\<lparr>check_enable := 0, hw_queue := q\<rparr>)"
    "set q \<subseteq> set (hw_queue s) \<union> range TimerAction"
    by (auto simp: timers_ok_def)
  have "timer_id \<circ> checked (sys_time s) = timer_id" by (auto simp: checked_def)
  then have "timers_ok (s\<lparr>check_enable := 0, hw_queue := q, timers := map (checked (sys_time s)) (timers s)\<rparr>)"
    using assms(1) checked_ok unfolding timers_ok_def by (auto simp: list_all_iff)
  with q assms(1) show ?thesis by (auto simp: device_check_cloud_timer_def)
qed

section \<open>The task\<close>

lemma run_abstime_timers [simp]: "timers_ok (sys_run_abstime_1s k s) = timers_ok (s :: 'a hwt_scheme)"
  by (simp add: timers_ok_def sys_run_abstime_1s_def sys_update_cloud_time_def Let_def)

lemma request_period_frame [simp]:
  "timers_ok (request_period k s) = timers_ok s" "sys_time (request_period k s) = sys_time s"
  by (simp_all add: request_period_def)

lemma severtime_keeps:
  assumes "hw_inv s" and "device_handle_severtime_set lib b s = Some (r, s')"
  shows "hw_inv s'"
  using severtime_set_cases [OF assms(2)] assms(1) by (auto simp: hw_inv_def timers_ok_def)

lemma translate_keeps: "hw_inv (snd (ya_cloud_to_thing_translate lib b s)) = hw_inv s"
  by (auto simp: ya_cloud_to_thing_translate_def hw_inv_def split: option.split)

lemma cloud_data_keeps:
  assumes "hw_inv s" and "ya_handle_cloud_data lib b s = Some (r, s')"
  shows "hw_inv s'"
  using assms
  by (auto simp: ya_handle_cloud_data_def bind_eq_Some_conv translate_keeps
      split: option.split_asm if_split_asm intro: severtime_keeps handle_cloud_keeps)

lemma handle_msg_keeps: "hw_inv s \<Longrightarrow> hw_handle_msg lib m s = Some s' \<Longrightarrow> hw_inv s'"
  by (cases m) (auto simp: hw_handle_msg_def hw_inv_def [of "hw_events_update _ _"] hw_inv_def [symmetric]
      intro: cloud_data_keeps clear_keeps)

lemma hw_inv_frame [simp]:
  "hw_inv (s\<lparr>hw_queue := q\<rparr>) = hw_inv s" "hw_inv (s\<lparr>hw_events := e\<rparr>) = hw_inv s"
  "hw_inv (request_period k s) = hw_inv s"
  by (simp_all add: hw_inv_def)

lemma run_abstime_queue [simp]: "hw_queue (sys_run_abstime_1s k s) = hw_queue (s :: 'a hwt_scheme)"
  by (simp add: sys_run_abstime_1s_def sys_update_cloud_time_def Let_def)

lemma request_period_queue [simp]: "hw_queue (request_period k s) = hw_queue s"
  by (simp add: request_period_def)

lemma turn_front:
  assumes "hw_inv s"
  obtains t where "device_check_cloud_timer (sys_run_abstime_1s k s) = Some t" and "hw_inv t"
    and "set (hw_queue t) \<subseteq> set (hw_queue s) \<union> range TimerAction"
  using check_result [of "sys_run_abstime_1s k s"] assms that by (auto simp: hw_inv_def run_range)

lemma clear_total: "ya_clear_timer_flash s \<noteq> None"
proof (cases "mem_alloc s MAX_TIMER_DEVICE_DATA")
  case None
  then show ?thesis
    by (simp add: ya_clear_timer_flash_def device_delete_all_timer_def device_save_timer_into_flash_def mem_alloc_def)
next
  case (Some b)
  then have "memset b 0 MAX_TIMER_DEVICE_DATA \<noteq> None" using mem_alloc_length [OF Some] by (simp add: memset_def memcpy_at_def)
  moreover have "mem_alloc (s\<lparr>timers := []\<rparr>) MAX_TIMER_DEVICE_DATA = Some b" using Some by (simp add: mem_alloc_def)
  ultimately show ?thesis
    by (auto simp: ya_clear_timer_flash_def device_delete_all_timer_def device_save_timer_into_flash_def)
qed

lemma turn_total:
  assumes "hw_inv s" and "\<forall>d. CloudData d \<notin> set (hw_queue s)"
  shows "ya_hardware_turn lib k s \<noteq> None"
proof -
  obtain t where t: "device_check_cloud_timer (sys_run_abstime_1s k s) = Some t"
    "set (hw_queue t) \<subseteq> set (hw_queue s) \<union> range TimerAction" using turn_front [OF assms(1)] by blast
  have msg: "hw_handle_msg lib m u \<noteq> None" if "m \<in> set (hw_queue t)" for m u
  proof -
    have "m \<in> set (hw_queue s) \<union> range TimerAction" using that t(2) by blast
    with assms(2) have "\<forall>d. m \<noteq> CloudData d" by auto
    then show ?thesis using clear_total [of u] by (cases m) (simp_all add: hw_handle_msg_def)
  qed
  show ?thesis
  proof (cases "hw_queue t")
    case (Cons m q)
    with t(1) msg [of m "request_period k t\<lparr>hw_queue := q\<rparr>"] show ?thesis by (simp add: ya_hardware_turn_def Let_def)
  qed (use t(1) in \<open>simp add: ya_hardware_turn_def Let_def\<close>)
qed

lemma turn_keeps:
  assumes "hw_inv s" and "ya_hardware_turn lib k s = Some s'"
  shows "hw_inv s'"
proof -
  obtain t where t: "device_check_cloud_timer (sys_run_abstime_1s k s) = Some t" "hw_inv t"
    using turn_front [OF assms(1)] by blast
  with assms(2) show ?thesis
    by (auto simp: ya_hardware_turn_def Let_def split: list.split_asm intro: handle_msg_keeps [rotated])
qed

lemma fold_send_inv [simp]: "hw_inv (fold hw_queue_send ms s) = hw_inv s"
  using fold_send_frame [of ms s] by auto

lemma app_keeps: "hw_inv s \<Longrightarrow> ya_hardware_app lib ks s = Some s' \<Longrightarrow> hw_inv s'"
  by (induction ks arbitrary: s) (auto simp: bind_eq_Some_conv dest: turn_keeps [rotated])

section \<open>Save and restore\<close>

definition enc_timer :: "device_common_timer \<Rightarrow> bytes" where
  "enc_timer n = timer_head n @ timer_id n @ t_second n # replicate 7 0 @
     [ucast (drop_bit 8 (action_len n)), ucast (action_len n)] @ action n"

definition enc_timers :: "device_common_timer list \<Rightarrow> bytes" where
  "enc_timers ns = concat (map enc_timer ns)"

definition savable :: "device_common_timer \<Rightarrow> bool" where
  "savable n \<longleftrightarrow> timer_ok n \<and> unat (action_len n) < MAX_ACTION_LEN"

lemma timer_head_length [simp]: "length (timer_head n) = 8"
  by (simp add: timer_head_def)

lemma enc_timer_length: "savable n \<Longrightarrow> length (enc_timer n) = 34 + unat (action_len n)"
  by (simp add: enc_timer_def savable_def timer_ok_def MAX_TIMER_ID_LEN_def)

lemma enc_timers_simps [simp]: "enc_timers [] = []" "enc_timers (n # ns) = enc_timer n @ enc_timers ns"
  by (simp_all add: enc_timers_def)

lemma replicate_split: "k \<le> m \<Longrightarrow> replicate m x = replicate k x @ replicate (m - k) x"
  by (simp flip: replicate_add)

lemma save_loop_one:
  assumes "savable n" and "pos = length d" and "length d + length (enc_timer n) + m = MAX_TIMER_DEVICE_DATA"
  shows "save_loop (n # ns) (d @ replicate (length (enc_timer n) + m) 0) pos =
         save_loop ns (d @ enc_timer n @ replicate m 0) (pos + length (enc_timer n))"
proof -
  let ?l = "unat (action_len n)" and ?hl = "[ucast (drop_bit 8 (action_len n)), ucast (action_len n)] :: bytes"
  have l: "length (enc_timer n) = 34 + ?l" using assms(1) by (rule enc_timer_length)
  have n: "length (timer_id n) = 16" "length (action n) = ?l" "?l < 256"
    using assms(1) by (simp_all add: savable_def timer_ok_def MAX_TIMER_ID_LEN_def MAX_ACTION_LEN_def)
  let ?z = "\<lambda>k. replicate k (0 :: u8)"
  have z: "?z (34 + ?l + m) = ?z 8 @ ?z 16 @ ?z 1 @ ?z 7 @ ?z 2 @ ?z ?l @ ?z m"
    by (simp only: replicate_add [symmetric] add.assoc [symmetric]) simp
  have s1: "memcpy_at (d @ ?z (34 + ?l + m)) pos (timer_head n) =
      Some (d @ timer_head n @ ?z 16 @ ?z 1 @ ?z 7 @ ?z 2 @ ?z ?l @ ?z m)"
    unfolding z assms(2) by (simp add: memcpy_at_append)
  have s2: "memcpy_at (d @ timer_head n @ ?z 16 @ ?z 1 @ ?z 7 @ ?z 2 @ ?z ?l @ ?z m) (pos + 8) (timer_id n) =
      Some (d @ timer_head n @ timer_id n @ ?z 1 @ ?z 7 @ ?z 2 @ ?z ?l @ ?z m)"
    using memcpy_at_append [of "d @ timer_head n" "pos + 8" "timer_id n" 16] n assms(2) by simp
  have s3: "wr (d @ timer_head n @ timer_id n @ ?z 1 @ ?z 7 @ ?z 2 @ ?z ?l @ ?z m) (pos + 8 + 16) (t_second n) =
      Some (d @ timer_head n @ timer_id n @ [t_second n] @ ?z 7 @ ?z 2 @ ?z ?l @ ?z m)"
    using n(1) assms(2) by (simp add: wr_def list_update_append)
  let ?p = "d @ timer_head n @ timer_id n @ [t_second n] @ ?z 7"
  have p: "length ?p = pos + 8 + 16 + 8" using n(1) assms(2) by simp
  have s4: "memcpy_at (?p @ ?z 2 @ ?z ?l @ ?z m) (pos + 8 + 16 + 8) ?hl = Some (?p @ ?hl @ ?z ?l @ ?z m)"
    using memcpy_at_append [OF p, of ?hl 2] by simp
  have s5: "memcpy_at ((?p @ ?hl) @ ?z ?l @ ?z m) (pos + 8 + 16 + 8 + 2) (action n) =
      Some ((?p @ ?hl) @ action n @ ?z m)"
    using memcpy_at_append [of "?p @ ?hl" "pos + 8 + 16 + 8 + 2" "action n" ?l] p n(2) by simp
  have sl: "slice (action n) 0 ?l = Some (action n)" using n(2) by (simp add: slice_def)
  have le: "\<not> pos + 8 + 16 + 8 + 2 + ?l > 7936" using assms l by (simp add: MAX_TIMER_DEVICE_DATA_def)
  have "save_loop (n # ns) (d @ ?z (34 + ?l + m)) pos =
      save_loop ns ((?p @ ?hl) @ action n @ ?z m) (pos + 8 + 16 + 8 + 2 + ?l)"
    using le n(3) unfolding save_loop.simps MAX_TIMER_ID_LEN_def MAX_TIMER_DEVICE_DATA_def MAX_ACTION_LEN_def
    by (simp only: if_False if_True s1 s2 s3 s4 [unfolded append_assoc] s5 [unfolded append_assoc] sl
        bind.bind_lunit Let_def append_assoc) simp
  moreover have "(?p @ ?hl) @ action n @ ?z m = d @ enc_timer n @ ?z m" by (simp add: enc_timer_def)
  moreover have "pos + 8 + 16 + 8 + 2 + ?l = pos + (34 + ?l)" by simp
  ultimately show ?thesis unfolding l by (simp only:)
qed

lemma save_loop_prefix:
  assumes "list_all savable ns" and "pos = length d"
    and "length d + length (enc_timers ns) + m = MAX_TIMER_DEVICE_DATA"
  shows "save_loop (ns @ rest) (d @ replicate (length (enc_timers ns) + m) 0) pos =
         save_loop rest (d @ enc_timers ns @ replicate m 0) (pos + length (enc_timers ns))"
  using assms
proof (induction ns arbitrary: d pos)
  case (Cons n ns)
  have "save_loop (n # ns @ rest) (d @ replicate (length (enc_timer n) + (length (enc_timers ns) + m)) 0) pos =
      save_loop (ns @ rest) (d @ enc_timer n @ replicate (length (enc_timers ns) + m) 0) (pos + length (enc_timer n))"
    using Cons.prems by (intro save_loop_one) simp_all
  also have "\<dots> = save_loop (ns @ rest) ((d @ enc_timer n) @ replicate (length (enc_timers ns) + m) 0) (pos + length (enc_timer n))"
    by simp
  also have "\<dots> = save_loop rest ((d @ enc_timer n) @ enc_timers ns @ replicate m 0)
      (pos + length (enc_timer n) + length (enc_timers ns))"
    using Cons.prems by (intro Cons.IH) simp_all
  finally show ?case by (simp add: add.assoc)
qed simp

lemma save_loop_all:
  assumes "list_all savable ns" and "length (enc_timers ns) + m = MAX_TIMER_DEVICE_DATA"
  shows "save_loop ns (replicate (length (enc_timers ns) + m) 0) 0 =
         Some (Some (enc_timers ns @ replicate m 0, length (enc_timers ns)))"
  using save_loop_prefix [OF assms(1), of 0 "[]" m "[]"] assms(2) by simp

text \<open>A timer whose action has grown to 256 bytes takes the error exit.\<close>

lemma save_loop_refuses:
  assumes "length (timer_id n) = MAX_TIMER_ID_LEN" and "MAX_ACTION_LEN \<le> unat (action_len n)"
    and "length buf = MAX_TIMER_DEVICE_DATA"
  shows "save_loop (n # ns) buf pos = Some None"
proof (cases "pos + 8 + MAX_TIMER_ID_LEN + 8 + 2 + unat (action_len n) > MAX_TIMER_DEVICE_DATA")
  case False
  then show ?thesis using assms
    by (simp add: memcpy_at_def wr_def Let_def)
qed simp

text \<open>Reading a record back: the fields, with the action running to the end of the buffer.\<close>

lemma u16_bytes: "push_bit 8 (ucast (ucast (drop_bit 8 w) :: u8)) + ucast (ucast w :: u8) = (w :: u16)"
proof -
  have "push_bit 8 (ucast (ucast (drop_bit 8 w) :: u8)) + ucast (ucast w :: u8) =
        push_bit 8 (ucast (ucast (drop_bit 8 w) :: u8)) OR (ucast (ucast w :: u8) :: u16)"
    by (rule disjunctive_add) (auto simp: bit_simps)
  also have "\<dots> = w" by (rule bit_word_eqI) (auto simp: bit_simps)
  finally show ?thesis .
qed

lemma timer_at_enc:
  assumes "savable n"
  shows "timer_at (pre @ enc_timer n @ z) (length pre) = Some (n\<lparr>action := action n @ z, triggered := 0\<rparr>)"
proof -
  have n: "length (timer_id n) = 16" "length (action n) = unat (action_len n)"
    using assms by (simp_all add: savable_def timer_ok_def MAX_TIMER_ID_LEN_def)
  let ?hl = "[ucast (drop_bit 8 (action_len n)), ucast (action_len n)] :: bytes"
  let ?b = "pre @ enc_timer n @ z"
  have h: "slice ?b (length pre) 8 = Some (timer_head n)"
    using slice_append [of pre "timer_head n"] by (simp add: enc_timer_def)
  have i: "slice ?b (length pre + 8) 16 = Some (timer_id n)"
    using slice_append [of "pre @ timer_head n" "timer_id n"] n by (simp add: enc_timer_def)
  have c: "rd ?b (length pre + 8 + 16) = Some (t_second n)"
    using n(1) by (simp add: rd_def enc_timer_def nth_append)
  have l: "slice ?b (length pre + 16 + 16) 2 = Some ?hl"
    using slice_append [of "pre @ timer_head n @ timer_id n @ t_second n # replicate 7 0" ?hl "action n @ z"] n
    by (simp add: enc_timer_def numeral_2_eq_2 add.commute)
  have a: "drop (length pre + 18 + 16) ?b = action n @ z"
    using n(1) by (simp add: enc_timer_def)
  show ?thesis
    unfolding timer_at_def MAX_TIMER_ID_LEN_def h i c l a by (simp add: timer_head_def u16_bytes)
qed

lemma add_fresh:
  assumes "board_ok s" and "timer_id n \<notin> timer_id ` set (timers s)" and "length (timers s) \<le> MAX_TIMER_NUM"
    and "cstr (action n) = Some c" and "length c < unat (action_len n) + 1" and "3 \<le> unat (action_len n)"
  shows "\<exists>m. device_add_list_timer n s = Some (0, s\<lparr>timers := timers s @ [m]\<rparr>) \<and> added n m"
proof -
  let ?l = "unat (action_len n)"
  obtain b0 where b0: "mem_alloc s 44 = Some b0" using mem_alloc_board_ok [OF assms(1)] by blast
  obtain b where b: "mem_alloc s (?l + 1) = Some b" "length b = ?l + 1"
    using mem_alloc_board_ok [OF assms(1)] by blast
  have z: "memset b 0 4 = Some (replicate 4 0 @ drop 4 b)" using b(2) assms(6) by (simp add: memset_Some)
  let ?a = "c @ 0 # drop (Suc (length c)) (replicate 4 0 @ drop 4 b)"
  have cp: "strcpy (replicate 4 0 @ drop 4 b) (action n) = Some ?a"
    using assms(4-6) b(2) by (simp add: strcpy_Some)
  have a: "cstr ?a = Some c" using cstr_SomeD(1) [OF assms(4)] by (rule cstr_append_nul)
  have "\<not> (\<exists>m \<in> set (timers s). timer_id m = timer_id n)" using assms(2) by (metis imageI)
  moreover have "\<not> length (timers s) mod 256 > MAX_TIMER_NUM" using assms(3) by (simp add: MAX_TIMER_NUM_def)
  ultimately have "device_add_list_timer n s = Some (0, s\<lparr>timers := timers s @
      [n\<lparr>action := ?a, action_len := action_len n + 1, triggered := 0\<rparr>]\<rparr>)"
    unfolding device_add_list_timer_def b0 b option.case by (simp add: z cp)
  moreover have "added n (n\<lparr>action := ?a, action_len := action_len n + 1, triggered := 0\<rparr>)"
    unfolding added_def using a assms(4-6) b(2) by (intro exI [of _ ?a]) auto
  ultimately show ?thesis by blast
qed

lemma added_congr:
  "added (n\<lparr>action := x, triggered := t\<rparr>) m \<Longrightarrow> cstr x = cstr (action n) \<Longrightarrow> added n m"
  by (auto simp: added_def)

lemma restore_all:
  fixes s :: "'a hwt_scheme"
  assumes "list_all savable ns" and "distinct (map timer_id ns)" and "board_ok s"
    and "timer_id ` set ns \<inter> timer_id ` set (timers s) = {}"
    and "length (timers s) + length ns \<le> MAX_TIMER_NUM + 1"
  shows "\<exists>ms. restore_loop (pre @ enc_timers ns @ z) (length pre + length (enc_timers ns)) (length pre) s =
           Some (0, s\<lparr>timers := timers s @ ms\<rparr>) \<and> list_all2 added ns ms"
  using assms
proof (induction ns arbitrary: pre s)
  case Nil
  show ?case by (subst restore_loop.simps) simp
next
  case (Cons n ns)
  let ?l = "unat (action_len n)" and ?t = "enc_timers ns @ z"
  let ?n = "n\<lparr>action := action n @ ?t, triggered := 0\<rparr>" and ?len = "length pre + length (enc_timers (n # ns))"
  have sn: "savable n" using Cons.prems(1) by simp
  have n: "4 \<le> ?l" "?l < 256" "length (action n) = ?l"
    using sn by (auto simp: savable_def timer_ok_def MAX_ACTION_LEN_def)
  obtain c where c: "cstr (action n) = Some c" using sn by (auto simp: savable_def timer_ok_def)
  have en: "length (enc_timer n) = 34 + ?l" using sn by (rule enc_timer_length)
  have "\<exists>m. device_add_list_timer ?n s = Some (0, s\<lparr>timers := timers s @ [m]\<rparr>) \<and> added ?n m"
    using Cons.prems n cstr_append [OF c] cstr_SomeD(2) [OF c] by (intro add_fresh [where c = c]) auto
  then obtain m where m: "device_add_list_timer ?n s = Some (0, s\<lparr>timers := timers s @ [m]\<rparr>)" "added ?n m" by blast
  have id: "timer_id m = timer_id n" using m(2) by (auto simp: added_def)
  have "added n m" using m(2) c cstr_append [OF c] by (intro added_congr [OF m(2)]) simp
  moreover have "\<exists>ms. restore_loop ((pre @ enc_timer n) @ enc_timers ns @ z)
      (length (pre @ enc_timer n) + length (enc_timers ns)) (length (pre @ enc_timer n)) (s\<lparr>timers := timers s @ [m]\<rparr>) =
      Some (0, s\<lparr>timers := timers s @ [m], timers := (timers s @ [m]) @ ms\<rparr>) \<and> list_all2 added ns ms"
    using Cons.IH [of "s\<lparr>timers := timers s @ [m]\<rparr>" "pre @ enc_timer n"] Cons.prems id
    by (auto simp: board_ok_def chip_ready_def)
  then obtain ms where ms: "restore_loop (pre @ enc_timer n @ ?t) ?len (length pre + 34 + ?l)
      (s\<lparr>timers := timers s @ [m]\<rparr>) = Some (0, s\<lparr>timers := timers s @ m # ms\<rparr>)" "list_all2 added ns ms"
    by (auto simp: en add.assoc)
  have "restore_loop (pre @ enc_timer n @ ?t) ?len (length pre) s = Some (0, s\<lparr>timers := timers s @ m # ms\<rparr>)"
    unfolding restore_loop.simps [of _ _ "length pre" s] timer_at_enc [OF sn]
    using n m(1) ms(1) by (simp add: en Let_def MAX_TIMER_ID_LEN_def MAX_ACTION_LEN_def add.assoc add.left_commute)
  ultimately show ?case using ms(2) by (intro exI [of _ "m # ms"]) simp
qed

lemma save_writes:
  assumes "board_ok s" and "list_all savable (timers s)" and "length (enc_timers (timers s)) \<le> MAX_TIMER_DEVICE_DATA"
  shows "\<exists>buf. take (length (enc_timers (timers s))) buf = enc_timers (timers s) \<and>
    length (enc_timers (timers s)) \<le> length buf \<and>
    device_save_timer_into_flash s =
      (if timers s = [] then Some (0, snd (ya_erase_flash YA_DEVICE_TIMER_ADDR 1 s))
       else do { (_, t) \<leftarrow> ya_write_flash YA_DEVICE_TIMER_ADDR buf (length (enc_timers (timers s))) 2 s; Some (0, t) })"
proof -
  let ?e = "enc_timers (timers s)"
  define m where "m = MAX_TIMER_DEVICE_DATA - length ?e"
  have m: "length ?e + m = MAX_TIMER_DEVICE_DATA" using assms(3) by (simp add: m_def)
  obtain b where b: "mem_alloc s MAX_TIMER_DEVICE_DATA = Some b" "length b = MAX_TIMER_DEVICE_DATA"
    using mem_alloc_board_ok [OF assms(1)] by blast
  have z: "memset b 0 MAX_TIMER_DEVICE_DATA = Some (replicate (length ?e + m) 0)"
    using b(2) by (simp add: memset_Some m)
  have run: "save_loop (timers s) (replicate (length ?e + m) 0) 0 = Some (Some (?e @ replicate m 0, length ?e))"
    using save_loop_all [OF assms(2) m] by simp
  have ne: "length ?e = 0 \<longleftrightarrow> timers s = []"
    using assms(2) by (cases "timers s") (auto simp: enc_timer_length)
  show ?thesis
    unfolding device_save_timer_into_flash_def b(1) option.case z
    by (intro exI [of _ "?e @ replicate m 0"]) (use ne in \<open>auto simp: run\<close>)
qed

lemma save_stores:
  assumes "board_ok s" and "list_all savable (timers s)" and "timers s \<noteq> []"
    and "length (enc_timers (timers s)) \<le> MAX_TIMER_DEVICE_DATA"
  shows "\<exists>t. device_save_timer_into_flash s = Some (0, t) \<and> board_ok (t\<lparr>timers := []\<rparr>) \<and>
    record_at (t\<lparr>timers := []\<rparr>) YA_DEVICE_TIMER_ADDR (enc_timers (timers s))"
proof -
  let ?e = "enc_timers (timers s)" and ?A = YA_DEVICE_TIMER_ADDR
  have e: "?e \<noteq> []" using assms(2,3) by (cases "timers s") (auto simp: enc_timer_def)
  have le: "length ?e \<le> 7936" using assms(4) by (simp add: MAX_TIMER_DEVICE_DATA_def)
  from save_writes [OF assms(1,2,4)] assms(3) obtain buf where
    buf: "take (length ?e) buf = ?e" "length ?e \<le> length buf"
    "device_save_timer_into_flash s = do { (_, t) \<leftarrow> ya_write_flash ?A buf (length ?e) 2 s; Some (0, t) }"
    by auto
  from ya_write_flash_stores [OF assms(1), of ?A 2 "length ?e" buf] e le buf(1,2) obtain t where
    t: "ya_write_flash ?A buf (length ?e) 2 s = Some (0, t)" "board_ok t" "record_at t ?A ?e"
    by (auto simp: MAX_DATA_LEN_def YA_DEVICE_TIMER_ADDR_def)
  have "board_ok (t\<lparr>timers := []\<rparr>)" "record_at (t\<lparr>timers := []\<rparr>) ?A ?e"
    using t(2,3) by (simp_all add: board_ok_def chip_ready_def record_at_def)
  with buf(3) t(1) show ?thesis by auto
qed

lemma read_starts:
  assumes "board_ok s"
  shows "device_read_timer_into_flash s = do {
    (ret, data) \<leftarrow> ya_read_flash_with_var_len YA_DEVICE_TIMER_ADDR MAX_TIMER_DEVICE_DATA 2 s;
    if ret \<noteq> 0 \<or> data = [] then Some (-1, s)
    else do { buf \<leftarrow> memcpy_at (replicate MAX_TIMER_DEVICE_DATA 0) 0 data; restore_loop buf (length data) 0 s }
  }"
proof -
  obtain b where b: "mem_alloc s MAX_TIMER_DEVICE_DATA = Some b" "length b = MAX_TIMER_DEVICE_DATA"
    using mem_alloc_board_ok [OF assms] by blast
  have z: "memset b 0 MAX_TIMER_DEVICE_DATA = Some (replicate MAX_TIMER_DEVICE_DATA 0)"
    using b(2) by (simp add: memset_Some)
  show ?thesis unfolding device_read_timer_into_flash_def b(1) option.case z bind.bind_lunit ..
qed

section \<open>Properties\<close>

text \<open>C3: the task keeps its invariant.  Started on any flash contents with an empty list and run for any
  number of turns, on any messages from other tasks and any answers of the JSON parser, it has at
  most 21 timers, their ids are distinct, every timer owns a block that holds a terminated action of
  at most 256 bytes, the clock is in range, and the next turn is free of undefined behaviour unless a
  message from the cloud is waiting.\<close>

theorem hardware_app_invariant:
  assumes "timers s = []" and "ya_hardware_app_init k s = Some s1" and "ya_hardware_app lib ks s1 = Some s2"
  shows "timers_ok s2 \<and> clock_range (sys_time s2) \<and>
    ((\<forall>d. CloudData d \<notin> set (hw_queue s2)) \<longrightarrow> ya_hardware_turn lib k' s2 \<noteq> None)"
proof -
  obtain r t where t: "device_read_timer_into_flash s = Some (r, t)"
    "s1 = (sys_start_abstime k (sys_abstime_init t))\<lparr>ya_aws_hardware_timer_app :=
       ya_countdown_ms k SEVER_TIME_UPDATE_PERIOD (ya_init_timer (ya_aws_hardware_timer_app t))\<rparr>"
    using assms(2)
    by (auto simp: ya_hardware_app_init_def ya_hardware_timer_init_def Let_def bind_eq_Some_conv
        sys_start_abstime_def sys_abstime_init_def)
  have "timers_ok s" using assms(1) by (simp add: timers_ok_def)
  then have "timers_ok t" using t(1) by (rule read_keeps)
  then have "hw_inv s1"
    by (simp add: t(2) hw_inv_def timers_ok_def sys_start_abstime_def sys_abstime_init_def clock_range_unat)
  from app_keeps [OF this assms(3)] turn_total [of s2] show ?thesis by (simp add: hw_inv_def)
qed

definition hwt_demo :: hwt where
  "hwt_demo = hwclock.extend (clock_demo
      \<lparr>year = 2024, month = 2, day = 29, hour = 6, minute = 30, second = 0, week = 4\<rparr>)
     \<lparr>timers = [], hw_queue = [], hw_events = [],
      ya_aws_hardware_timer_app = \<lparr>time_out = 0, init_tick = 0, ttype = YA_TIMER_TYPE_MS\<rparr>\<rparr>"

lemma hwt_demo_simps:
  "timers hwt_demo = []" "hw_queue hwt_demo = []" "fl_mem hwt_demo = (\<lambda>_. 0x5A)" "fl_rsp hwt_demo = []"
  "heap hwt_demo = (\<lambda>_. Some (\<lambda>_. 0xCD))" "ret_reg hwt_demo = 0" "check_enable hwt_demo = 0"
  "sys_time hwt_demo = \<lparr>year = 2024, month = 2, day = 29, hour = 6, minute = 30, second = 0, week = 4\<rparr>"
  by (simp_all add: hwt_demo_def hwclock.defs clock_demo_def board.defs board_demo_def)

lemma hwt_demo_ok: "board_ok hwt_demo" "board_ok (hwt_demo\<lparr>timers := ns\<rparr>)"
  by (simp_all add: board_ok_def chip_ready_def hwt_demo_simps)

definition demo_timer :: device_common_timer where
  "demo_timer = \<lparr>t_year = 0, t_month = 0, t_day = 0, t_hour = 6, t_minute = 30, t_week = 8, enable = 1,
     timer_id = 49 # replicate 15 0, t_second = 0, triggered = 0, action_len = 4, action = [123, 49, 125, 0]\<rparr>"

lemma demo_timer_ok: "savable demo_timer" "timer_ok demo_timer"
  by (simp_all add: savable_def timer_ok_def demo_timer_def MAX_TIMER_ID_LEN_def MAX_ACTION_LEN_def)

theorem hardware_app_invariant_witness:
  "\<exists>s1 s2. ya_hardware_app_init 7 hwt_demo = Some s1 \<and>
     ya_hardware_app \<lparr>cJSON_Parse = (\<lambda>_. None), cJSON_PrintUnformatted = (\<lambda>_. None)\<rparr> [(300, [])] s1 = Some s2 \<and>
     timers_ok s2 \<and> clock_range (sys_time s2)"
proof -
  let ?lib = "\<lparr>cJSON_Parse = (\<lambda>_. None), cJSON_PrintUnformatted = (\<lambda>_. None)\<rparr>"
  have none: "ya_read_flash_with_var_len a n 2 hwt_demo = Some (-1, [])" for a n
    by (simp add: ya_read_flash_with_var_len_def ya_hal_flash_read_def spi.dread_eq upt_conv_Cons Let_def
        hwt_demo_simps)
  have "device_read_timer_into_flash hwt_demo = Some (-1, hwt_demo)"
    unfolding read_starts [OF hwt_demo_ok(1)] none by simp
  then obtain s1 where s1: "ya_hardware_app_init 7 hwt_demo = Some s1" "hw_queue s1 = []"
    by (simp add: ya_hardware_app_init_def ya_hardware_timer_init_def Let_def sys_start_abstime_def sys_abstime_init_def hwt_demo_simps)
  have "ya_hardware_turn ?lib 300 s1 \<noteq> None"
    using hardware_app_invariant [OF hwt_demo_simps(1) s1(1), of ?lib "[]" s1 300] s1(2) by simp
  then obtain s2 where s2: "ya_hardware_app ?lib [(300, [])] s1 = Some s2" by auto
  from hardware_app_invariant [OF hwt_demo_simps(1) s1(1) s2] s1(1) s2 show ?thesis by blast
qed

text \<open>C5: checking the timers.  At a second that has not been checked, with a clock that has been set and
  room in the queue, the check queues the action of exactly the timers that are due (enabled, on
  their weekdays or their date, at their hour, minute and second, and not fired within the last
  minute of checks), in list order, and marks exactly those as fired.\<close>

theorem timers_fire_when_due:
  assumes "timers_ok s" and "clock_range (sys_time s)" and "\<forall>n. heap s n \<noteq> None"
    and "check_enable s \<noteq> 0" and "2020 \<le> year (sys_time s)"
    and "length (hw_queue s) + length (filter (due (sys_time s)) (timers s)) \<le> MSG_QUEUE_LENGTH"
  shows "device_check_cloud_timer s = Some (s\<lparr>check_enable := 0,
     hw_queue := hw_queue s @ map (\<lambda>n. TimerAction (action n @ [0])) (filter (due (sys_time s)) (timers s)),
     timers := map (checked (sys_time s)) (timers s)\<rparr>)"
proof -
  let ?s = "s\<lparr>check_enable := 0\<rparr>" and ?ms = "map (\<lambda>n. TimerAction (action n @ [0])) (filter (due (sys_time s)) (timers s))"
  have "fold hw_queue_send ?ms ?s = ?s\<lparr>hw_queue := hw_queue ?s @ ?ms\<rparr>"
    using assms(6) by (intro fold_send_room) simp
  with check_loop_fires [of ?s "timers s"] assms(1-3)
  have "check_loop (timers s) ?s = Some (map (checked (sys_time s)) (timers s), ?s\<lparr>hw_queue := hw_queue s @ ?ms\<rparr>)"
    by (simp add: timers_ok_def)
  with assms(4,5) show ?thesis by (simp add: device_check_cloud_timer_def not_less)
qed

theorem timers_fire_when_due_witness:
  "map_option hw_queue (device_check_cloud_timer (hwt_demo\<lparr>check_enable := 1, timers := [demo_timer]\<rparr>)) =
   Some [TimerAction [123, 49, 125, 0, 0]]"
proof -
  let ?s = "hwt_demo\<lparr>check_enable := 1, timers := [demo_timer]\<rparr>"
  have "due (sys_time ?s) demo_timer"
    by (simp add: due_def demo_timer_def hwt_demo_simps)
  then show ?thesis
    using timers_fire_when_due [of ?s] demo_timer_ok(2)
    by (simp add: hwt_demo_simps timers_ok_def clock_range_unat MSG_QUEUE_LENGTH_def word_le_nat_alt)
      (simp add: demo_timer_def)
qed

text \<open>Saving and reading back a table, by its size: up to 4086 bytes the reader restores it, above it refuses the record that was
  saved with success.\<close>

lemma small_table_restored:
  assumes "board_ok s" and "timers_ok s" and "timers s \<noteq> []" and "list_all savable (timers s)"
    and "length (enc_timers (timers s)) \<le> 4086"
  shows "\<exists>t u. device_save_timer_into_flash s = Some (0, t) \<and>
    device_read_timer_into_flash (t\<lparr>timers := []\<rparr>) = Some (0, u) \<and> list_all2 added (timers s) (timers u)"
proof -
  let ?e = "enc_timers (timers s)" and ?A = YA_DEVICE_TIMER_ADDR
  have e: "?e \<noteq> []" using assms(3,4) by (cases "timers s") (auto simp: enc_timer_def)
  from save_stores [OF assms(1,4,3)] assms(5) obtain t where
    t: "device_save_timer_into_flash s = Some (0, t)" and
    ok: "board_ok (t\<lparr>timers := []\<rparr>)" "record_at (t\<lparr>timers := []\<rparr>) ?A ?e"
    by (auto simp: MAX_TIMER_DEVICE_DATA_def)
  let ?t = "t\<lparr>timers := []\<rparr>"
  have rd: "ya_read_flash_with_var_len ?A MAX_TIMER_DEVICE_DATA 2 ?t = Some (0, ?e)"
    using ok assms(5) by (intro ya_read_var_record) (auto simp: board_ok_def MAX_DATA_LEN_def MAX_TIMER_DEVICE_DATA_def)
  let ?z = "replicate (MAX_TIMER_DEVICE_DATA - length ?e) (0 :: u8)"
  have cp: "memcpy_at (replicate MAX_TIMER_DEVICE_DATA 0) 0 ?e = Some (?e @ ?z)"
    using assms(5) by (simp add: memcpy_at_Some MAX_TIMER_DEVICE_DATA_def)
  obtain ms where ms: "restore_loop (?e @ ?z) (length ?e) 0 ?t = Some (0, ?t\<lparr>timers := ms\<rparr>)"
    "list_all2 added (timers s) ms"
    using restore_all [OF assms(4) _ ok(1), of "[]" ?z] assms(2) by (auto simp: timers_ok_def)
  have "device_read_timer_into_flash ?t = Some (0, ?t\<lparr>timers := ms\<rparr>)"
    unfolding read_starts [OF ok(1)] rd using e by (simp add: cp ms(1))
  with ms(2) t show ?thesis by auto
qed

lemma large_table_refused:
  assumes "board_ok s" and "list_all savable (timers s)"
    and "4086 < length (enc_timers (timers s))" and "length (enc_timers (timers s)) \<le> MAX_TIMER_DEVICE_DATA"
  shows "\<exists>t. device_save_timer_into_flash s = Some (0, t) \<and>
    device_read_timer_into_flash (t\<lparr>timers := []\<rparr>) = Some (-1, t\<lparr>timers := []\<rparr>)"
proof -
  let ?e = "enc_timers (timers s)" and ?A = YA_DEVICE_TIMER_ADDR
  have le: "length ?e < 65536" using assms(4) by (simp add: MAX_TIMER_DEVICE_DATA_def)
  have "timers s \<noteq> []" using assms(3) by auto
  from save_stores [OF assms(1,2) this assms(4)] obtain t where
    t: "device_save_timer_into_flash s = Some (0, t)" and
    ok: "board_ok (t\<lparr>timers := []\<rparr>)" "record_at (t\<lparr>timers := []\<rparr>) ?A ?e" by blast
  have "device_read_timer_into_flash (t\<lparr>timers := []\<rparr>) = Some (-1, t\<lparr>timers := []\<rparr>)"
    unfolding read_starts [OF ok(1)] record_too_long(1) [OF ok(2) assms(3) le] by simp
  with t show ?thesis by blast
qed

lemma enc_timers_bound:
  assumes "list_all savable ns"
  shows "length (enc_timers ns) \<le> length ns * 289"
  using assms
proof (induction ns)
  case (Cons n ns)
  then have "length (enc_timer n) \<le> 289" by (simp add: enc_timer_length) (simp add: savable_def MAX_ACTION_LEN_def)
  with Cons show ?case by simp
qed simp

text \<open>C4: timers and restarts.  A non-empty table of timers with actions shorter than 256 bytes is saved with success.  When
  its encoding has at most 4086 bytes, reading it back into an empty list gives the same timers in the same order (schedule, id
  and action string), each with an \<open>action_len\<close> larger by one and none marked as fired; when it is longer, the reader refuses
  the record and no timer is restored.\<close>

theorem timers_save_restore:
  assumes "board_ok s" and "timers_ok s" and "timers s \<noteq> []" and "list_all savable (timers s)"
  shows "\<exists>t. device_save_timer_into_flash s = Some (0, t) \<and>
    (if length (enc_timers (timers s)) \<le> 4086
     then \<exists>u. device_read_timer_into_flash (t\<lparr>timers := []\<rparr>) = Some (0, u) \<and> list_all2 added (timers s) (timers u)
     else device_read_timer_into_flash (t\<lparr>timers := []\<rparr>) = Some (-1, t\<lparr>timers := []\<rparr>))"
proof (cases "length (enc_timers (timers s)) \<le> 4086")
  case True
  then show ?thesis using small_table_restored [OF assms] by auto
next
  case False
  have "length (enc_timers (timers s)) \<le> length (timers s) * 289" using assms(4) by (rule enc_timers_bound)
  also have "\<dots> \<le> 21 * 289" using assms(2) by (intro mult_le_mono1) (simp add: timers_ok_def MAX_TIMER_NUM_def)
  finally have "length (enc_timers (timers s)) \<le> MAX_TIMER_DEVICE_DATA" by (simp add: MAX_TIMER_DEVICE_DATA_def)
  with False show ?thesis using large_table_refused [OF assms(1,4)] by auto
qed

theorem timers_save_restore_witness:
  "(\<exists>t u. device_save_timer_into_flash (hwt_demo\<lparr>timers := [demo_timer]\<rparr>) = Some (0, t) \<and>
     device_read_timer_into_flash (t\<lparr>timers := []\<rparr>) = Some (0, u) \<and> map action_len (timers u) = [5])"
proof -
  have "length (enc_timers [demo_timer]) \<le> 4086"
    using demo_timer_ok(1) by (simp add: enc_timer_length) (simp add: demo_timer_def)
  with timers_save_restore [of "hwt_demo\<lparr>timers := [demo_timer]\<rparr>"] hwt_demo_ok(2) [of "[demo_timer]"] demo_timer_ok obtain t u where
    "device_save_timer_into_flash (hwt_demo\<lparr>timers := [demo_timer]\<rparr>) = Some (0, t)"
    "device_read_timer_into_flash (t\<lparr>timers := []\<rparr>) = Some (0, u)" "list_all2 added [demo_timer] (timers u)"
    by (auto simp: timers_ok_def)
  moreover from this(3) have "map action_len (timers u) = [5]"
    by (auto simp: list_all2_Cons1 added_def demo_timer_def)
  ultimately show ?thesis by (intro exI conjI)
qed

text \<open>One long action stops all saving.  A command of 255 characters is accepted, but its stored
  length is 256; from then on (and likewise when the length of a shorter one has grown that far over
  restarts) saving the table fails and leaves the flash as it was.\<close>

theorem long_action_stops_saving:
  assumes "board_ok s" and "timers s = xs @ n # ys" and "list_all savable xs" and "timer_ok n"
    and "action_len n = 256" and "length (enc_timers xs) \<le> MAX_TIMER_DEVICE_DATA"
  shows "device_save_timer_into_flash s = Some (-1, s)"
proof -
  define m where "m = MAX_TIMER_DEVICE_DATA - length (enc_timers xs)"
  have m: "length (enc_timers xs) + m = MAX_TIMER_DEVICE_DATA" using assms(6) by (simp add: m_def)
  obtain b where b: "mem_alloc s MAX_TIMER_DEVICE_DATA = Some b" "length b = MAX_TIMER_DEVICE_DATA"
    using mem_alloc_board_ok [OF assms(1)] by blast
  have z: "memset b 0 MAX_TIMER_DEVICE_DATA = Some (replicate (length (enc_timers xs) + m) 0)"
    using b(2) by (simp add: memset_Some m)
  have "save_loop (timers s) (replicate (length (enc_timers xs) + m) 0) 0 =
      save_loop (n # ys) (enc_timers xs @ replicate m 0) (length (enc_timers xs))"
    using save_loop_prefix [OF assms(3), of 0 "[]" m "n # ys"] m assms(2) by simp
  also have "\<dots> = Some None"
    using assms(4,5) m by (intro save_loop_refuses) (simp_all add: timer_ok_def MAX_ACTION_LEN_def)
  finally show ?thesis
    unfolding device_save_timer_into_flash_def b(1) option.case z by simp
qed

theorem long_action_stops_saving_witness:
  "device_save_timer_into_flash (hwt_demo\<lparr>timers := [demo_timer, demo_timer\<lparr>action_len := 256, action := replicate 256 0\<rparr>]\<rparr>) =
   Some (-1, hwt_demo\<lparr>timers := [demo_timer, demo_timer\<lparr>action_len := 256, action := replicate 256 0\<rparr>]\<rparr>)"
proof -
  let ?n = "demo_timer\<lparr>action_len := 256, action := replicate 256 0\<rparr>"
  have "timer_ok ?n" by (simp add: timer_ok_def demo_timer_def MAX_TIMER_ID_LEN_def cstr_None)
  moreover have "length (enc_timers [demo_timer]) = 38"
    using demo_timer_ok(1) by (simp add: enc_timer_length) (simp add: demo_timer_def)
  ultimately show ?thesis
    using long_action_stops_saving [OF hwt_demo_ok(2), of "[demo_timer, ?n]" "[demo_timer]" ?n "[]"] demo_timer_ok(1)
    by (simp add: MAX_TIMER_DEVICE_DATA_def)
qed

text \<open>A malformed update deletes the timer.  The old timer is removed before the rest of the new one is
  read: when the member \<open>enable\<close> is missing, the handler reports an error, the timer is gone from the
  list, and the flash still holds it, so that it comes back after a restart.\<close>

theorem malformed_update_deletes_timer:
  assumes "timers_ok s" and "cJSON_Parse lib b = Some root" and "cJSON_GetObjectItem root ''add'' = None"
    and "cJSON_GetObjectItem root ''update'' = Some arr" and "child arr = [item]"
    and "cJSON_GetObjectItem item ''id'' = Some p" and "valuestring p = Some v" and "length v < MAX_TIMER_ID_LEN"
    and "cJSON_GetObjectItem item ''enable'' = None"
  shows "device_handle_cloud_timer lib b s =
    Some (-1, s\<lparr>timers := filter (\<lambda>n. timer_id n \<noteq> pad_id v) (timers s)\<rparr>)"
proof -
  have items: "array_items arr = [Some item]"
    using assms(5) by (simp add: array_items_def cJSON_GetArraySize_def cJSON_GetArrayItem_def rd_def)
  have "timer_fields lib (pad_id v) item = Some None"
    using assms(9) by (simp add: timer_fields_def jmember_def)
  then have "cloud_item lib (Some item) s = Some (-1, snd (device_delete_list_timer (pad_id v) s))"
    using assms(6-8) by (simp add: cloud_item_def case_prod_beta)
  then show ?thesis
    using assms(2-4) items by (simp add: device_handle_cloud_timer_def cloud_section_def delete_list_timer_filter [OF assms(1)])
qed

theorem malformed_update_deletes_timer_witness:
  "let item = Node cJSON_Object None None [Node cJSON_String (Some ''id'') (Some [49]) []];
       lib = \<lparr>cJSON_Parse = (\<lambda>_. Some (Node cJSON_Object None None [Node cJSON_Array (Some ''update'') None [item]])),
              cJSON_PrintUnformatted = (\<lambda>_. None)\<rparr>
   in device_handle_cloud_timer lib [] (hwt_demo\<lparr>timers := [demo_timer]\<rparr>) = Some (-1, hwt_demo\<lparr>timers := []\<rparr>)"
proof -
  define item where "item = Node cJSON_Object None None [Node cJSON_String (Some ''id'') (Some [49]) []]"
  define arr where "arr = Node cJSON_Array (Some ''update'') None [item]"
  define lib where "lib = \<lparr>cJSON_Parse = (\<lambda>_ :: bytes. Some (Node cJSON_Object None None [arr])),
      cJSON_PrintUnformatted = (\<lambda>_ :: cJSON. None :: bytes option)\<rparr>"
  note look = cJSON_GetObjectItem_def cJSON_strcasecmp_def tolower_def Let_def arr_def item_def lib_def
  have "timers_ok (hwt_demo\<lparr>timers := [demo_timer]\<rparr>)" using demo_timer_ok(2) by (simp add: timers_ok_def)
  moreover have "filter (\<lambda>n. timer_id n \<noteq> pad_id [49]) [demo_timer] = []"
    by (simp add: demo_timer_def pad_id_def MAX_TIMER_ID_LEN_def)
  ultimately have "device_handle_cloud_timer lib [] (hwt_demo\<lparr>timers := [demo_timer]\<rparr>) = Some (-1, hwt_demo\<lparr>timers := []\<rparr>)"
    using malformed_update_deletes_timer [of "hwt_demo\<lparr>timers := [demo_timer]\<rparr>" lib "[]"
        "Node cJSON_Object None None [arr]" arr item "Node cJSON_String (Some ''id'') (Some [49]) []" "[49]"]
    by (simp add: look MAX_TIMER_ID_LEN_def)
  then show ?thesis by (simp add: lib_def arr_def item_def)
qed

end
