(* ===== verification/Pwm.thy ===== *)
theory Pwm
  imports Prelude
begin

text \<open>
  The PWM outputs: timer block (\<^verbatim>\<open>src/drivers/bsp/pit.c\<close>), PWM driver
  (\<^verbatim>\<open>src/drivers/hal_pwm.c\<close>, built for the TR6260S1) and the product's layer above it
  (\<^verbatim>\<open>src/apps/akeeta_tr6260/io/ya_hal_pwm.c\<close>).  The hardware is the contents of its 32-bit
  registers by address.  Saving and restoring the interrupt mask around a register sequence
  leaves the registers as they are and is left out.

  The chip's linker script takes \<open>pit_ch_ctrl\<close> and \<open>pit_ch_reload_value\<close> from ROM; the model
  is their text in \<^verbatim>\<open>pit.c\<close>.
\<close>

type_synonym regs = "u32 \<Rightarrow> u32"

section \<open>Timer block\<close>

definition PIT_NUM_0 :: u32 where "PIT_NUM_0 = 0x00604000"
definition PIT_NUM_1 :: u32 where "PIT_NUM_1 = 0x00605000"

definition PIT_CH_EN_N :: "u32 \<Rightarrow> u32" where "PIT_CH_EN_N pit_base = pit_base + 0x1C"
definition PIT_CHNx_CTL_N :: "u32 \<Rightarrow> u32 \<Rightarrow> u32" where "PIT_CHNx_CTL_N pit_base chn = pit_base + 0x20 + chn * 0x10"
definition PIT_CHNx_LOAD_N :: "u32 \<Rightarrow> u32 \<Rightarrow> u32" where "PIT_CHNx_LOAD_N pit_base chn = pit_base + 0x24 + chn * 0x10"

definition pit_ch_reload_value :: "u32 \<Rightarrow> u32 \<Rightarrow> u32 \<Rightarrow> regs \<Rightarrow> int \<times> regs" where
  "pit_ch_reload_value pit_base num v r =
     (if num > 4 then (-1, r) else (0, r(PIT_CHNx_LOAD_N pit_base num := v)))"

definition pit_ch_ctrl :: "u32 \<Rightarrow> u32 \<Rightarrow> u32 \<Rightarrow> u32 \<Rightarrow> u32 \<Rightarrow> regs \<Rightarrow> int \<times> regs" where
  "pit_ch_ctrl pit_base num PWMPark chClk chMode r =
     (if num > 4 then (-1, r)
      else if PWMPark > 2 then (-2, r)
      else if chClk > 2 then (-3, r)
      else if chMode > 8 then (-4, r)
      else (0, r(PIT_CHNx_CTL_N pit_base num := push_bit 4 PWMPark OR push_bit 3 chClk OR chMode)))"

definition pit_ch_mode_set :: "u32 \<Rightarrow> u32 \<Rightarrow> u32 \<Rightarrow> regs \<Rightarrow> int \<times> regs" where
  "pit_ch_mode_set pit_base num enable r =
     (if num > 4 then (-1, r)
      else let v = r (PIT_CH_EN_N pit_base);
               v = v AND NOT (push_bit (4 * unat num) 0xF);
               v = v OR push_bit (4 * unat num) enable
           in (0, r(PIT_CH_EN_N pit_base := v)))"

definition PIT_CHCLK_APB :: u32 where "PIT_CHCLK_APB = 1"
definition PIT_CHMODE_PWM :: u32 where "PIT_CHMODE_PWM = 4"
definition PIT_CH_TM3_PWM_EN :: u32 where "PIT_CH_TM3_PWM_EN = 8"
definition PIT_CH_DISABLE :: u32 where "PIT_CH_DISABLE = 0"

section \<open>PWM driver\<close>

definition PMW_CHANNEL_MAC :: u32 where "PMW_CHANNEL_MAC = 6"

definition DRV_SUCCESS :: int where "DRV_SUCCESS = 0"
definition DRV_ERROR :: int where "DRV_ERROR = -1"
definition DRV_ERR_INVALID_PARAM :: int where "DRV_ERR_INVALID_PARAM = -4"

definition pwm_base :: "u32 \<Rightarrow> u32 \<times> u32" where
  "pwm_base channel = (if channel < 4 then (PIT_NUM_0, channel) else (PIT_NUM_1, channel - 4))"

definition pwm_start :: "u32 \<Rightarrow> regs \<Rightarrow> int \<times> regs" where
  "pwm_start channel r =
     (if channel \<ge> PMW_CHANNEL_MAC then (DRV_ERR_INVALID_PARAM, r)
      else let (base, num) = pwm_base channel;
               (rnt, r) = pit_ch_mode_set base num PIT_CH_TM3_PWM_EN r
           in (if rnt \<noteq> DRV_SUCCESS then DRV_ERROR else DRV_SUCCESS, r))"

definition pwm_stop :: "u32 \<Rightarrow> regs \<Rightarrow> int \<times> regs" where
  "pwm_stop channel r =
     (if channel \<ge> PMW_CHANNEL_MAC then (DRV_ERR_INVALID_PARAM, r)
      else let (base, num) = pwm_base channel;
               (rnt, r) = pit_ch_mode_set base num PIT_CH_DISABLE r
           in (if rnt \<noteq> DRV_SUCCESS then DRV_ERROR else DRV_SUCCESS, r))"

text \<open>Pin multiplexers: \<open>PIN_MUX_SET\<close> of \<^verbatim>\<open>soc_pin_mux.h\<close>.\<close>

definition SOC_PIN0_MUX_BASE :: u32 where "SOC_PIN0_MUX_BASE = 0x00601824"
definition SOC_PIN1_MUX_BASE :: u32 where "SOC_PIN1_MUX_BASE = 0x00601828"

definition PIN_MUX_SET :: "u32 \<Rightarrow> u32 \<Rightarrow> nat \<Rightarrow> u32 \<Rightarrow> regs \<Rightarrow> regs" where
  "PIN_MUX_SET reg bits offset fn r =
     r(reg := (r reg AND NOT (push_bit offset bits)) OR push_bit offset fn)"

definition pwm_init :: "u32 \<Rightarrow> regs \<Rightarrow> int \<times> regs" where
  "pwm_init channel r =
     (if channel \<ge> PMW_CHANNEL_MAC then (DRV_ERR_INVALID_PARAM, r)
      else let r = snd (pwm_stop channel r)
           in (DRV_SUCCESS,
               if channel = 0 then PIN_MUX_SET SOC_PIN1_MUX_BASE 7 20 3 r
               else if channel = 1 then PIN_MUX_SET SOC_PIN1_MUX_BASE 7 23 3 r
               else if channel = 2 then PIN_MUX_SET SOC_PIN1_MUX_BASE 7 26 3 r
               else if channel = 5 then PIN_MUX_SET SOC_PIN1_MUX_BASE 7 9 4 r
               else r))"

definition PWM_CLK_BASE :: u32 where "PWM_CLK_BASE = 40000000"

text \<open>High and low phase in clock ticks, one less than the length, as both callers compute it.  A
  frequency of 0 is a division by zero: only \<open>pwm_config\<close> can be given one.\<close>

definition pwm_ticks :: "u32 \<Rightarrow> u32 \<Rightarrow> u32 \<times> u32" where
  "pwm_ticks freq duty =
     (let tick_h = PWM_CLK_BASE div 1000 * duty div freq;
          tick_l = PWM_CLK_BASE div freq - tick_h
      in (if tick_h \<ge> 1 then tick_h - 1 else tick_h, if tick_l \<ge> 1 then tick_l - 1 else tick_l))"

definition pwm_config :: "u32 \<Rightarrow> u32 \<Rightarrow> u32 \<Rightarrow> regs \<Rightarrow> (int \<times> regs) option" where
  "pwm_config channel freq duty_ratio r =
     (if channel \<ge> PMW_CHANNEL_MAC \<or> duty_ratio \<le> 0 \<or> duty_ratio \<ge> 1000 then Some (DRV_ERR_INVALID_PARAM, r)
      else if freq = 0 then None
      else let (base, num) = pwm_base channel;
               (rnt, r) = pwm_stop channel r
           in if rnt \<noteq> DRV_SUCCESS then Some (DRV_ERROR, r)
              else let (tick_h, tick_l) = pwm_ticks freq duty_ratio;
                       (rnt, r) = pit_ch_ctrl base num 0 PIT_CHCLK_APB PIT_CHMODE_PWM r
                   in if rnt \<noteq> DRV_SUCCESS then Some (DRV_ERROR, r)
                      else let (rnt, r) = pit_ch_reload_value base num (push_bit 16 tick_h OR tick_l) r
                           in Some (if rnt \<noteq> DRV_SUCCESS then DRV_ERROR else DRV_SUCCESS, r))"

section \<open>The product's layer\<close>

definition pwm_reload :: "u32 \<Rightarrow> u32 \<Rightarrow> u32 \<Rightarrow> u8 \<Rightarrow> regs \<Rightarrow> int \<times> regs" where
  "pwm_reload channel freq duty park r =
     (if channel \<ge> PMW_CHANNEL_MAC \<or> duty > 1000 then (DRV_ERR_INVALID_PARAM, r)
      else let (base, num) = pwm_base channel;
               (tick_h, tick_l) = pwm_ticks freq duty;
               (rnt, r) = pit_ch_ctrl base num (if duty \<le> 1 then 0 else ucast park) PIT_CHCLK_APB PIT_CHMODE_PWM r
           in if rnt = DRV_SUCCESS then pit_ch_reload_value base num (push_bit 16 tick_h OR tick_l) r
              else (rnt, r))"

definition pwm_ctrl :: "u8 \<Rightarrow> u32 \<Rightarrow> u32 \<Rightarrow> u32 \<Rightarrow> regs \<Rightarrow> regs" where
  "pwm_ctrl channel freq duty pn r =
     (let r = snd (pwm_reload (ucast channel) freq duty (ucast pn) r)
      in if duty \<le> 0 \<or> duty > 1000 then snd (pwm_stop (ucast channel) r) else snd (pwm_start (ucast channel) r))"

definition pwm_cfg_init :: "u8 \<Rightarrow> u32 \<Rightarrow> regs \<Rightarrow> regs" where
  "pwm_cfg_init channel freq r =
     (if channel < 5 then
        (let r = snd (pwm_init (ucast channel) r);
             r = PIN_MUX_SET SOC_PIN0_MUX_BASE 7 (3 * unat channel) 4 r
         in pwm_ctrl channel freq 1 0 r)
      else if channel = 5 then pwm_ctrl channel freq 1 0 (snd (pwm_init 5 r))
      else r)"

definition ya_hal_pwm_init :: "regs \<Rightarrow> regs" where
  "ya_hal_pwm_init r = fold (\<lambda>c. pwm_cfg_init c 5000) [0, 1, 2, 4, 5] r"

definition ya_hal_pwm_write :: "u8 \<Rightarrow> u32 \<Rightarrow> regs \<Rightarrow> regs" where
  "ya_hal_pwm_write index duty_ratio r =
     (if duty_ratio > 1000 then r
      else if ucast index < PMW_CHANNEL_MAC then pwm_ctrl index 5000 duty_ratio 0 r else r)"

section \<open>What a channel puts out\<close>

text \<open>
  The registers of one channel: its enable bits, its control word and the lengths of the
  high and low phases.  At 5 kHz a period has 8000 ticks and a duty ratio of one per mille
  is eight of them.
\<close>

definition pwm_view :: "regs \<Rightarrow> u8 \<Rightarrow> u32 \<times> u32 \<times> u32" where
  "pwm_view r c =
     (let (base, num) = pwm_base (ucast c)
      in (drop_bit (4 * unat num) (r (PIT_CH_EN_N base)) AND 0xF,
          r (PIT_CHNx_CTL_N base num), r (PIT_CHNx_LOAD_N base num)))"

definition pwm_spec :: "nat \<Rightarrow> u32 \<times> u32 \<times> u32" where
  "pwm_spec d = (if d = 0 then 0 else 8, 12, of_nat ((8 * d - 1) * 65536 + (8000 - 8 * d - 1)))"

lemmas reg_defs = PIT_NUM_0_def PIT_NUM_1_def PIT_CH_EN_N_def PIT_CHNx_CTL_N_def PIT_CHNx_LOAD_N_def
  PMW_CHANNEL_MAC_def PIT_CHCLK_APB_def PIT_CHMODE_PWM_def PIT_CH_TM3_PWM_EN_def PIT_CH_DISABLE_def
  SOC_PIN0_MUX_BASE_def SOC_PIN1_MUX_BASE_def DRV_SUCCESS_def DRV_ERROR_def DRV_ERR_INVALID_PARAM_def

lemma channel_cases:
  assumes "c < (6 :: u8)"
  obtains "c = 0" | "c = 1" | "c = 2" | "c = 3" | "c = 4" | "c = 5"
proof -
  have "unat c < 6" using assms by (simp add: word_less_nat_alt)
  then have "unat c = 0 \<or> unat c = 1 \<or> unat c = 2 \<or> unat c = 3 \<or> unat c = 4 \<or> unat c = 5" by linarith
  then show ?thesis using that by (auto simp: word_unat_eq_iff)
qed

lemma ticks_5000:
  assumes "d \<le> 1000"
  shows "pwm_ticks 5000 d = (of_nat (8 * unat d - 1), of_nat (8000 - 8 * unat d - 1))"
proof -
  have d: "unat d \<le> 1000" using assms by (simp add: word_le_nat_alt)
  have h: "40000 * d div 5000 = of_nat (8 * unat d)"
    unfolding word_arith_nat_div using d by (simp add: unat_word_ariths)
  have l: "8000 - of_nat (8 * unat d) = (of_nat (8000 - 8 * unat d) :: u32)"
    using d by (simp add: of_nat_diff)
  have dec: "(if (of_nat n :: u32) \<ge> 1 then of_nat n - 1 else of_nat n) = (of_nat (n - 1) :: u32)" if "n \<le> 8000" for n
  proof (cases n)
    case (Suc m)
    then have "(of_nat n :: u32) \<ge> 1" using that by (simp add: word_le_nat_alt unat_of_nat del: of_nat_Suc)
    then show ?thesis using Suc by simp
  qed simp
  have ticks: "pwm_ticks 5000 d =
      (let tick_h = 40000 * d div 5000; tick_l = 8000 - tick_h
       in (if tick_h \<ge> 1 then tick_h - 1 else tick_h, if tick_l \<ge> 1 then tick_l - 1 else tick_l))"
    by (simp add: pwm_ticks_def PWM_CLK_BASE_def)
  show ?thesis unfolding ticks h Let_def l using d by (simp only: dec)
qed

lemma nibble_set:
  assumes "n < 4" and "m < 4" and "e < (16 :: u32)"
  shows "drop_bit (4 * m) ((v AND NOT (push_bit (4 * n) 0xF)) OR push_bit (4 * n) e) AND 0xF =
    (if m = n then e else drop_bit (4 * m) v AND (0xF :: u32))"
proof (rule bit_word_eqI)
  fix i :: nat
  assume i: "i < LENGTH(32)"
  have f: "(0xF :: u32) = mask 4" by (simp add: mask_eq_exp_minus_1)
  have e: "j < 4" if "bit e j" for j
  proof -
    have "e = take_bit 4 e"
      using assms(3) by (simp add: word_unat_eq_iff unsigned_take_bit_eq take_bit_nat_eq_self word_less_nat_alt)
    then show ?thesis using that by (metis bit_take_bit_iff)
  qed
  show "bit (drop_bit (4 * m) ((v AND NOT (push_bit (4 * n) 0xF)) OR push_bit (4 * n) e) AND 0xF) i =
    bit (if m = n then e else drop_bit (4 * m) v AND (0xF :: u32)) i"
    unfolding f using assms(1,2) i by (auto simp: bit_simps dest: e)
qed

lemma load_word:
  assumes "h < 2 ^ 16" and "l < 2 ^ 16"
  shows "push_bit 16 (of_nat h :: u32) OR of_nat l = of_nat (h * 65536 + l)"
proof -
  have l: "j < 16" if "bit l j" for j
    using that assms(2) by (metis bit_take_bit_iff take_bit_nat_eq_self)
  have "push_bit 16 (of_nat h :: u32) AND of_nat l = 0"
    by (rule bit_word_eqI) (auto simp: bit_simps dest: l)
  then have "push_bit 16 (of_nat h :: u32) OR of_nat l = push_bit 16 (of_nat h) + of_nat l"
    by (simp add: disjunctive_add_eq_or)
  then show ?thesis by (simp add: push_bit_eq_mult mult.commute)
qed

text \<open>Channels have different registers, except that those of one block share the enable register.\<close>

lemma pwm_base_facts:
  assumes "c < 6" and "pwm_base (ucast (c :: u8)) = (b, n)"
  shows "unat n < 4" and "n \<le> 4" and "b = PIT_NUM_0 \<or> b = PIT_NUM_1"
  using assms by (auto simp: pwm_base_def elim!: channel_cases split: if_splits)

lemma pwm_base_inj:
  assumes "c < 6" and "k < 6" and "pwm_base (ucast (c :: u8)) = (b, n)" and "pwm_base (ucast (k :: u8)) = (b', n')"
  shows "(b = b' \<and> n = n') = (c = k)"
  by (rule channel_cases [OF assms(1)]; rule channel_cases [OF assms(2)])
    (use assms(3,4) in \<open>auto simp: pwm_base_def reg_defs\<close>)

lemma pwm_addresses:
  assumes "c < 6" and "k < 6" and "pwm_base (ucast (c :: u8)) = (b, n)" and "pwm_base (ucast (k :: u8)) = (b', n')"
  shows "PIT_CH_EN_N b \<noteq> PIT_CHNx_CTL_N b' n'" and "PIT_CH_EN_N b \<noteq> PIT_CHNx_LOAD_N b' n'"
    and "PIT_CHNx_CTL_N b n \<noteq> PIT_CHNx_LOAD_N b' n'"
    and "PIT_CHNx_CTL_N b n = PIT_CHNx_CTL_N b' n' \<longleftrightarrow> c = k"
    and "PIT_CHNx_LOAD_N b n = PIT_CHNx_LOAD_N b' n' \<longleftrightarrow> c = k"
    and "PIT_CH_EN_N b = PIT_CH_EN_N b' \<longleftrightarrow> b = b'"
  by (rule channel_cases [OF assms(1)]; rule channel_cases [OF assms(2)];
      use assms(3,4) in \<open>auto simp: pwm_base_def reg_defs\<close>)+

lemma pwm_view_eq:
  "pwm_base (ucast k) = (b, n) \<Longrightarrow> pwm_view r k =
     (drop_bit (4 * unat n) (r (PIT_CH_EN_N b)) AND 0xF, r (PIT_CHNx_CTL_N b n), r (PIT_CHNx_LOAD_N b n))"
  by (simp add: pwm_view_def)

lemma mode_set_view:
  assumes "c < 6" and "k < 6" and "pwm_base (ucast c) = (b, n)" and "e < 16"
  shows "pwm_view (snd (pit_ch_mode_set b n e r)) k =
    (if k = c then (e, snd (pwm_view r k)) else pwm_view r k)"
proof -
  obtain b' n' where k: "pwm_base (ucast k) = (b', n')" by fastforce
  note a = pwm_addresses [OF assms(1,2,3) k] and f = pwm_base_facts [OF assms(1,3)] and f' = pwm_base_facts [OF assms(2) k]
  have set: "snd (pit_ch_mode_set b n e r) = r(PIT_CH_EN_N b :=
      (r (PIT_CH_EN_N b) AND NOT (push_bit (4 * unat n) 0xF)) OR push_bit (4 * unat n) e)"
    using f(2) by (simp add: pit_ch_mode_set_def Let_def not_less)
  consider "k = c" "b' = b" "n' = n" | "k \<noteq> c" "b' = b" "unat n' \<noteq> unat n" | "k \<noteq> c" "b' \<noteq> b"
    using pwm_base_inj [OF assms(1,2,3) k] by (metis word_unat_eq_iff)
  then show ?thesis
  proof cases
    case 1
    then show ?thesis
      using a(1,2) nibble_set [OF f(1) f(1) assms(4)] unfolding pwm_view_eq [OF k] set by (simp del: drop_bit_and drop_bit_or)
  next
    case 2
    then show ?thesis
      using a(1,2) nibble_set [OF f(1) f'(1) assms(4)] unfolding pwm_view_eq [OF k] set by (simp del: drop_bit_and drop_bit_or)
  next
    case 3
    then show ?thesis using a(1,2,6) unfolding pwm_view_eq [OF k] set by simp
  qed
qed

lemma pwm_ctrl_view:
  assumes "c < 6" and "k < 6" and "d \<le> 1000"
  shows "pwm_view (pwm_ctrl c 5000 d 0 r) k = (if k = c then pwm_spec (unat d) else pwm_view r k)"
proof -
  have d: "unat d \<le> 1000" "\<not> d > 1000" using assms(3) by (simp_all add: word_le_nat_alt not_less)
  have c: "\<not> PMW_CHANNEL_MAC \<le> ucast c" using assms(1) by (auto elim!: channel_cases simp: reg_defs word_le_nat_alt)
  obtain b n where b: "pwm_base (ucast c) = (b, n)" by fastforce
  obtain b' n' where k: "pwm_base (ucast k) = (b', n')" by fastforce
  note a = pwm_addresses [OF assms(1,2) b k] 
  have n4: "\<not> n > 4" using pwm_base_facts(2) [OF assms(1) b] by simp
  let ?w = "of_nat ((8 * unat d - 1) * 65536 + (8000 - 8 * unat d - 1)) :: u32"
  let ?r = "r(PIT_CHNx_CTL_N b n := 12, PIT_CHNx_LOAD_N b n := ?w)"
  have w: "push_bit 16 (of_nat (8 * unat d - 1)) OR of_nat (8000 - 8 * unat d - 1) = ?w"
    using d by (intro load_word) auto
  have ctrl: "pit_ch_ctrl b n (if d \<le> 1 then 0 else ucast (0 :: u8)) PIT_CHCLK_APB PIT_CHMODE_PWM r = (0, r(PIT_CHNx_CTL_N b n := 12))"
    using n4 by (simp add: pit_ch_ctrl_def PIT_CHCLK_APB_def PIT_CHMODE_PWM_def)
  have reload: "snd (pwm_reload (ucast c) 5000 d 0 r) = ?r"
    unfolding pwm_reload_def b ticks_5000 [OF assms(3)] Let_def prod.case ctrl w
    using d(2) c n4 by (simp add: DRV_SUCCESS_def pit_ch_reload_value_def)
  have view: "snd (pwm_view ?r k) = (if k = c then (12, ?w) else snd (pwm_view r k))"
    "fst (pwm_view ?r k) = fst (pwm_view r k)"
  proof -
    note a' = pwm_addresses [OF assms(2,1) k b]
    show "fst (pwm_view ?r k) = fst (pwm_view r k)" using a'(1,2) unfolding pwm_view_eq [OF k] by simp
    show "snd (pwm_view ?r k) = (if k = c then (12, ?w) else snd (pwm_view r k))"
    proof (cases "k = c")
      case True
      then have "b' = b" "n' = n" using b k by auto
      then show ?thesis using True a'(3) unfolding pwm_view_eq [OF k] by simp
    next
      case False
      then have "c \<noteq> k" by simp
      with False show ?thesis using a'(3,4,5) a(3) unfolding pwm_view_eq [OF k] by (simp add: eq_commute)
    qed
  qed
  have "pwm_ctrl c 5000 d 0 r = snd (pit_ch_mode_set b n (if d = 0 then 0 else 8) ?r)"
    using d c by (auto simp: pwm_ctrl_def reload pwm_stop_def pwm_start_def b Let_def reg_defs(9,10) split: prod.split)
  moreover have "unat d = 0 \<longleftrightarrow> d = 0" by (simp add: unat_eq_0)
  ultimately show ?thesis
    using mode_set_view [OF assms(1,2) b, of "if d = 0 then 0 else 8" ?r] view
    by (auto simp: pwm_spec_def prod_eq_iff)
qed

text \<open>
  The mask and mux writes of \<open>ya_hal_pwm_init\<close> and its starting duty ratio of one per mille.
\<close>

lemma mux_view [simp]:
  assumes "k < 6"
  shows "pwm_view (PIN_MUX_SET SOC_PIN0_MUX_BASE bs i f r) k = pwm_view r k"
    and "pwm_view (PIN_MUX_SET SOC_PIN1_MUX_BASE bs i f r) k = pwm_view r k"
  by (rule channel_cases [OF assms]; simp add: pwm_view_def pwm_base_def PIN_MUX_SET_def reg_defs)+

lemma pwm_init_view:
  assumes "c < 6" and "k < 6" and "k \<noteq> c"
  shows "pwm_view (snd (pwm_init (ucast c) r)) k = pwm_view r k"
proof -
  obtain b n where b: "pwm_base (ucast c) = (b, n)" by fastforce
  show ?thesis
    using mode_set_view [OF assms(1,2) b, of 0 r] assms
    by (simp add: pwm_init_def pwm_stop_def b Let_def PIT_CH_DISABLE_def split_beta)
qed

lemma pwm_cfg_init_view:
  assumes "c < 6" and "k < 6"
  shows "pwm_view (pwm_cfg_init c 5000 r) k = (if k = c then pwm_spec 1 else pwm_view r k)"
proof -
  have "c = 5" if "\<not> c < 5" using that assms(1) by (auto elim!: channel_cases)
  then show ?thesis
    using assms pwm_ctrl_view [OF assms, of 1] pwm_init_view [OF assms, of r]
    by (auto simp: pwm_cfg_init_def Let_def)
qed

lemma pwm_write_view:
  assumes "k < 6"
  shows "pwm_view (ya_hal_pwm_write index d r) k =
    (if k = index \<and> d \<le> 1000 then pwm_spec (unat d) else pwm_view r k)"
proof -
  have u: "unat (ucast index :: u32) = unat index"
  proof -
    have "unat index < 256" using unsigned_less [of index] by simp
    then show ?thesis by (simp add: unsigned_ucast_eq take_bit_nat_eq_self)
  qed
  have "(ucast index :: u32) < PMW_CHANNEL_MAC \<longleftrightarrow> index < 6"
    by (simp add: PMW_CHANNEL_MAC_def word_less_nat_alt u)
  then show ?thesis
    using assms by (auto simp: ya_hal_pwm_write_def pwm_ctrl_view not_less)
qed

lemma pwm_init_all:
  assumes "k < 6"
  shows "pwm_view (ya_hal_pwm_init r) k = (if k = 3 then pwm_view r k else pwm_spec 1)"
  by (rule channel_cases [OF assms]) (simp_all add: ya_hal_pwm_init_def pwm_cfg_init_view)

lemma pwm_spec_phases:
  assumes "0 < d" and "d < 1000"
  shows "pwm_spec d = (8, 12, of_nat ((8 * d - 1) * 65536 + (8000 - 8 * d - 1)))"
    and "unat (snd (snd (pwm_spec d))) div 65536 + 1 = 8 * d"
    and "unat (snd (snd (pwm_spec d))) mod 65536 + 1 = 8000 - 8 * d"
proof -
  let ?h = "8 * d - 1" and ?l = "8000 - 8 * d - 1"
  have n: "?h * 65536 + ?l < 2 ^ 32" "?l < 65536" using assms by auto
  then have u: "unat (of_nat (?h * 65536 + ?l) :: u32) = ?h * 65536 + ?l"
    by (simp add: unat_of_nat del: of_nat_add of_nat_mult)
  show "pwm_spec d = (8, 12, of_nat (?h * 65536 + ?l))" using assms by (simp add: pwm_spec_def)
  then have l: "unat (snd (snd (pwm_spec d))) = ?h * 65536 + ?l" by (simp only: snd_conv u)
  have "(a * 65536 + b) div 65536 = a \<and> (a * 65536 + b) mod 65536 = b" if "b < 65536" for a b :: nat
    using that by simp
  from this [OF n(2), of ?h] show "unat (snd (snd (pwm_spec d))) div 65536 + 1 = 8 * d"
    "unat (snd (snd (pwm_spec d))) mod 65536 + 1 = 8000 - 8 * d"
    unfolding l using assms by auto
qed

section \<open>Properties\<close>

text \<open>C30: The registers behave as independent PWM channels: writing a duty ratio changes what
  exactly that channel puts out, and an index or a duty ratio out of range changes nothing.  For
  a ratio of d per mille, strictly between 0 and 1000, the channel runs with a high phase of 8 d
  ticks and a low phase of the rest of its 8000 ticks.\<close>

theorem pwm_write_output:
  assumes "k < 6"
  shows "pwm_view (ya_hal_pwm_write index d r) k =
      (if k = index \<and> d \<le> 1000 then pwm_spec (unat d) else pwm_view r k) \<and>
    (0 < d \<and> d < 1000 \<longrightarrow>
      (case pwm_view (ya_hal_pwm_write k d r) k of (enable, ctl, load) \<Rightarrow>
         enable = PIT_CH_TM3_PWM_EN \<and> unat load div 65536 + 1 = 8 * unat d \<and>
         unat load mod 65536 + 1 = 8000 - 8 * unat d))" (is "?out \<and> (?run \<longrightarrow> ?phases)")
proof (intro conjI impI)
  show ?out using assms by (rule pwm_write_view)
  assume ?run
  then have "0 < unat d" "unat d < 1000" "d \<le> 1000" by (auto simp: word_less_nat_alt word_le_nat_alt)
  then show ?phases
    using pwm_spec_phases [of "unat d"] pwm_write_view [OF assms, of k d r]
    by (auto simp: PIT_CH_TM3_PWM_EN_def)
qed

theorem pwm_write_output_witness:
  "pwm_view (ya_hal_pwm_write 4 300 (\<lambda>_. 0)) 4 = (8, 12, 2399 * 65536 + 5599) \<and>
   pwm_view (ya_hal_pwm_write 4 300 (\<lambda>_. 0)) 5 = (0, 0, 0)"
proof
  have "pwm_view (ya_hal_pwm_write 4 300 (\<lambda>_. 0)) 4 = pwm_spec 300"
    using pwm_write_output [of 4 4 300 "\<lambda>_. 0"] by (simp add: word_less_nat_alt word_le_nat_alt)
  then show "pwm_view (ya_hal_pwm_write 4 300 (\<lambda>_. 0)) 4 = (8, 12, 2399 * 65536 + 5599)"
    by (simp add: pwm_spec_def)
  have "pwm_view (ya_hal_pwm_write 4 300 (\<lambda>_. 0)) 5 = pwm_view (\<lambda>_. 0) 5"
    using pwm_write_output [of 5 4 300 "\<lambda>_. 0"] by (simp add: word_less_nat_alt)
  then show "pwm_view (ya_hal_pwm_write 4 300 (\<lambda>_. 0)) 5 = (0, 0, 0)" by (simp add: pwm_view_def split_beta)
qed

end
