(* ===== verification/Colour.thy ===== *)
theory Colour
  imports Prelude "HOL-Library.Log_Nat"
begin

text \<open>
  Colour conversion of the lamp: hue, saturation and brightness to red, green and blue
  (\<^verbatim>\<open>src/apps/akeeta_tr6260/test_example/light/hls_rgb.c\<close>) in 32-bit arithmetic, and white
  light to its cool and warm parts (\<^verbatim>\<open>ya_light_io.c\<close>) in double arithmetic.  Both are shown equal to
  exact integer formulas, the second one with a single exception.
\<close>

section \<open>Colour conversion\<close>

text \<open>All intermediate values are 32-bit unsigned; a saturation above 100 wraps.\<close>

definition HSVtoRGB :: "u16 \<Rightarrow> u16 \<Rightarrow> u16 \<Rightarrow> u8 \<times> u8 \<times> u8" where
  "HSVtoRGB h s v =
     (let RGB_max = of_nat (unat v * 255 div 100) :: u32;
          RGB_min = RGB_max * (100 - ucast s) div 100;
          i = unat h div 60;
          difs = unat h mod 60;
          RGB_Adj = (RGB_max - RGB_min) * of_nat difs div 60
      in if i = 0 then (ucast RGB_max, ucast (RGB_min + RGB_Adj), ucast RGB_min)
         else if i = 1 then (ucast (RGB_max - RGB_Adj), ucast RGB_max, ucast RGB_min)
         else if i = 2 then (ucast RGB_min, ucast RGB_max, ucast (RGB_min + RGB_Adj))
         else if i = 3 then (ucast RGB_min, ucast (RGB_max - RGB_Adj), ucast RGB_max)
         else if i = 4 then (ucast (RGB_min + RGB_Adj), ucast RGB_min, ucast RGB_max)
         else (ucast RGB_max, ucast RGB_min, ucast (RGB_max - RGB_Adj)))"

text \<open>
  Double precision: a value is rounded to 53 significant bits, ties to even.  Scaling by
  \<open>2 ^ 64\<close> makes the position of the leading bit a bit length; the values here are 0 or at
  least \<open>2 ^ -64\<close>.
\<close>

definition round_even :: "rat \<Rightarrow> int" where
  "round_even y =
     (let f = \<lfloor>y\<rfloor>; d = y - of_int f
      in if d < 1 / 2 then f else if d > 1 / 2 then f + 1 else if even f then f else f + 1)"

definition fl53 :: "rat \<Rightarrow> rat" where
  "fl53 x =
     (if x = 0 then 0
      else let ulp = 2 ^ floorlog 2 (nat \<lfloor>x * 2 ^ 64\<rfloor>) / 2 ^ (64 + 53)
           in of_int (round_even (x / ulp)) * ulp)"

text \<open>The double next to 2.55.\<close>

definition d255 :: rat where "d255 = 5742089524897382 / 2 ^ 51"

text \<open>\<open>x * 2.55 / 100\<close> stored into an unsigned char: undefined when it does not fit.\<close>

definition scale255 :: "nat \<Rightarrow> u8 option" where
  "scale255 x =
     (let y = \<lfloor>fl53 (fl53 (of_nat x * d255) / 100)\<rfloor> in if 0 \<le> y \<and> y < 256 then Some (of_int y) else None)"

definition ya_white_color_convert :: "u8 \<Rightarrow> u8 \<Rightarrow> (u8 \<times> u8) option" where
  "ya_white_color_convert w_l w_c = do {
     let c = w_c; w = 100 - w_c in do {
       cool \<leftarrow> scale255 (unat c * unat w_l);
       warm \<leftarrow> scale255 (unat w * unat w_l);
       Some (cool, warm)
     } }"

section \<open>Correctness of the colour conversions\<close>

text \<open>Rounding to a double is off by at most one part in \<open>2 ^ 53\<close>.\<close>

lemma round_even_error: "\<bar>of_int (round_even y) - y\<bar> \<le> 1 / 2"
proof -
  have "of_int \<lfloor>y\<rfloor> \<le> y" "y < of_int \<lfloor>y\<rfloor> + 1" by linarith+
  then show ?thesis by (auto simp: round_even_def Let_def abs_le_iff)
qed

lemma fl53_error:
  assumes "1 \<le> x * 2 ^ 64"
  shows "\<bar>fl53 x - x\<bar> \<le> x / 2 ^ 53"
proof -
  define n where "n = nat \<lfloor>x * 2 ^ 64\<rfloor>"
  define ulp :: rat where "ulp = 2 ^ floorlog 2 n / 2 ^ (64 + 53)"
  have x: "x > 0" using assms by (simp add: not_le [symmetric])
  have n: "n > 0" "of_nat n \<le> x * 2 ^ 64" using assms by (simp_all add: n_def)
  then have "2 ^ (floorlog 2 n - 1) \<le> n" and L: "floorlog 2 n > 0"
    using floorlog_bounds [of n 2] by (simp_all add: floorlog_def)
  then have "(2 :: rat) ^ (floorlog 2 n - 1) \<le> of_nat n" by (metis of_nat_le_iff of_nat_numeral of_nat_power)
  then have "2 * (2 :: rat) ^ (floorlog 2 n - 1) \<le> 2 * (x * 2 ^ 64)" using n(2) by linarith
  moreover have "2 * (2 :: rat) ^ (floorlog 2 n - 1) = 2 ^ floorlog 2 n" using L by (cases "floorlog 2 n") auto
  ultimately have "(2 :: rat) ^ floorlog 2 n \<le> 2 * (x * 2 ^ 64)" by simp
  then have ulp: "ulp \<le> x / 2 ^ 52" "ulp > 0" by (simp_all add: ulp_def field_simps)
  have "fl53 x = of_int (round_even (x / ulp)) * ulp" using x by (simp add: fl53_def n_def ulp_def Let_def)
  moreover have "of_int (round_even (x / ulp)) * ulp - x = (of_int (round_even (x / ulp)) - x / ulp) * ulp"
    using ulp by (simp add: field_simps)
  ultimately have "\<bar>fl53 x - x\<bar> = \<bar>of_int (round_even (x / ulp)) - x / ulp\<bar> * ulp"
    using ulp by (simp add: abs_mult)
  also have "\<dots> \<le> 1 / 2 * ulp" using round_even_error ulp(2) by (intro mult_right_mono) auto
  finally show ?thesis using ulp(1) by simp
qed

lemma scale_near:
  assumes "0 < x" and "x \<le> 65025"
  shows "\<bar>fl53 (fl53 (of_nat x * d255) / 100) - 51 * of_nat x / 2000\<bar> < 1 / 2000"
proof -
  define a where "a = of_nat x * d255"
  define b where "b = fl53 a / 100"
  have x: "(1 :: rat) \<le> of_nat x" "of_nat x \<le> (65025 :: rat)" using assms by (simp_all add: Suc_le_eq of_nat_le_iff [of _ 65025, simplified])
  have a: "a \<le> 51 / 20 * of_nat x" "51 / 20 * of_nat x - a \<le> 65025 / 2 ^ 52" "1 \<le> a"
    using x by (simp_all add: a_def d255_def)
  have A: "\<bar>fl53 a - a\<bar> \<le> a / 2 ^ 53" using a by (intro fl53_error) simp
  then have b: "1 / 2 ^ 7 \<le> b" "b \<le> 1659" "\<bar>b - a / 100\<bar> \<le> 1659 / 2 ^ 53"
    using a x unfolding b_def abs_le_iff by simp_all
  have "\<bar>fl53 b - b\<bar> \<le> b / 2 ^ 53" using b by (intro fl53_error) simp
  then have "\<bar>fl53 b - 51 * of_nat x / 2000\<bar> < 1 / 2000" using a b unfolding abs_le_iff abs_less_iff by simp
  then show ?thesis by (simp only: a_def b_def)
qed

definition exact255 :: "nat \<Rightarrow> nat" where
  "exact255 x = (if x = 6000 then 152 else 51 * x div 2000)"

lemma fl53_eqI:
  assumes "0 < L" and "2 ^ L \<le> x * 2 ^ 65" and "x * 2 ^ 64 < 2 ^ L" and "\<bar>x * 2 ^ 117 / 2 ^ L - of_int m\<bar> < 1 / 2"
  shows "fl53 x = of_int m * 2 ^ L / 2 ^ 117"
proof -
  have x: "x > 0"
  proof (rule ccontr)
    assume "\<not> x > 0"
    then have "x * 2 ^ 65 \<le> 0" by simp
    with assms(2) show False by (meson not_less order.strict_trans2 zero_less_numeral zero_less_power)
  qed
  have "round_even y = m" if "\<bar>y - of_int m\<bar> < 1 / 2" for y
  proof (cases "of_int m \<le> y")
    case True
    then have "\<lfloor>y\<rfloor> = m" using that by linarith
    then show ?thesis using that True by (auto simp: round_even_def Let_def)
  next
    case False
    then have "\<lfloor>y\<rfloor> = m - 1" using that by linarith
    then show ?thesis using that False by (auto simp: round_even_def Let_def)
  qed
  moreover have "floorlog 2 (nat \<lfloor>x * 2 ^ 64\<rfloor>) = L"
  proof (rule antisym)
    obtain k where k: "L = Suc k" using assms(1) by (cases L) auto
    then have "of_int (2 ^ k) \<le> x * 2 ^ 64" using assms(2) by simp
    then have "2 ^ k \<le> \<lfloor>x * 2 ^ 64\<rfloor>" by (simp only: le_floor_iff)
    then have "2 ^ k \<le> nat \<lfloor>x * 2 ^ 64\<rfloor>" by (metis nat_mono nat_numeral nat_power_eq zero_le_numeral)
    then show "L \<le> floorlog 2 (nat \<lfloor>x * 2 ^ 64\<rfloor>)" unfolding k by (intro floorlog_ge_SucI) auto
    have "\<lfloor>x * 2 ^ 64\<rfloor> < 2 ^ L" using assms(3) by (simp only: floor_less_iff of_int_power of_int_numeral)
    then have "nat \<lfloor>x * 2 ^ 64\<rfloor> < 2 ^ L" by (simp add: nat_less_iff)
    then show "floorlog 2 (nat \<lfloor>x * 2 ^ 64\<rfloor>) \<le> L" by (intro floorlog_leI) auto
  qed
  ultimately show ?thesis
    using x assms(4) by (simp add: fl53_def Let_def)
qed

lemma scale255_multiple:
  "scale255 0 = Some 0" "scale255 2000 = Some 51" "scale255 4000 = Some 102" "scale255 6000 = Some 152"
  "scale255 8000 = Some 204" "scale255 10000 = Some 255"
proof -
  show "scale255 0 = Some 0" by (simp add: scale255_def fl53_def)
  have "fl53 (of_nat 2000 * d255) = 5100" by (subst fl53_eqI [of 77 _ 5607509301657600]) (simp_all add: d255_def)
  moreover have "fl53 (5100 / 100) = 51" by (subst fl53_eqI [of 70 _ 7177611906121728]) simp_all
  ultimately show "scale255 2000 = Some 51" by (simp add: scale255_def)
  have "fl53 (of_nat 4000 * d255) = 10200" by (subst fl53_eqI [of 78 _ 5607509301657600]) (simp_all add: d255_def)
  moreover have "fl53 (10200 / 100) = 102" by (subst fl53_eqI [of 71 _ 7177611906121728]) simp_all
  ultimately show "scale255 4000 = Some 102" by (simp add: scale255_def)
  have "fl53 (of_nat 8000 * d255) = 20400" by (subst fl53_eqI [of 79 _ 5607509301657600]) (simp_all add: d255_def)
  moreover have "fl53 (20400 / 100) = 204" by (subst fl53_eqI [of 72 _ 7177611906121728]) simp_all
  ultimately show "scale255 8000 = Some 204" by (simp add: scale255_def)
  have "fl53 (of_nat 10000 * d255) = 25500" by (subst fl53_eqI [of 79 _ 7009386627072000]) (simp_all add: d255_def)
  moreover have "fl53 (25500 / 100) = 255" by (subst fl53_eqI [of 72 _ 8972014882652160]) simp_all
  ultimately show "scale255 10000 = Some 255" by (simp add: scale255_def)
  have a: "fl53 (of_nat 6000 * d255) = 8411263952486399 / 549755813888"
    by (subst fl53_eqI [of 78 _ 8411263952486399]) (simp_all add: d255_def)
  have b: "fl53 (8411263952486399 / 549755813888 / 100) = 5383208929591295 * 2 ^ 72 / 2 ^ 117"
    by (subst fl53_eqI [of 72 _ 5383208929591295]) simp_all
  have "\<lfloor>5383208929591295 * 2 ^ 72 / 2 ^ 117 :: rat\<rfloor> = 152" by (intro floor_unique) simp_all
  then show "scale255 6000 = Some 152" unfolding scale255_def a b by (simp only: Let_def) simp
qed

lemma scale255_exact:
  assumes "x \<le> 10039"
  shows "scale255 x = Some (of_nat (exact255 x))" and "exact255 x < 256"
proof -
  show "exact255 x < 256" using assms by (auto simp: exact255_def)
  show "scale255 x = Some (of_nat (exact255 x))"
  proof (cases "2000 dvd x")
    case True
    then obtain k where "x = 2000 * k" by (elim dvdE)
    moreover from this have "k = 0 \<or> k = 1 \<or> k = 2 \<or> k = 3 \<or> k = 4 \<or> k = 5" using assms by auto
    ultimately show ?thesis using scale255_multiple by (auto simp: exact255_def)
  next
    case False
    define q r where "q = 51 * x div 2000" and "r = 51 * x mod 2000"
    have "coprime (2000 :: nat) 51" by code_simp
    then have "\<not> 2000 dvd 51 * x" using False coprime_dvd_mult_right_iff by blast
    then have r: "0 < r" "r < 2000" and x: "51 * x = 2000 * q + r" by (auto simp: q_def r_def dvd_eq_mod_eq_0)
    have "51 * of_nat x / (2000 :: rat) = of_nat (51 * x) / 2000" by simp
    also have "\<dots> = of_nat q + of_nat r / 2000" unfolding x by simp
    finally have e: "51 * of_nat x / (2000 :: rat) = of_nat q + of_nat r / 2000" .
    have rr: "(1 :: rat) \<le> of_nat r" "of_nat r \<le> (1999 :: rat)" using r by (simp_all add: of_nat_le_iff [of _ 1999, simplified])
    have "x > 0" using False by (auto intro: Nat.gr0I)
    then have "\<bar>fl53 (fl53 (of_nat x * d255) / 100) - (of_nat q + of_nat r / 2000)\<bar> < 1 / 2000"
      using scale_near [of x] assms unfolding e by simp
    then have "of_nat q \<le> fl53 (fl53 (of_nat x * d255) / 100) \<and> fl53 (fl53 (of_nat x * d255) / 100) < of_nat q + 1"
      using rr unfolding abs_less_iff by linarith
    then have "\<lfloor>fl53 (fl53 (of_nat x * d255) / 100)\<rfloor> = int q" by (intro floor_unique) auto
    moreover have "q < 256" using assms by (simp add: q_def)
    moreover have "exact255 x = q" using False by (auto simp: exact255_def q_def)
    ultimately show ?thesis by (simp add: scale255_def Let_def)
  qed
qed

text \<open>With saturation and brightness in per cent nothing wraps.\<close>

lemma u32_arith:
  "m \<le> n \<Longrightarrow> of_nat n - of_nat m = (of_nat (n - m) :: u32)"
  "n < 2 ^ 32 \<Longrightarrow> 0 < d \<Longrightarrow> d < 2 ^ 32 \<Longrightarrow> (of_nat n :: u32) div of_nat d = of_nat (n div d)"
  by (simp_all add: of_nat_diff word_arith_nat_div unat_of_nat)

lemma byte_of_nat: "n < 256 \<Longrightarrow> (ucast (of_nat n :: u32) :: u8) = of_nat n" "n < 256 \<Longrightarrow> unat (of_nat n :: u8) = n"
  by (simp_all add: word_unat_eq_iff unsigned_ucast_eq unat_of_nat take_bit_nat_eq_self)

definition hsv_max :: "u16 \<Rightarrow> nat" where "hsv_max v = unat v * 255 div 100"
definition hsv_min :: "u16 \<Rightarrow> u16 \<Rightarrow> nat" where "hsv_min s v = hsv_max v * (100 - unat s) div 100"
definition hsv_adj :: "u16 \<Rightarrow> u16 \<Rightarrow> u16 \<Rightarrow> nat" where
  "hsv_adj h s v = (hsv_max v - hsv_min s v) * (unat h mod 60) div 60"

definition hsv_ref :: "u16 \<Rightarrow> u16 \<Rightarrow> u16 \<Rightarrow> nat \<times> nat \<times> nat" where
  "hsv_ref h s v =
     (let mx = hsv_max v; mn = hsv_min s v; a = hsv_adj h s v; i = unat h div 60
      in if i = 0 then (mx, mn + a, mn) else if i = 1 then (mx - a, mx, mn)
         else if i = 2 then (mn, mx, mn + a) else if i = 3 then (mn, mx - a, mx)
         else if i = 4 then (mn + a, mn, mx) else (mx, mn, mx - a))"

lemma scaled_le: "b \<le> d \<Longrightarrow> 0 < d \<Longrightarrow> a * b div d \<le> (a :: nat)"
  using div_le_mono [OF mult_le_mono2, of b d a d] by simp

lemma hsv_bounds:
  assumes "s \<le> 100" and "v \<le> 100"
  shows "hsv_max v \<le> 255" and "hsv_min s v \<le> hsv_max v" and "hsv_adj h s v \<le> hsv_max v - hsv_min s v"
proof -
  show "hsv_max v \<le> 255" using assms(2) by (simp add: hsv_max_def word_le_nat_alt)
  show "hsv_min s v \<le> hsv_max v" unfolding hsv_min_def by (intro scaled_le) auto
  show "hsv_adj h s v \<le> hsv_max v - hsv_min s v" unfolding hsv_adj_def by (intro scaled_le) auto
qed

lemma HSVtoRGB_eq_ref:
  assumes "s \<le> 100" and "v \<le> 100"
  shows "HSVtoRGB h s v = (case hsv_ref h s v of (r, g, b) \<Rightarrow> (of_nat r, of_nat g, of_nat b))"
proof -
  let ?mx = "hsv_max v" and ?mn = "hsv_min s v" and ?a = "hsv_adj h s v"
  note b = hsv_bounds [OF assms] 
  have s: "unat s \<le> 100" using assms by (simp add: word_le_nat_alt)
  have s': "100 - (ucast s :: u32) = of_nat (100 - unat s)"
  proof -
    have "(ucast s :: u32) = of_nat (unat s)" by (simp add: word_unat_eq_iff unsigned_ucast_eq unat_of_nat take_bit_eq_mod)
    then show ?thesis using u32_arith(1) [OF s] by simp
  qed
  have "?mx * (100 - unat s) \<le> 255 * 100" using b(1) by (intro mult_le_mono) auto
  then have mn: "(of_nat ?mx :: u32) * (100 - ucast s) div 100 = of_nat ?mn"
    using u32_arith(2) [of "?mx * (100 - unat s)" 100] unfolding s' by (simp add: hsv_min_def)
  have "(?mx - ?mn) * (unat h mod 60) \<le> 255 * 60" using b(1) by (intro mult_le_mono) auto
  then have adj: "((of_nat ?mx :: u32) - of_nat ?mn) * of_nat (unat h mod 60) div 60 = of_nat ?a"
    using u32_arith(2) [of "(?mx - ?mn) * (unat h mod 60)" 60]
    unfolding u32_arith(1) [OF b(2)] by (simp add: hsv_adj_def)
  have up: "(of_nat ?mn :: u32) + of_nat ?a = of_nat (?mn + ?a)" and down: "(of_nat ?mx :: u32) - of_nat ?a = of_nat (?mx - ?a)"
    using b(3) [of h] by (simp_all add: of_nat_diff)
  have "?mx < 256" "?mn < 256" "?mn + ?a < 256" "?mx - ?a < 256" using b(1,2) b(3) [of h] by auto
  note byte = this [THEN byte_of_nat(1)]
  show ?thesis
    unfolding HSVtoRGB_def hsv_ref_def Let_def hsv_max_def [symmetric] mn adj up down byte by simp
qed

lemma scale255_undefined:
  assumes "10040 \<le> x" and "x \<le> 65025"
  shows "scale255 x = None"
proof -
  let ?v = "fl53 (fl53 (of_nat x * d255) / 100)"
  have "(10040 :: rat) \<le> of_nat x" using assms(1) by (simp add: of_nat_le_iff [of 10040, simplified])
  moreover have "\<bar>?v - 51 * of_nat x / 2000\<bar> < 1 / 2000" using assms by (intro scale_near) auto
  ultimately have "256 \<le> ?v" unfolding abs_less_iff by linarith
  then have "\<not> \<lfloor>?v\<rfloor> < 256" by (simp add: floor_less_iff)
  then show ?thesis by (simp add: scale255_def Let_def)
qed

lemma white_products:
  assumes "w_c \<le> 100"
  shows "ya_white_color_convert w_l w_c =
      (if unat w_c * unat w_l < 10040 \<and> (100 - unat w_c) * unat w_l < 10040
       then Some (of_nat (exact255 (unat w_c * unat w_l)), of_nat (exact255 ((100 - unat w_c) * unat w_l))) else None)"
proof -
  have c: "unat w_c \<le> 100" and l: "unat w_l \<le> 255"
    using assms unsigned_less [of w_l, where ?'a = nat] by (simp_all add: word_le_nat_alt)
  have w: "unat (100 - w_c) = 100 - unat w_c" using assms by (subst unat_sub) auto
  have "unat w_c * unat w_l \<le> 100 * 255" "(100 - unat w_c) * unat w_l \<le> 100 * 255"
    using l c by (intro mult_le_mono; simp)+
  then have "scale255 x = (if x < 10040 then Some (of_nat (exact255 x)) else None)"
    if "x = unat w_c * unat w_l \<or> x = (100 - unat w_c) * unat w_l" for x
    using that scale255_exact(1) [of x] scale255_undefined [of x] by (cases "x < 10040") auto
  then show ?thesis by (simp add: ya_white_color_convert_def w)
qed

lemma white_undefined: "l > 100 \<Longrightarrow> ya_white_color_convert l 100 = None"
  using white_products [of 100 l] by (simp add: word_less_nat_alt)

lemma white_exact:
  assumes "w_l \<le> 100" and "w_c \<le> 100"
  shows "ya_white_color_convert w_l w_c =
      Some (of_nat (exact255 (unat w_c * unat w_l)), of_nat (exact255 ((100 - unat w_c) * unat w_l)))"
    and "exact255 (unat w_c * unat w_l) + exact255 ((100 - unat w_c) * unat w_l) \<le> 255 * unat w_l div 100"
proof -
  have l: "unat w_l \<le> 100" and c: "unat w_c \<le> 100" using assms by (simp_all add: word_le_nat_alt)
  have p: "unat w_c * unat w_l \<le> 100 * 100" "(100 - unat w_c) * unat w_l \<le> 100 * 100"
    using l c by (intro mult_le_mono; simp)+
  then show "ya_white_color_convert w_l w_c =
      Some (of_nat (exact255 (unat w_c * unat w_l)), of_nat (exact255 ((100 - unat w_c) * unat w_l)))"
    by (simp add: white_products [OF assms(2)])
  have le: "exact255 x \<le> 51 * x div 2000" for x by (simp add: exact255_def)
  have "51 * x div 2000 + 51 * y div 2000 \<le> 51 * (x + y) div 2000" for x y :: nat
    unfolding distrib_left div_add1_eq [of "51 * x"] by (rule le_add1)
  note this [of "unat w_c * unat w_l" "(100 - unat w_c) * unat w_l"]
  moreover have "unat w_c * unat w_l + (100 - unat w_c) * unat w_l = 100 * unat w_l"
    using c by (simp add: add_mult_distrib [symmetric])
  moreover have "51 * (100 * unat w_l) div 2000 = 255 * unat w_l div 100"
    using div_mult_mult1 [of 20 "255 * unat w_l" 100] by simp
  ultimately show "exact255 (unat w_c * unat w_l) + exact255 ((100 - unat w_c) * unat w_l) \<le> 255 * unat w_l div 100"
    using le [of "unat w_c * unat w_l"] le [of "(100 - unat w_c) * unat w_l"] by simp
qed

section \<open>Properties\<close>

text \<open>With saturation and brightness in per cent, the 32-bit arithmetic of the colour conversion
  does not wrap: it equals the formula over the natural numbers, the brightest component is the
  brightness scaled to 255 and the darkest one is what the saturation leaves of it.\<close>

theorem colour_conversion_exact:
  assumes "s \<le> 100" and "v \<le> 100"
  shows "HSVtoRGB h s v = (case hsv_ref h s v of (r, g, b) \<Rightarrow> (of_nat r, of_nat g, of_nat b)) \<and>
    (case HSVtoRGB h s v of (r, g, b) \<Rightarrow>
       Max {unat r, unat g, unat b} = unat v * 255 div 100 \<and>
       Min {unat r, unat g, unat b} = unat v * 255 div 100 * (100 - unat s) div 100)"
proof -
  note b = hsv_bounds(1,2) [OF assms] hsv_bounds(3) [OF assms, of h]
  have lt: "hsv_max v < 256" "hsv_min s v < 256" "hsv_min s v + hsv_adj h s v < 256" "hsv_max v - hsv_adj h s v < 256"
    using b by auto
  have "case hsv_ref h s v of (r, g, b) \<Rightarrow> r < 256 \<and> g < 256 \<and> b < 256 \<and>
      Max {r, g, b} = hsv_max v \<and> Min {r, g, b} = hsv_min s v"
    using lt b by (auto simp: hsv_ref_def Let_def)
  then show ?thesis
    using HSVtoRGB_eq_ref [OF assms, of h] byte_of_nat(2) by (auto simp: hsv_min_def hsv_max_def split: prod.splits)
qed

theorem colour_conversion_exact_witness:
  "HSVtoRGB 200 50 80 = (102, 170, 204)"
proof -
  have "HSVtoRGB 200 50 80 = (case hsv_ref 200 50 80 of (r, g, b) \<Rightarrow> (of_nat r, of_nat g, of_nat b))"
    using colour_conversion_exact [of 50 80 200] by (simp add: word_le_nat_alt)
  then show ?thesis by (simp add: hsv_ref_def hsv_max_def hsv_min_def hsv_adj_def Let_def)
qed

text \<open>C33: For luminance and colour temperature in per cent, the double arithmetic of the white
  conversion gives exactly the integer quotients 51 x / 2000 of the two products, except 152
  in place of 153 for the product 6000; the cool and the warm part together never exceed the
  luminance scaled to 255.  A luminance above 100 is undefined exactly when one of the two products reaches
  10040, where the quotient does not fit its byte.\<close>

theorem white_conversion_exact:
  assumes "w_c \<le> 100"
  shows "ya_white_color_convert w_l w_c =
      (if unat w_c * unat w_l < 10040 \<and> (100 - unat w_c) * unat w_l < 10040
       then Some (of_nat (exact255 (unat w_c * unat w_l)), of_nat (exact255 ((100 - unat w_c) * unat w_l))) else None) \<and>
    (w_l \<le> 100 \<longrightarrow> ya_white_color_convert w_l w_c \<noteq> None \<and>
      exact255 (unat w_c * unat w_l) + exact255 ((100 - unat w_c) * unat w_l) \<le> 255 * unat w_l div 100)"
  using white_products [OF assms] white_exact [OF _ assms] by simp

theorem white_conversion_exact_witness:
  "ya_white_color_convert 100 60 = Some (152, 102) \<and> ya_white_color_convert 101 100 = None \<and>
   ya_white_color_convert 101 50 = Some (128, 128)"
  using white_conversion_exact [of 60 100] white_conversion_exact [of 100 101] white_conversion_exact [of 50 101]
  by (simp add: exact255_def word_le_nat_alt)

end
