(* ===== verification/LightIo.thy ===== *)
theory LightIo
  imports YaFlash Pwm Colour
begin

text \<open>
  The lamp driver, \<^verbatim>\<open>src/apps/akeeta_tr6260/test_example/light/ya_light_io.c\<close>: five fading
  channels red, green, blue, cool and warm on top of the PWM outputs.  The waits between two
  steps of a fade do not change the state.
\<close>

section \<open>Channels\<close>

record ya_control_pwm_t =
  cur_value :: u8
  end_value :: u8
  flag :: u8

record light_io = board +
  ya_control_pwm :: "nat \<Rightarrow> ya_control_pwm_t"
  mode_cur :: u8
  hw :: regs

record ya_light_data_t =
  w_l :: u16
  w_color :: u16
  c_h :: u16
  c_s :: u16
  c_b :: u16

definition PWM_NUM :: nat where "PWM_NUM = 5"

definition PWM_R :: u8 where "PWM_R = 4"
definition PWM_G :: u8 where "PWM_G = 1"
definition PWM_B :: u8 where "PWM_B = 2"
definition PWM_COOL :: u8 where "PWM_COOL = 5"
definition PWM_WARM :: u8 where "PWM_WARM = 0"

definition pwm_write :: "u8 \<Rightarrow> u32 \<Rightarrow> 'a light_io_scheme \<Rightarrow> 'a light_io_scheme" where
  "pwm_write pin n s = s\<lparr>hw := ya_hal_pwm_write pin n (hw s)\<rparr>"

definition ya_pwm_led_write_index :: "nat \<Rightarrow> u8 \<Rightarrow> 'a light_io_scheme \<Rightarrow> 'a light_io_scheme" where
  "ya_pwm_led_write_index index v s =
     (let n = of_nat (unat v * 999 div 255)
      in if index = 0 then pwm_write PWM_R n s
         else if index = 1 then pwm_write PWM_G n s
         else if index = 2 then pwm_write PWM_B n s
         else if index = 3 then pwm_write PWM_COOL n s
         else if index = 4 then pwm_write PWM_WARM n s
         else s)"

definition ya_pwm_led_write :: "u8 \<Rightarrow> u8 \<Rightarrow> u8 \<Rightarrow> u8 \<Rightarrow> u8 \<Rightarrow> 'a light_io_scheme \<Rightarrow> 'a light_io_scheme" where
  "ya_pwm_led_write r g b c w s =
     (let n = \<lambda>v. of_nat (unat v * 999 div 255)
      in fold (\<lambda>(pin, v). pwm_write pin (n v)) [(PWM_R, r), (PWM_G, g), (PWM_B, b), (PWM_COOL, c), (PWM_WARM, w)] s)"

abbreviation channel :: "nat \<Rightarrow> (ya_control_pwm_t \<Rightarrow> ya_control_pwm_t) \<Rightarrow> 'a light_io_scheme \<Rightarrow> 'a light_io_scheme" where
  "channel i f s \<equiv> s\<lparr>ya_control_pwm := (ya_control_pwm s)(i := f (ya_control_pwm s i))\<rparr>"

definition at_end :: "ya_control_pwm_t \<Rightarrow> bool" where
  "at_end c \<longleftrightarrow> cur_value c = end_value c"

definition set_flag :: "ya_control_pwm_t \<Rightarrow> ya_control_pwm_t" where
  "set_flag c = c\<lparr>flag := if at_end c then 0 else if cur_value c < end_value c then 1 else 2\<rparr>"

definition step_channel :: "ya_control_pwm_t \<Rightarrow> ya_control_pwm_t" where
  "step_channel c =
     (if flag c = 1 then c\<lparr>cur_value := cur_value c + 1\<rparr>
      else if flag c = 2 then c\<lparr>cur_value := cur_value c - 1\<rparr> else c)"

text \<open>One round over the channels, and the rounds until every channel has arrived.\<close>

definition fade_channel :: "nat \<Rightarrow> 'a light_io_scheme \<Rightarrow> 'a light_io_scheme" where
  "fade_channel i s =
     (if at_end (ya_control_pwm s i) then s
      else let s = channel i step_channel s
           in ya_pwm_led_write_index i (cur_value (ya_control_pwm s i)) s)"

partial_function (option) fade_rounds :: "nat list \<Rightarrow> 'a light_io_scheme \<Rightarrow> 'a light_io_scheme option" where
  "fade_rounds is s =
     (if list_all (\<lambda>i. at_end (ya_control_pwm s i)) is then Some s
      else fade_rounds is (fold fade_channel is s))"

text \<open>An index past the array is undefined.\<close>

definition ya_pwm_control_with_step :: "nat \<Rightarrow> nat \<Rightarrow> 'a light_io_scheme \<Rightarrow> 'a light_io_scheme option" where
  "ya_pwm_control_with_step start_index index_num s =
     (if start_index + index_num > PWM_NUM then None
      else let is = [start_index..<start_index + index_num]
           in fade_rounds is (fold (\<lambda>i. channel i set_flag) is s))"

definition set_end :: "u8 \<Rightarrow> ya_control_pwm_t \<Rightarrow> ya_control_pwm_t" where
  "set_end v c = c\<lparr>end_value := v\<rparr>"

definition set_ends :: "u8 \<times> u8 \<times> u8 \<times> u8 \<times> u8 \<Rightarrow> 'a light_io_scheme \<Rightarrow> 'a light_io_scheme" where
  "set_ends e s =
     (case e of (r, g, b, c, w) \<Rightarrow>
        fold (\<lambda>(i, v). channel i (set_end v)) [(0, r), (1, g), (2, b), (3, c), (4, w)] s)"

text \<open>The ends of the five channels and the mode for a setting.\<close>

definition light_target :: "ya_light_data_t \<Rightarrow> (u8 \<times> (u8 \<times> u8 \<times> u8 \<times> u8 \<times> u8)) option" where
  "light_target p =
     (let h = (if c_h p \<ge> 360 then 0 else c_h p)
      in if c_b p \<noteq> 0 \<or> h \<noteq> 0 \<or> c_s p \<noteq> 0 then
           (let (r, g, b) = HSVtoRGB h (c_s p) (c_b p) in Some (1, r, g, b, 0, 0))
         else do { (c, w) \<leftarrow> ya_white_color_convert (ucast (w_l p)) (ucast (w_color p)); Some (0, 0, 0, 0, c, w) })"

definition ya_write_light_para :: "ya_light_data_t \<Rightarrow> 'a light_io_scheme \<Rightarrow> 'a light_io_scheme option" where
  "ya_write_light_para p s = do {
     (mode, e) \<leftarrow> light_target p;
     let s = set_ends e s in
     if mode_cur s \<noteq> mode then
       (let s = s\<lparr>mode_cur := mode\<rparr>
        in if mode = 1 then do { s \<leftarrow> ya_pwm_control_with_step 3 2 s; ya_pwm_control_with_step 0 3 s }
           else do { s \<leftarrow> ya_pwm_control_with_step 0 3 s; ya_pwm_control_with_step 3 2 s })
     else if mode_cur s = 0 then ya_pwm_control_with_step 3 2 s
     else ya_pwm_control_with_step 0 3 s
   }"

definition ya_light_control_pwm_para_init :: "'a light_io_scheme \<Rightarrow> 'a light_io_scheme" where
  "ya_light_control_pwm_para_init s =
     fold (\<lambda>i. channel i (\<lambda>_. \<lparr>cur_value = 0, end_value = 0, flag = 0\<rparr>)) [0..<PWM_NUM] s"

section \<open>Output of a channel\<close>

definition pwm_pin :: "nat \<Rightarrow> u8" where
  "pwm_pin i = [PWM_R, PWM_G, PWM_B, PWM_COOL, PWM_WARM] ! i"

definition lit :: "'a light_io_scheme \<Rightarrow> nat \<Rightarrow> u32 \<times> u32 \<times> u32" where
  "lit s i = pwm_view (hw s) (pwm_pin i)"

definition shown :: "u8 \<Rightarrow> u32 \<times> u32 \<times> u32" where
  "shown v = pwm_spec (unat v * 999 div 255)"

lemma less_3: "i < 3 \<longleftrightarrow> i = 0 \<or> i = 1 \<or> i = (2 :: nat)"
  by auto

lemma less_5: "i < 5 \<longleftrightarrow> i < 3 \<or> i = 3 \<or> i = (4 :: nat)"
  by auto

lemma three: "(\<forall>i < 3. P i) \<longleftrightarrow> P 0 \<and> P 1 \<and> P (2 :: nat)"
  unfolding less_3 by blast

lemma five: "(\<forall>i < 5. P i) \<longleftrightarrow> P 0 \<and> P 1 \<and> P 2 \<and> P 3 \<and> P (4 :: nat)"
  unfolding less_5 less_3 by blast

lemma pin_values: "pwm_pin 0 = 4" "pwm_pin 1 = 1" "pwm_pin 2 = 2" "pwm_pin 3 = 5" "pwm_pin 4 = 0"
  by (simp_all add: pwm_pin_def PWM_R_def PWM_G_def PWM_B_def PWM_COOL_def PWM_WARM_def)

lemma pin_range: "i < 5 \<Longrightarrow> pwm_pin i < 6"
proof -
  have "\<forall>i < 5. pwm_pin i < 6" unfolding five pin_values by (simp add: word_less_nat_alt)
  then show "i < 5 \<Longrightarrow> pwm_pin i < 6" by blast
qed

lemma pin_inj: "i < 5 \<Longrightarrow> j < 5 \<Longrightarrow> pwm_pin i = pwm_pin j \<longleftrightarrow> i = j"
proof -
  have "\<forall>i < 5. \<forall>j < 5. pwm_pin i = pwm_pin j \<longleftrightarrow> i = j" unfolding five pin_values by simp
  then show "i < 5 \<Longrightarrow> j < 5 \<Longrightarrow> pwm_pin i = pwm_pin j \<longleftrightarrow> i = j" by blast
qed

lemma write_index_pin:
  "i < 5 \<Longrightarrow> ya_pwm_led_write_index i v s = pwm_write (pwm_pin i) (of_nat (unat v * 999 div 255)) s"
proof -
  have "\<forall>i < 5. ya_pwm_led_write_index i v s = pwm_write (pwm_pin i) (of_nat (unat v * 999 div 255)) s"
    unfolding five by (simp add: ya_pwm_led_write_index_def pwm_pin_def)
  then show "i < 5 \<Longrightarrow> ya_pwm_led_write_index i v s = pwm_write (pwm_pin i) (of_nat (unat v * 999 div 255)) s" by blast
qed

lemma lit_write:
  assumes "i < 5" and "j < 5"
  shows "lit (ya_pwm_led_write_index i v s) j = (if j = i then shown v else lit s j)"
proof -
  have "unat v < 256" using unsigned_less [of v] by simp
  then have "unat v * 999 div 255 \<le> 999" by (simp add: div_le_mono [of "_ * 999" "255 * 999" 255, simplified])
  then have "unat (of_nat (unat v * 999 div 255) :: u32) = unat v * 999 div 255"
    by (simp add: unat_of_nat)
  with \<open>unat v * 999 div 255 \<le> 999\<close> show ?thesis
    using assms by (simp add: write_index_pin pwm_write_def lit_def pwm_write_view pin_range pin_inj shown_def word_le_nat_alt)
qed

section \<open>Fading\<close>

definition flag_ok :: "ya_control_pwm_t \<Rightarrow> bool" where
  "flag_ok c \<longleftrightarrow> at_end c \<or> cur_value c < end_value c \<and> flag c = 1 \<or> end_value c < cur_value c \<and> flag c = 2"

definition distance :: "ya_control_pwm_t \<Rightarrow> nat" where
  "distance c = (if cur_value c \<le> end_value c then unat (end_value c) - unat (cur_value c)
                 else unat (cur_value c) - unat (end_value c))"

definition bump :: "ya_control_pwm_t \<Rightarrow> ya_control_pwm_t" where
  "bump c = (if at_end c then c else step_channel c)"

lemma set_flag_ok: "flag_ok (set_flag c)" "at_end (set_flag c) = at_end c"
  by (auto simp: set_flag_def flag_ok_def at_end_def)

lemma step_fields [simp]: "end_value (step_channel c) = end_value c"
  by (simp add: step_channel_def)

lemma bump_fields [simp]: "end_value (bump c) = end_value c" "flag (bump c) = flag c"
  by (simp_all add: bump_def step_channel_def)

lemma distance_0: "distance c = 0 \<longleftrightarrow> at_end c"
  by (auto simp: distance_def at_end_def word_le_nat_alt word_unat_eq_iff)

lemma bump_towards:
  assumes "flag_ok c" and "\<not> at_end c"
  shows "flag_ok (bump c)" and "Suc (distance (bump c)) = distance c"
proof -
  have up: "unat (cur_value c + 1) = unat (cur_value c) + 1" if "cur_value c < end_value c"
  proof -
    have "unat (end_value c) < 256" using unsigned_less [of "end_value c"] by simp
    with that show ?thesis by (simp add: word_less_nat_alt unat_add_lem [THEN iffD1])
  qed
  have down: "unat (cur_value c - 1) = unat (cur_value c) - 1" if "end_value c < cur_value c"
    using that by (subst unat_minus_one) (auto simp: word_less_nat_alt)
  have eq: "cur_value c = end_value c \<longleftrightarrow> unat (cur_value c) = unat (end_value c)" by (simp add: word_unat_eq_iff)
  show "Suc (distance (bump c)) = distance c"
    using assms up down
    by (auto simp: flag_ok_def distance_def bump_def step_channel_def word_le_nat_alt word_less_nat_alt)
  show "flag_ok (bump c)"
    using assms up down
    by (auto simp: flag_ok_def bump_def step_channel_def at_end_def word_less_nat_alt word_unat_eq_iff)
qed

definition arrived :: "ya_control_pwm_t \<Rightarrow> ya_control_pwm_t" where
  "arrived c = c\<lparr>cur_value := end_value c\<rparr>"

lemma arrived_at_end: "at_end c \<Longrightarrow> arrived c = c"
  by (simp add: arrived_def at_end_def)

lemma arrived_bump [simp]: "arrived (step_channel c) = arrived c" "arrived (bump c) = arrived c"
  by (simp_all add: arrived_def bump_def step_channel_def)

text \<open>
  \<open>drives s P L t\<close>: from \<open>s\<close> the channels have become \<open>P\<close>, the outputs are \<open>L\<close>, and nothing
  but these and the registers behind them has changed.
\<close>

definition drives :: "'a light_io_scheme \<Rightarrow> (nat \<Rightarrow> ya_control_pwm_t) \<Rightarrow> (nat \<Rightarrow> u32 \<times> u32 \<times> u32) \<Rightarrow>
    'a light_io_scheme \<Rightarrow> bool" where
  "drives s P L t \<longleftrightarrow> (\<exists>R. t = s\<lparr>ya_control_pwm := P, hw := R\<rparr>) \<and> (\<forall>j < 5. lit t j = L j)"

lemma drives_refl: "drives s (ya_control_pwm s) (lit s) s"
  unfolding drives_def by (auto intro: exI [of _ "hw s"])

lemma drives_fields:
  assumes "drives s P L t"
  shows "ya_control_pwm t = P" and "j < 5 \<Longrightarrow> lit t j = L j" and "mode_cur t = mode_cur s"
    and "board.truncate t = board.truncate s" and "light_io.more t = light_io.more s"
  using assms by (auto simp: drives_def board.truncate_def)

lemma drives_trans: "drives s P L t \<Longrightarrow> drives t Q M u \<Longrightarrow> drives s Q M u"
  by (auto simp: drives_def)

lemma drives_cong:
  "drives s P L t \<Longrightarrow> P = Q \<Longrightarrow> (\<And>j. j < 5 \<Longrightarrow> L j = M j) \<Longrightarrow> drives s Q M t"
  by (auto simp: drives_def)

lemma lit_channels [simp]: "lit (s\<lparr>ya_control_pwm := P\<rparr>) = lit s"
  by (simp add: lit_def fun_eq_iff)

lemma drives_channels: "drives s P (lit s) (s\<lparr>ya_control_pwm := P\<rparr>)"
  unfolding drives_def by (auto intro: exI [of _ "hw s"])

lemma fade_channel_drives:
  assumes "i < 5"
  shows "drives s ((ya_control_pwm s)(i := bump (ya_control_pwm s i)))
    (\<lambda>j. if j = i \<and> \<not> at_end (ya_control_pwm s i) then shown (cur_value (bump (ya_control_pwm s i))) else lit s j)
    (fade_channel i s)"
proof (cases "at_end (ya_control_pwm s i)")
  case True
  then show ?thesis using drives_refl [of s] by (simp add: fade_channel_def bump_def)
next
  case False
  let ?t = "channel i step_channel s"
  have "fade_channel i s = ya_pwm_led_write_index i (cur_value (step_channel (ya_control_pwm s i))) ?t"
    using False by (simp add: fade_channel_def)
  moreover have "\<exists>R. ya_pwm_led_write_index i v ?t = ?t\<lparr>hw := R\<rparr>" for v
    using assms by (auto simp: write_index_pin pwm_write_def)
  ultimately show ?thesis
    using False assms by (auto simp: drives_def bump_def lit_write [OF assms])
qed

lemma fade_round_drives:
  assumes "distinct is" and "\<forall>i \<in> set is. i < 5"
  shows "drives s
    (\<lambda>i. if i \<in> set is then bump (ya_control_pwm s i) else ya_control_pwm s i)
    (\<lambda>i. if i \<in> set is \<and> \<not> at_end (ya_control_pwm s i) then shown (cur_value (bump (ya_control_pwm s i))) else lit s i)
    (fold fade_channel is s)"
  using assms
proof (induction "is" arbitrary: s)
  case Nil
  then show ?case using drives_refl [of s] by simp
next
  case (Cons j js)
  let ?t = "fade_channel j s"
  note t = fade_channel_drives [of j s]
  have j: "j < 5" "distinct js" "\<forall>i \<in> set js. i < 5" "j \<notin> set js" using Cons.prems by auto
  note f = drives_fields(1,2) [OF t [OF j(1)]]
  show ?case unfolding fold_simps
    by (rule drives_cong [OF drives_trans [OF t [OF j(1)] Cons.IH [OF j(2,3)]]]) (use j in \<open>auto simp: f\<close>)
qed
lemma channels_eq:
  "distinct is \<Longrightarrow> fold (\<lambda>i. channel i (f i)) is s =
     s\<lparr>ya_control_pwm := (\<lambda>i. if i \<in> set is then f i (ya_control_pwm s i) else ya_control_pwm s i)\<rparr>"
proof (induction "is" arbitrary: s)
  case (Cons j js)
  let ?P = "ya_control_pwm s" and ?t = "channel j (f j) s"
  have "fold (\<lambda>i. channel i (f i)) js ?t =
      ?t\<lparr>ya_control_pwm := (\<lambda>i. if i \<in> set js then f i (ya_control_pwm ?t i) else ya_control_pwm ?t i)\<rparr>"
    using Cons.prems by (intro Cons.IH) simp
  also have "(\<lambda>i. if i \<in> set js then f i (ya_control_pwm ?t i) else ya_control_pwm ?t i) =
      (\<lambda>i. if i \<in> set (j # js) then f i (?P i) else ?P i)" using Cons.prems by (auto simp: fun_eq_iff)
  finally show ?case by simp
qed simp


text \<open>Every channel arrives; the number of rounds is the largest distance.\<close>

lemma fade_rounds_arrive:
  assumes "distinct is" and "\<forall>i \<in> set is. i < 5 \<and> flag_ok (ya_control_pwm s i) \<and> distance (ya_control_pwm s i) \<le> n"
  shows "\<exists>t. fade_rounds is s = Some t \<and> drives s
    (\<lambda>i. if i \<in> set is then arrived (ya_control_pwm s i) else ya_control_pwm s i)
    (\<lambda>i. if i \<in> set is \<and> \<not> at_end (ya_control_pwm s i) then shown (end_value (ya_control_pwm s i)) else lit s i) t"
  using assms(2)
proof (induction n arbitrary: s)
  case 0
  then have e: "\<forall>i \<in> set is. at_end (ya_control_pwm s i)" by (simp add: distance_0)
  then have "fade_rounds is s = Some s" by (subst fade_rounds.simps) (simp add: list_all_iff)
  moreover have "drives s (\<lambda>i. if i \<in> set is then arrived (ya_control_pwm s i) else ya_control_pwm s i)
    (\<lambda>i. if i \<in> set is \<and> \<not> at_end (ya_control_pwm s i) then shown (end_value (ya_control_pwm s i)) else lit s i) s"
    by (rule drives_cong [OF drives_refl]) (use e in \<open>auto simp: arrived_at_end\<close>)
  ultimately show ?case by blast
next
  case (Suc n)
  show ?case
  proof (cases "\<forall>i \<in> set is. at_end (ya_control_pwm s i)")
    case True
    then show ?thesis using Suc.prems by (intro Suc.IH) (auto simp: distance_0 [symmetric])
  next
    case False
    let ?t = "fold fade_channel is s" and ?P = "ya_control_pwm s"
    have lt: "\<forall>i \<in> set is. i < 5" using Suc.prems by blast
    note t = fade_round_drives [OF assms(1) lt, of s]
    note f = drives_fields(1,2) [OF t]
    have ok: "flag_ok (bump (?P i)) \<and> distance (bump (?P i)) \<le> n" if "i \<in> set is" for i
    proof (cases "at_end (?P i)")
      case True
      then show ?thesis by (simp add: bump_def flag_ok_def distance_0 [symmetric])
    next
      case e: False
      have "flag_ok (?P i)" "distance (?P i) \<le> Suc n" using Suc.prems that by auto
      with bump_towards [OF this(1) e] show ?thesis by simp
    qed
    have step: "fade_rounds is s = fade_rounds is ?t"
      using False by (subst fade_rounds.simps) (auto simp: list_all_iff)
    obtain u where u: "fade_rounds is ?t = Some u" "drives ?t
        (\<lambda>i. if i \<in> set is then arrived (ya_control_pwm ?t i) else ya_control_pwm ?t i)
        (\<lambda>i. if i \<in> set is \<and> \<not> at_end (ya_control_pwm ?t i) then shown (end_value (ya_control_pwm ?t i)) else lit ?t i) u"
      using Suc.IH [of ?t] ok lt by (auto simp: f)
    have "drives s (\<lambda>i. if i \<in> set is then arrived (?P i) else ?P i)
        (\<lambda>i. if i \<in> set is \<and> \<not> at_end (?P i) then shown (end_value (?P i)) else lit s i) u"
      by (rule drives_cong [OF drives_trans [OF t u(2)]]) (auto simp: f fun_eq_iff bump_def at_end_def)
    with u(1) step show ?thesis by auto
  qed
qed

lemma distance_byte: "distance c \<le> 256"
proof -
  have "unat (cur_value c) < 256" "unat (end_value c) < 256"
    using unsigned_less [of "cur_value c"] unsigned_less [of "end_value c"] by simp_all
  then show ?thesis by (auto simp: distance_def)
qed

lemma control_with_step_arrives:
  assumes "a + n \<le> 5"
  shows "\<exists>t. ya_pwm_control_with_step a n s = Some t \<and> drives s
    (\<lambda>i. if a \<le> i \<and> i < a + n then arrived (set_flag (ya_control_pwm s i)) else ya_control_pwm s i)
    (\<lambda>i. if a \<le> i \<and> i < a + n \<and> \<not> at_end (ya_control_pwm s i) then shown (end_value (ya_control_pwm s i)) else lit s i) t"
proof -
  let ?is = "[a..<a + n]" and ?P = "ya_control_pwm s"
  let ?s = "s\<lparr>ya_control_pwm := (\<lambda>i. if i \<in> set ?is then set_flag (?P i) else ?P i)\<rparr>"
  obtain t where t: "fade_rounds ?is ?s = Some t" and d: "drives ?s
    (\<lambda>i. if i \<in> set ?is then arrived (ya_control_pwm ?s i) else ya_control_pwm ?s i)
    (\<lambda>i. if i \<in> set ?is \<and> \<not> at_end (ya_control_pwm ?s i) then shown (end_value (ya_control_pwm ?s i)) else lit ?s i) t"
    using fade_rounds_arrive [of ?is ?s 256] assms distance_byte by (auto simp: set_flag_ok)
  have e: "end_value (set_flag c) = end_value c" for c by (simp add: set_flag_def)
  have "drives s
    (\<lambda>i. if a \<le> i \<and> i < a + n then arrived (set_flag (?P i)) else ?P i)
    (\<lambda>i. if a \<le> i \<and> i < a + n \<and> \<not> at_end (?P i) then shown (end_value (?P i)) else lit s i) t"
    by (rule drives_cong [OF drives_trans [OF drives_channels d]]) (auto simp: set_flag_ok e)
  moreover have "fold (\<lambda>i. channel i set_flag) ?is s = ?s" by (rule channels_eq) simp
  with t have "ya_pwm_control_with_step a n s = Some t"
    using assms by (simp add: ya_pwm_control_with_step_def Let_def PWM_NUM_def)
  ultimately show ?thesis by blast
qed

section \<open>The lamp\<close>

text \<open>
  Between two settings every channel rests at its end, only the channels of the current mode
  are lit, and each output shows the level of its channel.  A channel that was never faded
  still has the duty ratio of one per mille it was started with.
\<close>

definition levels :: "'a light_io_scheme \<Rightarrow> u8 \<times> u8 \<times> u8 \<times> u8 \<times> u8" where
  "levels s = (let l = \<lambda>i. cur_value (ya_control_pwm s i) in (l 0, l 1, l 2, l 3, l 4))"

definition shows_level :: "'a light_io_scheme \<Rightarrow> nat \<Rightarrow> bool" where
  "shows_level s i \<longleftrightarrow> (let v = cur_value (ya_control_pwm s i) in lit s i = shown v \<or> v = 0 \<and> lit s i = pwm_spec 1)"

definition lamp_inv :: "'a light_io_scheme \<Rightarrow> bool" where
  "lamp_inv s \<longleftrightarrow> (\<forall>i < 5. at_end (ya_control_pwm s i) \<and> shows_level s i) \<and>
     (mode_cur s = 0 \<and> (\<forall>i < 3. cur_value (ya_control_pwm s i) = 0) \<or>
      mode_cur s = 1 \<and> (\<forall>i \<in> {3, 4}. cur_value (ya_control_pwm s i) = 0))"

lemma set_ends_eq:
  "set_ends (r, g, b, c, w) s = s\<lparr>ya_control_pwm := (ya_control_pwm s)(
     0 := set_end r (ya_control_pwm s 0), 1 := set_end g (ya_control_pwm s 1), 2 := set_end b (ya_control_pwm s 2),
     3 := set_end c (ya_control_pwm s 3), 4 := set_end w (ya_control_pwm s 4))\<rparr>"
  by (simp add: set_ends_def)

lemma target_shape:
  assumes "light_target p = Some (mode, r, g, b, c, w)"
  shows "mode = 1 \<and> c = 0 \<and> w = 0 \<or> mode = 0 \<and> r = 0 \<and> g = 0 \<and> b = 0"
  using assms by (auto simp: light_target_def Let_def bind_eq_Some_conv split: if_splits prod.splits)

lemma arrived_set [simp]:
  "cur_value (arrived (set_flag (set_end v c))) = v" "at_end (arrived (set_flag (set_end v c)))"
  "at_end (set_end v c) = (cur_value c = v)" "cur_value (set_end v c) = cur_value c" "end_value (set_end v c) = v"
  by (auto simp: arrived_def set_flag_def set_end_def at_end_def)

text \<open>The fades of a setting: those of its mode after, when the mode changes, those of the other one.\<close>

definition fades :: "bool \<Rightarrow> 'a light_io_scheme \<Rightarrow> 'a light_io_scheme option" where
  "fades colour s = (if colour then ya_pwm_control_with_step 0 3 s else ya_pwm_control_with_step 3 2 s)"

definition in_group :: "bool \<Rightarrow> nat \<Rightarrow> bool" where
  "in_group colour i \<longleftrightarrow> i < 5 \<and> (i < 3 \<longleftrightarrow> colour)"

lemma fades_arrive:
  obtains t where "fades g s = Some t" and "drives s
    (\<lambda>i. if in_group g i then arrived (set_flag (ya_control_pwm s i)) else ya_control_pwm s i)
    (\<lambda>i. if in_group g i \<and> \<not> at_end (ya_control_pwm s i) then shown (end_value (ya_control_pwm s i)) else lit s i) t"
proof (cases g)
  case True
  obtain t where "ya_pwm_control_with_step 0 3 s = Some t" and d: "drives s
    (\<lambda>i. if 0 \<le> i \<and> i < 0 + 3 then arrived (set_flag (ya_control_pwm s i)) else ya_control_pwm s i)
    (\<lambda>i. if 0 \<le> i \<and> i < 0 + 3 \<and> \<not> at_end (ya_control_pwm s i) then shown (end_value (ya_control_pwm s i)) else lit s i) t"
    using control_with_step_arrives [of 0 3 s] by auto
  then show ?thesis
    by (intro that [of t]) (auto simp: fades_def True in_group_def fun_eq_iff intro!: drives_cong [OF d])
next
  case False
  obtain t where "ya_pwm_control_with_step 3 2 s = Some t" and d: "drives s
    (\<lambda>i. if 3 \<le> i \<and> i < 3 + 2 then arrived (set_flag (ya_control_pwm s i)) else ya_control_pwm s i)
    (\<lambda>i. if 3 \<le> i \<and> i < 3 + 2 \<and> \<not> at_end (ya_control_pwm s i) then shown (end_value (ya_control_pwm s i)) else lit s i) t"
    using control_with_step_arrives [of 3 2 s] by auto
  then show ?thesis
    by (intro that [of t]) (auto simp: fades_def False in_group_def intro!: drives_cong [OF d])
qed

lemma fades_groups: "fades True = ya_pwm_control_with_step 0 3" "fades False = ya_pwm_control_with_step 3 2"
  by (simp_all add: fades_def fun_eq_iff)

lemma write_para_fades:
  "ya_write_light_para p s = do {
     (mode, e) \<leftarrow> light_target p;
     let s = set_ends e s in
     if mode_cur s \<noteq> mode then do { s \<leftarrow> fades (mode \<noteq> 1) (s\<lparr>mode_cur := mode\<rparr>); fades (mode = 1) s }
     else fades (mode_cur s \<noteq> 0) s }"
  by (cases "light_target p") (auto simp: ya_write_light_para_def fades_groups Let_def)

definition settled :: "u8 list \<Rightarrow> 'a light_io_scheme \<Rightarrow> 'a light_io_scheme \<Rightarrow> bool" where
  "settled E s t \<longleftrightarrow> (\<forall>i < 5. cur_value (ya_control_pwm t i) = E ! i \<and> at_end (ya_control_pwm t i) \<and>
     lit t i = (if cur_value (ya_control_pwm s i) = E ! i then lit s i else shown (E ! i)))"

lemma set_ends_channels:
  "\<forall>i < 5. ya_control_pwm (set_ends (r, g, b, c, w) s) i = set_end ([r, g, b, c, w] ! i) (ya_control_pwm s i)"
  unfolding five set_ends_eq by simp

lemma fades_settle:
  assumes "\<forall>i < 5. ya_control_pwm u i = set_end (E ! i) (ya_control_pwm s i)" and "\<forall>i < 5. lit u i = lit s i"
    and "\<forall>i < 5. \<not> in_group g i \<longrightarrow> cur_value (ya_control_pwm s i) = E ! i"
  obtains t where "fades g u = Some t" and "settled E s t" and "mode_cur t = mode_cur u"
    and "board.truncate t = board.truncate u" and "light_io.more t = light_io.more u"
proof -
  obtain t where t: "fades g u = Some t" and d: "drives u
    (\<lambda>i. if in_group g i then arrived (set_flag (ya_control_pwm u i)) else ya_control_pwm u i)
    (\<lambda>i. if in_group g i \<and> \<not> at_end (ya_control_pwm u i) then shown (end_value (ya_control_pwm u i)) else lit u i) t"
    by (rule fades_arrive)
  have "settled E s t" using assms by (auto simp: settled_def drives_fields(1,2) [OF d])
  with t show ?thesis using that drives_fields(3,4,5) [OF d] by blast
qed

lemma both_fades_settle:
  assumes "\<forall>i < 5. ya_control_pwm u i = set_end (E ! i) (ya_control_pwm s i)" and "\<forall>i < 5. lit u i = lit s i"
  obtains t where "fades (\<not> g) u \<bind> fades g = Some t" and "settled E s t" and "mode_cur t = mode_cur u"
    and "board.truncate t = board.truncate u" and "light_io.more t = light_io.more u"
proof -
  obtain t where t: "fades (\<not> g) u = Some t" and d: "drives u
    (\<lambda>i. if in_group (\<not> g) i then arrived (set_flag (ya_control_pwm u i)) else ya_control_pwm u i)
    (\<lambda>i. if in_group (\<not> g) i \<and> \<not> at_end (ya_control_pwm u i) then shown (end_value (ya_control_pwm u i)) else lit u i) t"
    by (rule fades_arrive)
  obtain v where v: "fades g t = Some v" and e: "drives t
    (\<lambda>i. if in_group g i then arrived (set_flag (ya_control_pwm t i)) else ya_control_pwm t i)
    (\<lambda>i. if in_group g i \<and> \<not> at_end (ya_control_pwm t i) then shown (end_value (ya_control_pwm t i)) else lit t i) v"
    by (rule fades_arrive)
  have "in_group (\<not> g) i \<longleftrightarrow> \<not> in_group g i" if "i < 5" for i using that by (auto simp: in_group_def)
  then have "settled E s v"
    using assms by (auto simp: settled_def drives_fields(1,2) [OF d] drives_fields(1,2) [OF e])
  with t v show ?thesis using that drives_fields(3,4,5) [OF d] drives_fields(3,4,5) [OF e] by simp
qed

lemma lamp_off:
  assumes "lamp_inv s"
  shows "mode_cur s = 0 \<Longrightarrow> i < 3 \<Longrightarrow> cur_value (ya_control_pwm s i) = 0"
    and "mode_cur s = 1 \<Longrightarrow> cur_value (ya_control_pwm s 3) = 0"
    and "mode_cur s = 1 \<Longrightarrow> cur_value (ya_control_pwm s 4) = 0"
    and "mode_cur s = 0 \<or> mode_cur s = 1"
  using assms unfolding lamp_inv_def by auto

lemma other_group_off:
  assumes "lamp_inv s" and "mode_cur s = 1 \<and> c = 0 \<and> w = 0 \<or> mode_cur s = 0 \<and> r = 0 \<and> g = 0 \<and> b = 0"
  shows "\<forall>i < 5. \<not> in_group (mode_cur s \<noteq> 0) i \<longrightarrow> cur_value (ya_control_pwm s i) = [r, g, b, c, w] ! i"
  unfolding five in_group_def using assms(2) lamp_off [OF assms(1)] by (elim disjE) simp_all

lemma write_para_settles:
  assumes "lamp_inv s" and "light_target p = Some (mode, r, g, b, c, w)"
  obtains t where "ya_write_light_para p s = Some t" and "settled [r, g, b, c, w] s t" and "mode_cur t = mode"
    and "board.truncate t = board.truncate s" and "light_io.more t = light_io.more s"
proof -
  let ?E = "[r, g, b, c, w]" and ?u = "set_ends (r, g, b, c, w) s"
  note u = set_ends_channels [of r g b c w s]
  have f: "mode_cur ?u = mode_cur s" "lit ?u = lit s" "lit (?u\<lparr>mode_cur := mode\<rparr>) = lit s"
    "board.truncate ?u = board.truncate s" "light_io.more ?u = light_io.more s"
    "board.truncate (?u\<lparr>mode_cur := mode\<rparr>) = board.truncate s"
    by (simp_all add: set_ends_eq lit_def board.truncate_def fun_eq_iff)
  have f': "\<forall>i < 5. lit ?u i = lit s i" and f'': "\<forall>i < 5. lit (?u\<lparr>mode_cur := mode\<rparr>) i = lit s i" by (simp_all add: f)
  have u': "\<forall>i < 5. ya_control_pwm (?u\<lparr>mode_cur := mode\<rparr>) i = set_end (?E ! i) (ya_control_pwm s i)" using u by simp
  note m = target_shape [OF assms(2)]
  show ?thesis
  proof (cases "mode_cur s = mode")
    case True
    note other = other_group_off [OF assms(1), of c w r g b, unfolded True, OF m]
    obtain t where "fades (mode \<noteq> 0) ?u = Some t" "settled ?E s t" "mode_cur t = mode_cur ?u"
      "board.truncate t = board.truncate ?u" "light_io.more t = light_io.more ?u"
      by (rule fades_settle [OF u f' other])
    then show ?thesis using that True by (simp add: write_para_fades assms(2) f)
  next
    case False
    obtain t where "fades (\<not> mode = 1) (?u\<lparr>mode_cur := mode\<rparr>) \<bind> fades (mode = 1) = Some t" "settled ?E s t"
      "mode_cur t = mode_cur (?u\<lparr>mode_cur := mode\<rparr>)"
      "board.truncate t = board.truncate (?u\<lparr>mode_cur := mode\<rparr>)" "light_io.more t = light_io.more (?u\<lparr>mode_cur := mode\<rparr>)"
      by (rule both_fades_settle [OF u' f''])
    then show ?thesis using that False by (simp add: write_para_fades assms(2) f)
  qed
qed

lemma settled_inv:
  assumes "lamp_inv s" and "settled [r, g, b, c, w] s t" and "mode_cur t = mode"
    and "mode = 1 \<and> c = 0 \<and> w = 0 \<or> mode = 0 \<and> r = 0 \<and> g = 0 \<and> b = 0"
  shows "lamp_inv t" and "levels t = (r, g, b, c, w)"
proof -
  have "shows_level t i" if "i < 5" for i
    using assms(1,2) that by (auto simp: lamp_inv_def settled_def shows_level_def Let_def split: if_splits)
  moreover have "cur_value (ya_control_pwm t 0) = r \<and> cur_value (ya_control_pwm t 1) = g \<and> cur_value (ya_control_pwm t 2) = b \<and>
      cur_value (ya_control_pwm t 3) = c \<and> cur_value (ya_control_pwm t 4) = w" "\<forall>i < 5. at_end (ya_control_pwm t i)"
    using assms(2) by (simp_all add: settled_def five)
  ultimately show "lamp_inv t" "levels t = (r, g, b, c, w)"
    using assms(3,4) by (auto simp: lamp_inv_def levels_def three)
qed

lemma write_para_result:
  assumes "lamp_inv s" and "light_target p = Some (mode, e)"
  obtains t where "ya_write_light_para p s = Some t" and "levels t = e" and "lamp_inv t" and "mode_cur t = mode"
    and "board.truncate t = board.truncate s" and "light_io.more t = light_io.more s"
proof -
  obtain r g b c w where e: "e = (r, g, b, c, w)" by (cases e)
  note p = assms(2) [unfolded e]
  obtain t where t: "ya_write_light_para p s = Some t" "settled [r, g, b, c, w] s t" "mode_cur t = mode"
      "board.truncate t = board.truncate s" "light_io.more t = light_io.more s"
    by (rule write_para_settles [OF assms(1) p])
  then show ?thesis using that settled_inv [OF assms(1) t(2,3) target_shape [OF p]] e by blast
qed

text \<open>The state in which the lamp is started: channels cleared, PWM started, white mode.\<close>

lemma lamp_inv_init:
  assumes "mode_cur s = 0"
  shows "lamp_inv (ya_light_control_pwm_para_init (s\<lparr>hw := ya_hal_pwm_init (hw s)\<rparr>))"
    (is "lamp_inv ?t")
proof -
  let ?s = "s\<lparr>hw := ya_hal_pwm_init (hw s)\<rparr>"
  have t: "?t = ?s\<lparr>ya_control_pwm := (\<lambda>i. if i \<in> set [0..<PWM_NUM] then \<lparr>cur_value = 0, end_value = 0, flag = 0\<rparr> else ya_control_pwm ?s i)\<rparr>"
    unfolding ya_light_control_pwm_para_init_def by (rule channels_eq) simp
  have c: "ya_control_pwm ?t i = \<lparr>cur_value = 0, end_value = 0, flag = 0\<rparr>" if "i < 5" for i
    using that unfolding t by (simp add: PWM_NUM_def)
  have "\<forall>i < 5. pwm_pin i \<noteq> 3" unfolding five pin_values by simp
  then have "lit ?t i = pwm_spec 1" if "i < 5" for i
    using that unfolding t by (simp add: lit_def pwm_init_all pin_range)
  then show ?thesis using c assms unfolding lamp_inv_def shows_level_def
    by (auto simp: at_end_def t PWM_NUM_def)
qed

section \<open>Properties\<close>

definition lamp_demo :: light_io where
  "lamp_demo = board.extend board_demo (light_io.fields (\<lambda>_. \<lparr>cur_value = 0, end_value = 0, flag = 0\<rparr>) 0 (\<lambda>_. 0))"

text \<open>C31: A fade always ends: whatever the levels, ends and flags of the channels, stepping a group of
  the five channels returns with every channel of the group at its end,
  its PWM output showing that level when it had to move, and every other channel and the rest of
  the state as they were.\<close>

theorem fade_terminates:
  assumes "a + n \<le> PWM_NUM"
  shows "\<exists>t. ya_pwm_control_with_step a n s = Some t \<and>
    (\<forall>i < PWM_NUM.
       if a \<le> i \<and> i < a + n
       then cur_value (ya_control_pwm t i) = end_value (ya_control_pwm s i) \<and> end_value (ya_control_pwm t i) = end_value (ya_control_pwm s i) \<and>
            (cur_value (ya_control_pwm s i) \<noteq> end_value (ya_control_pwm s i) \<longrightarrow>
               pwm_view (hw t) (pwm_pin i) = pwm_spec (unat (end_value (ya_control_pwm s i)) * 999 div 255))
       else ya_control_pwm t i = ya_control_pwm s i \<and> pwm_view (hw t) (pwm_pin i) = pwm_view (hw s) (pwm_pin i)) \<and>
    board.truncate t = board.truncate s \<and> mode_cur t = mode_cur s \<and> light_io.more t = light_io.more s"
proof -
  have "a + n \<le> 5" using assms by (simp add: PWM_NUM_def)
  from control_with_step_arrives [OF this, of s] obtain t where t: "ya_pwm_control_with_step a n s = Some t"
    and d: "drives s (\<lambda>i. if a \<le> i \<and> i < a + n then arrived (set_flag (ya_control_pwm s i)) else ya_control_pwm s i)
    (\<lambda>i. if a \<le> i \<and> i < a + n \<and> \<not> at_end (ya_control_pwm s i) then shown (end_value (ya_control_pwm s i)) else lit s i) t"
    by blast
  have "cur_value (arrived (set_flag c)) = end_value c" "end_value (arrived (set_flag c)) = end_value c" for c
    by (simp_all add: arrived_def set_flag_def)
  then show ?thesis
    using drives_fields [OF d] t unfolding lit_def shown_def at_end_def PWM_NUM_def
    by (intro exI [of _ t]) (auto simp: at_end_def)
qed

theorem fade_terminates_witness:
  "\<exists>t. ya_pwm_control_with_step 3 2 (channel 3 (set_end 200) lamp_demo) = Some t \<and> cur_value (ya_control_pwm t 3) = 200 \<and>
     pwm_view (hw t) 5 = pwm_spec 783"
proof -
  have d: "ya_control_pwm lamp_demo 3 = \<lparr>cur_value = 0, end_value = 0, flag = 0\<rparr>"
    by (simp add: lamp_demo_def board.extend_def light_io.fields_def)
  let ?s = "channel 3 (set_end 200) lamp_demo"
  have e: "end_value (ya_control_pwm ?s 3) = 200" "cur_value (ya_control_pwm ?s 3) = 0" by (simp_all add: d set_end_def)
  from fade_terminates [of 3 2 ?s] obtain t where t: "ya_pwm_control_with_step 3 2 ?s = Some t"
    and all: "\<forall>i < PWM_NUM.
       if 3 \<le> i \<and> i < 3 + 2
       then cur_value (ya_control_pwm t i) = end_value (ya_control_pwm ?s i) \<and> end_value (ya_control_pwm t i) = end_value (ya_control_pwm ?s i) \<and>
            (cur_value (ya_control_pwm ?s i) \<noteq> end_value (ya_control_pwm ?s i) \<longrightarrow>
               pwm_view (hw t) (pwm_pin i) = pwm_spec (unat (end_value (ya_control_pwm ?s i)) * 999 div 255))
       else ya_control_pwm t i = ya_control_pwm ?s i \<and> pwm_view (hw t) (pwm_pin i) = pwm_view (hw ?s) (pwm_pin i)"
    unfolding PWM_NUM_def by auto
  from all [rule_format, of 3] e have "cur_value (ya_control_pwm t 3) = 200 \<and> pwm_view (hw t) 5 = pwm_spec 783"
    by (simp add: PWM_NUM_def pin_values)
  with t show ?thesis by blast
qed

text \<open>C16: Applying a setting to a lamp at rest ends with the lamp at rest in the mode of the setting and
  every channel at the level the colour conversions give, its output showing that level; the
  channels of the other mode are off.  Nothing else of the state changes.  The lamp is at rest
  when it has been started.\<close>

theorem lamp_reaches_setting:
  assumes "lamp_inv s" and "light_target p = Some (mode, e)"
  shows "\<exists>t. ya_write_light_para p s = Some t \<and> levels t = e \<and> mode_cur t = mode \<and> lamp_inv t \<and>
    board.truncate t = board.truncate s \<and> light_io.more t = light_io.more s"
  by (rule write_para_result [OF assms]) blast

theorem lamp_reaches_setting_witness:
  "\<exists>t. ya_write_light_para \<lparr>w_l = 100, w_color = 60, c_h = 0, c_s = 0, c_b = 0\<rparr>
         (ya_light_control_pwm_para_init (lamp_demo\<lparr>hw := ya_hal_pwm_init (hw lamp_demo)\<rparr>)) = Some t \<and>
     levels t = (0, 0, 0, 152, 102)"
proof -
  have "lamp_inv (ya_light_control_pwm_para_init (lamp_demo\<lparr>hw := ya_hal_pwm_init (hw lamp_demo)\<rparr>))"
    by (rule lamp_inv_init) (simp add: lamp_demo_def board.extend_def light_io.fields_def)
  moreover have "light_target \<lparr>w_l = 100, w_color = 60, c_h = 0, c_s = 0, c_b = 0\<rparr> = Some (0, 0, 0, 0, 152, 102)"
    using white_exact(1) [of 100 60] by (simp add: light_target_def exact255_def word_le_nat_alt)
  ultimately show ?thesis using lamp_reaches_setting by blast
qed

end
