(* ===== verification/ThingApi.thy ===== *)
theory ThingApi
  imports Prelude
begin

text \<open>
  The interface between the main task and the product,
  \<^verbatim>\<open>src/apps/akeeta_tr6260/user/ya_api_thing_uer_define.h\<close>: the states of the module and
  of its cloud connection that the product is told.
\<close>

datatype ya_router_status_t =
  MODULE_AP | MODULE_SNIFFER | MODULE_IDLE | MODULE_CONNECTING | MODLUE_CONNECT | MODLUE_FACTORY_TEST | MODULE_UNKNOWN

datatype ya_cloud_status_t = YA_CLOUD_OFFLINE | YA_CLOUD_ONLINE | YA_CLOUD_DEBIND

end
