(* ===== verification/Light.thy ===== *)
theory Light
  imports LightIo Cjson HalTimer CommonFunc ThingApi
begin

text \<open>
  The light product, \<^verbatim>\<open>src/apps/akeeta_tr6260/test_example/light/ya_light_example.c\<close>: the
  setting of the light, cloud messages that change it, its copy on flash with the counter of
  quick power cycles, and the task that drives the lamp.

  Calls that leave the product (reports to the cloud, requests to the main task) are recorded
  in \<open>light_events\<close>.  Creating JSON nodes does not run out of memory here.
\<close>

section \<open>State\<close>

definition W_CONTROL :: u8 where "W_CONTROL = 0"
definition C_CONTROL :: u8 where "C_CONTROL = 1"
definition S_CONTROL :: u8 where "S_CONTROL = 2"

definition NON_CONTROL :: nat where "NON_CONTROL = 0"
definition WHITE_CONTROL :: nat where "WHITE_CONTROL = 1"
definition COLOR_CONTROL :: nat where "COLOR_CONTROL = 2"
definition SCENE_CONTROL :: nat where "SCENE_CONTROL = 3"

lemmas control_defs = W_CONTROL_def C_CONTROL_def S_CONTROL_def NON_CONTROL_def WHITE_CONTROL_def
  COLOR_CONTROL_def SCENE_CONTROL_def

text \<open>The members that two structs of the header share are one record; \<open>scene\<close> is signed.\<close>

record ya_cloud_light_data_t = ya_light_data_t +
  mode :: u8
  onoff :: u8
  scene :: u8

record ya_save_light_data_t =
  num :: u16
  config_default :: u8
  ya_cloud_light :: ya_cloud_light_data_t

text \<open>\<open>FactoryTest\<close>: the task has entered \<open>ya_light_factory_test\<close>, which does not return.\<close>

datatype light_event = Report bytes | ToggleMode | ResetToFactory | FactoryTest int u8

text \<open>
  The last five members are locals of the task.  \<open>ya_cloud_light_data_scene\<close> is \<open>None\<close> until it is
  first assigned; \<open>halted\<close> holds when the task is in a loop it never leaves.
\<close>

record light = light_io +
  ya_save_light_data :: ya_save_light_data_t
  ya_cloud_light_data_new :: ya_cloud_light_data_t
  ya_cloud_light_data_default :: ya_cloud_light_data_t
  ya_light_queue :: "ya_cloud_light_data_t list"
  ya_has_been_connect_cloud :: bool
  cur_status :: ya_router_status_t
  scan_result :: "int list"
  wait_to_restart :: bool
  light_events :: "light_event list"
  light_router_status :: ya_router_status_t
  time_blink :: u32
  ya_hardware_timer_blink :: Ya_Timer
  ya_cloud_light_data_scene :: "ya_cloud_light_data_t option"
  halted :: bool

section \<open>Presets\<close>

definition light_zero :: ya_cloud_light_data_t where
  "light_zero = \<lparr>w_l = 0, w_color = 0, c_h = 0, c_s = 0, c_b = 0, mode = 0, onoff = 0, scene = 0\<rparr>"

definition ya_cloud_light_set_to_config :: "'a light_scheme \<Rightarrow> ya_cloud_light_data_t" where
  "ya_cloud_light_set_to_config s = ya_cloud_light_data_default s"

definition ya_cloud_light_set_to_idle :: "ya_cloud_light_data_t \<Rightarrow> ya_cloud_light_data_t" where
  "ya_cloud_light_set_to_idle d =
     d\<lparr>mode := W_CONTROL, onoff := 0, w_l := 0, w_color := 0, c_h := 0, c_s := 0, c_b := 0, scene := 0\<rparr>"

text \<open>Kelvin to per cent of the range from \<open>MIN_W_COLOR\<close> to \<open>MAX_W_COLOR\<close>.\<close>

definition MAX_W_COLOR :: nat where "MAX_W_COLOR = 6500"
definition MIN_W_COLOR :: nat where "MIN_W_COLOR = 2000"

definition w_color_scale :: "nat \<Rightarrow> u16" where
  "w_color_scale k = of_nat ((k - MIN_W_COLOR) * 100 div (MAX_W_COLOR - MIN_W_COLOR))"

definition scene_preset :: "u16 \<Rightarrow> nat \<Rightarrow> u8 \<Rightarrow> ya_cloud_light_data_t" where
  "scene_preset l k sc =
     \<lparr>w_l = l, w_color = w_color_scale k, c_h = 0, c_s = 0, c_b = 0, mode = W_CONTROL, onoff = 1, scene = sc\<rparr>"

text \<open>Reading, working, night, idle; another scene leaves the struct as it was.\<close>

definition ya_cloud_light_set_to_mode ::
    "u8 \<Rightarrow> ya_cloud_light_data_t option \<Rightarrow> ya_cloud_light_data_t option" where
  "ya_cloud_light_set_to_mode m d =
     (if m = 0 then Some (scene_preset 75 4500 0)
      else if m = 1 then Some (scene_preset 80 3000 1)
      else if m = 2 then Some (scene_preset 5 6000 2)
      else if m = 3 then Some (scene_preset 50 3500 3)
      else d)"

section \<open>Reports and the queue of the task\<close>

definition json_string :: "string \<times> u32 \<Rightarrow> cJSON" where
  "json_string kv = Node cJSON_String (Some (fst kv)) (Some (ya_int_to_string (snd kv))) []"

definition report_json :: "ya_cloud_light_data_t \<Rightarrow> cJSON" where
  "report_json d = Node cJSON_Object None None (map json_string
     ((''Switch'', ucast (onoff d)) #
      (if onoff d = 1 then
         [(''WorkMode'', ucast (mode d)), (''Luminance'', ucast (w_l d)), (''ColorTemperature'', ucast (w_color d)),
          (''Hue'', ucast (c_h d)), (''Saturation'', ucast (c_s d)), (''Brightness'', ucast (c_b d)),
          (''LightScene'', scast (scene d))]
       else [])))"

definition ya_report_whole_key_value_formulate :: "cjson_lib \<Rightarrow> 'a light_scheme \<Rightarrow> 'a light_scheme" where
  "ya_report_whole_key_value_formulate lib s =
     (case cJSON_PrintUnformatted lib (report_json (ya_cloud_light_data_new s)) of None \<Rightarrow> s
      | Some buf \<Rightarrow> s\<lparr>light_events := light_events s @ [Report buf]\<rparr>)"

text \<open>The struct has 14 bytes.\<close>

definition ya_set_light_para_to_queue :: "ya_cloud_light_data_t \<Rightarrow> 'a light_scheme \<Rightarrow> 'a light_scheme" where
  "ya_set_light_para_to_queue d s =
     (case mem_alloc s 14 of None \<Rightarrow> s
      | Some _ \<Rightarrow> if length (ya_light_queue s) < MSG_QUEUE_LENGTH
                 then s\<lparr>ya_light_queue := ya_light_queue s @ [d]\<rparr> else s)"

definition light_para :: "ya_cloud_light_data_t \<Rightarrow> ya_light_data_t" where
  "light_para d =
     (if onoff d = 1 then
        (if mode d = W_CONTROL \<or> mode d = S_CONTROL then
           \<lparr>w_l = if w_l d < 10 then 10 else w_l d, w_color = w_color d, c_h = 0, c_s = 0, c_b = 0\<rparr>
         else \<lparr>w_l = 0, w_color = 0, c_h = c_h d, c_s = c_s d, c_b = c_b d\<rparr>)
      else \<lparr>w_l = 0, w_color = 0, c_h = 0, c_s = 0, c_b = 0\<rparr>)"

definition ya_light_control :: "ya_cloud_light_data_t \<Rightarrow> 'a light_scheme \<Rightarrow> 'a light_scheme option" where
  "ya_light_control d s = ya_write_light_para (light_para d) s"

section \<open>Messages from the cloud\<close>

text \<open>The locals of the handler and the setting it edits in place.\<close>

record downlink =
  enable_send :: bool
  get_switch_off :: bool
  control_type :: nat
  setting :: ya_cloud_light_data_t

text \<open>
  One optional member, \<open>False\<close> being the jump to \<open>err\<close>; the members of a block one after the other;
  and the blocks, each entered when its condition holds.
\<close>

type_synonym dl_field = "string \<times> (u32 \<Rightarrow> downlink \<Rightarrow> downlink)"

definition dl_member :: "cJSON \<Rightarrow> dl_field \<Rightarrow> downlink \<Rightarrow> (bool \<times> downlink) option" where
  "dl_member property kf d =
     (case cJSON_GetObjectItem property (fst kf) of None \<Rightarrow> Some (True, d)
      | Some json_key \<Rightarrow>
          if jtype json_key \<noteq> cJSON_String then Some (False, d)
          else do { v \<leftarrow> valuestring json_key; n \<leftarrow> atoi v; Some (True, snd kf (word_of_int n) d) })"

fun dl_members :: "cJSON \<Rightarrow> dl_field list \<Rightarrow> downlink \<Rightarrow> (bool \<times> downlink) option" where
  "dl_members property [] d = Some (True, d)"
| "dl_members property (f # fs) d = do {
     (ok, d) \<leftarrow> dl_member property f d;
     if ok then dl_members property fs d else Some (False, d) }"

fun dl_blocks :: "cJSON \<Rightarrow> ((downlink \<Rightarrow> bool) \<times> dl_field list) list \<Rightarrow> downlink \<Rightarrow> (bool \<times> downlink) option" where
  "dl_blocks property [] d = Some (True, d)"
| "dl_blocks property ((g, fs) # bs) d =
     (if g d then do {
        (ok, d) \<leftarrow> dl_members property fs d;
        if ok then dl_blocks property bs d else Some (False, d) }
      else dl_blocks property bs d)"

definition set_switch :: "u32 \<Rightarrow> downlink \<Rightarrow> downlink" where
  "set_switch v d =
     (if v \<noteq> 0 then d\<lparr>setting := (setting d)\<lparr>onoff := 1\<rparr>, enable_send := True\<rparr>
      else d\<lparr>setting := (setting d)\<lparr>onoff := 0\<rparr>, get_switch_off := True, enable_send := True\<rparr>)"

definition set_work_mode :: "u32 \<Rightarrow> downlink \<Rightarrow> downlink" where
  "set_work_mode v d =
     d\<lparr>setting := (setting d)\<lparr>mode := ucast v\<rparr>, enable_send := True, control_type := unat (ucast v :: u8) + 1\<rparr>"

definition set_value ::
    "(ya_cloud_light_data_t \<Rightarrow> ya_cloud_light_data_t) \<Rightarrow> u8 \<Rightarrow> nat \<Rightarrow> downlink \<Rightarrow> downlink" where
  "set_value f m ct d = d\<lparr>setting := (f (setting d))\<lparr>mode := m, onoff := 1\<rparr>, enable_send := True, control_type := ct\<rparr>"

definition may_control :: "nat \<Rightarrow> downlink \<Rightarrow> bool" where
  "may_control ct d \<longleftrightarrow> \<not> get_switch_off d \<and> (control_type d = ct \<or> control_type d = NON_CONTROL)"

definition dl_program :: "((downlink \<Rightarrow> bool) \<times> dl_field list) list" where
  "dl_program =
     [(\<lambda>_. True, [(''Switch'', set_switch)]),
      (\<lambda>d. \<not> get_switch_off d, [(''WorkMode'', set_work_mode)]),
      (may_control WHITE_CONTROL,
        [(''Luminance'', \<lambda>v. set_value (\<lambda>c. c\<lparr>w_l := ucast v\<rparr>) W_CONTROL WHITE_CONTROL),
         (''ColorTemperature'', \<lambda>v. set_value (\<lambda>c. c\<lparr>w_color := ucast v\<rparr>) W_CONTROL WHITE_CONTROL)]),
      (may_control COLOR_CONTROL,
        [(''Hue'', \<lambda>v. set_value (\<lambda>c. c\<lparr>c_h := ucast v\<rparr>) C_CONTROL COLOR_CONTROL),
         (''Saturation'', \<lambda>v. set_value (\<lambda>c. c\<lparr>c_s := ucast v\<rparr>) C_CONTROL COLOR_CONTROL),
         (''Brightness'', \<lambda>v. set_value (\<lambda>c. c\<lparr>c_b := ucast v\<rparr>) C_CONTROL COLOR_CONTROL)]),
      (may_control SCENE_CONTROL,
        [(''LightScene'', \<lambda>v. set_value (\<lambda>c. c\<lparr>scene := ucast v\<rparr>) S_CONTROL SCENE_CONTROL)])]"

definition ya_thing_handle_downlink_data :: "cjson_lib \<Rightarrow> bytes \<Rightarrow> 'a light_scheme \<Rightarrow> 'a light_scheme option" where
  "ya_thing_handle_downlink_data lib buf s =
     (case cJSON_Parse lib buf of None \<Rightarrow> Some s
      | Some property \<Rightarrow> do {
          (ok, d) \<leftarrow> dl_blocks property dl_program
             \<lparr>enable_send = False, get_switch_off = False, control_type = NON_CONTROL, setting = ya_cloud_light_data_new s\<rparr>;
          let s = s\<lparr>ya_cloud_light_data_new := setting d\<rparr> in
          if ok \<and> enable_send d
          then Some (ya_report_whole_key_value_formulate lib (ya_set_light_para_to_queue (ya_cloud_light_data_new s) s))
          else Some s
        })"

section \<open>The copy on flash\<close>

text \<open>The structs in memory, little-endian; the padding bytes hold 0.\<close>

definition u16_bytes :: "u16 \<Rightarrow> bytes" where
  "u16_bytes x = [ucast x, ucast (drop_bit 8 x)]"

definition u16_at :: "bytes \<Rightarrow> nat \<Rightarrow> u16" where
  "u16_at b i = of_nat (le16 (b ! i) (b ! (i + 1)))"

definition cloud_light_bytes :: "ya_cloud_light_data_t \<Rightarrow> bytes" where
  "cloud_light_bytes d = [mode d, onoff d] @ u16_bytes (w_l d) @ u16_bytes (w_color d) @ u16_bytes (c_h d) @
     u16_bytes (c_s d) @ u16_bytes (c_b d) @ [scene d, 0]"

definition cloud_light_of :: "bytes \<Rightarrow> ya_cloud_light_data_t" where
  "cloud_light_of b =
     \<lparr>w_l = u16_at b 2, w_color = u16_at b 4, c_h = u16_at b 6, c_s = u16_at b 8, c_b = u16_at b 10,
      mode = b ! 0, onoff = b ! 1, scene = b ! 12\<rparr>"

definition save_bytes :: "ya_save_light_data_t \<Rightarrow> bytes" where
  "save_bytes d = u16_bytes (num d) @ [config_default d, 0] @ cloud_light_bytes (ya_cloud_light d)"

definition save_of :: "bytes \<Rightarrow> ya_save_light_data_t" where
  "save_of b = \<lparr>num = u16_at b 0, config_default = b ! 2, ya_cloud_light = cloud_light_of (drop 4 b)\<rparr>"

definition SAVE_SIZE :: nat where "SAVE_SIZE = 18"

definition YA_LIGHT_FLASH_PARA_ADDR :: nat where "YA_LIGHT_FLASH_PARA_ADDR = 0x1d0000"

definition save_light :: "'a light_scheme \<Rightarrow> 'a light_scheme option" where
  "save_light s = do {
     (_, s) \<leftarrow> ya_write_flash YA_LIGHT_FLASH_PARA_ADDR (save_bytes (ya_save_light_data s)) SAVE_SIZE 1 s;
     Some s }"

definition factory_light :: ya_cloud_light_data_t where
  "factory_light = \<lparr>w_l = 50, w_color = 50, c_h = 0, c_s = 100, c_b = 100, mode = W_CONTROL, onoff = 1, scene = 0\<rparr>"

text \<open>A shorter record is copied over the cleared struct.\<close>

definition ya_light_read_power_on_flag :: "'a light_scheme \<Rightarrow> 'a light_scheme option" where
  "ya_light_read_power_on_flag s = do {
     (ret, data) \<leftarrow> ya_read_flash_with_fix_len YA_LIGHT_FLASH_PARA_ADDR SAVE_SIZE 1 s;
     let sv = save_of (if ret \<noteq> 0 then replicate SAVE_SIZE 0 else data @ replicate (SAVE_SIZE - length data) 0);
         sv = sv\<lparr>num := num sv + 1\<rparr>;
         s = s\<lparr>light_events := light_events s @ (if num sv = 4 then [ToggleMode] else [])\<rparr>;
         sv = (if num sv \<ge> 4 then sv\<lparr>config_default := 0\<rparr> else sv);
         s = s\<lparr>ya_save_light_data := sv,
               ya_cloud_light_data_default := if config_default sv \<noteq> 0 then ya_cloud_light sv else factory_light\<rparr>;
         s = s\<lparr>ya_cloud_light_data_new := ya_cloud_light_set_to_config s\<rparr>
     in save_light (ya_set_light_para_to_queue (ya_cloud_light_data_new s) s) }"

text \<open>Run five seconds after the start.\<close>

definition ya_clear_power_on_flag_callback :: "'a light_scheme \<Rightarrow> 'a light_scheme option" where
  "ya_clear_power_on_flag_callback s =
     save_light (s\<lparr>ya_save_light_data := (ya_save_light_data s)\<lparr>num := 0\<rparr>\<rparr>)"

definition ya_init_light_io :: "'a light_scheme \<Rightarrow> 'a light_scheme option" where
  "ya_init_light_io s = do {
     s \<leftarrow> ya_light_read_power_on_flag (s\<lparr>ya_cloud_light_data_new := light_zero\<rparr>);
     let s = ya_light_control_pwm_para_init s
     in Some (s\<lparr>hw := ya_hal_pwm_init (hw s)\<rparr>) }"

section \<open>Events from the other tasks\<close>

definition ya_thing_handle_cloud_status :: "cjson_lib \<Rightarrow> ya_cloud_status_t \<Rightarrow> 'a light_scheme \<Rightarrow> 'a light_scheme option" where
  "ya_thing_handle_cloud_status lib st s =
     (case st of
        YA_CLOUD_ONLINE \<Rightarrow> Some ((ya_report_whole_key_value_formulate lib s)\<lparr>ya_has_been_connect_cloud := True\<rparr>)
      | YA_CLOUD_DEBIND \<Rightarrow> do {
          s \<leftarrow> save_light (s\<lparr>ya_save_light_data := (ya_save_light_data s)\<lparr>config_default := 0\<rparr>\<rparr>);
          Some (s\<lparr>wait_to_restart := True, light_events := light_events s @ [ResetToFactory]\<rparr>) }
      | YA_CLOUD_OFFLINE \<Rightarrow> Some s)"

definition ya_thing_handle_router_status_callback ::
    "ya_router_status_t \<Rightarrow> int list \<Rightarrow> 'a light_scheme \<Rightarrow> 'a light_scheme option" where
  "ya_thing_handle_router_status_callback st p s = do {
     s \<leftarrow> (if st = MODLUE_FACTORY_TEST then do { r \<leftarrow> slice p 0 4; Some (s\<lparr>scan_result := r\<rparr>) } else Some s);
     Some (s\<lparr>cur_status := st\<rparr>) }"

section \<open>The task\<close>

definition show_config :: "'a light_scheme \<Rightarrow> 'a light_scheme" where
  "show_config s =
     (let s = s\<lparr>ya_cloud_light_data_new := ya_cloud_light_set_to_config s\<rparr>
      in ya_set_light_para_to_queue (ya_cloud_light_data_new s) s)"

definition blink_period :: "ya_router_status_t \<Rightarrow> u32 \<Rightarrow> u32" where
  "blink_period st b =
     (if st = MODULE_SNIFFER then 500 else if st = MODULE_AP then 2000
      else if st = MODULE_CONNECTING \<or> st = MODULE_IDLE \<or> st = MODLUE_CONNECT then 0 else b)"

text \<open>\<open>scan_result\<close> has four elements.  \<open>LIGHT_CLOUD\<close> is 2: the cloud is left open.\<close>

definition factory_test :: "'a light_scheme \<Rightarrow> 'a light_scheme" where
  "factory_test s =
     (if scan_result s ! 0 = 1 then s\<lparr>light_events := light_events s @ [FactoryTest (scan_result s ! 1) 0], halted := True\<rparr>
      else if scan_result s ! 2 = 1 then s\<lparr>light_events := light_events s @ [FactoryTest (scan_result s ! 3) 1], halted := True\<rparr>
      else s)"

definition router_changed :: "u32 \<Rightarrow> 'a light_scheme \<Rightarrow> 'a light_scheme" where
  "router_changed tick s =
     (let st = cur_status s; s = s\<lparr>light_router_status := st\<rparr>
      in if st \<noteq> MODLUE_FACTORY_TEST then
           (let s = s\<lparr>time_blink := blink_period st (time_blink s)\<rparr>;
                s = (if (st = MODULE_CONNECTING \<or> st = MODULE_IDLE \<or> st = MODLUE_CONNECT) \<and> \<not> ya_has_been_connect_cloud s
                     then show_config s else s)
            in if time_blink s \<noteq> 0
               then show_config (s\<lparr>ya_hardware_timer_blink :=
                      ya_countdown_ms tick (time_blink s) (ya_init_timer (ya_hardware_timer_blink s))\<rparr>)
               else s)
         else factory_test s)"

definition blink :: "u32 \<Rightarrow> 'a light_scheme \<Rightarrow> 'a light_scheme" where
  "blink tick s =
     (if time_blink s \<noteq> 0 \<and> ya_has_timer_expired tick (ya_hardware_timer_blink s) = 0 then
        (let s = s\<lparr>ya_hardware_timer_blink := ya_countdown_ms tick (time_blink s) (ya_hardware_timer_blink s)\<rparr>;
             s = s\<lparr>ya_cloud_light_data_new :=
                     if onoff (ya_cloud_light_data_new s) \<noteq> 0 then ya_cloud_light_set_to_idle (ya_cloud_light_data_new s)
                     else ya_cloud_light_set_to_config s\<rparr>
         in ya_set_light_para_to_queue (ya_cloud_light_data_new s) s)
      else s)"

text \<open>A new setting is saved once the cloud has been reached, unless it is off, and then shown.\<close>

definition save_setting :: "ya_cloud_light_data_t \<Rightarrow> 'a light_scheme \<Rightarrow> 'a light_scheme option" where
  "save_setting d s =
     (if ya_has_been_connect_cloud s \<and> onoff d \<noteq> 0
      then save_light (s\<lparr>ya_save_light_data := (ya_save_light_data s)\<lparr>config_default := 1, ya_cloud_light := d\<rparr>\<rparr>)
      else Some s)"

definition show_setting :: "ya_cloud_light_data_t \<Rightarrow> 'a light_scheme \<Rightarrow> 'a light_scheme option" where
  "show_setting d s =
     (if mode d \<noteq> S_CONTROL \<or> onoff d = 0 then ya_light_control d s
      else let s = s\<lparr>ya_cloud_light_data_scene := ya_cloud_light_set_to_mode (scene d) (ya_cloud_light_data_scene s)\<rparr>
           in do { sc \<leftarrow> ya_cloud_light_data_scene s; ya_light_control sc s })"

text \<open>The queue is drained and its last message taken.\<close>

definition ya_light_serve :: "'a light_scheme \<Rightarrow> 'a light_scheme option" where
  "ya_light_serve s =
     (if ya_light_queue s = [] then Some s
      else let d = last (ya_light_queue s)
           in do { s \<leftarrow> save_setting d (s\<lparr>ya_light_queue := []\<rparr>); show_setting d s })"

definition ya_light_turn :: "u32 \<Rightarrow> 'a light_scheme \<Rightarrow> 'a light_scheme option" where
  "ya_light_turn tick s =
     (if halted s then Some s
      else let s = (if light_router_status s \<noteq> cur_status s then router_changed tick s else s)
           in if halted s then Some s
              else let s = blink tick s
                   in if wait_to_restart s then Some (s\<lparr>halted := True\<rparr>) else ya_light_serve s)"

text \<open>
  Power on: the C start-up code gives the globals their initial values and the task enters its
  function; the flash keeps its contents.  \<open>light_events\<close> starts anew.
\<close>

definition power_on :: "'a light_scheme \<Rightarrow> 'a light_scheme" where
  "power_on s = s\<lparr>ya_control_pwm := (\<lambda>_. \<lparr>cur_value = 0, end_value = 0, flag = 0\<rparr>), mode_cur := 0,
     ya_save_light_data := \<lparr>num = 0, config_default = 0, ya_cloud_light = light_zero\<rparr>,
     ya_cloud_light_data_new := light_zero, ya_cloud_light_data_default := light_zero, ya_light_queue := [],
     ya_has_been_connect_cloud := False, cur_status := MODULE_UNKNOWN, scan_result := [0, 0, 0, 0],
     wait_to_restart := False, light_events := [], light_router_status := MODULE_UNKNOWN, time_blink := 0,
     ya_cloud_light_data_scene := None, halted := False\<rparr>"

definition ya_light_start :: "'a light_scheme \<Rightarrow> 'a light_scheme option" where
  "ya_light_start s = ya_init_light_io (power_on s)"

section \<open>Saving and restoring\<close>

lemma u16_roundtrip: "of_nat (le16 (ucast x) (ucast (drop_bit 8 x))) = (x :: u16)"
proof -
  have x: "unat x < 65536" using unsigned_less [of x] by simp
  then have "take_bit 8 (unat x div 256) = unat x div 256" by (intro take_bit_nat_eq_self) simp
  moreover have "unat (drop_bit 8 x) = unat x div 256"
    unfolding unsigned_drop_bit_eq using x by (simp add: drop_bit_eq_div take_bit_eq_mod)
  ultimately have "unat (ucast (drop_bit 8 x) :: u8) = unat x div 256"
    unfolding unsigned_ucast_eq by (simp del: take_bit_nat_eq_self_iff)
  moreover have "unat (ucast x :: u8) = unat x mod 256" by (simp add: unsigned_ucast_eq take_bit_eq_mod)
  ultimately have "le16 (ucast x) (ucast (drop_bit 8 x)) = unat x" by (simp only: le16_def) simp
  then show ?thesis by simp
qed

lemma cloud_light_bytes_length [simp]: "length (cloud_light_bytes d) = 14"
  by (simp add: cloud_light_bytes_def u16_bytes_def)

lemma save_bytes_length [simp]: "length (save_bytes d) = SAVE_SIZE"
  by (simp add: save_bytes_def u16_bytes_def SAVE_SIZE_def)

lemma cloud_light_roundtrip: "cloud_light_of (cloud_light_bytes d) = d"
  by (simp add: cloud_light_of_def cloud_light_bytes_def u16_bytes_def u16_at_def u16_roundtrip)

lemma save_roundtrip: "save_of (save_bytes d) = d"
  by (simp add: save_of_def save_bytes_def u16_bytes_def u16_at_def u16_roundtrip cloud_light_roundtrip)

lemma flash_frame: "flash.more t = flash.more s \<Longrightarrow> t = s\<lparr>fl_mem := fl_mem t, fl_rsp := fl_rsp t\<rparr>"
  by simp

lemma save_light_frame:
  obtains F R where "save_light s = Some (s\<lparr>fl_mem := F, fl_rsp := R\<rparr>)"
proof -
  have "ya_write_flash YA_LIGHT_FLASH_PARA_ADDR (save_bytes (ya_save_light_data s)) SAVE_SIZE 1 s \<noteq> None"
  proof (cases "mem_alloc s 24")
    case None
    then show ?thesis by (simp add: ya_write_flash_def SAVE_SIZE_def MAX_DATA_LEN_def)
  next
    case (Some b)
    then have "length b = 24" by (rule mem_alloc_length)
    with Some show ?thesis
      by (simp add: ya_write_flash_def SAVE_SIZE_def MAX_DATA_LEN_def wr_def ya_flash_checksum_def slice_def memcpy_at_def)
  qed
  then obtain r t where t: "ya_write_flash YA_LIGHT_FLASH_PARA_ADDR (save_bytes (ya_save_light_data s)) SAVE_SIZE 1 s = Some (r, t)"
    by fastforce
  then have "save_light s = Some t" by (simp add: save_light_def)
  with that show thesis using flash_frame [OF ya_write_flash_more [OF t]] by metis
qed

lemma light_addr: "YA_LIGHT_FLASH_PARA_ADDR mod 4096 = 0"
  by (simp add: YA_LIGHT_FLASH_PARA_ADDR_def)

abbreviation stored :: "'a light_scheme \<Rightarrow> ya_save_light_data_t \<Rightarrow> bool" where
  "stored s d \<equiv> record_at s YA_LIGHT_FLASH_PARA_ADDR (save_bytes d)"

lemma save_light_stores:
  assumes "board_ok s"
  obtains F R where "save_light s = Some (s\<lparr>fl_mem := F, fl_rsp := R\<rparr>)"
    and "board_ok (s\<lparr>fl_mem := F, fl_rsp := R\<rparr>)" and "stored (s\<lparr>fl_mem := F, fl_rsp := R\<rparr>) (ya_save_light_data s)"
    and "\<forall>x. x < YA_LIGHT_FLASH_PARA_ADDR \<or> YA_LIGHT_FLASH_PARA_ADDR + 4096 \<le> x \<longrightarrow> F x = fl_mem s x"
proof -
  have "save_bytes (ya_save_light_data s) \<noteq> []" using save_bytes_length [of "ya_save_light_data s"]
    by (simp add: SAVE_SIZE_def flip: length_greater_0_conv)
  then obtain t where t: "ya_write_flash YA_LIGHT_FLASH_PARA_ADDR (save_bytes (ya_save_light_data s)) SAVE_SIZE 1 s = Some (0, t)"
    "board_ok t" "stored t (ya_save_light_data s)"
    "\<forall>x. x < YA_LIGHT_FLASH_PARA_ADDR \<or> YA_LIGHT_FLASH_PARA_ADDR + 4096 \<le> x \<longrightarrow> fl_mem t x = fl_mem s x"
    using ya_write_one_block [OF assms light_addr, of "save_bytes (ya_save_light_data s)"] by (auto simp: SAVE_SIZE_def)
  then have "save_light s = Some t" by (simp add: save_light_def)
  with t that flash_frame [OF ya_write_flash_more [OF t(1)]] show thesis by metis
qed

lemma read_stored:
  assumes "stored s d" and "board_ok s"
  shows "ya_read_flash_with_fix_len YA_LIGHT_FLASH_PARA_ADDR SAVE_SIZE 1 s = Some (0, save_bytes d)"
  using ya_read_fix_record [OF assms(1), of 1 SAVE_SIZE] assms(2)
  by (simp add: board_ok_def SAVE_SIZE_def MAX_DATA_LEN_def)

text \<open>What the start makes of the stored setting: the counter steps, and the fourth start forgets it.\<close>

definition boot_count :: "ya_save_light_data_t \<Rightarrow> ya_save_light_data_t" where
  "boot_count d = (let d = d\<lparr>num := num d + 1\<rparr> in if num d \<ge> 4 then d\<lparr>config_default := 0\<rparr> else d)"

definition boot_light :: "ya_save_light_data_t \<Rightarrow> ya_cloud_light_data_t" where
  "boot_light d = (if config_default (boot_count d) \<noteq> 0 then ya_cloud_light d else factory_light)"

lemma queue_board_ok:
  "board_ok s \<Longrightarrow> ya_set_light_para_to_queue d s =
     (if length (ya_light_queue s) < MSG_QUEUE_LENGTH then s\<lparr>ya_light_queue := ya_light_queue s @ [d]\<rparr> else s)"
  by (auto simp: ya_set_light_para_to_queue_def board_ok_def elim: mem_alloc_board_ok split: option.split)
     (metis mem_alloc_def not_None_eq option.map_disc_iff)

lemma board_ok_fields [simp]:
  "board_ok (s\<lparr>ya_control_pwm := a\<rparr>) = board_ok s" "board_ok (s\<lparr>mode_cur := b\<rparr>) = board_ok s" "board_ok (s\<lparr>hw := h\<rparr>) = board_ok s"
  "board_ok (l\<lparr>ya_save_light_data := c\<rparr>) = board_ok l" "board_ok (l\<lparr>ya_cloud_light_data_new := d\<rparr>) = board_ok l"
  "board_ok (l\<lparr>ya_cloud_light_data_default := d\<rparr>) = board_ok l" "board_ok (l\<lparr>ya_light_queue := q\<rparr>) = board_ok l"
  "board_ok (l\<lparr>light_events := e\<rparr>) = board_ok l"
  by (simp_all add: board_ok_def chip_ready_def)

lemma power_on_board_ok [simp]: "board_ok (power_on s) = board_ok s"
  by (simp add: board_ok_def chip_ready_def power_on_def)

lemma para_init_eq:
  "ya_light_control_pwm_para_init s = s\<lparr>ya_control_pwm :=
     (\<lambda>i. if i < 5 then \<lparr>cur_value = 0, end_value = 0, flag = 0\<rparr> else ya_control_pwm s i)\<rparr>"
  unfolding ya_light_control_pwm_para_init_def by (subst channels_eq) (simp_all add: PWM_NUM_def)

lemma lamp_inv_start:
  "mode_cur s = 0 \<Longrightarrow> lamp_inv ((ya_light_control_pwm_para_init s)\<lparr>hw := ya_hal_pwm_init (hw s)\<rparr>)"
  using lamp_inv_init [of s] by (cases s) (simp add: para_init_eq cong: if_cong)

text \<open>The parts of the state a start determines.\<close>

definition started :: "ya_save_light_data_t \<Rightarrow> 'a light_scheme \<Rightarrow> bool" where
  "started d t \<longleftrightarrow> board_ok t \<and> stored t (boot_count d) \<and> ya_save_light_data t = boot_count d \<and>
     ya_cloud_light_data_default t = boot_light d \<and> ya_cloud_light_data_new t = boot_light d \<and>
     ya_light_queue t = [boot_light d] \<and> light_events t = (if num d + 1 = 4 then [ToggleMode] else []) \<and>
     lamp_inv t \<and> \<not> ya_has_been_connect_cloud t \<and> \<not> wait_to_restart t \<and> \<not> halted t \<and>
     cur_status t = MODULE_UNKNOWN \<and> light_router_status t = MODULE_UNKNOWN \<and> time_blink t = 0 \<and>
     ya_cloud_light_data_scene t = None \<and> length (scan_result t) = 4"

lemma lamp_start_fields:
  fixes q :: "'a light_scheme" and h :: regs
  defines "t \<equiv> (ya_light_control_pwm_para_init q)\<lparr>hw := h\<rparr>"
  shows "board_ok t = board_ok q" "record_at t a r = record_at q a r" "ya_save_light_data t = ya_save_light_data q"
    "ya_cloud_light_data_default t = ya_cloud_light_data_default q" "ya_cloud_light_data_new t = ya_cloud_light_data_new q"
    "ya_light_queue t = ya_light_queue q" "light_events t = light_events q"
    "ya_has_been_connect_cloud t = ya_has_been_connect_cloud q" "wait_to_restart t = wait_to_restart q" "halted t = halted q"
    "cur_status t = cur_status q" "light_router_status t = light_router_status q" "time_blink t = time_blink q"
    "ya_cloud_light_data_scene t = ya_cloud_light_data_scene q" "scan_result t = scan_result q"
  by (simp_all add: t_def para_init_eq record_at_def)

lemma power_on_fields:
  "mode_cur (power_on s) = 0" "ya_light_queue (power_on s) = []" "light_events (power_on s) = []"
  "\<not> ya_has_been_connect_cloud (power_on s)" "\<not> wait_to_restart (power_on s)" "\<not> halted (power_on s)"
  "cur_status (power_on s) = MODULE_UNKNOWN" "light_router_status (power_on s) = MODULE_UNKNOWN" "time_blink (power_on s) = 0"
  "ya_cloud_light_data_scene (power_on s) = None" "length (scan_result (power_on s)) = 4"
  by (simp_all add: power_on_def)

lemma started_init:
  assumes "board_ok s"
    and "ya_read_flash_with_fix_len YA_LIGHT_FLASH_PARA_ADDR SAVE_SIZE 1 s = Some (ret, b)"
    and "save_of (if ret \<noteq> 0 then replicate SAVE_SIZE 0 else b @ replicate (SAVE_SIZE - length b) 0) = d"
  shows "\<exists>t. ya_light_start s = Some t \<and> started d t \<and>
    (\<forall>x. x < YA_LIGHT_FLASH_PARA_ADDR \<or> YA_LIGHT_FLASH_PARA_ADDR + 4096 \<le> x \<longrightarrow> fl_mem t x = fl_mem s x)"
proof -
  let ?e = "if num d + 1 = 4 then [ToggleMode] else []"
  let ?p = "(power_on s)\<lparr>light_events := ?e, ya_save_light_data := boot_count d,
    ya_cloud_light_data_default := boot_light d, ya_cloud_light_data_new := boot_light d, ya_light_queue := [boot_light d]\<rparr>"
  have rd: "ya_read_flash_with_fix_len YA_LIGHT_FLASH_PARA_ADDR SAVE_SIZE 1 ((power_on s)\<lparr>ya_cloud_light_data_new := light_zero\<rparr>) = Some (ret, b)"
    unfolding assms(2) [symmetric] by (rule read_sector_cong) (simp_all add: power_on_def)
  have "ya_light_read_power_on_flag ((power_on s)\<lparr>ya_cloud_light_data_new := light_zero\<rparr>) = save_light ?p"
  proof -
    show ?thesis
      unfolding ya_light_read_power_on_flag_def rd
      using assms(1) by (simp add: assms(3) Let_def queue_board_ok MSG_QUEUE_LENGTH_def power_on_fields ya_cloud_light_set_to_config_def
          boot_light_def boot_count_def)
  qed
  moreover obtain F R where f: "save_light ?p = Some (?p\<lparr>fl_mem := F, fl_rsp := R\<rparr>)"
    "board_ok (?p\<lparr>fl_mem := F, fl_rsp := R\<rparr>)" "stored (?p\<lparr>fl_mem := F, fl_rsp := R\<rparr>) (ya_save_light_data ?p)"
    "\<forall>x. x < YA_LIGHT_FLASH_PARA_ADDR \<or> YA_LIGHT_FLASH_PARA_ADDR + 4096 \<le> x \<longrightarrow> F x = fl_mem ?p x"
    by (rule save_light_stores [of ?p]) (use assms(1) in simp, assumption)
  ultimately have "ya_light_start s = Some ((ya_light_control_pwm_para_init (?p\<lparr>fl_mem := F, fl_rsp := R\<rparr>))
      \<lparr>hw := ya_hal_pwm_init (hw (?p\<lparr>fl_mem := F, fl_rsp := R\<rparr>))\<rparr>)"
    by (simp add: ya_light_start_def ya_init_light_io_def Let_def para_init_eq)
  moreover have "started d ((ya_light_control_pwm_para_init (?p\<lparr>fl_mem := F, fl_rsp := R\<rparr>))
      \<lparr>hw := ya_hal_pwm_init (hw (?p\<lparr>fl_mem := F, fl_rsp := R\<rparr>))\<rparr>)"
  proof -
    have "lamp_inv ((ya_light_control_pwm_para_init (?p\<lparr>fl_mem := F, fl_rsp := R\<rparr>))
      \<lparr>hw := ya_hal_pwm_init (hw (?p\<lparr>fl_mem := F, fl_rsp := R\<rparr>))\<rparr>)"
      by (rule lamp_inv_start) (simp add: power_on_fields)
    with f(2,3) show ?thesis unfolding started_def lamp_start_fields by (simp add: power_on_fields)
  qed
  moreover have "fl_mem ?p = fl_mem s" by (simp add: power_on_def)
  ultimately show ?thesis using f(4) by (auto simp: para_init_eq)
qed

lemma start_stored:
  assumes "board_ok s" and "stored s d"
  shows "\<exists>t. ya_light_start s = Some t \<and> started d t \<and>
    (\<forall>x. x < YA_LIGHT_FLASH_PARA_ADDR \<or> YA_LIGHT_FLASH_PARA_ADDR + 4096 \<le> x \<longrightarrow> fl_mem t x = fl_mem s x)"
proof -
  have "save_of (if (0 :: int) \<noteq> 0 then replicate SAVE_SIZE 0 else save_bytes d @ replicate (SAVE_SIZE - length (save_bytes d)) 0) = d"
    by (simp add: save_roundtrip)
  then show ?thesis using started_init [OF assms(1) read_stored [OF assms(2,1)]] by blast
qed

section \<open>Settings the lamp can show\<close>

text \<open>
  The handlers do not check the numbers they are given.  Within these ranges the conversions
  are defined.
\<close>

definition in_range :: "ya_cloud_light_data_t \<Rightarrow> bool" where
  "in_range d \<longleftrightarrow> w_l d \<le> 100 \<and> w_color d \<le> 100 \<and> c_s d \<le> 100 \<and> c_b d \<le> 100 \<and> scene d < 4"

lemma percent_byte: "x \<le> 100 \<Longrightarrow> (ucast (x :: u16) :: u8) \<le> 100" "x \<le> 100 \<Longrightarrow> unat (ucast x :: u8) = unat x"
proof -
  assume "x \<le> 100"
  then have "unat x \<le> 100" by (simp add: word_le_nat_alt)
  then show "unat (ucast x :: u8) = unat x" by (simp add: unsigned_ucast_eq take_bit_nat_eq_self)
  with \<open>unat x \<le> 100\<close> show "(ucast x :: u8) \<le> 100" by (simp add: word_le_nat_alt)
qed

lemma target_in_range:
  assumes "in_range d"
  obtains m e where "light_target (light_para d) = Some (m, e)"
proof -
  let ?p = "light_para d"
  have "w_l ?p \<le> 100" "w_color ?p \<le> 100" using assms by (auto simp: light_para_def in_range_def word_le_nat_alt)
  then have "ya_white_color_convert (ucast (w_l ?p)) (ucast (w_color ?p)) \<noteq> None"
    using white_exact(1) [OF percent_byte(1) percent_byte(1)] by simp
  then have "light_target ?p \<noteq> None" by (auto simp: light_target_def Let_def split: prod.split)
  then show thesis using that by fastforce
qed

text \<open>What is shown: for a scene its preset.\<close>

definition shown_setting :: "ya_cloud_light_data_t option \<Rightarrow> ya_cloud_light_data_t \<Rightarrow> ya_cloud_light_data_t option" where
  "shown_setting sc d = (if mode d \<noteq> S_CONTROL \<or> onoff d = 0 then Some d else ya_cloud_light_set_to_mode (scene d) sc)"

lemma preset_in_range:
  assumes "scene d < 4"
  obtains e where "ya_cloud_light_set_to_mode (scene d) sc = Some e" and "in_range e"
proof -
  have "unat (scene d) < 4" using assms by (simp add: word_less_nat_alt)
  then have "unat (scene d) = 0 \<or> unat (scene d) = 1 \<or> unat (scene d) = 2 \<or> unat (scene d) = 3" by linarith
  then have "scene d = 0 \<or> scene d = 1 \<or> scene d = 2 \<or> scene d = 3" by (auto simp: word_unat_eq_iff)
  then have "\<exists>e. ya_cloud_light_set_to_mode (scene d) sc = Some e \<and> in_range e"
    by (elim disjE) (simp_all add: ya_cloud_light_set_to_mode_def scene_preset_def in_range_def w_color_scale_def
        MIN_W_COLOR_def MAX_W_COLOR_def word_le_nat_alt word_less_nat_alt)
  then show thesis using that by blast
qed

lemma board_truncate_eq:
  assumes "board.truncate t = board.truncate s"
  shows "board_ok t = board_ok s" and "record_at t a r = record_at s a r" and "heap t = heap s" and "fl_mem t = fl_mem s"
  using assms by (auto simp: board.truncate_def board_ok_def chip_ready_def record_at_def)

lemma light_more_eq:
  assumes "light_io.more t = light_io.more s"
  shows "ya_save_light_data t = ya_save_light_data s" and "ya_cloud_light_data_new t = ya_cloud_light_data_new s"
    and "ya_cloud_light_data_default t = ya_cloud_light_data_default s" and "ya_light_queue t = ya_light_queue s"
    and "ya_has_been_connect_cloud t = ya_has_been_connect_cloud s" and "cur_status t = cur_status s"
    and "scan_result t = scan_result s" and "wait_to_restart t = wait_to_restart s" and "light_events t = light_events s"
    and "light_router_status t = light_router_status s" and "time_blink t = time_blink s"
    and "ya_hardware_timer_blink t = ya_hardware_timer_blink s" and "ya_cloud_light_data_scene t = ya_cloud_light_data_scene s"
    and "halted t = halted s"
  using assms by (cases t; cases s; simp)+

lemma lamp_inv_more [simp]:
  "lamp_inv (l\<lparr>ya_save_light_data := c\<rparr>) = lamp_inv l" "lamp_inv (l\<lparr>ya_cloud_light_data_new := d\<rparr>) = lamp_inv l"
  "lamp_inv (l\<lparr>ya_light_queue := q\<rparr>) = lamp_inv l" "lamp_inv (l\<lparr>light_events := e\<rparr>) = lamp_inv l"
  "lamp_inv (l\<lparr>ya_cloud_light_data_scene := sc\<rparr>) = lamp_inv l" "lamp_inv (l\<lparr>halted := h\<rparr>) = lamp_inv l"
  "lamp_inv (l\<lparr>time_blink := b\<rparr>) = lamp_inv l" "lamp_inv (l\<lparr>light_router_status := rs\<rparr>) = lamp_inv l"
  "lamp_inv (l\<lparr>cur_status := rs\<rparr>) = lamp_inv l" "lamp_inv (l\<lparr>ya_hardware_timer_blink := tm\<rparr>) = lamp_inv l"
  "lamp_inv (l\<lparr>scan_result := r\<rparr>) = lamp_inv l" "lamp_inv (l\<lparr>wait_to_restart := w\<rparr>) = lamp_inv l"
  "lamp_inv (l\<lparr>ya_has_been_connect_cloud := w\<rparr>) = lamp_inv l"
  "lamp_inv (l\<lparr>fl_mem := F, fl_rsp := R\<rparr>) = lamp_inv l"
  by (simp_all add: lamp_inv_def shows_level_def lit_def)

lemma show_setting_result:
  assumes "lamp_inv s" and "in_range d"
  obtains t e m v where "show_setting d s = Some t" and "shown_setting (ya_cloud_light_data_scene s) d = Some e" and "in_range e"
    and "light_target (light_para e) = Some (m, v)" and "levels t = v" and "mode_cur t = m" and "lamp_inv t"
    and "board.truncate t = board.truncate s"
    and "\<exists>sc. light_io.more t = light_io.more (s\<lparr>ya_cloud_light_data_scene := sc\<rparr>) \<and>
          (sc = ya_cloud_light_data_scene s \<or> sc = Some e)"
proof (cases "mode d \<noteq> S_CONTROL \<or> onoff d = 0")
  case True
  obtain m v where m: "light_target (light_para d) = Some (m, v)" using target_in_range [OF assms(2)] by blast
  obtain t where t: "ya_write_light_para (light_para d) s = Some t" "levels t = v" "lamp_inv t" "mode_cur t = m"
    "board.truncate t = board.truncate s" "light_io.more t = light_io.more s"
    by (rule write_para_result [OF assms(1) m])
  have ex: "\<exists>sc. light_io.more t = light_io.more (s\<lparr>ya_cloud_light_data_scene := sc\<rparr>) \<and>
      (sc = ya_cloud_light_data_scene s \<or> sc = Some d)"
    using t(6) by (intro exI [of _ "ya_cloud_light_data_scene s"]) simp
  have "show_setting d s = Some t" "shown_setting (ya_cloud_light_data_scene s) d = Some d"
    using True t(1) by (auto simp: show_setting_def shown_setting_def ya_light_control_def)
  then show thesis using that [of t d m v] m assms(2) t(2-5) ex by blast
next
  case False
  have "scene d < 4" using assms(2) by (simp add: in_range_def)
  then obtain e where e: "ya_cloud_light_set_to_mode (scene d) (ya_cloud_light_data_scene s) = Some e" "in_range e"
    by (rule preset_in_range)
  let ?s = "s\<lparr>ya_cloud_light_data_scene := Some e\<rparr>"
  obtain m v where m: "light_target (light_para e) = Some (m, v)" using target_in_range [OF e(2)] by blast
  obtain t where t: "ya_write_light_para (light_para e) ?s = Some t" "levels t = v" "lamp_inv t" "mode_cur t = m"
    "board.truncate t = board.truncate ?s" "light_io.more t = light_io.more ?s"
    using write_para_result [of ?s, OF _ m] assms(1) by auto
  moreover have "board.truncate t = board.truncate s" using t(5) by (simp add: board.truncate_def)
  ultimately show thesis using that [of t e m v] False m e
    by (auto simp: show_setting_def shown_setting_def ya_light_control_def)
qed

lemma save_setting_result:
  obtains F R sv where "save_setting d s = Some (s\<lparr>ya_save_light_data := sv, fl_mem := F, fl_rsp := R\<rparr>)"
    and "board_ok s \<longrightarrow> board_ok (s\<lparr>ya_save_light_data := sv, fl_mem := F, fl_rsp := R\<rparr>)"
    and "board_ok s \<and> ya_has_been_connect_cloud s \<and> onoff d \<noteq> 0 \<longrightarrow>
       sv = (ya_save_light_data s)\<lparr>config_default := 1, ya_cloud_light := d\<rparr> \<and>
       stored (s\<lparr>ya_save_light_data := sv, fl_mem := F, fl_rsp := R\<rparr>) sv"
proof (cases "ya_has_been_connect_cloud s \<and> onoff d \<noteq> 0")
  case False
  then have "save_setting d s = Some (s\<lparr>ya_save_light_data := ya_save_light_data s, fl_mem := fl_mem s, fl_rsp := fl_rsp s\<rparr>)"
    by (auto simp: save_setting_def)
  then show thesis by (rule that) (use False in auto)
next
  case True
  let ?sv = "(ya_save_light_data s)\<lparr>config_default := 1, ya_cloud_light := d\<rparr>" and ?u = "s\<lparr>ya_save_light_data := (ya_save_light_data s)\<lparr>config_default := 1, ya_cloud_light := d\<rparr>\<rparr>"
  have sv: "save_setting d s = save_light ?u" using True by (simp add: save_setting_def)
  show thesis
  proof (cases "board_ok s")
    case True
    then have "board_ok ?u" by simp
    then obtain F R where "save_light ?u = Some (?u\<lparr>fl_mem := F, fl_rsp := R\<rparr>)" "board_ok (?u\<lparr>fl_mem := F, fl_rsp := R\<rparr>)"
      "stored (?u\<lparr>fl_mem := F, fl_rsp := R\<rparr>) (ya_save_light_data ?u)" by (rule save_light_stores)
    then show thesis using that [where F = F and R = R and sv = ?sv] sv by simp
  next
    case False
    obtain F R where "save_light ?u = Some (?u\<lparr>fl_mem := F, fl_rsp := R\<rparr>)" by (rule save_light_frame)
    then show thesis using that [where F = F and R = R and sv = ?sv] sv False by simp
  qed
qed

lemma serve_result:
  assumes "lamp_inv s" and "ya_light_queue s \<noteq> []" and "in_range (last (ya_light_queue s))"
  obtains t e m v sv sc where "ya_light_serve s = Some t"
    and "shown_setting (ya_cloud_light_data_scene s) (last (ya_light_queue s)) = Some e" and "in_range e"
    and "light_target (light_para e) = Some (m, v)" and "levels t = v" and "mode_cur t = m" and "lamp_inv t"
    and "light_io.more t = light_io.more (s\<lparr>ya_light_queue := [], ya_save_light_data := sv, ya_cloud_light_data_scene := sc\<rparr>)"
    and "sc = ya_cloud_light_data_scene s \<or> sc = Some e"
    and "board_ok s \<longrightarrow> board_ok t"
    and "board_ok s \<and> ya_has_been_connect_cloud s \<and> onoff (last (ya_light_queue s)) \<noteq> 0 \<longrightarrow>
       sv = (ya_save_light_data s)\<lparr>config_default := 1, ya_cloud_light := last (ya_light_queue s)\<rparr> \<and> stored t sv"
proof -
  let ?d = "last (ya_light_queue s)" and ?q = "s\<lparr>ya_light_queue := []\<rparr>"
  obtain F R sv where u: "save_setting ?d ?q = Some (?q\<lparr>ya_save_light_data := sv, fl_mem := F, fl_rsp := R\<rparr>)"
      "board_ok ?q \<longrightarrow> board_ok (?q\<lparr>ya_save_light_data := sv, fl_mem := F, fl_rsp := R\<rparr>)"
      "board_ok ?q \<and> ya_has_been_connect_cloud ?q \<and> onoff ?d \<noteq> 0 \<longrightarrow>
       sv = (ya_save_light_data ?q)\<lparr>config_default := 1, ya_cloud_light := ?d\<rparr> \<and>
       stored (?q\<lparr>ya_save_light_data := sv, fl_mem := F, fl_rsp := R\<rparr>) sv"
    by (rule save_setting_result [of ?d ?q])
  let ?u = "?q\<lparr>ya_save_light_data := sv, fl_mem := F, fl_rsp := R\<rparr>"
  have "lamp_inv ?u" using assms(1) by simp
  then obtain t e m v where t: "show_setting ?d ?u = Some t" "shown_setting (ya_cloud_light_data_scene ?u) ?d = Some e" "in_range e"
    "light_target (light_para e) = Some (m, v)" "levels t = v" "mode_cur t = m" "lamp_inv t"
    "board.truncate t = board.truncate ?u"
    "\<exists>sc. light_io.more t = light_io.more (?u\<lparr>ya_cloud_light_data_scene := sc\<rparr>) \<and> (sc = ya_cloud_light_data_scene ?u \<or> sc = Some e)"
    using assms(3) by (rule show_setting_result)
  then obtain sc where sc: "light_io.more t = light_io.more (?u\<lparr>ya_cloud_light_data_scene := sc\<rparr>)"
    "sc = ya_cloud_light_data_scene ?u \<or> sc = Some e" by blast
  show thesis
  proof (rule that)
    show "ya_light_serve s = Some t" using assms(2) u(1) t(1) by (simp add: ya_light_serve_def)
    show "shown_setting (ya_cloud_light_data_scene s) ?d = Some e" using t(2) by simp
    show "light_io.more t = light_io.more (s\<lparr>ya_light_queue := [], ya_save_light_data := sv, ya_cloud_light_data_scene := sc\<rparr>)"
      using sc(1) by (cases s) simp
    show "sc = ya_cloud_light_data_scene s \<or> sc = Some e" using sc(2) by simp
    show "board_ok s \<longrightarrow> board_ok t" using u(2) unfolding board_truncate_eq(1) [OF t(8)] by simp
    show "board_ok s \<and> ya_has_been_connect_cloud s \<and> onoff ?d \<noteq> 0 \<longrightarrow>
        sv = (ya_save_light_data s)\<lparr>config_default := 1, ya_cloud_light := ?d\<rparr> \<and> stored t sv"
      using u(3) unfolding board_truncate_eq(2) [OF t(8)] by auto
  qed (fact t(3-7))+
qed

section \<open>The invariant of the task\<close>

definition light_inv :: "'a light_scheme \<Rightarrow> bool" where
  "light_inv s \<longleftrightarrow> lamp_inv s \<and> in_range (ya_cloud_light_data_new s) \<and> in_range (ya_cloud_light_data_default s) \<and>
     list_all in_range (ya_light_queue s) \<and> pred_option in_range (ya_cloud_light_data_scene s) \<and> length (scan_result s) = 4"

lemma light_inv_fields [simp]:
  "light_inv (l\<lparr>light_events := e\<rparr>) = light_inv l" "light_inv (l\<lparr>halted := h\<rparr>) = light_inv l"
  "light_inv (l\<lparr>time_blink := b\<rparr>) = light_inv l" "light_inv (l\<lparr>light_router_status := rs\<rparr>) = light_inv l"
  "light_inv (l\<lparr>cur_status := rs\<rparr>) = light_inv l" "light_inv (l\<lparr>ya_hardware_timer_blink := tm\<rparr>) = light_inv l"
  "light_inv (l\<lparr>wait_to_restart := w\<rparr>) = light_inv l" "light_inv (l\<lparr>ya_has_been_connect_cloud := w\<rparr>) = light_inv l"
  "light_inv (l\<lparr>ya_save_light_data := c\<rparr>) = light_inv l"
  "light_inv (l\<lparr>fl_mem := F, fl_rsp := R\<rparr>) = light_inv l"
  by (simp_all add: light_inv_def)

lemma idle_in_range: "in_range (ya_cloud_light_set_to_idle d)"
  by (simp add: in_range_def ya_cloud_light_set_to_idle_def)

lemma queue_inv: "light_inv s \<Longrightarrow> in_range d \<Longrightarrow> light_inv (ya_set_light_para_to_queue d s)"
  by (auto simp: ya_set_light_para_to_queue_def light_inv_def split: option.split)

lemma new_inv: "light_inv s \<Longrightarrow> in_range d \<Longrightarrow> light_inv (s\<lparr>ya_cloud_light_data_new := d\<rparr>)"
  by (simp add: light_inv_def)

lemma light_inv_default: "light_inv s \<Longrightarrow> in_range (ya_cloud_light_data_default s)"
  by (simp add: light_inv_def)

lemma show_config_inv: "light_inv s \<Longrightarrow> light_inv (show_config s)"
  unfolding show_config_def Let_def ya_cloud_light_set_to_config_def
  by (simp add: queue_inv new_inv light_inv_default)

lemma router_changed_inv: "light_inv s \<Longrightarrow> light_inv (router_changed tick s)"
  by (simp add: router_changed_def Let_def show_config_inv factory_test_def)

lemma blink_inv: "light_inv s \<Longrightarrow> light_inv (blink tick s)"
  unfolding blink_def Let_def ya_cloud_light_set_to_config_def
  by (simp add: queue_inv new_inv light_inv_default idle_in_range)

lemma serve_inv:
  assumes "light_inv s"
  shows "\<exists>t. ya_light_serve s = Some t \<and> light_inv t"
proof (cases "ya_light_queue s = []")
  case True
  then show ?thesis using assms by (simp add: ya_light_serve_def)
next
  case False
  then have "in_range (last (ya_light_queue s))" "lamp_inv s" using assms by (auto simp: light_inv_def list_all_iff)
  then obtain t e m v sv sc where t: "ya_light_serve s = Some t" "in_range e" "lamp_inv t"
    "light_io.more t = light_io.more (s\<lparr>ya_light_queue := [], ya_save_light_data := sv, ya_cloud_light_data_scene := sc\<rparr>)"
    "sc = ya_cloud_light_data_scene s \<or> sc = Some e"
    using serve_result [OF _ False] by metis
  then show ?thesis using assms light_more_eq [OF t(4)] by (auto simp: light_inv_def)
qed

lemma turn_inv:
  assumes "light_inv s"
  shows "\<exists>t. ya_light_turn tick s = Some t \<and> light_inv t"
proof -
  define u where "u = (if light_router_status s \<noteq> cur_status s then router_changed tick s else s)"
  have u: "light_inv u" using assms by (simp add: u_def router_changed_inv)
  then have "light_inv (blink tick u)" by (rule blink_inv)
  then show ?thesis
    unfolding ya_light_turn_def Let_def u_def [symmetric] using assms u serve_inv by auto
qed

section \<open>Messages within the ranges\<close>

definition dl_keys :: "string set" where
  "dl_keys = {''Switch'', ''WorkMode'', ''Luminance'', ''ColorTemperature'', ''Hue'', ''Saturation'', ''Brightness'', ''LightScene''}"

definition value_ok :: "string \<Rightarrow> int \<Rightarrow> bool" where
  "value_ok k n \<longleftrightarrow>
     (k \<in> {''Luminance'', ''ColorTemperature'', ''Saturation'', ''Brightness''} \<longrightarrow> 0 \<le> n \<and> n \<le> 100) \<and>
     (k = ''LightScene'' \<longrightarrow> 0 \<le> n \<and> n < 4)"

text \<open>Every member that is a string holds a number in its range.  Members of other types are rejected.\<close>

definition message_ok :: "cJSON \<Rightarrow> bool" where
  "message_ok property \<longleftrightarrow> (\<forall>k \<in> dl_keys. \<forall>j. cJSON_GetObjectItem property k = Some j \<and> jtype j = cJSON_String \<longrightarrow>
     (\<exists>v n. valuestring j = Some v \<and> atoi v = Some n \<and> value_ok k n))"

definition field_ok :: "dl_field \<Rightarrow> bool" where
  "field_ok kf \<longleftrightarrow> fst kf \<in> dl_keys \<and>
     (\<forall>n d. value_ok (fst kf) n \<and> in_range (setting d) \<longrightarrow> in_range (setting (snd kf (word_of_int n) d)))"

lemma dl_member_safe:
  assumes "message_ok property" and "field_ok kf" and "in_range (setting d)"
  shows "\<exists>ok d'. dl_member property kf d = Some (ok, d') \<and> in_range (setting d')"
proof (cases "\<exists>j. cJSON_GetObjectItem property (fst kf) = Some j \<and> jtype j = cJSON_String")
  case True
  then obtain j v n where j: "cJSON_GetObjectItem property (fst kf) = Some j" "jtype j = cJSON_String"
    "valuestring j = Some v" "atoi v = Some n" "value_ok (fst kf) n"
    using assms(1,2) unfolding message_ok_def field_ok_def by blast
  moreover have "in_range (setting (snd kf (word_of_int n) d))" using assms(2,3) j(5) unfolding field_ok_def by blast
  ultimately show ?thesis by (auto simp: dl_member_def)
next
  case False
  then show ?thesis using assms(3) by (cases "cJSON_GetObjectItem property (fst kf)") (auto simp: dl_member_def)
qed

lemma dl_members_safe:
  assumes "message_ok property" and "list_all field_ok fs" and "in_range (setting d)"
  shows "\<exists>ok d'. dl_members property fs d = Some (ok, d') \<and> in_range (setting d')"
  using assms(2,3)
proof (induction fs arbitrary: d)
  case (Cons f fs)
  then obtain ok d' where "dl_member property f d = Some (ok, d')" "in_range (setting d')"
    using dl_member_safe [OF assms(1), of f d] by auto
  then show ?case using Cons by (cases ok) auto
qed auto

lemma dl_blocks_safe:
  assumes "message_ok property" and "list_all (\<lambda>b. list_all field_ok (snd b)) bs" and "in_range (setting d)"
  shows "\<exists>ok d'. dl_blocks property bs d = Some (ok, d') \<and> in_range (setting d')"
  using assms(2,3)
proof (induction bs arbitrary: d)
  case (Cons b bs)
  obtain g fs where b: "b = (g, fs)" by (cases b)
  obtain ok d' where "dl_members property fs d = Some (ok, d')" "in_range (setting d')"
    using dl_members_safe [OF assms(1), of fs d] Cons.prems b by auto
  then show ?case using Cons b by (cases ok) auto
qed auto

lemma small_word:
  assumes "0 \<le> n" and "n \<le> 100"
  shows "(ucast (word_of_int n :: u32) :: u16) \<le> 100" and "n < 4 \<Longrightarrow> (ucast (word_of_int n :: u32) :: u8) < 4"
proof -
  obtain m where m: "n = int m" using assms(1) zero_le_imp_eq_int by blast
  then have "unat (ucast (word_of_int n :: u32) :: u16) = m" "unat (ucast (word_of_int n :: u32) :: u8) = m"
    using assms(2) by (simp_all add: unsigned_ucast_eq unat_of_nat take_bit_nat_eq_self)
  then show "(ucast (word_of_int n :: u32) :: u16) \<le> 100" "n < 4 \<Longrightarrow> (ucast (word_of_int n :: u32) :: u8) < 4"
    using m assms(2) by (simp_all add: word_le_nat_alt word_less_nat_alt)
qed

lemma program_ok: "list_all (\<lambda>b. list_all field_ok (snd b)) dl_program"
  by (auto simp: dl_program_def field_ok_def dl_keys_def value_ok_def in_range_def set_switch_def set_work_mode_def
      set_value_def small_word)

lemma report_inv: "light_inv s \<Longrightarrow> light_inv (ya_report_whole_key_value_formulate lib s)"
  by (simp add: ya_report_whole_key_value_formulate_def split: option.split)

lemma downlink_inv:
  assumes "light_inv s" and "\<forall>property. cJSON_Parse lib buf = Some property \<longrightarrow> message_ok property"
  shows "\<exists>t. ya_thing_handle_downlink_data lib buf s = Some t \<and> light_inv t"
proof (cases "cJSON_Parse lib buf")
  case None
  then show ?thesis using assms(1) by (simp add: ya_thing_handle_downlink_data_def)
next
  case (Some property)
  let ?d = "\<lparr>enable_send = False, get_switch_off = False, control_type = NON_CONTROL, setting = ya_cloud_light_data_new s\<rparr>"
  have "in_range (setting ?d)" using assms(1) by (simp add: light_inv_def)
  then obtain ok d' where d: "dl_blocks property dl_program ?d = Some (ok, d')" "in_range (setting d')"
    using dl_blocks_safe [OF _ program_ok] assms(2) Some by blast
  then show ?thesis
    unfolding ya_thing_handle_downlink_data_def Some option.case d(1)
    using assms(1) by (simp add: new_inv queue_inv report_inv Let_def)
qed

lemma save_light_inv:
  assumes "light_inv s"
  shows "\<exists>t. save_light s = Some t \<and> light_inv t"
proof -
  obtain F R where "save_light s = Some (s\<lparr>fl_mem := F, fl_rsp := R\<rparr>)" by (rule save_light_frame)
  then show ?thesis using assms by simp
qed

section \<open>Runs\<close>

text \<open>
  What happens to the light in some order: turns of its task, and calls from the cloud, the
  main task and the timer that clears the power-on counter.
\<close>

datatype light_step = Turn u32 | DownlinkData bytes | CloudStatus ya_cloud_status_t
  | RouterStatus ya_router_status_t "int list" | ClearPowerOnFlag

fun light_do :: "cjson_lib \<Rightarrow> light_step \<Rightarrow> 'a light_scheme \<Rightarrow> 'a light_scheme option" where
  "light_do lib (Turn tick) s = ya_light_turn tick s"
| "light_do lib (DownlinkData buf) s = ya_thing_handle_downlink_data lib buf s"
| "light_do lib (CloudStatus st) s = ya_thing_handle_cloud_status lib st s"
| "light_do lib (RouterStatus st p) s = ya_thing_handle_router_status_callback st p s"
| "light_do lib ClearPowerOnFlag s = ya_clear_power_on_flag_callback s"

fun step_ok :: "cjson_lib \<Rightarrow> light_step \<Rightarrow> bool" where
  "step_ok lib (DownlinkData buf) = (case cJSON_Parse lib buf of None \<Rightarrow> True | Some property \<Rightarrow> message_ok property)"
| "step_ok lib (RouterStatus st p) = (st = MODLUE_FACTORY_TEST \<longrightarrow> length p \<ge> 4)"
| "step_ok lib _ = True"

lemma light_do_inv:
  assumes "light_inv s" and "step_ok lib a"
  shows "\<exists>t. light_do lib a s = Some t \<and> light_inv t"
proof (cases a)
  case (Turn tick)
  then show ?thesis using turn_inv [OF assms(1)] by simp
next
  case (DownlinkData buf)
  then show ?thesis using downlink_inv [OF assms(1)] assms(2) by (auto split: option.splits)
next
  case (CloudStatus st)
  show ?thesis
  proof (cases st)
    case YA_CLOUD_DEBIND
    let ?u = "s\<lparr>ya_save_light_data := (ya_save_light_data s)\<lparr>config_default := 0\<rparr>\<rparr>"
    obtain t where "save_light ?u = Some t" "light_inv t" using save_light_inv [of ?u] assms(1) by auto
    then show ?thesis using CloudStatus YA_CLOUD_DEBIND by (simp add: ya_thing_handle_cloud_status_def)
  qed (use CloudStatus assms(1) in \<open>simp_all add: ya_thing_handle_cloud_status_def report_inv\<close>)
next
  case (RouterStatus st p)
  then show ?thesis using assms
    by (auto simp: ya_thing_handle_router_status_callback_def slice_def light_inv_def)
next
  case ClearPowerOnFlag
  then show ?thesis
    using save_light_inv [of "s\<lparr>ya_save_light_data := (ya_save_light_data s)\<lparr>num := 0\<rparr>\<rparr>"] assms(1)
    by (simp add: ya_clear_power_on_flag_callback_def)
qed

interpretation light_task: safe_steps "light_do lib" light_inv "step_ok lib" for lib
  by unfold_locales (rule light_do_inv)

lemma started_light_inv:
  assumes "started d t" and "in_range (ya_cloud_light d)"
  shows "light_inv t"
proof -
  have "in_range (boot_light d)"
    using assms(2) by (simp add: boot_light_def factory_light_def in_range_def word_le_nat_alt word_less_nat_alt)
  then show ?thesis using assms(1) by (simp add: started_def light_inv_def)
qed

lemma turn_serves:
  assumes "\<not> halted s" and "\<not> wait_to_restart s" and "light_router_status s = cur_status s" and "time_blink s = 0"
  shows "ya_light_turn tick s = ya_light_serve s"
  using assms by (simp add: ya_light_turn_def blink_def)

section \<open>Properties\<close>

definition light_demo :: light where
  "light_demo = light_io.extend lamp_demo (light.fields \<lparr>num = 0, config_default = 0, ya_cloud_light = light_zero\<rparr>
     light_zero light_zero [] True MODLUE_CONNECT [0, 0, 0, 0] False [] MODLUE_CONNECT 0
     \<lparr>time_out = 0, init_tick = 0, ttype = YA_TIMER_TYPE_S\<rparr> None False)"

definition saved_demo :: ya_save_light_data_t where
  "saved_demo = \<lparr>num = 0, config_default = 1, ya_cloud_light = factory_light\<lparr>w_l := 80\<rparr>\<rparr>"

definition stored_demo :: light where
  "stored_demo = (let l = record_bytes (save_bytes saved_demo); a = YA_LIGHT_FLASH_PARA_ADDR
     in light_demo\<lparr>fl_mem := (\<lambda>x. if a \<le> x \<and> x < a + length l then l ! (x - a) else 0xFF)\<rparr>)"

lemma stored_demo_ok: "board_ok stored_demo" "stored stored_demo saved_demo" "in_range (ya_cloud_light saved_demo)"
proof -
  have "map (\<lambda>x. if a \<le> x \<and> x < a + length l then l ! (x - a) else c) [a..<a + length l] = l" for a and l :: bytes and c
    by (rule nth_equalityI) auto
  from this [of YA_LIGHT_FLASH_PARA_ADDR "record_bytes (save_bytes saved_demo)"] show "stored stored_demo saved_demo"
    by (simp add: stored_demo_def record_at_def Let_def add.assoc add.commute [of 4])
  show "board_ok stored_demo" using board_demo_ok
    by (simp add: stored_demo_def light_demo_def lamp_demo_def board_demo_def board_ok_def chip_ready_def Let_def
        board.extend_def light_io.extend_def light_io.fields_def light.fields_def)
  show "in_range (ya_cloud_light saved_demo)"
    by (simp add: saved_demo_def factory_light_def in_range_def word_le_nat_alt word_less_nat_alt)
qed

lemma started_demo:
  obtains s where "ya_light_start stored_demo = Some s" and "started saved_demo s" and "light_inv s"
    and "boot_light saved_demo = ya_cloud_light saved_demo" and "num (boot_count saved_demo) = 1"
proof -
  obtain s where s: "ya_light_start stored_demo = Some s" "started saved_demo s"
    using start_stored [OF stored_demo_ok(1,2)] by blast
  moreover have "light_inv s" using started_light_inv [OF s(2) stored_demo_ok(3)] .
  moreover have "boot_light saved_demo = ya_cloud_light saved_demo" "num (boot_count saved_demo) = 1"
    by (simp_all add: boot_light_def boot_count_def saved_demo_def word_le_nat_alt)
  ultimately show thesis using that by blast
qed

text \<open>C18: From a start on a board that works, with a saved setting in range, no sequence of task turns,
  cloud messages with numbers in range, status changes and timer callbacks is ever undefined, and
  the lamp and all settings keep their invariant.\<close>

theorem light_run_safe:
  assumes "board_ok s" and "stored s d" and "in_range (ya_cloud_light d)" and "list_all (step_ok lib) steps"
  shows "\<exists>t u. ya_light_start s = Some t \<and> run_steps (light_do lib) steps t = Some u \<and> light_inv u"
proof -
  obtain t where t: "ya_light_start s = Some t" "started d t" using start_stored [OF assms(1,2)] by blast
  then show ?thesis using light_task.run_keeps [OF started_light_inv [OF t(2) assms(3)] assms(4)] by blast
qed

definition lib_demo :: cjson_lib where
  "lib_demo = \<lparr>cJSON_Parse = (\<lambda>_. Some (Node cJSON_Object None None
     [Node cJSON_String (Some ''Luminance'') (Some [0x33, 0x30]) []])), cJSON_PrintUnformatted = (\<lambda>_. Some [0x7B, 0x7D])\<rparr>"

theorem light_run_safe_witness:
  "\<exists>t u. ya_light_start stored_demo = Some t \<and>
     run_steps (light_do lib_demo) [Turn 0, DownlinkData [], Turn 50, CloudStatus YA_CLOUD_ONLINE, ClearPowerOnFlag] t = Some u \<and>
     light_inv u"
proof (rule light_run_safe [OF stored_demo_ok])
  have "message_ok (Node cJSON_Object None None [Node cJSON_String (Some ''Luminance'') (Some [0x33, 0x30]) []])"
    by (auto simp: message_ok_def dl_keys_def cJSON_GetObjectItem_def cJSON_strcasecmp_def tolower_def atoi_def scan_int_def
        isspace_def isdigit_def digits_val_def int32_def value_ok_def Let_def word_le_nat_alt)
  then show "list_all (step_ok lib_demo) [Turn 0, DownlinkData [], Turn 50, CloudStatus YA_CLOUD_ONLINE, ClearPowerOnFlag]"
    by (simp add: lib_demo_def)
qed

text \<open>C32: When the task is not blinking or waiting, one turn takes the last of the queued settings, a
  scene standing for its preset, and ends with the five channels at the levels of that setting and
  the queue empty.\<close>

theorem light_shows_last_setting:
  assumes "light_inv s" and "\<not> halted s" and "\<not> wait_to_restart s" and "light_router_status s = cur_status s"
    and "time_blink s = 0" and "ya_light_queue s \<noteq> []"
  shows "\<exists>t e m. ya_light_turn tick s = Some t \<and>
    shown_setting (ya_cloud_light_data_scene s) (last (ya_light_queue s)) = Some e \<and>
    light_target (light_para e) = Some (m, levels t) \<and> mode_cur t = m \<and> ya_light_queue t = [] \<and> light_inv t"
proof -
  have "in_range (last (ya_light_queue s))" "lamp_inv s" using assms(1,6) by (auto simp: light_inv_def list_all_iff)
  then obtain t e m v sv sc where t: "ya_light_serve s = Some t"
    "shown_setting (ya_cloud_light_data_scene s) (last (ya_light_queue s)) = Some e"
    "light_target (light_para e) = Some (m, v)" "levels t = v" "mode_cur t = m"
    "light_io.more t = light_io.more (s\<lparr>ya_light_queue := [], ya_save_light_data := sv, ya_cloud_light_data_scene := sc\<rparr>)"
    using serve_result [OF _ assms(6)] by metis
  moreover have "light_inv t" using serve_inv [OF assms(1)] t(1) by auto
  ultimately show ?thesis using turn_serves [OF assms(2-5)] light_more_eq(4) [OF t(6)] by auto
qed

theorem light_shows_last_setting_witness:
  "\<exists>s t. ya_light_start stored_demo = Some s \<and> ya_light_turn 10 s = Some t \<and> levels t = (0, 0, 0, 102, 102) \<and> ya_light_queue t = []"
proof -
  obtain s where s: "ya_light_start stored_demo = Some s" "started saved_demo s" "light_inv s"
    "boot_light saved_demo = ya_cloud_light saved_demo" by (rule started_demo)
  let ?d = "ya_cloud_light saved_demo"
  have q: "ya_light_queue s = [?d]" "\<not> halted s" "\<not> wait_to_restart s" "light_router_status s = cur_status s" "time_blink s = 0"
    using s(2,4) by (simp_all add: started_def)
  have "shown_setting sc ?d = Some ?d" for sc by (simp add: shown_setting_def saved_demo_def factory_light_def control_defs)
  moreover have "light_target (light_para ?d) = Some (0, 0, 0, 0, 102, 102)"
    using white_exact(1) [of 80 50]
    by (simp add: light_target_def light_para_def saved_demo_def factory_light_def control_defs exact255_def word_le_nat_alt word_less_nat_alt)
  ultimately show ?thesis
    using light_shows_last_setting [OF s(3) q(2-5), of 10] q(1) s(1) by auto
qed

text \<open>C17: A setting that is not off, handled by a turn after the cloud has been reached, survives a
  power cut: the next start loads it as the default and queues it, unless it is the fourth start in
  a row.\<close>

theorem light_setting_survives_power_cut:
  assumes "board_ok s" and "light_inv s" and "\<not> halted s" and "\<not> wait_to_restart s"
    and "light_router_status s = cur_status s" and "time_blink s = 0" and "ya_light_queue s \<noteq> []"
    and "ya_has_been_connect_cloud s" and "onoff (last (ya_light_queue s)) \<noteq> 0" and "num (ya_save_light_data s) < 3"
  shows "\<exists>t u. ya_light_turn tick s = Some t \<and> ya_light_start t = Some u \<and>
    ya_cloud_light_data_default u = last (ya_light_queue s) \<and> ya_cloud_light_data_new u = last (ya_light_queue s) \<and>
    ya_light_queue u = [last (ya_light_queue s)] \<and> light_events u = [] \<and> light_inv u"
proof -
  let ?d = "last (ya_light_queue s)"
  have d: "in_range ?d" "lamp_inv s" using assms(2,7) by (auto simp: light_inv_def list_all_iff)
  then obtain t sv where t: "ya_light_serve s = Some t" "board_ok t"
    "sv = (ya_save_light_data s)\<lparr>config_default := 1, ya_cloud_light := ?d\<rparr>" "stored t sv"
    using serve_result [OF d(2) assms(7) d(1)] assms(1,8,9) by metis
  obtain u where u: "ya_light_start t = Some u" "started sv u" using start_stored [OF t(2,4)] by blast
  have n: "unat (num (ya_save_light_data s)) < 3" using assms(10) by (simp add: word_less_nat_alt)
  then have n1: "unat (num (ya_save_light_data s) + 1) = unat (num (ya_save_light_data s)) + 1"
    by (simp add: unat_word_ariths)
  then have "\<not> num (ya_save_light_data s) + 1 \<ge> 4" "num (ya_save_light_data s) + 1 \<noteq> 4"
    using n by (auto simp: word_le_nat_alt)
  then have "boot_light sv = ?d" "num sv + 1 \<noteq> 4" by (simp_all add: t(3) boot_light_def boot_count_def Let_def)
  moreover have "light_inv u" using started_light_inv [OF u(2)] d(1) t(3) by simp
  ultimately show ?thesis using u t(1) turn_serves [OF assms(3-6)] by (auto simp: started_def)
qed

theorem light_setting_survives_power_cut_witness:
  "\<exists>s t u. ya_light_start stored_demo = Some s \<and> ya_light_turn 10 (s\<lparr>ya_has_been_connect_cloud := True\<rparr>) = Some t \<and>
     ya_light_start t = Some u \<and> w_l (ya_cloud_light_data_new u) = 80"
proof -
  obtain s where s: "ya_light_start stored_demo = Some s" "started saved_demo s" "light_inv s"
    "boot_light saved_demo = ya_cloud_light saved_demo" "num (boot_count saved_demo) = 1" by (rule started_demo)
  let ?s = "s\<lparr>ya_has_been_connect_cloud := True\<rparr>"
  have "board_ok ?s" using s(2) by (simp add: started_def board_ok_def chip_ready_def)
  moreover have "light_inv ?s" using s(3) by simp
  moreover have "ya_light_queue ?s = [ya_cloud_light saved_demo]" "\<not> halted ?s" "\<not> wait_to_restart ?s" "num (ya_save_light_data ?s) = 1"
    "light_router_status ?s = cur_status ?s" "time_blink ?s = 0" using s(2,4,5) by (simp_all add: started_def)
  moreover have "onoff (ya_cloud_light saved_demo) \<noteq> 0" "w_l (ya_cloud_light saved_demo) = 80"
    by (simp_all add: saved_demo_def factory_light_def)
  ultimately have "\<exists>t u. ya_light_turn 10 ?s = Some t \<and> ya_light_start t = Some u \<and> w_l (ya_cloud_light_data_new u) = 80"
    using light_setting_survives_power_cut [of ?s 10] by (auto simp: word_less_nat_alt)
  with s(1) show ?thesis by blast
qed

text \<open>Four starts in a row, each without the five seconds that clear the counter, switch the
  module to its other pairing mode at the fourth one and only then, and make the lamp forget its
  setting; when the timer has run after the third, the fourth start changes nothing.\<close>

theorem four_power_cycles_toggle:
  assumes "board_ok s" and "stored s d" and "num d = 0"
  shows "\<exists>t1 t2 t3 t4 u v. ya_light_start s = Some t1 \<and> ya_light_start t1 = Some t2 \<and> ya_light_start t2 = Some t3 \<and>
    ya_light_start t3 = Some t4 \<and>
    light_events t1 = [] \<and> light_events t2 = [] \<and> light_events t3 = [] \<and> light_events t4 = [ToggleMode] \<and>
    ya_cloud_light_data_default t4 = factory_light \<and>
    ya_clear_power_on_flag_callback t3 = Some u \<and> ya_light_start u = Some v \<and> light_events v = [] \<and>
    ya_cloud_light_data_default v = ya_cloud_light_data_default t1"
proof -
  obtain t1 where t1: "ya_light_start s = Some t1" "started d t1" using start_stored [OF assms(1,2)] by blast
  have s1: "board_ok t1" "stored t1 (boot_count d)" using t1(2) by (simp_all add: started_def)
  obtain t2 where t2: "ya_light_start t1 = Some t2" "started (boot_count d) t2" using start_stored [OF s1] by blast
  have s2: "board_ok t2" "stored t2 (boot_count (boot_count d))" using t2(2) by (simp_all add: started_def)
  obtain t3 where t3: "ya_light_start t2 = Some t3" "started (boot_count (boot_count d)) t3" using start_stored [OF s2] by blast
  have s3: "board_ok t3" "stored t3 (boot_count (boot_count (boot_count d)))" using t3(2) by (simp_all add: started_def)
  obtain t4 where t4: "ya_light_start t3 = Some t4" "started (boot_count (boot_count (boot_count d))) t4"
    using start_stored [OF s3] by blast
  have b: "boot_count d = d\<lparr>num := 1\<rparr>" "boot_count (boot_count d) = d\<lparr>num := 2\<rparr>" "boot_count (boot_count (boot_count d)) = d\<lparr>num := 3\<rparr>"
    "boot_light (boot_count (boot_count (boot_count d))) = factory_light"
    using assms(3) by (simp_all add: boot_count_def boot_light_def Let_def word_le_nat_alt)
  let ?c = "t3\<lparr>ya_save_light_data := (ya_save_light_data t3)\<lparr>num := 0\<rparr>\<rparr>"
  have "board_ok ?c" using s3(1) by simp
  then obtain F R where u: "save_light ?c = Some (?c\<lparr>fl_mem := F, fl_rsp := R\<rparr>)" "board_ok (?c\<lparr>fl_mem := F, fl_rsp := R\<rparr>)"
    "stored (?c\<lparr>fl_mem := F, fl_rsp := R\<rparr>) (ya_save_light_data ?c)" by (rule save_light_stores)
  have c: "ya_save_light_data ?c = d" using t3(2) b assms(3) by (simp add: started_def)
  obtain v where v: "ya_light_start (?c\<lparr>fl_mem := F, fl_rsp := R\<rparr>) = Some v" "started d v"
    using start_stored [OF u(2) u(3) [unfolded c]] by blast
  have "light_events t1 = []" "light_events t2 = []" "light_events t3 = []" "light_events t4 = [ToggleMode]" "light_events v = []"
    "ya_cloud_light_data_default t4 = factory_light" "ya_cloud_light_data_default v = ya_cloud_light_data_default t1"
    using t1(2) t2(2) t3(2) t4(2) v(2) b assms(3) by (simp_all add: started_def)
  moreover have "ya_clear_power_on_flag_callback t3 = Some (?c\<lparr>fl_mem := F, fl_rsp := R\<rparr>)"
    using u(1) by (simp add: ya_clear_power_on_flag_callback_def)
  ultimately show ?thesis using t1(1) t2(1) t3(1) t4(1) v(1) by blast
qed

theorem four_power_cycles_toggle_witness:
  "\<exists>t1 t2 t3 t4. ya_light_start stored_demo = Some t1 \<and> ya_light_start t1 = Some t2 \<and> ya_light_start t2 = Some t3 \<and>
     ya_light_start t3 = Some t4 \<and> light_events t3 = [] \<and> light_events t4 = [ToggleMode]"
proof -
  have "num saved_demo = 0" by (simp add: saved_demo_def)
  from four_power_cycles_toggle [OF stored_demo_ok(1,2) this] show ?thesis by blast
qed

text \<open>A message is edited into the setting while it is read.  When a later member has the wrong
  type the message is dropped, but what was read before stays: the module then holds a setting
  that the lamp does not show and that was neither queued nor reported.\<close>

theorem rejected_message_half_applied:
  assumes "cJSON_Parse lib buf = Some property"
    and "cJSON_GetObjectItem property ''Switch'' = Some sw" and "jtype sw = cJSON_String" and "valuestring sw = Some v"
    and "atoi v = Some n" and "word_of_int n \<noteq> (0 :: u32)"
    and "cJSON_GetObjectItem property ''WorkMode'' = Some wm" and "jtype wm \<noteq> cJSON_String"
  shows "ya_thing_handle_downlink_data lib buf s =
    Some (s\<lparr>ya_cloud_light_data_new := (ya_cloud_light_data_new s)\<lparr>onoff := 1\<rparr>\<rparr>)"
proof -
  have "dl_blocks property dl_program
      \<lparr>enable_send = False, get_switch_off = False, control_type = NON_CONTROL, setting = ya_cloud_light_data_new s\<rparr> =
    Some (False, \<lparr>enable_send = True, get_switch_off = False, control_type = NON_CONTROL,
      setting = (ya_cloud_light_data_new s)\<lparr>onoff := 1\<rparr>\<rparr>)"
    using assms(2-8) by (simp add: dl_program_def dl_member_def set_switch_def)
  then show ?thesis by (simp add: ya_thing_handle_downlink_data_def assms(1))
qed

theorem rejected_message_half_applied_witness:
  "\<exists>t. ya_thing_handle_downlink_data
      \<lparr>cJSON_Parse = (\<lambda>_. Some (Node cJSON_Object None None [Node cJSON_String (Some ''Switch'') (Some [0x31]) [],
         Node cJSON_Number (Some ''WorkMode'') None []])), cJSON_PrintUnformatted = (\<lambda>_. None)\<rparr> [] light_demo = Some t \<and>
     onoff (ya_cloud_light_data_new light_demo) = 0 \<and> onoff (ya_cloud_light_data_new t) = 1 \<and>
     ya_light_queue t = ya_light_queue light_demo"
proof -
  let ?p = "Node cJSON_Object None None [Node cJSON_String (Some ''Switch'') (Some [0x31]) [], Node cJSON_Number (Some ''WorkMode'') None []]"
  have "ya_thing_handle_downlink_data \<lparr>cJSON_Parse = (\<lambda>_. Some ?p), cJSON_PrintUnformatted = (\<lambda>_. None)\<rparr> [] light_demo =
      Some (light_demo\<lparr>ya_cloud_light_data_new := (ya_cloud_light_data_new light_demo)\<lparr>onoff := 1\<rparr>\<rparr>)"
    by (rule rejected_message_half_applied [where property = ?p and n = 1 and v = "[0x31]"
          and sw = "Node cJSON_String (Some ''Switch'') (Some [0x31]) []" and wm = "Node cJSON_Number (Some ''WorkMode'') None []"])
      (simp_all add: cJSON_GetObjectItem_def cJSON_strcasecmp_def tolower_def atoi_def scan_int_def isspace_def isdigit_def
        digits_val_def int32_def Let_def word_le_nat_alt)
  moreover have "onoff (ya_cloud_light_data_new light_demo) = 0"
    by (simp add: light_demo_def light_io.extend_def light.fields_def light_zero_def)
  ultimately show ?thesis by simp
qed

text \<open>The numbers of a setting are not checked before they are shown: a white setting with a
  luminance from 101 to 255 at full colour temperature overflows the conversion to a byte, and an
  unknown scene makes the task use a struct that was never assigned.\<close>

theorem unchecked_setting_undefined:
  assumes "onoff d = 1"
    and "mode d = W_CONTROL \<and> 100 < w_l d \<and> w_l d < 256 \<and> w_color d = 100 \<or>
         mode d = S_CONTROL \<and> 4 \<le> scene d \<and> ya_cloud_light_data_scene s = None"
  shows "show_setting d s = None"
  using assms(2)
proof
  assume w: "mode d = W_CONTROL \<and> 100 < w_l d \<and> w_l d < 256 \<and> w_color d = 100"
  then have "(ucast (w_l d) :: u8) > 100"
  proof -
    have "unat (w_l d) < 256" "100 < unat (w_l d)" using w by (simp_all add: word_less_nat_alt)
    then have "unat (ucast (w_l d) :: u8) = unat (w_l d)" by (simp add: unsigned_ucast_eq take_bit_nat_eq_self)
    with \<open>100 < unat (w_l d)\<close> show ?thesis by (simp add: word_less_nat_alt)
  qed
  then have "ya_white_color_convert (ucast (w_l d)) 100 = None" by (rule white_undefined)
  moreover have "\<not> w_l d < 10" using w by (auto simp: word_less_nat_alt)
  ultimately have "light_target (light_para d) = None"
    using w assms(1) by (simp add: light_target_def light_para_def)
  then show ?thesis using w by (simp add: show_setting_def ya_light_control_def ya_write_light_para_def control_defs)
next
  assume m: "mode d = S_CONTROL \<and> 4 \<le> scene d \<and> ya_cloud_light_data_scene s = None"
  then have "scene d \<noteq> 0" "scene d \<noteq> 1" "scene d \<noteq> 2" "scene d \<noteq> 3" by (auto simp: word_le_nat_alt)
  then show ?thesis using m assms(1) by (simp add: show_setting_def ya_cloud_light_set_to_mode_def)
qed

theorem unchecked_setting_undefined_witness:
  "show_setting (factory_light\<lparr>w_l := 101, w_color := 100\<rparr>) light_demo = None \<and>
   show_setting (factory_light\<lparr>mode := S_CONTROL, scene := 7\<rparr>) light_demo = None"
  using unchecked_setting_undefined [of "factory_light\<lparr>w_l := 101, w_color := 100\<rparr>" light_demo]
    unchecked_setting_undefined [of "factory_light\<lparr>mode := S_CONTROL, scene := 7\<rparr>" light_demo]
  by (simp add: factory_light_def light_demo_def light_io.extend_def light.fields_def word_less_nat_alt word_le_nat_alt)

end
