(* ===== verification/AppMain.thy ===== *)
theory AppMain
  imports CertFlash HalTimer ThingApi CommonFunc
begin

text \<open>
  The main task of the module, \<^verbatim>\<open>src/apps/akeeta_tr6260/akeeta/app/src/ya_app_main.c\<close>: the
  user data (router credentials and mode) with its backup copy on flash, the choice of the start
  mode, pairing by smart configuration or access point, connecting and reconnecting to the router,
  mode changes, factory reset, and the loop that serves the message queue.

  What the task calls in other parts of the firmware (Wi-Fi driver, smart configuration, access
  point, cloud clients, the product) is recorded in \<open>app_events\<close>, and what these calls answer is
  the argument \<open>w\<close>.  \<open>ya_hal_sys_reboot\<close> does not return: it sets \<open>rebooted\<close>, and nothing of the
  task runs afterwards.  Log output and delays are not modelled.
\<close>

section \<open>State\<close>

datatype ya_app_status_t =
  YA_APP_IDLE | YA_APP_SNIFFER_START | YA_APP_SNIFFER | YA_APP_AP_START | YA_APP_AP_STATE | YA_APP_TO_CONNECT
| YA_APP_CONNECTING | YA_APP_CONNECTED | YA_APP_WAIT_TO_CONNECT | YA_APP_FACTORY_TEST

datatype ya_app_main_queue_type_t =
  YA_SNIFFER_SUCCESS | YA_SNIFFER_FAIL | YA_AP_CONFIG_FAIL | YA_AP_CONFIG_SUCCESS | YA_CONNECT_SUCCESS
| YA_CONNECT_FAIL | YA_LINK_LOST | YA_CHANGE_TOGGLE_MODE | YA_CHANGE_AP_MODE | YA_CHANGE_SNIFFER_MODE
| YA_CHANGE_IDLE_NEXT_REBOOT | YA_SET_SCAN_RSSI | YA_SET_OTA_TEST | YA_FACTORY_MODE

datatype ya_sniffer_broadcast_state = INIT_MODE | SNIFFER_SUCCESS | START_BROADCAST | BROADCAST_WAIT

definition AP_MODE :: u8 where "AP_MODE = 0"
definition SNIFFER_MODE :: u8 where "SNIFFER_MODE = 1"
definition CONNECT_MODE :: u8 where "CONNECT_MODE = 2"
definition IDLE_MODE :: u8 where "IDLE_MODE = 3"

lemmas mode_defs = AP_MODE_def SNIFFER_MODE_def CONNECT_MODE_def IDLE_MODE_def

definition AKEETA_CN :: u32 where "AKEETA_CN = 0"
definition AKEETA_OVERSEA :: u32 where "AKEETA_OVERSEA = 1"
definition UNKNOWN_CLOUD_TYPE :: u32 where "UNKNOWN_CLOUD_TYPE = 0xFF"

definition WIFI_CN :: u32 where "WIFI_CN = 0"
definition WIFI_US :: u32 where "WIFI_US = 1"
definition WIFI_EU :: u32 where "WIFI_EU = 2"
definition WIFI_MAX :: u32 where "WIFI_MAX = 3"
definition AWS_DOMAIN_SUPPORT :: u32 where "AWS_DOMAIN_SUPPORT = push_bit (unat WIFI_US) 1 + push_bit (unat WIFI_EU) 1"

lemmas cloud_defs = AKEETA_CN_def AKEETA_OVERSEA_def UNKNOWN_CLOUD_TYPE_def WIFI_CN_def WIFI_US_def WIFI_EU_def WIFI_MAX_def

definition YA_USER_DATA_ADDR :: nat where "YA_USER_DATA_ADDR = 0xAD000"
definition YA_USER_DATA_BACK_ADDR :: nat where "YA_USER_DATA_BACK_ADDR = YA_USER_DATA_ADDR + 0x1000"
definition YA_OTA_DATA_ADDR :: nat where "YA_OTA_DATA_ADDR = YA_LICENSE_ALIYUUN + 0x1000"

lemmas user_addrs = YA_USER_DATA_ADDR_def YA_USER_DATA_BACK_ADDR_def YA_OTA_DATA_ADDR_def YA_DEVICE_TIMER_ADDR_def
  YA_LICENSE_ALIYUUN_def

text \<open>The arrays are byte lists of fixed lengths; \<open>ud_pad\<close> is the padding in front of the counters.\<close>

record ya_user_data_t =
  ud_mode :: u8
  ud_ssid :: bytes
  ud_ssid_len :: u8
  ud_pwd :: bytes
  ud_pwd_len :: u8
  ud_bssid :: bytes
  cloud_select :: u8
  server_ip_len :: u8
  server_ip :: bytes
  factory_get_rssi_flag :: u8
  factory_get_rssi_name :: bytes
  download_license_mode :: u8
  license_mode_in :: u8
  check_license_mode :: u8
  reboot_check_license_mode_tick :: u8
  ota_test_url :: bytes
  ud_pad :: bytes
  ota_test_all_num :: u32
  ota_test_success_num :: u32

record ya_app_main_para_t =
  cloud_type :: u32
  ya_init_mode :: u8
  sniffer_timeout :: u32
  ap_timeout :: u32
  cur_version :: bytes
  mcu_version :: bytes
  mcu_ota_enable :: bool
  enable_factory_uart :: bool
  enable_factory_router_scan :: bool
  enable_low_power :: bool
  enable_debind :: bool

text \<open>A message carries its type and, for two types, a string.\<close>

type_synonym app_msg = "ya_app_main_queue_type_t \<times> bytes option"

datatype app_event =
  Router ya_router_status_t "int list" | StartSmnt u32 | StartSoftap u32 u32 | ConnectAp bytes bytes bytes
| SetStaMode | WlanStart | WlanStop | CloudStart u32 | OtaStart | UartStart | HardwareStart | StartBroadcast
| ClearTimerFlash | CloudUnregister | DisablePowerSaving | ScanFor "bytes list" | AtRsp bytes

text \<open>
  The answers of the calls: the clock, the results of starting the other tasks, whether the cloud
  is connected, the names the Aliyun client returns (here any answer; \<open>SoftAp\<close> has the functions),
  and what the scans for named networks find: the result, and found flag and signal strength for
  each name, for the strength test by the number of the attempt.
\<close>

record world =
  w_msec :: u32
  w_start_smnt :: int
  w_connect_ap :: int
  w_cloud_start :: int
  w_ota_start :: int
  w_uart_start :: int
  w_hardware_start :: int
  w_wdt :: int
  w_cloud_status :: bool
  ya_aly_get_thing_name :: "bytes option"
  ya_aly_get_client_id :: "bytes option"
  w_rssi_scan :: "nat \<Rightarrow> int \<times> int \<times> int"
  w_factory_scan :: "int \<times> (int \<times> int) \<times> (int \<times> int)"

text \<open>The members from \<open>link_connect\<close> on are locals of \<open>ya_app_main\<close>.\<close>

record app = cert +
  ya_user_data :: ya_user_data_t
  sniffer_ap_mode :: bool
  debine_enable :: bool
  support_cloud :: bool
  ya_app_state :: ya_app_status_t
  config_random_num :: bytes
  ya_app_main_para_obj :: ya_app_main_para_t
  ya_wifiCloud :: u32
  ya_main_msg_queue :: "app_msg list"
  enter_get_rssi_mode :: bool
  app_events :: "app_event list"
  rebooted :: bool
  link_connect :: bool
  ya_sniffer_broadcast_enable :: ya_sniffer_broadcast_state
  wait_coonnect_router_start_timer :: u32
  reconnect_count :: u16

abbreviation app_emit :: "app_event \<Rightarrow> 'a app_scheme \<Rightarrow> 'a app_scheme" where
  "app_emit e s \<equiv> s\<lparr>app_events := app_events s @ [e]\<rparr>"

definition ya_hal_sys_reboot :: "'a app_scheme \<Rightarrow> 'a app_scheme" where
  "ya_hal_sys_reboot s = s\<lparr>rebooted := True\<rparr>"

section \<open>The user data on flash\<close>

definition u32_bytes :: "u32 \<Rightarrow> bytes" where
  "u32_bytes x = [ucast x, ucast (drop_bit 8 x), ucast (drop_bit 16 x), ucast (drop_bit 24 x)]"

definition u32_at :: "bytes \<Rightarrow> nat \<Rightarrow> u32" where
  "u32_at b i = ucast (b ! i) OR push_bit 8 (ucast (b ! (i + 1))) OR push_bit 16 (ucast (b ! (i + 2))) OR
     push_bit 24 (ucast (b ! (i + 3)))"

definition user_bytes :: "ya_user_data_t \<Rightarrow> bytes" where
  "user_bytes u =
     [ud_mode u] @ ud_ssid u @ [ud_ssid_len u] @ ud_pwd u @ [ud_pwd_len u] @ ud_bssid u @
     [cloud_select u, server_ip_len u] @ server_ip u @ [factory_get_rssi_flag u] @ factory_get_rssi_name u @
     [download_license_mode u, license_mode_in u, check_license_mode u, reboot_check_license_mode_tick u] @
     ota_test_url u @ ud_pad u @ u32_bytes (ota_test_all_num u) @ u32_bytes (ota_test_success_num u)"

definition user_of :: "bytes \<Rightarrow> ya_user_data_t" where
  "user_of b =
     \<lparr>ud_mode = b ! 0, ud_ssid = take 33 (drop 1 b), ud_ssid_len = b ! 34, ud_pwd = take 65 (drop 35 b),
      ud_pwd_len = b ! 100, ud_bssid = take 6 (drop 101 b), cloud_select = b ! 107, server_ip_len = b ! 108,
      server_ip = take 6 (drop 109 b), factory_get_rssi_flag = b ! 115,
      factory_get_rssi_name = take 33 (drop 116 b), download_license_mode = b ! 149, license_mode_in = b ! 150,
      check_license_mode = b ! 151, reboot_check_license_mode_tick = b ! 152, ota_test_url = take 400 (drop 153 b),
      ud_pad = take 3 (drop 553 b), ota_test_all_num = u32_at b 556, ota_test_success_num = u32_at b 560\<rparr>"

definition USER_SIZE :: nat where "USER_SIZE = 564"

definition user_zero :: ya_user_data_t where
  "user_zero = user_of (replicate USER_SIZE 0)"

definition ya_save_user_data :: "'a app_scheme \<Rightarrow> (int \<times> 'a app_scheme) option" where
  "ya_save_user_data s = do {
     (ret, s) \<leftarrow> ya_write_flash YA_USER_DATA_BACK_ADDR (user_bytes (ya_user_data s)) USER_SIZE 1 s;
     (ret1, s) \<leftarrow> ya_write_flash YA_USER_DATA_ADDR (user_bytes (ya_user_data s)) USER_SIZE 1 s;
     Some (if ret \<noteq> 0 \<or> ret1 \<noteq> 0 then C_ERROR else C_OK, s) }"

text \<open>A record shorter than the struct is copied over the cleared struct.\<close>

definition user_copied :: "bytes \<Rightarrow> ya_user_data_t" where
  "user_copied d = user_of (d @ replicate (USER_SIZE - length d) 0)"

definition credentials_bad :: "ya_user_data_t \<Rightarrow> bool" where
  "credentials_bad u \<longleftrightarrow>
     ud_mode u = CONNECT_MODE \<and> (ud_ssid_len u = 0 \<or> ud_ssid_len u > 32 \<or> ud_pwd_len u > 64 \<or> ud_ssid u ! 0 = 0)"

definition init_user_data :: "'a app_scheme \<Rightarrow> 'a app_scheme option" where
  "init_user_data s = do {
     (_, s) \<leftarrow> ya_save_user_data (s\<lparr>ya_user_data := user_zero\<lparr>ud_mode := ya_init_mode (ya_app_main_para_obj s)\<rparr>\<rparr>);
     Some s }"

text \<open>The two copies: the data read, \<open>None\<close> on an error of both, and the state with the repaired main copy.\<close>

definition read_copies :: "'a app_scheme \<Rightarrow> (ya_user_data_t option \<times> 'a app_scheme) option" where
  "read_copies s = do {
     (ret, d) \<leftarrow> ya_read_flash_with_fix_len YA_USER_DATA_ADDR USER_SIZE 1 s;
     if ret \<noteq> 0 then do {
       (ret, d) \<leftarrow> ya_read_flash_with_fix_len YA_USER_DATA_BACK_ADDR USER_SIZE 1 s;
       if ret \<noteq> 0 then Some (None, s)
       else do {
         (_, s) \<leftarrow> ya_write_flash YA_USER_DATA_ADDR (user_bytes (user_copied d)) USER_SIZE 1 s;
         Some (Some (user_copied d), s) } }
     else Some (Some (user_copied d), s) }"

definition ya_read_user_data :: "'a app_scheme \<Rightarrow> 'a app_scheme option" where
  "ya_read_user_data s = do {
     (r, s) \<leftarrow> read_copies s;
     case r of
       Some u \<Rightarrow> if credentials_bad u then init_user_data s else Some (s\<lparr>ya_user_data := u\<rparr>)
     | None \<Rightarrow> init_user_data s }"

section \<open>Test modes\<close>

definition queue_send :: "app_msg \<Rightarrow> 'a app_scheme \<Rightarrow> int \<times> 'a app_scheme" where
  "queue_send m s =
     (if length (ya_main_msg_queue s) < MSG_QUEUE_LENGTH
      then (C_OK, s\<lparr>ya_main_msg_queue := ya_main_msg_queue s @ [m]\<rparr>) else (C_ERROR, s))"

text \<open>A copy of the string is queued; a failed allocation is not noticed and the null pointer is written.\<close>

definition queue_string :: "ya_app_main_queue_type_t \<Rightarrow> bytes \<Rightarrow> 'a app_scheme \<Rightarrow> (int \<times> 'a app_scheme) option" where
  "queue_string t str s = do {
     n \<leftarrow> strlen str;
     pbuf \<leftarrow> mem_alloc s (n + 1);
     pbuf \<leftarrow> memset pbuf 0 (n + 1);
     pbuf \<leftarrow> strcpy pbuf str;
     Some (queue_send (t, Some pbuf) s) }"

definition ya_set_enter_ota_test_mode :: "bytes \<Rightarrow> 'a app_scheme \<Rightarrow> (int \<times> 'a app_scheme) option" where
  "ya_set_enter_ota_test_mode url s = queue_string YA_SET_OTA_TEST url s"

definition ya_set_enter_ota_test_mode_internal :: "bytes \<Rightarrow> 'a app_scheme \<Rightarrow> 'a app_scheme option" where
  "ya_set_enter_ota_test_mode_internal url s = do {
     b \<leftarrow> memset (ota_test_url (ya_user_data s)) 0 400;
     str \<leftarrow> cstr url;
     b \<leftarrow> memcpy_at b 0 str;
     (_, s) \<leftarrow> ya_save_user_data (s\<lparr>ya_user_data := (ya_user_data s)\<lparr>ota_test_url := b\<rparr>\<rparr>);
     Some (ya_hal_sys_reboot s) }"

definition ya_check_enter_ota_test_mode :: "'a app_scheme \<Rightarrow> int option" where
  "ya_check_enter_ota_test_mode s = do {
     n \<leftarrow> strlen (ota_test_url (ya_user_data s)); Some (if n \<noteq> 0 then 1 else 0) }"

definition ya_cal_ota_test_num :: "u8 \<Rightarrow> 'a app_scheme \<Rightarrow> 'a app_scheme option" where
  "ya_cal_ota_test_num ota_flag s =
     (let u = ya_user_data s;
          u = u\<lparr>ota_test_all_num := ota_test_all_num u + 1\<rparr>;
          u = (if ota_flag = 1 then u\<lparr>ota_test_success_num := ota_test_success_num u + 1\<rparr> else u)
      in do { (_, s) \<leftarrow> ya_save_user_data (s\<lparr>ya_user_data := u\<rparr>); Some s })"

definition ya_set_exit_ota_test_mode :: "'a app_scheme \<Rightarrow> 'a app_scheme option" where
  "ya_set_exit_ota_test_mode s = do {
     s \<leftarrow> ya_read_user_data s;
     n \<leftarrow> strlen (ota_test_url (ya_user_data s));
     if n \<noteq> 0 then do {
       b \<leftarrow> memset (ota_test_url (ya_user_data s)) 0 400;
       (_, s) \<leftarrow> ya_save_user_data (s\<lparr>ya_user_data := (ya_user_data s)
                 \<lparr>ota_test_url := b, ota_test_all_num := 0, ota_test_success_num := 0\<rparr>\<rparr>);
       Some (ya_hal_sys_reboot s) }
     else Some s }"

definition ya_get_ota_test_mode_url :: "'a app_scheme \<Rightarrow> bytes option option" where
  "ya_get_ota_test_mode_url s = do {
     n \<leftarrow> strlen (ota_test_url (ya_user_data s));
     Some (if n \<noteq> 0 then Some (ota_test_url (ya_user_data s)) else None) }"

definition ya_set_factory_rssi_info :: "bytes \<Rightarrow> 'a app_scheme \<Rightarrow> (int \<times> 'a app_scheme) option" where
  "ya_set_factory_rssi_info rssi_name s = queue_string YA_SET_SCAN_RSSI rssi_name s"

definition ya_set_factory_rssi_info_internal :: "bytes \<Rightarrow> 'a app_scheme \<Rightarrow> 'a app_scheme option" where
  "ya_set_factory_rssi_info_internal buf s = do {
     b \<leftarrow> memset (factory_get_rssi_name (ya_user_data s)) 0 33;
     str \<leftarrow> cstr buf;
     b \<leftarrow> memcpy_at b 0 str;
     (_, s) \<leftarrow> ya_save_user_data (s\<lparr>ya_user_data := (ya_user_data s)
               \<lparr>factory_get_rssi_flag := 1, factory_get_rssi_name := b\<rparr>\<rparr>);
     Some (ya_hal_sys_reboot s) }"

section \<open>Clouds\<close>

text \<open>An \<open>int32_t\<close> result and the state, in which the cloud type may have been replaced.\<close>

definition ya_check_cloud_support :: "world \<Rightarrow> u8 \<Rightarrow> 'a app_scheme \<Rightarrow> (int \<times> 'a app_scheme) option" where
  "ya_check_cloud_support w save_cloud_type s =
     (let ct = ucast (save_cloud_type - 1) :: u32; para = ya_app_main_para_obj s
      in if ct \<ge> WIFI_MAX then Some (-1, s)
         else if cloud_type para = AKEETA_CN \<and> ct \<noteq> WIFI_CN \<or> cloud_type para = AKEETA_OVERSEA \<and> ct = WIFI_CN
         then Some (-1, s)
         else
           let s = s\<lparr>ya_app_main_para_obj := para\<lparr>cloud_type := ct\<rparr>\<rparr>;
               (product_key, client_id) =
                 (if ct = 0 then (ya_aly_get_thing_name w, ya_aly_get_client_id w)
                  else (ya_aws_get_thing_type s, ya_aws_get_client_id s))
           in case (product_key, client_id) of
                (Some pk, Some ci) \<Rightarrow> do {
                  m \<leftarrow> strlen pk;
                  n \<leftarrow> (if m = 0 then Some 0 else strlen ci);
                  Some (if m = 0 \<or> n = 0 then -1 else 0, s) }
              | _ \<Rightarrow> Some (-1, s))"

definition ya_wifi_cloud_support :: "world \<Rightarrow> 'a app_scheme \<Rightarrow> 'a app_scheme" where
  "ya_wifi_cloud_support w s =
     (let cn = (if ya_aly_get_thing_name w \<noteq> None \<and> ya_aly_get_client_id w \<noteq> None then push_bit (unat WIFI_CN) 1 else 0);
          aws = (if ya_aws_get_thing_type s \<noteq> None \<and> ya_aws_get_client_id s \<noteq> None then AWS_DOMAIN_SUPPORT else 0);
          ct = cloud_type (ya_app_main_para_obj s)
      in s\<lparr>ya_wifiCloud := if ct = AKEETA_CN then cn else if ct = AKEETA_OVERSEA then aws else cn + aws\<rparr>)"

text \<open>\<open>CloudStart\<close> stands for the creation of the cloud client, the registration of its two listeners and its start.
  The licence of the other cloud is freed; a client or an OTA task that does not start reboots the module.\<close>

definition ya_start_cloud_apps :: "world \<Rightarrow> u8 \<Rightarrow> 'a app_scheme \<Rightarrow> 'a app_scheme" where
  "ya_start_cloud_apps w ct s =
     (let s = (if ucast ct = WIFI_CN then snd (ya_aws_para_free s) else snd (ya_aliyun_para_free s));
          s = app_emit (CloudStart (ucast ct)) s
      in if w_cloud_start w \<noteq> C_OK then ya_hal_sys_reboot s
         else let s = app_emit OtaStart s
              in if w_ota_start w \<noteq> C_OK then ya_hal_sys_reboot s else s)"

definition ya_start_other_apps :: "world \<Rightarrow> 'a app_scheme \<Rightarrow> 'a app_scheme" where
  "ya_start_other_apps w s =
     (let para = ya_app_main_para_obj s;
          s = (if enable_factory_uart para
               then let s = app_emit UartStart s in if w_uart_start w \<noteq> C_OK then ya_hal_sys_reboot s else s
               else s)
      in if rebooted s then s
         else let s = app_emit HardwareStart s
              in if w_hardware_start w \<noteq> C_OK then ya_hal_sys_reboot s
                 else if ya_app_state s = YA_APP_TO_CONNECT \<and> cloud_type para < WIFI_MAX
                 then ya_start_cloud_apps w (ucast (cloud_type para)) s else s)"

section \<open>Pairing\<close>

record ya_ap_router_para_t =
  router_ssid :: bytes
  router_pwd :: bytes
  router_bssid :: bytes
  router_random :: bytes
  router_cloud_type :: u8

record smnt_result_t =
  smnt_result_status :: nat
  sm_ssid_len :: u8
  sm_password_len :: u8
  sm_ssid :: bytes
  sm_password :: bytes
  sm_bssid :: bytes
  sm_cloud_select :: u8
  sm_rand :: bytes

definition SOFTAP_CONFIG_FINISH :: u8 where "SOFTAP_CONFIG_FINISH = 0"
definition smnt_result_ok :: nat where "smnt_result_ok = 0"

text \<open>The user data both callbacks build, and the random number they keep.\<close>

definition paired :: "bytes \<Rightarrow> bytes \<Rightarrow> bytes \<Rightarrow> u8 \<Rightarrow> bytes \<Rightarrow> 'a app_scheme \<Rightarrow> 'a app_scheme option" where
  "paired sd pw bs ct rnd s =
     (let u = user_zero in do {
        b1 \<leftarrow> memcpy_at (ud_ssid u) 0 sd;
        b2 \<leftarrow> memcpy_at (ud_pwd u) 0 pw;
        b3 \<leftarrow> memcpy_at (ud_bssid u) 0 bs;
        r \<leftarrow> strcpy (replicate 33 0) rnd;
        Some (s\<lparr>ya_user_data := u\<lparr>ud_mode := CONNECT_MODE, ud_ssid := b1, ud_ssid_len := of_nat (length sd),
                  ud_pwd := b2, ud_pwd_len := of_nat (length pw), ud_bssid := b3, cloud_select := ct + 1\<rparr>,
                config_random_num := r\<rparr>) })"

definition ya_softap_callback :: "u8 \<Rightarrow> ya_ap_router_para_t \<Rightarrow> 'a app_scheme \<Rightarrow> 'a app_scheme option" where
  "ya_softap_callback errorcode p s =
     (if errorcode = SOFTAP_CONFIG_FINISH then do {
        sd \<leftarrow> cstr (router_ssid p);
        if sd = [] \<or> length sd > 32 then Some (snd (queue_send (YA_AP_CONFIG_FAIL, None) s))
        else do {
          pw \<leftarrow> cstr (router_pwd p);
          if length pw > 64 then Some (snd (queue_send (YA_AP_CONFIG_FAIL, None) s))
          else do {
            bs \<leftarrow> slice (router_bssid p) 0 6;
            s \<leftarrow> paired sd pw bs (router_cloud_type p) (router_random p) s;
            Some (snd (queue_send (YA_AP_CONFIG_SUCCESS, None) s)) } } }
      else Some (snd (queue_send (YA_AP_CONFIG_FAIL, None) s)))"

definition ya_smart_config_result_callback :: "smnt_result_t \<Rightarrow> 'a app_scheme \<Rightarrow> 'a app_scheme option" where
  "ya_smart_config_result_callback r s =
     (if smnt_result_status r \<noteq> smnt_result_ok then Some (snd (queue_send (YA_SNIFFER_FAIL, None) s))
      else do {
        c \<leftarrow> rd (sm_ssid r) 0;
        if sm_ssid_len r = 0 \<or> sm_ssid_len r > 32 \<or> sm_password_len r > 64 \<or> c = 0
        then Some (snd (queue_send (YA_SNIFFER_FAIL, None) s))
        else do {
          sd \<leftarrow> slice (sm_ssid r) 0 (unat (sm_ssid_len r));
          pw \<leftarrow> slice (sm_password r) 0 (unat (sm_password_len r));
          bs \<leftarrow> slice (sm_bssid r) 0 6;
          s \<leftarrow> paired sd pw bs (sm_cloud_select r) (sm_rand r) s;
          Some (snd (queue_send (YA_SNIFFER_SUCCESS, None) s)) } })"

datatype ya_hal_wlan_event_t =
  YA_HAL_EVT_LINK_LOST | YA_HAL_EVT_STA_CONNECT_SUCCESS | YA_HAL_EVT_STA_CONNECT_FAILED
| YA_HAL_EVT_AP_START_SUCCESS | YA_HAL_EVT_AP_START_FAILED

definition ya_app_wlan_event_callback :: "ya_hal_wlan_event_t \<Rightarrow> 'a app_scheme \<Rightarrow> int \<times> 'a app_scheme" where
  "ya_app_wlan_event_callback ev s =
     (case ev of
        YA_HAL_EVT_LINK_LOST \<Rightarrow> (C_OK, snd (queue_send (YA_LINK_LOST, None) s))
      | YA_HAL_EVT_STA_CONNECT_SUCCESS \<Rightarrow> (C_OK, snd (queue_send (YA_CONNECT_SUCCESS, None) s))
      | YA_HAL_EVT_STA_CONNECT_FAILED \<Rightarrow> (C_OK, snd (queue_send (YA_CONNECT_FAIL, None) s))
      | _ \<Rightarrow> (C_ERROR, s))"

section \<open>Modes\<close>

definition ya_set_sniffer_ap_mode :: "'a app_scheme \<Rightarrow> 'a app_scheme" where
  "ya_set_sniffer_ap_mode s = s\<lparr>sniffer_ap_mode := True\<rparr>"

definition ya_get_sniffer_ap_mode :: "'a app_scheme \<Rightarrow> bool" where
  "ya_get_sniffer_ap_mode s = sniffer_ap_mode s"

definition first_mode :: "u8 \<Rightarrow> u8" where
  "first_mode init = (if init = SNIFFER_MODE then SNIFFER_MODE else if init = AP_MODE then AP_MODE else AP_MODE)"

definition other_mode :: "u8 \<Rightarrow> u8 \<Rightarrow> u8" where
  "other_mode init m = (if m = SNIFFER_MODE then AP_MODE else if m = AP_MODE then SNIFFER_MODE else first_mode init)"

definition start_state :: "u8 \<Rightarrow> ya_app_status_t" where
  "start_state m =
     (if m = AP_MODE then YA_APP_AP_START
      else if m = SNIFFER_MODE then YA_APP_SNIFFER_START
      else if m = CONNECT_MODE then YA_APP_TO_CONNECT
      else if m = IDLE_MODE then YA_APP_IDLE
      else YA_APP_SNIFFER_START)"

definition ya_init_start_mode :: "'a app_scheme \<Rightarrow> 'a app_scheme option" where
  "ya_init_start_mode s = do {
     s \<leftarrow> (if ya_get_sniffer_ap_mode s
          then let u = ya_user_data s; m = other_mode (ya_init_mode (ya_app_main_para_obj s)) (ud_mode u)
               in do { (_, s) \<leftarrow> ya_save_user_data (s\<lparr>ya_user_data := u\<lparr>ud_mode := m\<rparr>\<rparr>); Some s }
          else Some s);
     Some (s\<lparr>ya_app_state := start_state (ud_mode (ya_user_data s))\<rparr>) }"

definition ya_erase_all_user_data :: "'a app_scheme \<Rightarrow> 'a app_scheme" where
  "ya_erase_all_user_data s =
     (let s = snd (ya_erase_flash YA_USER_DATA_BACK_ADDR USER_SIZE s);
          s = snd (ya_erase_flash YA_USER_DATA_ADDR USER_SIZE s);
          s = snd (ya_erase_flash YA_OTA_DATA_ADDR 0x1000 s)
      in snd (ya_erase_flash YA_DEVICE_TIMER_ADDR 0x1000 s))"

definition ya_set_idle_internal :: "'a app_scheme \<Rightarrow> 'a app_scheme option" where
  "ya_set_idle_internal s = do {
     (_, s) \<leftarrow> ya_save_user_data (s\<lparr>ya_user_data := (ya_user_data s)\<lparr>ud_mode := IDLE_MODE\<rparr>\<rparr>); Some s }"

definition toggled_mode :: "ya_app_status_t \<Rightarrow> u8 \<Rightarrow> u8" where
  "toggled_mode st init =
     (if st = YA_APP_SNIFFER_START \<or> st = YA_APP_SNIFFER then AP_MODE
      else if st = YA_APP_AP_START \<or> st = YA_APP_AP_STATE then SNIFFER_MODE
      else first_mode init)"

definition ya_set_mode_internal :: "world \<Rightarrow> u8 \<Rightarrow> bool \<Rightarrow> 'a app_scheme \<Rightarrow> 'a app_scheme option" where
  "ya_set_mode_internal w obj_mode flag s =
     (let para = ya_app_main_para_obj s;
          m = (if flag then toggled_mode (ya_app_state s) (ya_init_mode para) else obj_mode)
      in do {
        (_, s) \<leftarrow> ya_save_user_data (s\<lparr>ya_user_data := user_zero\<lparr>ud_mode := m\<rparr>\<rparr>);
        let s = snd (ya_erase_flash YA_OTA_DATA_ADDR 0x1000 s);
            s = (if enable_debind para
                 then let s = snd (ya_erase_flash YA_DEVICE_TIMER_ADDR 0x1000 s)
                      in if w_cloud_status w then app_emit CloudUnregister s else s
                 else s)
        in Some (ya_hal_sys_reboot s) })"

definition ya_set_ap_mode :: "'a app_scheme \<Rightarrow> int \<times> 'a app_scheme" where
  "ya_set_ap_mode s = queue_send (YA_CHANGE_AP_MODE, None) s"

definition ya_set_sniffer_mode :: "'a app_scheme \<Rightarrow> int \<times> 'a app_scheme" where
  "ya_set_sniffer_mode s = queue_send (YA_CHANGE_SNIFFER_MODE, None) s"

definition ya_set_idle_next_reboot :: "'a app_scheme \<Rightarrow> int \<times> 'a app_scheme" where
  "ya_set_idle_next_reboot s = queue_send (YA_CHANGE_IDLE_NEXT_REBOOT, None) s"

definition ya_set_toggle_mode :: "bool \<Rightarrow> 'a app_scheme \<Rightarrow> int \<times> 'a app_scheme" where
  "ya_set_toggle_mode change_with_power_on s =
     (if change_with_power_on then (C_OK, ya_set_sniffer_ap_mode s)
      else queue_send (YA_CHANGE_TOGGLE_MODE, None) s)"

definition ya_reset_module_to_factory_internal :: "'a app_scheme \<Rightarrow> 'a app_scheme" where
  "ya_reset_module_to_factory_internal s = ya_hal_sys_reboot (ya_erase_all_user_data s)"

definition ya_reset_module_to_factory :: "'a app_scheme \<Rightarrow> int \<times> 'a app_scheme" where
  "ya_reset_module_to_factory s = queue_send (YA_FACTORY_MODE, None) s"

section \<open>Small accessors\<close>

text \<open>The version strings are copied to arrays of the caller.\<close>

definition ya_get_ver_string :: "bytes \<Rightarrow> 'a app_scheme \<Rightarrow> bytes option" where
  "ya_get_ver_string obj s = strcpy obj (cur_version (ya_app_main_para_obj s))"

definition ya_get_mcu_ver_string :: "bytes \<Rightarrow> 'a app_scheme \<Rightarrow> bytes option" where
  "ya_get_mcu_ver_string obj s = strcpy obj (mcu_version (ya_app_main_para_obj s))"

definition MCU_MAX_VERSION_LEN :: nat where "MCU_MAX_VERSION_LEN = 64"

definition ya_set_mcu_ver_string :: "bytes \<Rightarrow> 'a app_scheme \<Rightarrow> 'a app_scheme option" where
  "ya_set_mcu_ver_string obj s = do {
     n \<leftarrow> strlen obj;
     if n \<le> MCU_MAX_VERSION_LEN then do {
       v \<leftarrow> strcpy (mcu_version (ya_app_main_para_obj s)) obj;
       Some (s\<lparr>ya_app_main_para_obj := (ya_app_main_para_obj s)\<lparr>mcu_version := v\<rparr>\<rparr>) }
     else Some s }"

definition ya_get_randomnum :: "bytes \<Rightarrow> 'a app_scheme \<Rightarrow> (int \<times> bytes) option" where
  "ya_get_randomnum num s = do {
     c \<leftarrow> rd (config_random_num s) 0;
     if c = 0 then Some (-1, num) else do { num \<leftarrow> strcpy num (config_random_num s); Some (0, num) } }"

definition ya_clear_randomnum :: "'a app_scheme \<Rightarrow> 'a app_scheme" where
  "ya_clear_randomnum s = s\<lparr>config_random_num := replicate 33 0\<rparr>"

definition ya_get_debind_enable :: "'a app_scheme \<Rightarrow> bool" where
  "ya_get_debind_enable s = debine_enable s"

definition ya_debind_enable :: "'a app_scheme \<Rightarrow> 'a app_scheme" where
  "ya_debind_enable s = s\<lparr>debine_enable := True\<rparr>"

definition ya_debind_disable :: "'a app_scheme \<Rightarrow> 'a app_scheme" where
  "ya_debind_disable s = s\<lparr>debine_enable := False\<rparr>"

section \<open>Factory scans\<close>

definition TEST_WIFI_1_SSID :: bytes where "TEST_WIFI_1_SSID = ascii ''akeeta_mdev_test1''"
definition TEST_WIFI_2_SSID :: bytes where "TEST_WIFI_2_SSID = ascii ''akeeta_mdev_test2''"

text \<open>The loop at the label \<open>Rescan\<close>; \<open>k\<close> is \<open>scan_specific_ssid_flag\<close>, at most five scans are made.\<close>

function rescan :: "world \<Rightarrow> bytes \<Rightarrow> nat \<Rightarrow> 'a app_scheme \<Rightarrow> int \<times> 'a app_scheme" where
  "rescan w name k s =
     (let s = app_emit (ScanFor [name]) s; (ret, found, rssi) = w_rssi_scan w k
      in if ret = 0 then
           (if found = 1
            then (0, (app_emit (AtRsp (ascii ''rsp:-'' @ ya_int_to_string (word_of_int (- rssi)))) s)\<lparr>enter_get_rssi_mode := False\<rparr>)
            else (-1, s))
         else if k + 1 < 5 then rescan w name (k + 1) s
         else (-1, app_emit (AtRsp (ascii ''rsp:ERROR'')) s))"
  by pat_completeness auto
termination
  by (relation "measure (\<lambda>(w, name, k, s). 5 - k)") auto

declare rescan.simps [simp del]

definition ya_enter_scan_specific_ssid_rssi_mode :: "world \<Rightarrow> 'a app_scheme \<Rightarrow> (int \<times> 'a app_scheme) option" where
  "ya_enter_scan_specific_ssid_rssi_mode w s = do {
     name \<leftarrow> cstr (factory_get_rssi_name (ya_user_data s));
     Some (rescan w name 0 s) }"

definition ya_check_enter_factory_mode :: "world \<Rightarrow> 'a app_scheme \<Rightarrow> int \<times> 'a app_scheme" where
  "ya_check_enter_factory_mode w s =
     (if enter_get_rssi_mode s then (-1, s)
      else let s = app_emit (ScanFor [TEST_WIFI_1_SSID, TEST_WIFI_2_SSID]) s;
               (ret, (found1, rssi1), (found2, rssi2)) = w_factory_scan w
           in if ret = 0 \<and> (found1 = 1 \<or> found2 = 1)
              then (0, app_emit (Router MODLUE_FACTORY_TEST [found1, rssi1, found2, rssi2]) s)
              else (-1, s))"

section \<open>The task\<close>

definition announce :: "'a app_scheme \<Rightarrow> 'a app_scheme" where
  "announce s =
     (if ya_app_state s = YA_APP_IDLE then app_emit (Router MODULE_IDLE []) s
      else if ya_app_state s = YA_APP_SNIFFER_START then app_emit (Router MODULE_SNIFFER []) s
      else if ya_app_state s = YA_APP_AP_START then app_emit (Router MODULE_AP []) s
      else if ya_app_state s = YA_APP_TO_CONNECT then app_emit (Router MODULE_CONNECTING []) s
      else s)"

text \<open>The strength test asked for before the last reboot.\<close>

definition rssi_test :: "world \<Rightarrow> 'a app_scheme \<Rightarrow> 'a app_scheme option" where
  "rssi_test w s =
     (if factory_get_rssi_flag (ya_user_data s) = 1 then do {
        (_, s) \<leftarrow> ya_enter_scan_specific_ssid_rssi_mode w
                   (s\<lparr>ya_app_main_para_obj := (ya_app_main_para_obj s)\<lparr>enable_factory_router_scan := False\<rparr>\<rparr>);
        (_, s) \<leftarrow> ya_save_user_data (s\<lparr>ya_user_data := (ya_user_data s)
                  \<lparr>factory_get_rssi_flag := 0, factory_get_rssi_name := replicate 33 0\<rparr>\<rparr>);
        Some s }
      else Some s)"

text \<open>\<open>ya_app_main\<close> up to its loop.\<close>

definition select_cloud :: "'a app_scheme \<Rightarrow> 'a app_scheme" where
  "select_cloud s =
     (if ya_app_state s = YA_APP_TO_CONNECT
      then let ct = ucast (cloud_select (ya_user_data s)) - 1
           in s\<lparr>ya_app_main_para_obj := (ya_app_main_para_obj s)\<lparr>cloud_type := if ct \<ge> WIFI_MAX then WIFI_CN else ct\<rparr>\<rparr>
      else s)"

definition enter_loop :: "world \<Rightarrow> 'a app_scheme \<Rightarrow> 'a app_scheme" where
  "enter_loop w s =
     (let para = ya_app_main_para_obj s;
          s = (if enable_low_power para then s else app_emit DisablePowerSaving s);
          s = s\<lparr>debine_enable := \<not> (ya_app_state s = YA_APP_TO_CONNECT \<or> \<not> enable_debind para)\<rparr>;
          s = ya_clear_randomnum s
      in if enable_factory_router_scan para
         then let (ret, s) = ya_check_enter_factory_mode w s
              in if ret = 0 then s\<lparr>ya_app_state := YA_APP_FACTORY_TEST\<rparr> else s
         else s)"

definition ya_app_main_init :: "world \<Rightarrow> 'a app_scheme \<Rightarrow> 'a app_scheme option" where
  "ya_app_main_init w s =
     (let s = s\<lparr>link_connect := False, ya_sniffer_broadcast_enable := INIT_MODE,
               wait_coonnect_router_start_timer := 0, reconnect_count := 0\<rparr>;
          s = app_emit WlanStart (announce (select_cloud (ya_wifi_cloud_support w s)))
      in do {
        s \<leftarrow> rssi_test w s;
        let s = ya_start_other_apps w s
        in if rebooted s then Some s
           else if w_wdt w \<noteq> C_OK then Some (ya_hal_sys_reboot s)
           else Some (enter_loop w s) })"

text \<open>The state machine: what is done at the head of the loop.\<close>

definition connect_router :: "world \<Rightarrow> 'a app_scheme \<Rightarrow> 'a app_scheme option" where
  "connect_router w s =
     (let s = app_emit (Router MODULE_CONNECTING []) s; u = ya_user_data s in do {
        a \<leftarrow> slice (ud_ssid u) 0 (unat (ud_ssid_len u));
        sd \<leftarrow> memcpy_at (replicate 33 0) 0 a;
        a \<leftarrow> slice (ud_pwd u) 0 (unat (ud_pwd_len u));
        pw \<leftarrow> memcpy_at (replicate 65 0) 0 a;
        bs \<leftarrow> slice (ud_bssid u) 0 6;
        let s = app_emit (ConnectAp sd pw bs) s
        in if w_connect_ap w \<noteq> C_OK then Some (ya_hal_sys_reboot s)
           else Some (s\<lparr>ya_app_state := YA_APP_CONNECTING\<rparr>) })"

definition reconnect_timer :: "u16 \<Rightarrow> u32" where
  "reconnect_timer n = (if n > 10 then 10000 else 3000)"

definition app_state_step :: "world \<Rightarrow> 'a app_scheme \<Rightarrow> 'a app_scheme option" where
  "app_state_step w s =
     (case ya_app_state s of
        YA_APP_SNIFFER_START \<Rightarrow>
          let s = app_emit (StartSmnt (sniffer_timeout (ya_app_main_para_obj s))) (app_emit (Router MODULE_SNIFFER []) s)
          in if w_start_smnt w \<noteq> C_OK then Some (ya_hal_sys_reboot s)
             else Some (s\<lparr>ya_app_state := YA_APP_SNIFFER\<rparr>)
      | YA_APP_AP_START \<Rightarrow>
          let para = ya_app_main_para_obj s;
              s = app_emit (StartSoftap (ap_timeout para) (cloud_type para)) (app_emit (Router MODULE_AP []) s)
          in Some (s\<lparr>ya_app_state := YA_APP_AP_STATE\<rparr>)
      | YA_APP_TO_CONNECT \<Rightarrow> connect_router w s
      | YA_APP_WAIT_TO_CONNECT \<Rightarrow>
          if ya_timer_compare (wait_coonnect_router_start_timer s) (w_msec w) (reconnect_timer (reconnect_count s)) = C_OK
          then Some (app_emit SetStaMode (s\<lparr>reconnect_count := reconnect_count s + 1, ya_app_state := YA_APP_TO_CONNECT\<rparr>))
          else Some s
      | _ \<Rightarrow> Some s)"

text \<open>Both pairing results are handled alike, but only smart configuration enables the broadcast.\<close>

definition pairing_done :: "world \<Rightarrow> 'a app_scheme \<Rightarrow> 'a app_scheme option" where
  "pairing_done w s = do {
     (_, s) \<leftarrow> ya_save_user_data s;
     let s = app_emit ClearTimerFlash s in do {
     (ret, s) \<leftarrow> ya_check_cloud_support w (cloud_select (ya_user_data s)) s;
     let s = (if ret = 0 then ya_start_cloud_apps w (ucast (cloud_type (ya_app_main_para_obj s))) s
              else s\<lparr>support_cloud := False\<rparr>)
     in Some (if rebooted s then s else app_emit SetStaMode (s\<lparr>ya_app_state := YA_APP_TO_CONNECT\<rparr>)) } }"

definition pairing_failed :: "'a app_scheme \<Rightarrow> 'a app_scheme" where
  "pairing_failed s = app_emit (Router MODULE_IDLE []) (app_emit SetStaMode (s\<lparr>ya_app_state := YA_APP_IDLE\<rparr>))"

text \<open>The messages with a string carry it in every send of the firmware; the null pointer would be undefined.\<close>

definition app_handle_msg :: "world \<Rightarrow> app_msg \<Rightarrow> 'a app_scheme \<Rightarrow> 'a app_scheme option" where
  "app_handle_msg w m s =
     (case fst m of
        YA_SNIFFER_SUCCESS \<Rightarrow> do {
          s \<leftarrow> pairing_done w s;
          Some (if rebooted s then s else s\<lparr>ya_sniffer_broadcast_enable := SNIFFER_SUCCESS\<rparr>) }
      | YA_SNIFFER_FAIL \<Rightarrow> Some (pairing_failed s)
      | YA_CONNECT_SUCCESS \<Rightarrow>
          let s = app_emit (Router MODLUE_CONNECT []) (s\<lparr>reconnect_count := 0\<rparr>);
              s = s\<lparr>ya_app_state := YA_APP_CONNECTED, link_connect := True\<rparr>
          in Some (if ya_sniffer_broadcast_enable s = SNIFFER_SUCCESS
                   then app_emit StartBroadcast (s\<lparr>ya_sniffer_broadcast_enable := BROADCAST_WAIT\<rparr>) else s)
      | YA_CONNECT_FAIL \<Rightarrow>
          Some (app_emit WlanStop (s\<lparr>ya_app_state := YA_APP_WAIT_TO_CONNECT, wait_coonnect_router_start_timer := w_msec w\<rparr>))
      | YA_AP_CONFIG_SUCCESS \<Rightarrow> pairing_done w s
      | YA_AP_CONFIG_FAIL \<Rightarrow> Some (pairing_failed s)
      | YA_CHANGE_TOGGLE_MODE \<Rightarrow> ya_set_mode_internal w 0 True s
      | YA_CHANGE_AP_MODE \<Rightarrow> ya_set_mode_internal w AP_MODE False s
      | YA_CHANGE_SNIFFER_MODE \<Rightarrow> ya_set_mode_internal w SNIFFER_MODE False s
      | YA_FACTORY_MODE \<Rightarrow> Some (ya_reset_module_to_factory_internal s)
      | YA_CHANGE_IDLE_NEXT_REBOOT \<Rightarrow> ya_set_idle_internal s
      | YA_LINK_LOST \<Rightarrow>
          Some (if link_connect s then s\<lparr>ya_app_state := YA_APP_TO_CONNECT, link_connect := False\<rparr> else s)
      | YA_SET_SCAN_RSSI \<Rightarrow> do { b \<leftarrow> snd m; ya_set_factory_rssi_info_internal b s }
      | YA_SET_OTA_TEST \<Rightarrow> do { b \<leftarrow> snd m; ya_set_enter_ota_test_mode_internal b s })"

text \<open>One round of the loop.\<close>

definition app_turn :: "world \<Rightarrow> 'a app_scheme \<Rightarrow> 'a app_scheme option" where
  "app_turn w s =
     (if rebooted s then Some s
      else do {
        s \<leftarrow> app_state_step w s;
        if rebooted s then Some s
        else case ya_main_msg_queue s of [] \<Rightarrow> Some s
             | m # ms \<Rightarrow> app_handle_msg w m (s\<lparr>ya_main_msg_queue := ms\<rparr>) })"

text \<open>
  Power on: the globals get their initial values; the product may have asked for a change of mode
  before it starts the task.  Both licences are loaded when the cloud is left open.
\<close>

definition app_power_on :: "'a app_scheme \<Rightarrow> 'a app_scheme" where
  "app_power_on s = s\<lparr>aws_certificateBuff := None, aws_privateKeyBuff := None, aws_client_id := None,
     aws_thing_type := None, aliyun_productkey := None, aliyun_deviceid := None, aliyun_productsecret := None,
     ya_user_data := user_zero, sniffer_ap_mode := False, debine_enable := True, support_cloud := True,
     ya_app_state := YA_APP_IDLE, config_random_num := replicate 33 0, ya_wifiCloud := 0, ya_main_msg_queue := [],
     enter_get_rssi_mode := False, app_events := [], rebooted := False\<rparr>"

definition load_licences :: "'a app_scheme \<Rightarrow> 'a app_scheme option" where
  "load_licences s =
     (if cloud_type (ya_app_main_para_obj s) = AKEETA_OVERSEA then do { (_, s) \<leftarrow> ya_aws_para_init s; Some s }
      else if cloud_type (ya_app_main_para_obj s) = AKEETA_CN then do { (_, s) \<leftarrow> ya_aliyun_para_init s; Some s }
      else do { (_, s) \<leftarrow> ya_aliyun_para_init s; (_, s) \<leftarrow> ya_aws_para_init s; Some s })"

definition ya_start_app_main :: "ya_app_main_para_t \<Rightarrow> 'a app_scheme \<Rightarrow> 'a app_scheme option" where
  "ya_start_app_main para s = do {
     s \<leftarrow> ya_read_user_data (s\<lparr>ya_app_main_para_obj := para\<rparr>);
     s \<leftarrow> ya_init_start_mode s;
     load_licences s }"

text \<open>A start of the module: power on, the product's request, the start and the task up to its loop.\<close>

definition app_boot :: "ya_app_main_para_t \<Rightarrow> world \<Rightarrow> bool \<Rightarrow> 'a app_scheme \<Rightarrow> 'a app_scheme option" where
  "app_boot para w toggle s =
     (let s = app_power_on s; s = (if toggle then snd (ya_set_toggle_mode True s) else s)
      in do { s \<leftarrow> ya_start_app_main para s; ya_app_main_init w s })"

section \<open>The layout of the user data\<close>

definition user_wf :: "ya_user_data_t \<Rightarrow> bool" where
  "user_wf u \<longleftrightarrow> length (ud_ssid u) = 33 \<and> length (ud_pwd u) = 65 \<and> length (ud_bssid u) = 6 \<and>
     length (server_ip u) = 6 \<and> length (factory_get_rssi_name u) = 33 \<and> length (ota_test_url u) = 400 \<and>
     length (ud_pad u) = 3"

lemma u32_roundtrip:
  fixes x :: u32
  shows "ucast (ucast x :: u8) OR push_bit 8 (ucast (ucast (drop_bit 8 x) :: u8)) OR
    push_bit 16 (ucast (ucast (drop_bit 16 x) :: u8)) OR push_bit 24 (ucast (ucast (drop_bit 24 x) :: u8)) = x"
proof (rule bit_eqI)
  fix n
  assume "possible_bit TYPE(u32) n"
  then consider "n < 8" | "8 \<le> n" "n < 16" | "16 \<le> n" "n < 24" | "24 \<le> n" "n < 32" by fastforce
  then show "bit (ucast (ucast x :: u8) OR push_bit 8 (ucast (ucast (drop_bit 8 x) :: u8)) OR
    push_bit 16 (ucast (ucast (drop_bit 16 x) :: u8)) OR push_bit 24 (ucast (ucast (drop_bit 24 x) :: u8)) :: u32) n = bit x n"
    by cases (auto simp: bit_or_iff bit_push_bit_iff bit_ucast_iff bit_drop_bit_eq)
qed

lemma user_bytes_length [simp]: "user_wf u \<Longrightarrow> length (user_bytes u) = USER_SIZE"
  by (simp add: user_wf_def user_bytes_def u32_bytes_def USER_SIZE_def)

lemma user_of_wf [simp]: "length b = USER_SIZE \<Longrightarrow> user_wf (user_of b)"
  by (simp add: user_wf_def user_of_def USER_SIZE_def)

lemma user_zero_wf [simp]: "user_wf user_zero"
  by (simp add: user_zero_def)

lemma user_roundtrip: "user_wf u \<Longrightarrow> user_of (user_bytes u) = u"
  by (simp add: user_wf_def user_of_def user_bytes_def u32_at_def u32_bytes_def u32_roundtrip nth_append)

section \<open>Saving and reading the user data\<close>

abbreviation holds_main :: "'a app_scheme \<Rightarrow> ya_user_data_t \<Rightarrow> bool" where
  "holds_main s u \<equiv> record_at s YA_USER_DATA_ADDR (user_bytes u)"

abbreviation holds_back :: "'a app_scheme \<Rightarrow> ya_user_data_t \<Rightarrow> bool" where
  "holds_back s u \<equiv> record_at s YA_USER_DATA_BACK_ADDR (user_bytes u)"

lemma flash_only: "flash.more t = flash.more s \<Longrightarrow> t = s\<lparr>fl_mem := fl_mem t, fl_rsp := fl_rsp t\<rparr>"
  by simp

lemma board_ok_frame: "board_ok (s\<lparr>fl_mem := m, fl_rsp := r\<rparr>) \<longleftrightarrow> board_ok (s\<lparr>fl_rsp := r\<rparr>)"
  by (simp add: board_ok_def chip_ready_def)

lemma user_bytes_nonempty: "user_bytes u \<noteq> []"
  by (simp add: user_bytes_def)

lemma user_sectors [simp]:
  "YA_USER_DATA_ADDR mod 4096 = 0" "YA_USER_DATA_BACK_ADDR mod 4096 = 0" "YA_USER_DATA_BACK_ADDR \<noteq> YA_USER_DATA_ADDR"
  "YA_USER_DATA_ADDR \<noteq> YA_USER_DATA_BACK_ADDR"
  by (simp_all add: user_addrs)

text \<open>Writing one copy: the record is there, the other sectors are untouched and only the flash has changed.\<close>

lemma write_copy:
  assumes "board_ok s" and "user_wf u" and "a mod 4096 = 0"
  shows "\<exists>t. ya_write_flash a (user_bytes u) USER_SIZE 1 s = Some (0, t) \<and> board_ok t \<and>
     t = s\<lparr>fl_mem := fl_mem t, fl_rsp := fl_rsp t\<rparr> \<and> record_at t a (user_bytes u) \<and>
     (\<forall>x. x < a \<or> a + 4096 \<le> x \<longrightarrow> fl_mem t x = fl_mem s x)"
proof -
  have len: "length (user_bytes u) = USER_SIZE" using assms(2) by simp
  then have "length (user_bytes u) \<le> 4086" by (simp add: USER_SIZE_def)
  from ya_write_one_block [OF assms(1,3) user_bytes_nonempty this, unfolded len] obtain t where
    t: "ya_write_flash a (user_bytes u) USER_SIZE 1 s = Some (0, t)" "board_ok t" "record_at t a (user_bytes u)"
    "\<forall>x. x < a \<or> a + 4096 \<le> x \<longrightarrow> fl_mem t x = fl_mem s x" by blast
  with flash_only [OF ya_write_flash_more [OF t(1)]] show ?thesis by blast
qed

lemma user_record_frame:
  assumes "record_at s b (user_bytes u)" and "user_wf u" and "a mod 4096 = 0" and "b mod 4096 = 0" and "a \<noteq> b"
    and "\<forall>x. x < a \<or> a + 4096 \<le> x \<longrightarrow> fl_mem t x = fl_mem s x"
  shows "record_at t b (user_bytes u)"
  using sector_disjoint [OF assms(3-5)] assms(6)
  by (intro record_at_frame [OF assms(1)]) (auto simp: assms(2) USER_SIZE_def)

lemma save_user_data:
  assumes "board_ok s" and "user_wf (ya_user_data s)"
  shows "\<exists>t. ya_save_user_data s = Some (C_OK, t) \<and> board_ok t \<and> t = s\<lparr>fl_mem := fl_mem t, fl_rsp := fl_rsp t\<rparr> \<and>
     holds_main t (ya_user_data s) \<and> holds_back t (ya_user_data s) \<and>
     (\<forall>x. x < YA_USER_DATA_ADDR \<or> YA_USER_DATA_BACK_ADDR + 4096 \<le> x \<longrightarrow> fl_mem t x = fl_mem s x)"
proof -
  let ?u = "ya_user_data s"
  obtain t1 where t1: "ya_write_flash YA_USER_DATA_BACK_ADDR (user_bytes ?u) USER_SIZE 1 s = Some (0, t1)"
    "board_ok t1" "t1 = s\<lparr>fl_mem := fl_mem t1, fl_rsp := fl_rsp t1\<rparr>" "holds_back t1 ?u"
    "\<forall>x. x < YA_USER_DATA_BACK_ADDR \<or> YA_USER_DATA_BACK_ADDR + 4096 \<le> x \<longrightarrow> fl_mem t1 x = fl_mem s x"
    using write_copy [OF assms user_sectors(2)] by blast
  have u1: "ya_user_data t1 = ?u" by (subst t1(3)) simp
  obtain t2 where t2: "ya_write_flash YA_USER_DATA_ADDR (user_bytes ?u) USER_SIZE 1 t1 = Some (0, t2)"
    "board_ok t2" "t2 = t1\<lparr>fl_mem := fl_mem t2, fl_rsp := fl_rsp t2\<rparr>" "holds_main t2 ?u"
    "\<forall>x. x < YA_USER_DATA_ADDR \<or> YA_USER_DATA_ADDR + 4096 \<le> x \<longrightarrow> fl_mem t2 x = fl_mem t1 x"
    using write_copy [OF t1(2) assms(2) user_sectors(1)] by blast
  have "holds_back t2 ?u"
    using user_record_frame [OF t1(4) assms(2) user_sectors(1,2) user_sectors(4) t2(5)] .
  moreover have "t2 = s\<lparr>fl_mem := fl_mem t2, fl_rsp := fl_rsp t2\<rparr>"
    by (subst t2(3), subst t1(3)) simp
  moreover have "fl_mem t2 x = fl_mem s x" if "x < YA_USER_DATA_ADDR \<or> YA_USER_DATA_BACK_ADDR + 4096 \<le> x" for x
    using that t1(5) t2(5) by (auto simp: YA_USER_DATA_BACK_ADDR_def)
  ultimately show ?thesis using t1(1) t2(1,2,4) u1 by (simp add: ya_save_user_data_def)
qed

lemma read_copy:
  assumes "record_at s a (user_bytes u)" and "user_wf u" and "board_ok s"
  shows "ya_read_flash_with_fix_len a USER_SIZE 1 s = Some (0, user_bytes u)"
  using ya_read_fix_record [OF assms(1), of 1 USER_SIZE] assms(2,3)
  by (simp add: board_ok_def MAX_DATA_LEN_def USER_SIZE_def)

lemma user_copied_bytes: "user_wf u \<Longrightarrow> user_copied (user_bytes u) = u"
  by (simp add: user_copied_def user_roundtrip)

text \<open>What a start finds: the main copy, or the backup when the main copy is refused.\<close>

definition main_refused :: "'a app_scheme \<Rightarrow> bool" where
  "main_refused s \<longleftrightarrow> ya_read_flash_with_fix_len YA_USER_DATA_ADDR USER_SIZE 1 s = Some (-1, [])"

definition keeps_user :: "'a app_scheme \<Rightarrow> ya_user_data_t \<Rightarrow> bool" where
  "keeps_user s u \<longleftrightarrow> holds_main s u \<or> main_refused s \<and> holds_back s u"

lemma read_copies_keeps:
  assumes "board_ok s" and "user_wf u" and "keeps_user s u"
  shows "\<exists>t. read_copies s = Some (Some u, t) \<and> board_ok t \<and> holds_main t u \<and>
     t = s\<lparr>fl_mem := fl_mem t, fl_rsp := fl_rsp t\<rparr> \<and>
     (\<forall>x. x < YA_USER_DATA_ADDR \<or> YA_USER_DATA_ADDR + 4096 \<le> x \<longrightarrow> fl_mem t x = fl_mem s x)"
proof (cases "holds_main s u")
  case True
  then have "read_copies s = Some (Some u, s)"
    using read_copy [OF True assms(2,1)] by (simp add: read_copies_def user_copied_bytes assms(2))
  with True assms(1) show ?thesis by auto
next
  case False
  with assms(3) have r: "main_refused s" "holds_back s u" by (auto simp: keeps_user_def)
  from write_copy [OF assms(1,2) user_sectors(1)] r read_copy [OF r(2) assms(2,1)] show ?thesis
    by (auto simp: read_copies_def main_refused_def user_copied_bytes assms(2))
qed

lemma read_user_data:
  assumes "board_ok s" and "user_wf u" and "keeps_user s u" and "\<not> credentials_bad u"
  shows "\<exists>t. ya_read_user_data s = Some t \<and> board_ok t \<and> holds_main t u \<and>
     t = s\<lparr>fl_mem := fl_mem t, fl_rsp := fl_rsp t, ya_user_data := u\<rparr> \<and>
     (\<forall>x. x < YA_USER_DATA_ADDR \<or> YA_USER_DATA_ADDR + 4096 \<le> x \<longrightarrow> fl_mem t x = fl_mem s x)"
proof -
  from read_copies_keeps [OF assms(1-3)] obtain t where
    t: "read_copies s = Some (Some u, t)" "board_ok t" "holds_main t u" "t = s\<lparr>fl_mem := fl_mem t, fl_rsp := fl_rsp t\<rparr>"
    "\<forall>x. x < YA_USER_DATA_ADDR \<or> YA_USER_DATA_ADDR + 4096 \<le> x \<longrightarrow> fl_mem t x = fl_mem s x" by blast
  let ?t = "t\<lparr>ya_user_data := u\<rparr>"
  have "ya_read_user_data s = Some ?t" using t(1) assms(4) by (simp add: ya_read_user_data_def)
  moreover have "board_ok ?t" "holds_main ?t u" using t(2,3) by (simp_all add: board_ok_def chip_ready_def record_at_def)
  moreover have "?t = s\<lparr>fl_mem := fl_mem ?t, fl_rsp := fl_rsp ?t, ya_user_data := u\<rparr>" by (subst t(4)) simp
  ultimately show ?thesis using t(5) by (intro exI [of _ ?t]) simp
qed

section \<open>Losing power\<close>

text \<open>
  Power is lost while the sector at \<open>a\<close> is being erased or written: its cells hold anything, every
  other cell is as before.
\<close>

definition torn :: "nat \<Rightarrow> 'a app_scheme \<Rightarrow> 'a app_scheme \<Rightarrow> bool" where
  "torn a s t \<longleftrightarrow> (\<exists>m. t = s\<lparr>fl_mem := m\<rparr> \<and> (\<forall>x. x < a \<or> a + 4096 \<le> x \<longrightarrow> m x = fl_mem s x))"

text \<open>
  The life of the user data: a running module saves data, loses power between two operations, inside the write
  of the backup, between the two writes of a save or inside the write of the main copy, and starts again.  The data in the
  label are what an atomic store would hold in which a save takes effect at the moment the write of the main copy begins.

  The remains of an interrupted write of the main copy have to be refused by the reader (\<open>main_refused\<close>), also when a start was repairing
  it.  An erased or half-erased sector without the magic byte is; for other remains it rests on the one-byte checksum, which
  cannot exclude a coincidence.  The remains of a write of the backup may be anything.
\<close>

inductive user_life :: "bool \<Rightarrow> ya_user_data_t \<Rightarrow> 'a app_scheme \<Rightarrow> bool" where
  first: "board_ok s \<Longrightarrow> user_wf u \<Longrightarrow> \<not> credentials_bad u \<Longrightarrow>
     ya_save_user_data (s\<lparr>ya_user_data := u\<rparr>) = Some (r, t) \<Longrightarrow> user_life True u t"
| save: "user_life True u s \<Longrightarrow> user_wf v \<Longrightarrow> \<not> credentials_bad v \<Longrightarrow>
     ya_save_user_data (s\<lparr>ya_user_data := v\<rparr>) = Some (r, t) \<Longrightarrow> user_life True v t"
| cut: "user_life True u s \<Longrightarrow> user_life False u s"
| cut_back: "user_life True u s \<Longrightarrow> torn YA_USER_DATA_BACK_ADDR s t \<Longrightarrow> user_life False u t"
| cut_between: "user_life True u s \<Longrightarrow> user_wf v \<Longrightarrow>
     ya_write_flash YA_USER_DATA_BACK_ADDR (user_bytes v) USER_SIZE 1 s = Some (r, t) \<Longrightarrow> user_life False u t"
| cut_main: "user_life True u s \<Longrightarrow> user_wf v \<Longrightarrow> \<not> credentials_bad v \<Longrightarrow>
     ya_write_flash YA_USER_DATA_BACK_ADDR (user_bytes v) USER_SIZE 1 s = Some (r, s') \<Longrightarrow>
     torn YA_USER_DATA_ADDR s' t \<Longrightarrow> main_refused t \<Longrightarrow> user_life False v t"
| cut_start: "user_life False u s \<Longrightarrow> main_refused s \<Longrightarrow> torn YA_USER_DATA_ADDR s t \<Longrightarrow> main_refused t \<Longrightarrow> user_life False u t"
| start: "user_life False u s \<Longrightarrow> ya_read_user_data s = Some t \<Longrightarrow> user_life True u t"

lemma torn_board_ok: "torn a s t \<Longrightarrow> board_ok s \<Longrightarrow> board_ok t"
  by (auto simp: torn_def board_ok_def chip_ready_def)

lemma torn_keeps:
  assumes "torn a s t" and "record_at s b (user_bytes u)" and "user_wf u" and "a mod 4096 = 0" and "b mod 4096 = 0" and "a \<noteq> b"
  shows "record_at t b (user_bytes u)"
proof -
  from assms(1) obtain m where m: "t = s\<lparr>fl_mem := m\<rparr>" "\<forall>x. x < a \<or> a + 4096 \<le> x \<longrightarrow> m x = fl_mem s x"
    by (auto simp: torn_def)
  then show ?thesis using user_record_frame [OF assms(2-6), of t] by simp
qed

lemma board_ok_user_data [simp]: "board_ok (s\<lparr>ya_user_data := u\<rparr>) = board_ok s"
  by (simp add: board_ok_def chip_ready_def)

text \<open>A running module has the data in its main copy; a stopped one keeps them in one of the copies.\<close>

lemma user_life_invariant:
  assumes "user_life on u s"
  shows "board_ok s \<and> user_wf u \<and> \<not> credentials_bad u \<and> (if on then holds_main s u else keeps_user s u)"
  using assms
proof induction
  case (first s u r t)
  with save_user_data [of "s\<lparr>ya_user_data := u\<rparr>"] show ?case by auto
next
  case (save u s v r t)
  with save_user_data [of "s\<lparr>ya_user_data := v\<rparr>"] show ?case by auto
next
  case (cut_back u s t)
  then show ?case using torn_keeps [of YA_USER_DATA_BACK_ADDR s t YA_USER_DATA_ADDR u]
    by (auto simp: keeps_user_def dest: torn_board_ok)
next
  case (cut_between u s v r t)
  with write_copy [of s v YA_USER_DATA_BACK_ADDR] obtain x where x: "board_ok t"
    "\<forall>x. x < YA_USER_DATA_BACK_ADDR \<or> YA_USER_DATA_BACK_ADDR + 4096 \<le> x \<longrightarrow> fl_mem t x = fl_mem s x" by auto
  from cut_between user_record_frame [OF _ _ user_sectors(2,1,3) x(2), of u] x(1) show ?case by (simp add: keeps_user_def)
next
  case (cut_main u s v r s' t)
  with write_copy [of s v YA_USER_DATA_BACK_ADDR] have w: "board_ok s'" "holds_back s' v" by auto
  with cut_main torn_keeps [of YA_USER_DATA_ADDR s' t YA_USER_DATA_BACK_ADDR v] show ?case
    by (auto simp: keeps_user_def dest: torn_board_ok)
next
  case (cut_start u s t)
  then have "holds_back t u \<or> holds_main s u" using torn_keeps [of YA_USER_DATA_ADDR s t YA_USER_DATA_BACK_ADDR u]
    by (auto simp: keeps_user_def)
  moreover have "\<not> holds_main s u" using cut_start read_copy [of s YA_USER_DATA_ADDR u] by (auto simp: main_refused_def)
  ultimately show ?case using cut_start by (auto simp: keeps_user_def dest: torn_board_ok)
next
  case (start u s t)
  with read_user_data [of s u] show ?case by auto
qed (simp add: keeps_user_def)

section \<open>The invariant of the task\<close>

text \<open>
  Lengths within the arrays, terminated strings, and on flash only user data of that kind.  The two
  messages with a string carry one that fits its field.
\<close>

definition user_ok :: "ya_user_data_t \<Rightarrow> bool" where
  "user_ok u \<longleftrightarrow> user_wf u \<and> ud_ssid_len u \<le> 32 \<and> ud_pwd_len u \<le> 64 \<and>
     0 \<in> set (factory_get_rssi_name u) \<and> 0 \<in> set (ota_test_url u)"

definition sane_copy :: "nat \<Rightarrow> 'a app_scheme \<Rightarrow> bool" where
  "sane_copy a s \<longleftrightarrow> (\<forall>d. ya_read_flash_with_fix_len a USER_SIZE 1 s = Some (0, d) \<longrightarrow> user_ok (user_copied d))"

definition msg_ok :: "app_msg \<Rightarrow> bool" where
  "msg_ok m \<longleftrightarrow>
     (fst m = YA_SET_SCAN_RSSI \<longrightarrow> (\<exists>b str. snd m = Some b \<and> cstr b = Some str \<and> length str \<le> 32)) \<and>
     (fst m = YA_SET_OTA_TEST \<longrightarrow> (\<exists>b str. snd m = Some b \<and> cstr b = Some str \<and> length str \<le> 399))"

definition terminated :: "bytes option \<Rightarrow> bool" where
  "terminated p \<longleftrightarrow> (case p of None \<Rightarrow> True | Some b \<Rightarrow> 0 \<in> set b)"

definition ram_ok :: "'a app_scheme \<Rightarrow> bool" where
  "ram_ok s \<longleftrightarrow> user_ok (ya_user_data s) \<and> list_all msg_ok (ya_main_msg_queue s) \<and>
     length (ya_main_msg_queue s) \<le> MSG_QUEUE_LENGTH \<and> terminated (aws_client_id s) \<and> terminated (aws_thing_type s) \<and>
     length (config_random_num s) = 33"

definition app_inv :: "'a app_scheme \<Rightarrow> bool" where
  "app_inv s \<longleftrightarrow> board_ok s \<and> sane_copy YA_USER_DATA_ADDR s \<and> sane_copy YA_USER_DATA_BACK_ADDR s \<and> ram_ok s"

lemma sane_copy_cong:
  assumes "\<And>x. a \<le> x \<Longrightarrow> x < a + 4096 \<Longrightarrow> fl_mem t x = fl_mem s x" and "heap t = heap s"
  shows "sane_copy a t = sane_copy a s"
  using read_sector_cong [OF assms] by (simp add: sane_copy_def)

lemma sane_record:
  assumes "record_at s a (user_bytes u)" and "user_ok u" and "board_ok s"
  shows "sane_copy a s"
  using read_copy [OF assms(1) _ assms(3)] assms(2) by (auto simp: sane_copy_def user_copied_bytes user_ok_def)

lemma sane_no_magic: "fl_mem s a \<noteq> 0xAA \<Longrightarrow> sane_copy a s"
  by (simp add: sane_copy_def read_no_magic)

text \<open>The parts of the state that matter; updates of the others keep the invariant.\<close>

definition board_of :: "'a app_scheme \<Rightarrow> board" where
  "board_of s = board.truncate s"

lemma board_of_eq: "board_of t = board_of s \<longleftrightarrow> fl_mem t = fl_mem s \<and> fl_rsp t = fl_rsp s \<and> heap t = heap s \<and> ret_reg t = ret_reg s"
  by (auto simp: board_of_def board.truncate_def)

lemma board_ok_cong: "board_of t = board_of s \<Longrightarrow> board_ok t = board_ok s"
  by (simp add: board_of_eq board_ok_def chip_ready_def)

lemma app_inv_cong:
  assumes "board_of t = board_of s" and "ya_user_data t = ya_user_data s" and "ya_main_msg_queue t = ya_main_msg_queue s"
    and "aws_client_id t = aws_client_id s" and "aws_thing_type t = aws_thing_type s"
    and "config_random_num t = config_random_num s"
  shows "app_inv t = app_inv s"
proof -
  have "sane_copy a t = sane_copy a s" for a using assms(1) by (intro sane_copy_cong) (simp_all add: board_of_eq)
  then show ?thesis using board_ok_cong [OF assms(1)] assms(2-6) by (simp add: app_inv_def ram_ok_def)
qed

lemma app_inv_upd [simp]:
  "app_inv (s\<lparr>app_events := x2\<rparr>) = app_inv s"
  "app_inv (s\<lparr>rebooted := x3\<rparr>) = app_inv s" "app_inv (s\<lparr>ya_app_state := x4\<rparr>) = app_inv s"
  "app_inv (s\<lparr>link_connect := x3\<rparr>) = app_inv s" "app_inv (s\<lparr>ya_sniffer_broadcast_enable := x5\<rparr>) = app_inv s"
  "app_inv (s\<lparr>wait_coonnect_router_start_timer := x6\<rparr>) = app_inv s" "app_inv (s\<lparr>reconnect_count := x7\<rparr>) = app_inv s"
  "app_inv (s\<lparr>support_cloud := x3\<rparr>) = app_inv s" "app_inv (s\<lparr>debine_enable := x3\<rparr>) = app_inv s"
  "app_inv (s\<lparr>sniffer_ap_mode := x3\<rparr>) = app_inv s" "app_inv (s\<lparr>ya_wifiCloud := x6\<rparr>) = app_inv s"
  "app_inv (s\<lparr>ya_app_main_para_obj := x8\<rparr>) = app_inv s" "app_inv (s\<lparr>enter_get_rssi_mode := x3\<rparr>) = app_inv s"
  by (rule app_inv_cong; simp add: board_of_def board.truncate_def)+

lemma app_invD: "app_inv s \<Longrightarrow> board_ok s" "app_inv s \<Longrightarrow> user_ok (ya_user_data s)"
  by (simp_all add: app_inv_def ram_ok_def)

text \<open>New user data that fit keep the invariant, and so does saving them.\<close>

lemma app_inv_user: "app_inv s \<Longrightarrow> user_ok u \<Longrightarrow> app_inv (s\<lparr>ya_user_data := u\<rparr>)"
  using sane_copy_cong [of _ "s\<lparr>ya_user_data := u\<rparr>" s] by (simp add: app_inv_def ram_ok_def)

lemma save_result:
  assumes "board_ok s" and "ram_ok s"
  shows "\<exists>t. ya_save_user_data s = Some (C_OK, t) \<and> app_inv t \<and> t = s\<lparr>fl_mem := fl_mem t, fl_rsp := fl_rsp t\<rparr>"
proof -
  have u: "user_ok (ya_user_data s)" "user_wf (ya_user_data s)" using assms(2) by (simp_all add: ram_ok_def user_ok_def)
  obtain t where t: "ya_save_user_data s = Some (C_OK, t)" "board_ok t" "t = s\<lparr>fl_mem := fl_mem t, fl_rsp := fl_rsp t\<rparr>"
    "holds_main t (ya_user_data s)" "holds_back t (ya_user_data s)"
    using save_user_data [OF assms(1) u(2)] by blast
  have "ram_ok t" using assms(2) by (subst t(3)) (simp add: ram_ok_def)
  with t sane_record [OF t(4) u(1) t(2)] sane_record [OF t(5) u(1) t(2)] show ?thesis by (auto simp: app_inv_def)
qed

lemma save_inv:
  assumes "app_inv s" and "user_ok u"
  shows "\<exists>t. ya_save_user_data (s\<lparr>ya_user_data := u\<rparr>) = Some (C_OK, t) \<and> app_inv t \<and>
     t = s\<lparr>ya_user_data := u, fl_mem := fl_mem t, fl_rsp := fl_rsp t\<rparr>"
proof -
  have "board_ok (s\<lparr>ya_user_data := u\<rparr>)" "ram_ok (s\<lparr>ya_user_data := u\<rparr>)"
    using app_inv_user [OF assms] by (simp_all add: app_inv_def)
  from save_result [OF this] show ?thesis by auto
qed

lemma save_any_inv:
  assumes "app_inv s"
  shows "\<exists>t. ya_save_user_data s = Some (C_OK, t) \<and> app_inv t \<and> t = s\<lparr>fl_mem := fl_mem t, fl_rsp := fl_rsp t\<rparr>"
  using save_result [of s] assms by (simp add: app_inv_def)

lemma user_zero_ok [simp]: "user_ok (user_zero\<lparr>ud_mode := m\<rparr>)"
  by (simp add: user_ok_def user_wf_def user_zero_def user_of_def USER_SIZE_def)

lemma read_fix_cases:
  obtains "ya_read_flash_with_fix_len a n blk s = Some (-1, [])"
  | d where "ya_read_flash_with_fix_len a n blk s = Some (0, d)"
proof -
  obtain ret header where h: "ya_hal_flash_read a 4 s = (ret, header)" by (cases "ya_hal_flash_read a 4 s")
  obtain r p where "ya_read_body a (le16 (header ! 1) (header ! 2)) s = Some (r, p)"
    using ya_read_body_total [of a "le16 (header ! 1) (header ! 2)" s] by auto
  with h have "ya_read_flash_with_fix_len a n blk s = Some (-1, []) \<or> (\<exists>d. ya_read_flash_with_fix_len a n blk s = Some (0, d))"
    by (simp add: ya_read_flash_with_fix_len_def Let_def)
  with that show thesis by blast
qed

lemma read_copies_inv:
  assumes "app_inv s"
  shows "\<exists>r t. read_copies s = Some (r, t) \<and> app_inv t \<and> (\<forall>u. r = Some u \<longrightarrow> user_ok u)"
proof (cases rule: read_fix_cases [of YA_USER_DATA_ADDR USER_SIZE 1 s])
  case 1
  show ?thesis
  proof (cases rule: read_fix_cases [of YA_USER_DATA_BACK_ADDR USER_SIZE 1 s])
    case 1
    with \<open>ya_read_flash_with_fix_len YA_USER_DATA_ADDR USER_SIZE 1 s = _\<close> assms show ?thesis
      by (simp add: read_copies_def)
  next
    case (2 d)
    then have u: "user_ok (user_copied d)" "user_wf (user_copied d)"
      using assms by (auto simp: app_inv_def sane_copy_def user_ok_def)
    obtain t where t: "ya_write_flash YA_USER_DATA_ADDR (user_bytes (user_copied d)) USER_SIZE 1 s = Some (0, t)"
      "board_ok t" "t = s\<lparr>fl_mem := fl_mem t, fl_rsp := fl_rsp t\<rparr>" "holds_main t (user_copied d)"
      "\<forall>x. x < YA_USER_DATA_ADDR \<or> YA_USER_DATA_ADDR + 4096 \<le> x \<longrightarrow> fl_mem t x = fl_mem s x"
      using write_copy [OF app_invD(1) [OF assms] u(2) user_sectors(1)] by blast
    have "heap t = heap s" "ram_ok t" using assms by (subst t(3), simp add: app_inv_def ram_ok_def)+
    moreover have "sane_copy YA_USER_DATA_BACK_ADDR t"
      using assms t(5) \<open>heap t = heap s\<close> sane_copy_cong [of YA_USER_DATA_BACK_ADDR t s]
      by (simp add: app_inv_def YA_USER_DATA_BACK_ADDR_def)
    ultimately have "app_inv t" using t(2) sane_record [OF t(4) u(1) t(2)] by (simp add: app_inv_def)
    with 1 2 t(1) u(1) show ?thesis by (simp add: read_copies_def)
  qed
next
  case (2 d)
  then have "user_ok (user_copied d)" using assms by (auto simp: app_inv_def sane_copy_def)
  with 2 assms show ?thesis by (simp add: read_copies_def)
qed

lemma init_user_inv: "app_inv s \<Longrightarrow> \<exists>t. init_user_data s = Some t \<and> app_inv t"
  using save_inv [OF _ user_zero_ok [of "ya_init_mode (ya_app_main_para_obj s)"], of s]
  by (auto simp: init_user_data_def)

lemma read_user_inv:
  assumes "app_inv s"
  shows "\<exists>t. ya_read_user_data s = Some t \<and> app_inv t"
proof -
  obtain r t where t: "read_copies s = Some (r, t)" "app_inv t" "\<forall>u. r = Some u \<longrightarrow> user_ok u"
    using read_copies_inv [OF assms] by blast
  with init_user_inv [OF t(2)] app_inv_user [OF t(2)] show ?thesis
    by (auto simp: ya_read_user_data_def split: option.splits)
qed

lemma init_start_inv:
  assumes "app_inv s"
  shows "\<exists>t. ya_init_start_mode s = Some t \<and> app_inv t"
proof -
  have "user_ok ((ya_user_data s)\<lparr>ud_mode := m\<rparr>)" for m
    using app_invD(2) [OF assms] by (simp add: user_ok_def user_wf_def)
  from save_inv [OF assms this] obtain f where
    "ya_save_user_data (s\<lparr>ya_user_data := (ya_user_data s)\<lparr>ud_mode := m\<rparr>\<rparr>) = Some (C_OK, f m) \<and> app_inv (f m)" for m
    by metis
  then show ?thesis using assms by (simp add: ya_init_start_mode_def Let_def)
qed

lemma app_inv_licences:
  assumes "app_inv s" and "terminated c" and "terminated d"
  shows "app_inv (s\<lparr>aws_certificateBuff := a, aws_privateKeyBuff := b, aws_client_id := c, aws_thing_type := d\<rparr>)" (is "app_inv ?t")
proof -
  have "board_of ?t = board_of s" by (simp add: board_of_def board.truncate_def)
  moreover have "sane_copy x ?t = sane_copy x s" for x by (rule sane_copy_cong) simp_all
  ultimately show ?thesis using board_ok_cong [of ?t s] assms by (simp add: app_inv_def ram_ok_def)
qed

lemma app_inv_aliyun [simp]:
  "app_inv (s\<lparr>aliyun_productkey := a, aliyun_deviceid := b, aliyun_productsecret := c\<rparr>) = app_inv s"
  by (rule app_inv_cong) (simp_all add: board_of_def board.truncate_def)

lemma aws_init_inv:
  assumes "app_inv s" and "aws_sized s"
  shows "\<exists>r t. ya_aws_para_init s = Some (r, t) \<and> app_inv t"
proof -
  obtain r t where t: "ya_aws_para_init s = Some (r, t)" "aws_sized t" using aws_init_run [OF assms(2)] by blast
  obtain a b c d where e: "t = s\<lparr>aws_certificateBuff := a, aws_privateKeyBuff := b, aws_client_id := c, aws_thing_type := d\<rparr>"
    using aws_init_frame [OF t(1)] by blast
  have "terminated c" "terminated d"
    using t(2) by (auto simp: e aws_sized_def sized_def terminated_def split: option.splits)
  from app_inv_licences [OF assms(1) this] t(1) show ?thesis by (auto simp: e)
qed

definition licences :: "'a app_scheme \<Rightarrow> bytes option list" where
  "licences s = aws_fields s @ [aliyun_productkey s, aliyun_deviceid s, aliyun_productsecret s]"

definition no_licences :: "'a app_scheme \<Rightarrow> bool" where
  "no_licences s \<longleftrightarrow> set (licences s) = {None}"

lemma load_licences_total:
  assumes "no_licences s"
  shows "\<exists>t. load_licences s = Some t"
proof -
  have sz: "aws_sized s" using assms by (auto simp: no_licences_def licences_def aws_fields_def aws_sized_def sized_def)
  obtain r a b c where al: "ya_aliyun_para_init s =
      Some (r, s\<lparr>aliyun_productkey := a, aliyun_deviceid := b, aliyun_productsecret := c\<rparr>)" (is "_ = Some (r, ?s)")
    using aliyun_init_fresh [of s] assms by (auto simp: no_licences_def licences_def)
  have "aws_sized ?s" using sz by (simp add: aws_sized_def)
  with aws_init_run [OF sz] aws_init_run [of ?s] al show ?thesis by (auto simp: load_licences_def)
qed

lemma load_licences_inv:
  assumes "app_inv s" and "no_licences s"
  shows "\<exists>t. load_licences s = Some t \<and> app_inv t"
proof -
  have sz: "aws_sized s" using assms(2) by (auto simp: no_licences_def licences_def aws_fields_def aws_sized_def sized_def)
  obtain r a b c where al: "ya_aliyun_para_init s =
      Some (r, s\<lparr>aliyun_productkey := a, aliyun_deviceid := b, aliyun_productsecret := c\<rparr>)"
    using aliyun_init_fresh [of s] assms(2) by (auto simp: no_licences_def licences_def)
  let ?s = "s\<lparr>aliyun_productkey := a, aliyun_deviceid := b, aliyun_productsecret := c\<rparr>"
  have "app_inv ?s" "aws_sized ?s" using assms(1) sz by (simp_all add: aws_sized_def)
  from aws_init_inv [OF this] aws_init_inv [OF assms(1) sz] al assms(1) show ?thesis
    by (auto simp: load_licences_def)
qed

text \<open>Erasing one sector.\<close>

lemma erase_sector:
  assumes "board_ok s" and "a mod 4096 = 0" and "0 < n" and "n \<le> 4096"
  shows "\<exists>t. snd (ya_erase_flash a n s) = t \<and> board_ok t \<and> t = s\<lparr>fl_mem := erase_range a 4096 (fl_mem s), fl_rsp := fl_rsp t\<rparr>"
proof -
  let ?t = "snd (ya_erase_flash a n s)"
  have n: "(n + 4095) div 4096 = 1" using assms(3,4) by (intro div_nat_eqI) auto
  have rdy: "chip_ready s" using assms(1) by (simp add: board_ok_def)
  have t: "chip_ready ?t" "fl_mem ?t = erase_range a 4096 (fl_mem s)"
    using ya_hal_erase_loop_ready [OF rdy assms(2), of 1]
    by (simp_all add: ya_erase_flash_def ya_hal_flash_erase_eq n case_prod_beta Let_def del: One_nat_def)
  have m: "flash.more ?t = flash.more s" by (rule ya_erase_flash_more)
  from flash_only [OF m] t(2) have "?t = s\<lparr>fl_mem := erase_range a 4096 (fl_mem s), fl_rsp := fl_rsp ?t\<rparr>" by simp
  moreover have "board_ok ?t" using t(1) board_more [OF m] assms(1) by (simp add: board_ok_def)
  ultimately show ?thesis by blast
qed

lemma erase_sane:
  assumes "sane_copy b s" and "a mod 4096 = 0" and "b mod 4096 = 0" and "t = s\<lparr>fl_mem := erase_range a 4096 (fl_mem s), fl_rsp := r\<rparr>"
  shows "sane_copy b t"
proof (cases "a = b")
  case True
  with assms(4) show ?thesis by (intro sane_no_magic) (simp add: erase_range_def)
next
  case False
  from sector_disjoint [OF assms(2,3) False] have "sane_copy b t = sane_copy b s"
    by (intro sane_copy_cong) (auto simp: assms(4) erase_range_def)
  with assms(1) show ?thesis by simp
qed

lemma erase_inv:
  assumes "app_inv s" and "a mod 4096 = 0" and "0 < n" and "n \<le> 4096"
  shows "app_inv (snd (ya_erase_flash a n s))" and "ya_user_data (snd (ya_erase_flash a n s)) = ya_user_data s"
    and "ya_app_main_para_obj (snd (ya_erase_flash a n s)) = ya_app_main_para_obj s"
proof -
  obtain t where t: "snd (ya_erase_flash a n s) = t" "board_ok t"
    "t = s\<lparr>fl_mem := erase_range a 4096 (fl_mem s), fl_rsp := fl_rsp t\<rparr>"
    using erase_sector [OF app_invD(1) [OF assms(1)] assms(2-4)] by blast
  have "ram_ok t" using assms(1) by (subst t(3)) (simp add: app_inv_def ram_ok_def)
  then show "app_inv (snd (ya_erase_flash a n s))"
    unfolding t(1) using t(2) assms(1,2) erase_sane [OF _ _ _ t(3)] by (simp add: app_inv_def)
  show "ya_user_data (snd (ya_erase_flash a n s)) = ya_user_data s" unfolding t(1) by (subst t(3)) simp
  show "ya_app_main_para_obj (snd (ya_erase_flash a n s)) = ya_app_main_para_obj s" unfolding t(1) by (subst t(3)) simp
qed

lemma other_sectors [simp]:
  "YA_OTA_DATA_ADDR mod 4096 = 0" "YA_DEVICE_TIMER_ADDR mod 4096 = 0"
  by (simp_all add: user_addrs)

lemma size_bounds [simp]: "0 < USER_SIZE" "USER_SIZE \<le> 4096"
  by (simp_all add: USER_SIZE_def)

lemma reset_inv: "app_inv s \<Longrightarrow> app_inv (ya_reset_module_to_factory_internal s)"
  by (simp add: ya_reset_module_to_factory_internal_def ya_erase_all_user_data_def ya_hal_sys_reboot_def Let_def erase_inv)

lemma set_mode_inv:
  assumes "app_inv s"
  shows "\<exists>t. ya_set_mode_internal w m f s = Some t \<and> app_inv t"
proof -
  define m' where "m' = (if f then toggled_mode (ya_app_state s) (ya_init_mode (ya_app_main_para_obj s)) else m)"
  obtain t where "ya_save_user_data (s\<lparr>ya_user_data := user_zero\<lparr>ud_mode := m'\<rparr>\<rparr>) = Some (C_OK, t)" "app_inv t"
    using save_inv [OF assms user_zero_ok] by blast
  then show ?thesis
    by (simp add: ya_set_mode_internal_def Let_def m'_def [symmetric] ya_hal_sys_reboot_def erase_inv)
qed

section \<open>Every step keeps the invariant\<close>

text \<open>The licence strings the Aliyun client returns are terminated.\<close>

definition world_ok :: "world \<Rightarrow> bool" where
  "world_ok w \<longleftrightarrow> terminated (ya_aly_get_thing_name w) \<and> terminated (ya_aly_get_client_id w)"

lemma strlen_terminated: "0 \<in> set b \<Longrightarrow> \<exists>n. strlen b = Some n"
  using cstr_None [of b] by (auto simp: strlen_def)

lemma cloud_support_inv:
  assumes "app_inv s" and "world_ok w"
  shows "\<exists>r t. ya_check_cloud_support w ct s = Some (r, t) \<and> app_inv t"
proof -
  let ?ct = "ucast (ct - 1) :: u32" and ?s = "s\<lparr>ya_app_main_para_obj := (ya_app_main_para_obj s)\<lparr>cloud_type := ucast (ct - 1)\<rparr>\<rparr>"
  define pk where "pk = (if ?ct = 0 then ya_aly_get_thing_name w else aws_thing_type s)"
  define ci where "ci = (if ?ct = 0 then ya_aly_get_client_id w else aws_client_id s)"
  have inv: "app_inv ?s" using assms(1) by simp
  have "terminated pk" "terminated ci"
    using assms by (simp_all add: pk_def ci_def world_ok_def app_inv_def ram_ok_def)
  then have len: "\<forall>b. pk = Some b \<longrightarrow> (\<exists>n. strlen b = Some n)" "\<forall>b. ci = Some b \<longrightarrow> (\<exists>n. strlen b = Some n)"
    using strlen_terminated by (auto simp: terminated_def)
  have keys: "(if ?ct = 0 then (ya_aly_get_thing_name w, ya_aly_get_client_id w)
      else (ya_aws_get_thing_type ?s, ya_aws_get_client_id ?s)) = (pk, ci)"
    by (simp add: pk_def ci_def ya_aws_get_thing_type_def ya_aws_get_client_id_def)
  show ?thesis using inv assms(1) len
    by (cases pk; cases ci) (auto simp: ya_check_cloud_support_def Let_def keys)
qed

lemma start_cloud_inv:
  assumes "app_inv s"
  shows "app_inv (ya_start_cloud_apps w ct s)"
proof -
  have "app_inv (snd (ya_aws_para_free s))" using app_inv_licences [OF assms] by (simp add: ya_aws_para_free_def terminated_def)
  moreover have "app_inv (snd (ya_aliyun_para_free s))" using assms by (simp add: ya_aliyun_para_free_def)
  ultimately show ?thesis by (simp add: ya_start_cloud_apps_def Let_def ya_hal_sys_reboot_def)
qed

lemma pairing_done_inv:
  assumes "app_inv s" and "world_ok w"
  shows "\<exists>t. pairing_done w s = Some t \<and> app_inv t"
proof -
  obtain t where t: "ya_save_user_data s = Some (C_OK, t)" "app_inv t" using save_any_inv [OF assms(1)] by blast
  then have "app_inv (app_emit ClearTimerFlash t)" by simp
  from cloud_support_inv [OF this assms(2)] obtain r u where
    "ya_check_cloud_support w (cloud_select (ya_user_data t)) (app_emit ClearTimerFlash t) = Some (r, u)" "app_inv u" by blast
  with t(1) start_cloud_inv [of u] show ?thesis by (auto simp: pairing_done_def Let_def)
qed

text \<open>What the driver is asked for.\<close>

definition connect_event :: "ya_user_data_t \<Rightarrow> app_event" where
  "connect_event u = ConnectAp (take (unat (ud_ssid_len u)) (ud_ssid u) @ replicate (33 - unat (ud_ssid_len u)) 0)
     (take (unat (ud_pwd_len u)) (ud_pwd u) @ replicate (65 - unat (ud_pwd_len u)) 0) (ud_bssid u)"

lemma connect_router_result:
  assumes "app_inv s"
  shows "connect_router w s =
    (let s = app_emit (connect_event (ya_user_data s)) (app_emit (Router MODULE_CONNECTING []) s)
     in if w_connect_ap w \<noteq> C_OK then Some (ya_hal_sys_reboot s) else Some (s\<lparr>ya_app_state := YA_APP_CONNECTING\<rparr>))"
proof -
  let ?u = "ya_user_data s"
  have "length (ud_ssid ?u) = 33" "length (ud_pwd ?u) = 65" "length (ud_bssid ?u) = 6"
    "unat (ud_ssid_len ?u) \<le> 32" "unat (ud_pwd_len ?u) \<le> 64"
    using app_invD(2) [OF assms] by (simp_all add: user_ok_def user_wf_def word_le_nat_alt)
  then show ?thesis by (simp add: connect_router_def connect_event_def Let_def slice_def memcpy_at_def)
qed

lemma state_step_inv: "app_inv s \<Longrightarrow> \<exists>t. app_state_step w s = Some t \<and> app_inv t"
  by (auto simp: app_state_step_def connect_router_result Let_def ya_hal_sys_reboot_def split: ya_app_status_t.splits)

text \<open>A terminated string that fits leaves room for its NUL in the cleared field.\<close>

lemma copy_string:
  assumes "length b = n" and "length str < n"
  shows "\<exists>c. (memset b 0 n \<bind> (\<lambda>b. memcpy_at b 0 str)) = Some c \<and> length c = n \<and> 0 \<in> set c"
  using assms by (simp add: memset_def memcpy_at_def)

lemma scan_rssi_inv:
  assumes "app_inv s" and "cstr b = Some str" and "length str \<le> 32"
  shows "\<exists>t. ya_set_factory_rssi_info_internal b s = Some t \<and> app_inv t"
proof -
  let ?u = "ya_user_data s"
  have u: "user_ok ?u" "length (factory_get_rssi_name ?u) = 33"
    using app_invD(2) [OF assms(1)] by (simp_all add: user_ok_def user_wf_def)
  obtain m c where c: "memset (factory_get_rssi_name ?u) 0 33 = Some m" "memcpy_at m 0 str = Some c" "length c = 33" "0 \<in> set c"
    using copy_string [OF u(2), of str] assms(3) by (auto split: Option.bind_splits)
  then have "user_ok (?u\<lparr>factory_get_rssi_flag := 1, factory_get_rssi_name := c\<rparr>)" using u by (simp add: user_ok_def user_wf_def)
  from save_inv [OF assms(1) this] c assms(2) show ?thesis
    by (auto simp: ya_set_factory_rssi_info_internal_def ya_hal_sys_reboot_def)
qed

lemma ota_test_inv:
  assumes "app_inv s" and "cstr b = Some str" and "length str \<le> 399"
  shows "\<exists>t. ya_set_enter_ota_test_mode_internal b s = Some t \<and> app_inv t"
proof -
  let ?u = "ya_user_data s"
  have u: "user_ok ?u" "length (ota_test_url ?u) = 400"
    using app_invD(2) [OF assms(1)] by (simp_all add: user_ok_def user_wf_def)
  obtain m c where c: "memset (ota_test_url ?u) 0 400 = Some m" "memcpy_at m 0 str = Some c" "length c = 400" "0 \<in> set c"
    using copy_string [OF u(2), of str] assms(3) by (auto split: Option.bind_splits)
  then have "user_ok (?u\<lparr>ota_test_url := c\<rparr>)" using u by (simp add: user_ok_def user_wf_def)
  from save_inv [OF assms(1) this] c assms(2) show ?thesis
    by (auto simp: ya_set_enter_ota_test_mode_internal_def ya_hal_sys_reboot_def)
qed

lemma idle_inv:
  assumes "app_inv s"
  shows "\<exists>t. ya_set_idle_internal s = Some t \<and> app_inv t"
proof -
  have "user_ok ((ya_user_data s)\<lparr>ud_mode := IDLE_MODE\<rparr>)"
    using app_invD(2) [OF assms] by (simp add: user_ok_def user_wf_def)
  from save_inv [OF assms this] show ?thesis by (auto simp: ya_set_idle_internal_def)
qed

lemma handle_msg_inv:
  assumes "app_inv s" and "world_ok w" and "msg_ok m"
  shows "\<exists>t. app_handle_msg w m s = Some t \<and> app_inv t"
proof (cases "fst m")
  case YA_SET_SCAN_RSSI
  with assms scan_rssi_inv [OF assms(1)] show ?thesis by (auto simp: app_handle_msg_def msg_ok_def)
next
  case YA_SET_OTA_TEST
  with assms ota_test_inv [OF assms(1)] show ?thesis by (auto simp: app_handle_msg_def msg_ok_def)
next
  case YA_SNIFFER_SUCCESS
  with pairing_done_inv [OF assms(1,2)] show ?thesis by (auto simp: app_handle_msg_def)
qed (use assms(1) pairing_done_inv [OF assms(1,2)] set_mode_inv [OF assms(1)] reset_inv idle_inv
    in \<open>simp_all add: app_handle_msg_def pairing_failed_def Let_def\<close>)

lemma app_turn_inv:
  assumes "app_inv s" and "world_ok w"
  shows "\<exists>t. app_turn w s = Some t \<and> app_inv t"
proof -
  obtain t where t: "app_state_step w s = Some t" "app_inv t" using state_step_inv [OF assms(1)] by blast
  show ?thesis
  proof (cases "ya_main_msg_queue t")
    case Nil
    with t assms(1) show ?thesis by (auto simp: app_turn_def)
  next
    case (Cons m ms)
    have "msg_ok m" using t(2) Cons by (simp add: app_inv_def ram_ok_def)
    have "app_inv (t\<lparr>ya_main_msg_queue := ms\<rparr>)"
      using t(2) Cons sane_copy_cong [of _ "t\<lparr>ya_main_msg_queue := ms\<rparr>" t]
        board_ok_cong [of "t\<lparr>ya_main_msg_queue := ms\<rparr>" t] by (auto simp: app_inv_def ram_ok_def board_of_eq)
    from handle_msg_inv [OF this assms(2) \<open>msg_ok m\<close>] t assms(1) Cons show ?thesis by (auto simp: app_turn_def)
  qed
qed

lemma app_queue_inv:
  assumes "app_inv s" and "msg_ok m"
  shows "app_inv (snd (queue_send m s))"
proof -
  let ?t = "s\<lparr>ya_main_msg_queue := ya_main_msg_queue s @ [m]\<rparr>"
  have "board_ok ?t = board_ok s" by (rule board_ok_cong) (simp add: board_of_eq)
  then show ?thesis using assms sane_copy_cong [of _ ?t s] by (simp add: queue_send_def app_inv_def ram_ok_def)
qed

lemma plain_msg_ok [simp]:
  "t \<noteq> YA_SET_SCAN_RSSI \<Longrightarrow> t \<noteq> YA_SET_OTA_TEST \<Longrightarrow> msg_ok (t, None)"
  by (simp add: msg_ok_def)

text \<open>The user data of a pairing.\<close>

definition paired_user :: "bytes \<Rightarrow> bytes \<Rightarrow> bytes \<Rightarrow> u8 \<Rightarrow> ya_user_data_t" where
  "paired_user sd pw bs ct = user_zero\<lparr>ud_mode := CONNECT_MODE, ud_ssid := sd @ replicate (33 - length sd) 0,
     ud_ssid_len := of_nat (length sd), ud_pwd := pw @ replicate (65 - length pw) 0,
     ud_pwd_len := of_nat (length pw), ud_bssid := bs, cloud_select := ct + 1\<rparr>"

lemma paired_result:
  assumes "app_inv s" and "length sd \<le> 32" and "length pw \<le> 64" and "length bs = 6" and "0 \<in> set rnd" and "length rnd = 33"
  shows "\<exists>t. paired sd pw bs ct rnd s = Some t \<and> app_inv t \<and> t = s\<lparr>ya_user_data := paired_user sd pw bs ct, config_random_num := config_random_num t\<rparr>"
proof -
  obtain str where str: "cstr rnd = Some str" using cstr_None [of rnd] assms(5) by auto
  then have "length str < 33" using cstr_SomeD(2) [OF str] assms(6) by simp
  with str have r: "strcpy (replicate 33 0) rnd = Some (str @ 0 # drop (Suc (length str)) (replicate 33 0))" (is "_ = Some ?r")
    by (simp add: strcpy_Some)
  have z: "ud_ssid user_zero = replicate 33 0" "ud_pwd user_zero = replicate 65 0" "ud_bssid user_zero = replicate 6 0"
    by (simp_all add: user_zero_def user_of_def USER_SIZE_def)
  let ?u = "paired_user sd pw bs ct"
  let ?t = "s\<lparr>ya_user_data := ?u, config_random_num := ?r\<rparr>"
  have "paired sd pw bs ct rnd s = Some ?t"
    using assms(2-4) by (simp add: paired_def paired_user_def Let_def z r memcpy_at_def)
  moreover have "unat (of_nat (length sd) :: u8) \<le> 32" "unat (of_nat (length pw) :: u8) \<le> 64"
    using assms(2,3) by (simp_all add: unat_of_nat_u8)
  then have "user_ok ?u" using assms(2-4) user_zero_ok [of 0] by (simp add: paired_user_def user_ok_def user_wf_def word_le_nat_alt)
  moreover have "board_ok ?t = board_ok s" by (rule board_ok_cong) (simp add: board_of_eq)
  moreover have "sane_copy a ?t = sane_copy a s" for a by (rule sane_copy_cong) simp_all
  ultimately show ?thesis using assms(1) \<open>length str < 33\<close> by (simp add: app_inv_def ram_ok_def)
qed

definition softap_ok :: "ya_ap_router_para_t \<Rightarrow> bool" where
  "softap_ok p \<longleftrightarrow> 0 \<in> set (router_ssid p) \<and> 0 \<in> set (router_pwd p) \<and> length (router_bssid p) = 6 \<and>
     0 \<in> set (router_random p) \<and> length (router_random p) = 33"

definition smart_ok :: "smnt_result_t \<Rightarrow> bool" where
  "smart_ok r \<longleftrightarrow> length (sm_ssid r) = 33 \<and> length (sm_password r) = 65 \<and> length (sm_bssid r) = 6 \<and>
     0 \<in> set (sm_rand r) \<and> length (sm_rand r) = 33"

lemma softap_inv:
  assumes "app_inv s" and "softap_ok p"
  shows "\<exists>t. ya_softap_callback c p s = Some t \<and> app_inv t"
proof -
  obtain sd pw where str: "cstr (router_ssid p) = Some sd" "cstr (router_pwd p) = Some pw"
    using assms(2) cstr_None [of "router_ssid p"] cstr_None [of "router_pwd p"] by (auto simp: softap_ok_def)
  show ?thesis
  proof (cases "c = SOFTAP_CONFIG_FINISH \<and> sd \<noteq> [] \<and> length sd \<le> 32 \<and> length pw \<le> 64")
    case True
    with paired_result [OF assms(1), of sd pw "router_bssid p" "router_random p" "router_cloud_type p"] assms(2)
    obtain t where "paired sd pw (router_bssid p) (router_cloud_type p) (router_random p) s = Some t" "app_inv t"
      by (auto simp: softap_ok_def)
    with True str assms(2) app_queue_inv [of t] show ?thesis
      by (auto simp: ya_softap_callback_def slice_def softap_ok_def)
  next
    case False
    with str app_queue_inv [OF assms(1)] show ?thesis by (auto simp: ya_softap_callback_def)
  qed
qed

lemma smart_inv:
  assumes "app_inv s" and "smart_ok r"
  shows "\<exists>t. ya_smart_config_result_callback r s = Some t \<and> app_inv t"
proof (cases "smnt_result_status r \<noteq> smnt_result_ok \<or>
    sm_ssid_len r = 0 \<or> sm_ssid_len r > 32 \<or> sm_password_len r > 64 \<or> sm_ssid r ! 0 = 0")
  case True
  with assms app_queue_inv [OF assms(1)] show ?thesis
    by (auto simp: ya_smart_config_result_callback_def rd_def smart_ok_def)
next
  case False
  let ?sd = "take (unat (sm_ssid_len r)) (sm_ssid r)" and ?pw = "take (unat (sm_password_len r)) (sm_password r)"
  have len: "unat (sm_ssid_len r) \<le> 32" "unat (sm_password_len r) \<le> 64" using False by (simp_all add: not_less word_le_nat_alt)
  then obtain t where "paired ?sd ?pw (sm_bssid r) (sm_cloud_select r) (sm_rand r) s = Some t" "app_inv t"
    using paired_result [OF assms(1), of ?sd ?pw "sm_bssid r" "sm_rand r" "sm_cloud_select r"] assms(2)
    by (auto simp: smart_ok_def)
  with False len assms(2) app_queue_inv [of t] show ?thesis
    by (auto simp: ya_smart_config_result_callback_def rd_def smart_ok_def slice_def)
qed

lemma queue_string_inv:
  assumes "app_inv s" and "cstr b = Some str" and "\<And>c. cstr c = Some str \<Longrightarrow> msg_ok (ty, Some c)"
  shows "\<exists>r t. queue_string ty b s = Some (r, t) \<and> app_inv t"
proof -
  obtain buf where buf: "mem_alloc s (length str + 1) = Some buf" "length buf = length str + 1"
    using mem_alloc_board_ok [OF app_invD(1) [OF assms(1)]] .
  have "memset buf 0 (length str + 1) = Some (replicate (length str + 1) 0)" using buf(2) by (simp add: memset_Some)
  moreover have "strcpy (replicate (length str + 1) 0) b = Some (str @ [0])" using assms(2) by (simp add: strcpy_Some)
  moreover have "msg_ok (ty, Some (str @ [0]))" using cstr_SomeD(1) [OF assms(2)] by (intro assms(3)) (simp add: cstr_append_nul)
  from app_queue_inv [OF assms(1) this] have "app_inv (snd (queue_send (ty, Some (str @ [0])) s))" .
  ultimately show ?thesis using buf(1) assms(2)
    by (cases "queue_send (ty, Some (str @ [0])) s") (simp add: queue_string_def strlen_def)
qed

lemma ota_count_inv:
  assumes "app_inv s"
  shows "\<exists>t. ya_cal_ota_test_num f s = Some t \<and> app_inv t"
proof -
  define u where "u = (let u = (ya_user_data s)\<lparr>ota_test_all_num := ota_test_all_num (ya_user_data s) + 1\<rparr>
    in if f = 1 then u\<lparr>ota_test_success_num := ota_test_success_num u + 1\<rparr> else u)"
  have "user_ok u" using app_invD(2) [OF assms] by (simp add: u_def Let_def user_ok_def user_wf_def)
  from save_inv [OF assms this] show ?thesis by (auto simp: ya_cal_ota_test_num_def u_def Let_def)
qed

lemma ota_exit_inv:
  assumes "app_inv s"
  shows "\<exists>t. ya_set_exit_ota_test_mode s = Some t \<and> app_inv t"
proof -
  obtain t where t: "ya_read_user_data s = Some t" "app_inv t" using read_user_inv [OF assms] by blast
  let ?u = "ya_user_data t"
  have u: "user_ok ?u" "length (ota_test_url ?u) = 400" "0 \<in> set (ota_test_url ?u)"
    using app_invD(2) [OF t(2)] by (simp_all add: user_ok_def user_wf_def)
  obtain n where n: "strlen (ota_test_url ?u) = Some n" using strlen_terminated [OF u(3)] by blast
  have "user_ok (?u\<lparr>ota_test_url := replicate 400 0, ota_test_all_num := 0, ota_test_success_num := 0\<rparr>)"
    using u by (simp add: user_ok_def user_wf_def)
  from save_inv [OF t(2) this] t n u(2) show ?thesis
    by (auto simp: ya_set_exit_ota_test_mode_def memset_Some [THEN iffD2] ya_hal_sys_reboot_def)
qed

lemma rescan_frame:
  "(snd (rescan w name k s))\<lparr>app_events := app_events s, enter_get_rssi_mode := enter_get_rssi_mode s\<rparr> = s"
proof (induction w name k s rule: rescan.induct)
  case (1 w name k s)
  obtain ret found rssi where r: "w_rssi_scan w k = (ret, found, rssi)" by (cases "w_rssi_scan w k") auto
  show ?case
  proof (cases "ret = 0 \<or> \<not> k + 1 < 5")
    case True
    then show ?thesis using r by (auto simp: rescan.simps [of w name k s] Let_def)
  next
    case False
    then have e: "rescan w name k s = rescan w name (k + 1) (app_emit (ScanFor [name]) s)"
      using r by (simp add: rescan.simps [of w name k s] Let_def)
    have "(snd (rescan w name (k + 1) (app_emit (ScanFor [name]) s)))\<lparr>app_events := app_events (app_emit (ScanFor [name]) s),
        enter_get_rssi_mode := enter_get_rssi_mode (app_emit (ScanFor [name]) s)\<rparr> = app_emit (ScanFor [name]) s"
      by (rule 1 [OF refl r [symmetric] refl]) (use False in auto)
    from arg_cong [OF this, of "\<lambda>x. x\<lparr>app_events := app_events s, enter_get_rssi_mode := enter_get_rssi_mode s\<rparr>"] show ?thesis by (simp add: e)
  qed
qed

lemma rescan_inv:
  assumes "app_inv s" and "rescan w name k s = (r, t)"
  shows "app_inv t" and "ya_user_data t = ya_user_data s"
proof -
  have f: "t\<lparr>app_events := app_events s, enter_get_rssi_mode := enter_get_rssi_mode s\<rparr> = s"
    using rescan_frame [where w = w and name = name and k = k and s = s] assms(2) by simp
  have "app_inv (t\<lparr>app_events := app_events s, enter_get_rssi_mode := enter_get_rssi_mode s\<rparr>)" unfolding f by (rule assms(1))
  then show "app_inv t" by simp
  show "ya_user_data t = ya_user_data s" using arg_cong [OF f, of ya_user_data] by simp
qed

lemma rssi_test_inv:
  assumes "app_inv s"
  shows "\<exists>t. rssi_test w s = Some t \<and> app_inv t"
proof (cases "factory_get_rssi_flag (ya_user_data s) = 1")
  case True
  let ?s = "s\<lparr>ya_app_main_para_obj := (ya_app_main_para_obj s)\<lparr>enable_factory_router_scan := False\<rparr>\<rparr>"
  have u: "user_ok (ya_user_data s)" using app_invD(2) [OF assms] .
  then obtain name where name: "cstr (factory_get_rssi_name (ya_user_data s)) = Some name"
    using cstr_None [of "factory_get_rssi_name (ya_user_data s)"] by (auto simp: user_ok_def)
  obtain r t where t: "rescan w name 0 ?s = (r, t)" by (cases "rescan w name 0 ?s")
  have inv: "app_inv t" "ya_user_data t = ya_user_data s"
    using rescan_inv [OF _ t] assms by simp_all
  have "user_ok ((ya_user_data s)\<lparr>factory_get_rssi_flag := 0, factory_get_rssi_name := replicate 33 0\<rparr>)"
    using u by (simp add: user_ok_def user_wf_def)
  from save_inv [OF inv(1) this] True name t inv(2) show ?thesis
    by (auto simp: rssi_test_def ya_enter_scan_specific_ssid_rssi_mode_def)
qed (use assms in \<open>simp add: rssi_test_def\<close>)

lemma other_apps_inv: "app_inv s \<Longrightarrow> app_inv (ya_start_other_apps w s)"
  by (simp add: ya_start_other_apps_def Let_def ya_hal_sys_reboot_def start_cloud_inv)

lemma enter_loop_inv:
  assumes "app_inv s"
  shows "app_inv (enter_loop w s)"
proof -
  have r: "app_inv (t\<lparr>config_random_num := replicate 33 0\<rparr>)" if "app_inv t" for t :: "'a app_scheme"
  proof -
    have "board_ok (t\<lparr>config_random_num := replicate 33 0\<rparr>) = board_ok t" by (rule board_ok_cong) (simp add: board_of_eq)
    then show ?thesis using that sane_copy_cong [of _ "t\<lparr>config_random_num := replicate 33 0\<rparr>" t]
      by (simp add: app_inv_def ram_ok_def)
  qed
  have "app_inv (snd (ya_check_enter_factory_mode w t))" if "app_inv t" for t :: "'a app_scheme"
    using that by (auto simp: ya_check_enter_factory_mode_def Let_def split: prod.splits)
  with r assms show ?thesis
    by (simp add: enter_loop_def ya_clear_randomnum_def Let_def case_prod_beta)
qed

lemma main_init_inv:
  assumes "app_inv s"
  shows "\<exists>t. ya_app_main_init w s = Some t \<and> app_inv t"
proof -
  define u where "u = app_emit WlanStart (announce (select_cloud (ya_wifi_cloud_support w
    (s\<lparr>link_connect := False, ya_sniffer_broadcast_enable := INIT_MODE, wait_coonnect_router_start_timer := 0, reconnect_count := 0\<rparr>))))"
  have "app_inv u" using assms by (simp add: u_def announce_def select_cloud_def ya_wifi_cloud_support_def Let_def)
  from rssi_test_inv [OF this] obtain t where "rssi_test w u = Some t" "app_inv t" by blast
  moreover have "app_inv (ya_start_other_apps w t)" "app_inv (enter_loop w (ya_start_other_apps w t))"
    using calculation(2) by (simp_all add: other_apps_inv enter_loop_inv)
  ultimately show ?thesis by (simp add: ya_app_main_init_def Let_def u_def [symmetric] ya_hal_sys_reboot_def)
qed

text \<open>Reading the user data and choosing the mode leave the licences alone.\<close>

lemma licences_more: "flash.more t = flash.more s \<Longrightarrow> licences t = licences s"
  by (drule flash_only, erule ssubst) (simp add: licences_def aws_fields_def)

lemma save_licences:
  assumes "ya_save_user_data s = Some (r, t)"
  shows "licences t = licences s"
  using assms by (auto simp: ya_save_user_data_def split: Option.bind_splits dest!: ya_write_flash_more licences_more)

lemma licences_user [simp]: "licences (s\<lparr>ya_user_data := u\<rparr>) = licences s"
  by (simp add: licences_def aws_fields_def)

lemma licences_state [simp]: "licences (s\<lparr>ya_app_state := u\<rparr>) = licences s"
  by (simp add: licences_def aws_fields_def)

lemma read_user_licences: "ya_read_user_data s = Some t \<Longrightarrow> licences t = licences s"
  by (auto simp: ya_read_user_data_def read_copies_def init_user_data_def split: Option.bind_splits if_splits option.splits
      dest!: save_licences ya_write_flash_more licences_more)

lemma start_mode_licences: "ya_init_start_mode s = Some t \<Longrightarrow> licences t = licences s"
  by (auto simp: ya_init_start_mode_def Let_def split: Option.bind_splits if_splits dest!: save_licences)

text \<open>A start from any state whose flash holds no user data with lengths out of range.\<close>

lemma boot_inv:
  assumes "board_ok s" and "sane_copy YA_USER_DATA_ADDR s" and "sane_copy YA_USER_DATA_BACK_ADDR s"
  shows "\<exists>t. app_boot para w toggle s = Some t \<and> app_inv t"
proof -
  let ?p = "(app_power_on s)\<lparr>sniffer_ap_mode := toggle, ya_app_main_para_obj := para\<rparr>"
  have b: "board_of ?p = board_of s" by (simp add: board_of_eq app_power_on_def)
  have "sane_copy a ?p = sane_copy a s" for a by (rule sane_copy_cong) (simp_all add: app_power_on_def)
  moreover have "ram_ok ?p" using user_zero_ok [of 0]
    by (simp add: ram_ok_def app_power_on_def terminated_def user_ok_def user_wf_def user_zero_def user_of_def USER_SIZE_def)
  ultimately have "app_inv ?p" using assms board_ok_cong [OF b] by (simp add: app_inv_def)
  from read_user_inv [OF this] obtain t1 where t1: "ya_read_user_data ?p = Some t1" "app_inv t1" by blast
  from init_start_inv [OF t1(2)] obtain t2 where t2: "ya_init_start_mode t1 = Some t2" "app_inv t2" by blast
  have "no_licences ?p" by (simp add: no_licences_def licences_def aws_fields_def app_power_on_def)
  then have "no_licences t2" using start_mode_licences [OF t2(1)] read_user_licences [OF t1(1)] by (simp add: no_licences_def)
  from load_licences_inv [OF t2(2) this] obtain t3 where t3: "load_licences t2 = Some t3" "app_inv t3" by blast
  have "(if toggle then snd (ya_set_toggle_mode True (app_power_on s)) else app_power_on s)\<lparr>ya_app_main_para_obj := para\<rparr> = ?p"
    by (simp add: ya_set_toggle_mode_def ya_set_sniffer_ap_mode_def app_power_on_def)
  then show ?thesis using t1(1) t2(1) t3(1) main_init_inv [OF t3(2), of w]
    by (simp add: app_boot_def ya_start_app_main_def Let_def)
qed

section \<open>Runs\<close>

datatype app_step =
  AppBoot world bool | AppTurn world | SoftapResult u8 ya_ap_router_para_t | SmartResult smnt_result_t
| WlanEvent ya_hal_wlan_event_t | SetApMode | SetSnifferMode | SetIdleNextReboot | SetToggleMode bool | ResetModule
| FactoryRssi bytes | OtaTest bytes | OtaCount u8 | OtaExit | DebindEnable | DebindDisable | ClearRandom

fun app_do :: "ya_app_main_para_t \<Rightarrow> app_step \<Rightarrow> 'a app_scheme \<Rightarrow> 'a app_scheme option" where
  "app_do para (AppBoot w toggle) s = app_boot para w toggle s"
| "app_do para (AppTurn w) s = app_turn w s"
| "app_do para (SoftapResult c p) s = ya_softap_callback c p s"
| "app_do para (SmartResult r) s = ya_smart_config_result_callback r s"
| "app_do para (WlanEvent e) s = Some (snd (ya_app_wlan_event_callback e s))"
| "app_do para SetApMode s = Some (snd (ya_set_ap_mode s))"
| "app_do para SetSnifferMode s = Some (snd (ya_set_sniffer_mode s))"
| "app_do para SetIdleNextReboot s = Some (snd (ya_set_idle_next_reboot s))"
| "app_do para (SetToggleMode b) s = Some (snd (ya_set_toggle_mode b s))"
| "app_do para ResetModule s = Some (snd (ya_reset_module_to_factory s))"
| "app_do para (FactoryRssi b) s = do { (_, s) \<leftarrow> ya_set_factory_rssi_info b s; Some s }"
| "app_do para (OtaTest b) s = do { (_, s) \<leftarrow> ya_set_enter_ota_test_mode b s; Some s }"
| "app_do para (OtaCount f) s = ya_cal_ota_test_num f s"
| "app_do para OtaExit s = ya_set_exit_ota_test_mode s"
| "app_do para DebindEnable s = Some (ya_debind_enable s)"
| "app_do para DebindDisable s = Some (ya_debind_disable s)"
| "app_do para ClearRandom s = Some (ya_clear_randomnum s)"

definition short_string :: "nat \<Rightarrow> bytes \<Rightarrow> bool" where
  "short_string n b \<longleftrightarrow> (case cstr b of None \<Rightarrow> False | Some str \<Rightarrow> length str \<le> n)"

fun app_step_ok :: "app_step \<Rightarrow> bool" where
  "app_step_ok (AppTurn w) = world_ok w"
| "app_step_ok (SoftapResult c p) = softap_ok p"
| "app_step_ok (SmartResult r) = smart_ok r"
| "app_step_ok (FactoryRssi b) = short_string 32 b"
| "app_step_ok (OtaTest b) = short_string 399 b"
| "app_step_ok _ = True"

lemma clear_random_inv: "app_inv s \<Longrightarrow> app_inv (ya_clear_randomnum s)"
  using sane_copy_cong [of _ "ya_clear_randomnum s" s]
  by (simp add: app_inv_def ram_ok_def board_ok_def chip_ready_def ya_clear_randomnum_def)

lemma app_do_inv:
  assumes "app_inv s" and "app_step_ok e"
  shows "\<exists>t. app_do para e s = Some t \<and> app_inv t"
proof (cases e)
  case (AppBoot w toggle)
  with assms(1) show ?thesis using boot_inv [of s para w toggle] by (simp add: app_inv_def)
next
  case (FactoryRssi b)
  with assms(2) obtain str where "cstr b = Some str" "length str \<le> 32" by (auto simp: short_string_def split: option.splits)
  with queue_string_inv [OF assms(1), of b str YA_SET_SCAN_RSSI] FactoryRssi show ?thesis
    by (auto simp: ya_set_factory_rssi_info_def msg_ok_def)
next
  case (OtaTest b)
  with assms(2) obtain str where "cstr b = Some str" "length str \<le> 399" by (auto simp: short_string_def split: option.splits)
  with queue_string_inv [OF assms(1), of b str YA_SET_OTA_TEST] OtaTest show ?thesis
    by (auto simp: ya_set_enter_ota_test_mode_def msg_ok_def)
next
  case (WlanEvent ev)
  with assms(1) show ?thesis by (cases ev) (simp_all add: ya_app_wlan_event_callback_def app_queue_inv)
qed (use assms app_turn_inv softap_inv smart_inv ota_count_inv ota_exit_inv in \<open>simp_all add: app_queue_inv ya_set_ap_mode_def
    ya_set_sniffer_mode_def ya_set_idle_next_reboot_def ya_set_toggle_mode_def ya_set_sniffer_ap_mode_def
    ya_reset_module_to_factory_def ya_debind_enable_def ya_debind_disable_def clear_random_inv\<close>)

interpretation app_task: safe_steps "app_do para" app_inv app_step_ok for para
  by unfold_locales (rule app_do_inv)

section \<open>A start with stored user data\<close>

text \<open>Every task starts and no test router is in sight.\<close>

definition world_fine :: "world \<Rightarrow> bool" where
  "world_fine w \<longleftrightarrow> w_start_smnt w = C_OK \<and> w_connect_ap w = C_OK \<and> w_cloud_start w = C_OK \<and> w_ota_start w = C_OK \<and>
     w_uart_start w = C_OK \<and> w_hardware_start w = C_OK \<and> w_wdt w = C_OK \<and> fst (w_factory_scan w) \<noteq> 0"

text \<open>The user data and the state of the machine, which the steps of a start that follow leave alone.\<close>

definition core :: "'a app_scheme \<Rightarrow> ya_user_data_t \<times> ya_app_status_t \<times> bool \<times> app_msg list \<times> board" where
  "core s = (ya_user_data s, ya_app_state s, rebooted s, ya_main_msg_queue s, board_of s)"

lemma core_eq:
  "core t = core s \<longleftrightarrow> ya_user_data t = ya_user_data s \<and> ya_app_state t = ya_app_state s \<and> rebooted t = rebooted s \<and>
     ya_main_msg_queue t = ya_main_msg_queue s \<and> fl_mem t = fl_mem s \<and> fl_rsp t = fl_rsp s \<and> heap t = heap s \<and> ret_reg t = ret_reg s"
  by (simp add: core_def board_of_eq)

lemma core_upd [simp]:
  "core (s\<lparr>app_events := x2\<rparr>) = core s"
  "core (s\<lparr>link_connect := x3\<rparr>) = core s" "core (s\<lparr>ya_sniffer_broadcast_enable := x5\<rparr>) = core s"
  "core (s\<lparr>wait_coonnect_router_start_timer := x6\<rparr>) = core s" "core (s\<lparr>reconnect_count := x7\<rparr>) = core s"
  "core (s\<lparr>debine_enable := x3\<rparr>) = core s" "core (s\<lparr>ya_wifiCloud := x6\<rparr>) = core s"
  "core (s\<lparr>ya_app_main_para_obj := x8\<rparr>) = core s" "core (s\<lparr>config_random_num := x10\<rparr>) = core s"
  "core (s\<lparr>aws_certificateBuff := y1, aws_privateKeyBuff := y2, aws_client_id := y3, aws_thing_type := y4\<rparr>) = core s"
  "core (s\<lparr>aliyun_productkey := y1, aliyun_deviceid := y2, aliyun_productsecret := y3\<rparr>) = core s"
  by (simp_all add: core_def board_of_def board.truncate_def)

text \<open>What the product is told at a start.\<close>

definition is_router :: "app_event \<Rightarrow> bool" where
  "is_router e = (case e of Router _ _ \<Rightarrow> True | _ \<Rightarrow> False)"

definition announced :: "ya_app_status_t \<Rightarrow> app_event list" where
  "announced st =
     (case st of YA_APP_IDLE \<Rightarrow> [Router MODULE_IDLE []] | YA_APP_SNIFFER_START \<Rightarrow> [Router MODULE_SNIFFER []]
      | YA_APP_AP_START \<Rightarrow> [Router MODULE_AP []] | YA_APP_TO_CONNECT \<Rightarrow> [Router MODULE_CONNECTING []] | _ \<Rightarrow> [])"

lemma load_licences_core:
  assumes "load_licences s = Some t" and "no_licences s"
  shows "core t = core s" and "app_events t = app_events s"
proof -
  obtain r a b c where al: "ya_aliyun_para_init s =
      Some (r, s\<lparr>aliyun_productkey := a, aliyun_deviceid := b, aliyun_productsecret := c\<rparr>)"
    using aliyun_init_fresh [of s] assms(2) by (auto simp: no_licences_def licences_def)
  have aws: "core y = core x \<and> app_events y = app_events x" if "ya_aws_para_init x = Some (q, y)" for x y :: "'a app_scheme" and q
    using aws_init_frame [OF that] by auto
  have "core t = core s \<and> app_events t = app_events s"
    using assms(1) al by (auto simp: load_licences_def split: Option.bind_splits if_splits dest!: aws)
  then show "core t = core s" "app_events t = app_events s" by simp_all
qed

text \<open>The cloud a start with credentials connects to, without a check that it is supported.\<close>

definition connect_cloud :: "ya_user_data_t \<Rightarrow> u32" where
  "connect_cloud u = (let ct = ucast (cloud_select u) - 1 in if ct \<ge> WIFI_MAX then WIFI_CN else ct)"

lemma connect_cloud_small: "connect_cloud u < WIFI_MAX" "ucast (ucast (connect_cloud u) :: u8) = connect_cloud u"
proof -
  show l: "connect_cloud u < WIFI_MAX" by (simp add: connect_cloud_def Let_def cloud_defs not_le)
  then have "unat (connect_cloud u) < 3" by (simp add: cloud_defs word_less_nat_alt)
  moreover have "connect_cloud u = of_nat (unat (connect_cloud u))" by simp
  ultimately have "connect_cloud u \<in> of_nat ` {..<3}" by blast
  also have "{..<3 :: nat} = {0, 1, 2}" by auto
  finally show "ucast (ucast (connect_cloud u) :: u8) = connect_cloud u" by auto
qed

lemma start_state_connect: "start_state m = YA_APP_TO_CONNECT \<longleftrightarrow> m = CONNECT_MODE"
  by (simp add: start_state_def mode_defs)

lemma main_init_core:
  assumes "world_fine w" and "factory_get_rssi_flag (ya_user_data s) \<noteq> 1" and "\<not> rebooted s"
  shows "\<exists>t. ya_app_main_init w s = Some t \<and> core t = core s \<and>
     filter is_router (app_events t) = filter is_router (app_events s) @ announced (ya_app_state s) \<and>
     (ya_app_state s = YA_APP_TO_CONNECT \<longrightarrow> CloudStart (connect_cloud (ya_user_data s)) \<in> set (app_events t))"
proof -
  define u where "u = app_emit WlanStart (announce (select_cloud (ya_wifi_cloud_support w
    (s\<lparr>link_connect := False, ya_sniffer_broadcast_enable := INIT_MODE, wait_coonnect_router_start_timer := 0, reconnect_count := 0\<rparr>))))"
  have u: "core u = core s" by (simp add: u_def announce_def select_cloud_def ya_wifi_cloud_support_def Let_def)
  have ru: "filter is_router (app_events u) = filter is_router (app_events s) @ announced (ya_app_state s)"
    by (simp add: u_def announce_def select_cloud_def ya_wifi_cloud_support_def Let_def announced_def is_router_def split: ya_app_status_t.splits)
  have ct: "ya_app_state s = YA_APP_TO_CONNECT \<longrightarrow> cloud_type (ya_app_main_para_obj u) = connect_cloud (ya_user_data s)"
    by (simp add: u_def announce_def select_cloud_def ya_wifi_cloud_support_def connect_cloud_def Let_def)
  have "rssi_test w u = Some u" using u assms(2) by (simp add: rssi_test_def core_eq)
  moreover have v: "core (ya_start_other_apps w u) = core u" (is "core ?v = _")
    "filter is_router (app_events (ya_start_other_apps w u)) = filter is_router (app_events u)"
    using assms(1) u assms(3) by (simp_all add: ya_start_other_apps_def ya_start_cloud_apps_def Let_def world_fine_def core_eq
        ya_aws_para_free_def ya_aliyun_para_free_def is_router_def)
  moreover have "ya_app_state s = YA_APP_TO_CONNECT \<longrightarrow> CloudStart (connect_cloud (ya_user_data s)) \<in> set (app_events ?v)"
    using assms(1,3) u ct connect_cloud_small [of "ya_user_data s"]
    by (simp add: ya_start_other_apps_def ya_start_cloud_apps_def Let_def world_fine_def core_eq
        ya_aws_para_free_def ya_aliyun_para_free_def)
  moreover have "core (enter_loop w ?v) = core ?v" "set (app_events ?v) \<subseteq> set (app_events (enter_loop w ?v))"
    "filter is_router (app_events (enter_loop w ?v)) = filter is_router (app_events ?v)"
    using assms(1) by (auto simp: enter_loop_def ya_check_enter_factory_mode_def ya_clear_randomnum_def Let_def world_fine_def is_router_def
        split: prod.splits)
  ultimately show ?thesis using assms u ru
    by (auto simp: ya_app_main_init_def Let_def u_def [symmetric] core_eq world_fine_def)
qed

text \<open>A start after the user data have been read and the mode has been chosen.\<close>

definition boot_state :: "ya_app_main_para_t \<Rightarrow> bool \<Rightarrow> 'a app_scheme \<Rightarrow> 'a app_scheme" where
  "boot_state para toggle s = (app_power_on s)\<lparr>sniffer_ap_mode := toggle, ya_app_main_para_obj := para\<rparr>"

lemma boot_state_fields [simp]:
  "fl_mem (boot_state para toggle s) = fl_mem s" "heap (boot_state para toggle s) = heap s"
  "sniffer_ap_mode (boot_state para toggle s) = toggle" "ya_app_main_para_obj (boot_state para toggle s) = para"
  "rebooted (boot_state para toggle s) = False" "app_events (boot_state para toggle s) = []" "ya_main_msg_queue (boot_state para toggle s) = []"
  by (simp_all add: boot_state_def app_power_on_def)

lemma boot_state_ok: "board_ok s \<Longrightarrow> board_ok (boot_state para toggle s)"
  by (simp add: board_ok_def chip_ready_def boot_state_def app_power_on_def)

lemma boot_after_mode:
  assumes "ya_read_user_data (boot_state para toggle s) = Some t1" and "ya_init_start_mode t1 = Some t2"
    and "factory_get_rssi_flag (ya_user_data t2) \<noteq> 1" and "\<not> rebooted t2" and "app_events t2 = []" and "world_fine w"
  shows "\<exists>t. app_boot para w toggle s = Some t \<and> core t = core t2 \<and> filter is_router (app_events t) = announced (ya_app_state t2) \<and>
     (ya_app_state t2 = YA_APP_TO_CONNECT \<longrightarrow> CloudStart (connect_cloud (ya_user_data t2)) \<in> set (app_events t))"
proof -
  have "no_licences (boot_state para toggle s)"
    by (simp add: no_licences_def licences_def aws_fields_def boot_state_def app_power_on_def)
  then have n: "no_licences t2" using start_mode_licences [OF assms(2)] read_user_licences [OF assms(1)] by (simp add: no_licences_def)
  obtain t3 where t3: "load_licences t2 = Some t3" "core t3 = core t2" "app_events t3 = []"
    using assms(5) load_licences_total [OF n] load_licences_core [OF _ n] by fastforce
  have "factory_get_rssi_flag (ya_user_data t3) \<noteq> 1" "\<not> rebooted t3" using t3(2) assms(3,4) by (simp_all add: core_eq)
  from main_init_core [OF assms(6) this] obtain t4 where t4: "ya_app_main_init w t3 = Some t4" "core t4 = core t3"
    "filter is_router (app_events t4) = announced (ya_app_state t3)"
    "ya_app_state t3 = YA_APP_TO_CONNECT \<longrightarrow> CloudStart (connect_cloud (ya_user_data t3)) \<in> set (app_events t4)" using t3(3) by auto
  have "(if toggle then snd (ya_set_toggle_mode True (app_power_on s)) else app_power_on s)\<lparr>ya_app_main_para_obj := para\<rparr> = boot_state para toggle s"
    by (simp add: ya_set_toggle_mode_def ya_set_sniffer_ap_mode_def app_power_on_def boot_state_def)
  then have "app_boot para w toggle s = Some t4"
    using assms(1,2) t3(1) t4(1) by (simp add: app_boot_def ya_start_app_main_def Let_def)
  with t3(2) t4(2-4) show ?thesis by (auto simp: core_eq)
qed

lemma boot_stored:
  assumes "board_ok s" and "user_ok u" and "keeps_user s u" and "\<not> credentials_bad u" and "factory_get_rssi_flag u \<noteq> 1"
    and "world_fine w"
  shows "\<exists>t. app_boot para w False s = Some t \<and> ya_user_data t = u \<and> ya_app_state t = start_state (ud_mode u) \<and>
     \<not> rebooted t \<and> ya_main_msg_queue t = [] \<and> holds_main t u \<and> board_ok t \<and>
     (\<forall>x. x < YA_USER_DATA_ADDR \<or> YA_USER_DATA_BACK_ADDR + 4096 \<le> x \<longrightarrow> fl_mem t x = fl_mem s x) \<and>
     filter is_router (app_events t) = announced (start_state (ud_mode u)) \<and>
     (ud_mode u = CONNECT_MODE \<longrightarrow> CloudStart (connect_cloud u) \<in> set (app_events t))"
proof -
  let ?p = "boot_state para False s"
  have wf: "user_wf u" using assms(2) by (simp add: user_ok_def)
  have "keeps_user ?p u"
    using assms(3) read_sector_cong [of YA_USER_DATA_ADDR ?p s USER_SIZE 1]
    by (auto simp: keeps_user_def main_refused_def record_at_def)
  from read_user_data [OF boot_state_ok [OF assms(1)] wf this assms(4)] obtain t1 where
    t1: "ya_read_user_data ?p = Some t1" "holds_main t1 u" "t1 = ?p\<lparr>fl_mem := fl_mem t1, fl_rsp := fl_rsp t1, ya_user_data := u\<rparr>"
      "board_ok t1" "\<forall>x. x < YA_USER_DATA_ADDR \<or> YA_USER_DATA_ADDR + 4096 \<le> x \<longrightarrow> fl_mem t1 x = fl_mem ?p x"
    by blast
  have f: "\<not> sniffer_ap_mode t1" "ya_user_data t1 = u" "\<not> rebooted t1" "ya_main_msg_queue t1 = []" "app_events t1 = []"
    by (subst t1(3), simp)+
  let ?t2 = "t1\<lparr>ya_app_state := start_state (ud_mode u)\<rparr>"
  have t2: "ya_init_start_mode t1 = Some ?t2" using f by (simp add: ya_init_start_mode_def ya_get_sniffer_ap_mode_def)
  from boot_after_mode [OF t1(1) t2 _ _ _ assms(6)] f assms(5) obtain t where
    "app_boot para w False s = Some t" "core t = core ?t2" "filter is_router (app_events t) = announced (start_state (ud_mode u))"
    "ud_mode u = CONNECT_MODE \<longrightarrow> CloudStart (connect_cloud u) \<in> set (app_events t)"
    by (auto simp: start_state_connect)
  moreover have "board_ok t" using calculation(2) t1(4) board_ok_cong [of t t1] by (simp add: core_eq board_of_eq)
  moreover have "fl_mem t1 x = fl_mem s x" if "x < YA_USER_DATA_ADDR \<or> YA_USER_DATA_BACK_ADDR + 4096 \<le> x" for x
    using that t1(5) by (auto simp: YA_USER_DATA_BACK_ADDR_def)
  ultimately show ?thesis using f t1(2) by (auto simp: core_eq record_at_def)
qed

text \<open>A start on which the product asks for the other pairing mode.\<close>

lemma boot_toggled:
  fixes para :: ya_app_main_para_t
  assumes "board_ok s" and "user_ok u" and "keeps_user s u" and "\<not> credentials_bad u" and "factory_get_rssi_flag u \<noteq> 1"
    and "world_fine w"
  defines "m \<equiv> other_mode (ya_init_mode para) (ud_mode u)"
  shows "\<exists>t. app_boot para w True s = Some t \<and> ya_user_data t = u\<lparr>ud_mode := m\<rparr> \<and> ya_app_state t = start_state m \<and>
     \<not> rebooted t \<and> holds_main t (u\<lparr>ud_mode := m\<rparr>) \<and> holds_back t (u\<lparr>ud_mode := m\<rparr>) \<and>
     filter is_router (app_events t) = announced (start_state m)"
proof -
  let ?p = "boot_state para True s" and ?u = "u\<lparr>ud_mode := m\<rparr>"
  have wf: "user_wf u" "user_wf ?u" using assms(2) by (simp_all add: user_ok_def user_wf_def)
  have "keeps_user ?p u"
    using assms(3) read_sector_cong [of YA_USER_DATA_ADDR ?p s USER_SIZE 1]
    by (auto simp: keeps_user_def main_refused_def record_at_def)
  from read_user_data [OF boot_state_ok [OF assms(1)] wf(1) this assms(4)] obtain t1 where
    t1: "ya_read_user_data ?p = Some t1" "board_ok t1" "t1 = ?p\<lparr>fl_mem := fl_mem t1, fl_rsp := fl_rsp t1, ya_user_data := u\<rparr>"
    by blast
  have f: "sniffer_ap_mode t1" "ya_user_data t1 = u" "\<not> rebooted t1" "app_events t1 = []" "ya_app_main_para_obj t1 = para"
    by (subst t1(3), simp)+
  obtain t2 where t2: "ya_save_user_data (t1\<lparr>ya_user_data := ?u\<rparr>) = Some (C_OK, t2)" "holds_main t2 ?u" "holds_back t2 ?u"
    "t2 = (t1\<lparr>ya_user_data := ?u\<rparr>)\<lparr>fl_mem := fl_mem t2, fl_rsp := fl_rsp t2\<rparr>"
    using save_user_data [of "t1\<lparr>ya_user_data := ?u\<rparr>"] t1(2) wf(2) by auto
  have g: "ya_user_data t2 = ?u" "\<not> rebooted t2" "app_events t2 = []" using f(3,4) by (subst t2(4), simp)+
  let ?t2 = "t2\<lparr>ya_app_state := start_state m\<rparr>"
  have init: "ya_init_start_mode t1 = Some ?t2"
    using f t2(1) g(1) by (simp add: ya_init_start_mode_def ya_get_sniffer_ap_mode_def m_def Let_def)
  from boot_after_mode [OF t1(1) init _ _ _ assms(6)] g assms(5) obtain t where
    "app_boot para w True s = Some t" "core t = core ?t2" "filter is_router (app_events t) = announced (start_state m)" by auto
  with g t2(2,3) show ?thesis by (auto simp: core_eq record_at_def)
qed

text \<open>A start that finds no user data.\<close>

lemma boot_blank:
  assumes "board_ok s" and "fl_mem s YA_USER_DATA_ADDR \<noteq> 0xAA" and "fl_mem s YA_USER_DATA_BACK_ADDR \<noteq> 0xAA" and "world_fine w"
  shows "\<exists>t. app_boot para w False s = Some t \<and> ya_user_data t = user_zero\<lparr>ud_mode := ya_init_mode para\<rparr> \<and>
     ya_app_state t = start_state (ya_init_mode para) \<and> \<not> rebooted t \<and>
     filter is_router (app_events t) = announced (start_state (ya_init_mode para))"
proof -
  let ?p = "boot_state para False s" and ?u = "user_zero\<lparr>ud_mode := ya_init_mode para\<rparr>"
  have "user_wf ?u" using user_zero_ok [of "ya_init_mode para"] by (simp add: user_ok_def)
  then obtain t1 where t1: "ya_save_user_data (?p\<lparr>ya_user_data := ?u\<rparr>) = Some (C_OK, t1)"
    "t1 = (?p\<lparr>ya_user_data := ?u\<rparr>)\<lparr>fl_mem := fl_mem t1, fl_rsp := fl_rsp t1\<rparr>"
    using save_user_data [of "?p\<lparr>ya_user_data := ?u\<rparr>"] boot_state_ok [OF assms(1), of para False] by auto
  have r: "ya_read_user_data ?p = Some t1"
    using t1(1) assms(2,3) by (simp add: ya_read_user_data_def read_copies_def read_no_magic init_user_data_def)
  have f: "\<not> sniffer_ap_mode t1" "ya_user_data t1 = ?u" "\<not> rebooted t1" "app_events t1 = []" by (subst t1(2), simp)+
  let ?t2 = "t1\<lparr>ya_app_state := start_state (ya_init_mode para)\<rparr>"
  have t2: "ya_init_start_mode t1 = Some ?t2" using f by (simp add: ya_init_start_mode_def ya_get_sniffer_ap_mode_def)
  have "factory_get_rssi_flag user_zero = 0" by (simp add: user_zero_def user_of_def USER_SIZE_def)
  with boot_after_mode [OF r t2 _ _ _ assms(4)] f obtain t where
    "app_boot para w False s = Some t" "core t = core ?t2"
    "filter is_router (app_events t) = announced (start_state (ya_init_mode para))" by auto
  with f show ?thesis by (auto simp: core_eq)
qed

lemma erase_all_erases:
  assumes "board_ok s"
  shows "board_ok (ya_erase_all_user_data s) \<and>
    (\<forall>a\<in>{YA_USER_DATA_ADDR, YA_USER_DATA_BACK_ADDR, YA_OTA_DATA_ADDR, YA_DEVICE_TIMER_ADDR}.
       erased a 4096 (fl_mem (ya_erase_all_user_data s))) \<and>
    (\<forall>x. x < YA_USER_DATA_ADDR \<or> YA_DEVICE_TIMER_ADDR + 4096 \<le> x \<longrightarrow> fl_mem (ya_erase_all_user_data s) x = fl_mem s x)"
proof -
  have e: "board_ok (snd (ya_erase_flash a n t)) \<and> fl_mem (snd (ya_erase_flash a n t)) = erase_range a 4096 (fl_mem t)"
    if "board_ok t" "a mod 4096 = 0" "0 < n" "n \<le> 4096" for a n and t :: "'a app_scheme"
    using erase_sector [OF that] by (metis flash.select_convs(1) flash.surjective flash.update_convs(1,2))
  have "fl_mem (ya_erase_all_user_data s) =
      erase_range YA_DEVICE_TIMER_ADDR 4096 (erase_range YA_OTA_DATA_ADDR 4096
        (erase_range YA_USER_DATA_ADDR 4096 (erase_range YA_USER_DATA_BACK_ADDR 4096 (fl_mem s))))"
    "board_ok (ya_erase_all_user_data s)"
    using assms by (simp_all add: ya_erase_all_user_data_def Let_def e)
  then show ?thesis by (auto simp: erased_def erase_range_def user_addrs)
qed

section \<open>Pairing and connecting\<close>

lemma cloud_support_core:
  assumes "ya_check_cloud_support w ct s = Some (r, t)"
  shows "core t = core s"
  using assms by (auto simp: ya_check_cloud_support_def Let_def split: if_splits option.splits Option.bind_splits)

lemma start_cloud_flash: "fl_mem (ya_start_cloud_apps w ct s) = fl_mem s"
  by (simp add: ya_start_cloud_apps_def Let_def ya_hal_sys_reboot_def ya_aws_para_free_def ya_aliyun_para_free_def)

lemma pairing_done_stores:
  assumes "app_inv s" and "world_ok w"
  shows "\<exists>t. pairing_done w s = Some t \<and> app_inv t \<and> holds_main t (ya_user_data s) \<and> holds_back t (ya_user_data s)"
proof -
  let ?u = "ya_user_data s"
  obtain t where t: "ya_save_user_data s = Some (C_OK, t)" "holds_main t ?u" "holds_back t ?u"
    using save_user_data [of s] assms(1) by (auto simp: app_inv_def ram_ok_def user_ok_def)
  have inv: "app_inv (app_emit ClearTimerFlash t)" using save_any_inv [OF assms(1)] t(1) by auto
  obtain r x where x: "ya_check_cloud_support w (cloud_select (ya_user_data t)) (app_emit ClearTimerFlash t) = Some (r, x)"
    using cloud_support_inv [OF inv assms(2)] by blast
  have "fl_mem x = fl_mem t" using cloud_support_core [OF x] by (simp add: core_eq)
  then have "\<exists>y. pairing_done w s = Some y \<and> fl_mem y = fl_mem t"
    using t(1) x by (simp add: pairing_done_def Let_def start_cloud_flash)
  with t(2,3) pairing_done_inv [OF assms] show ?thesis by (auto simp: record_at_def)
qed

text \<open>A valid result of smart configuration and the network it names.\<close>

definition pairing_good :: "smnt_result_t \<Rightarrow> bool" where
  "pairing_good r \<longleftrightarrow> smart_ok r \<and> smnt_result_status r = smnt_result_ok \<and> sm_ssid_len r \<noteq> 0 \<and> sm_ssid_len r \<le> 32 \<and>
     sm_password_len r \<le> 64 \<and> sm_ssid r ! 0 \<noteq> 0"

definition pairing_ssid :: "smnt_result_t \<Rightarrow> bytes" where
  "pairing_ssid r = take (unat (sm_ssid_len r)) (sm_ssid r)"

definition pairing_pwd :: "smnt_result_t \<Rightarrow> bytes" where
  "pairing_pwd r = take (unat (sm_password_len r)) (sm_password r)"

definition pairing_user :: "smnt_result_t \<Rightarrow> ya_user_data_t" where
  "pairing_user r = paired_user (pairing_ssid r) (pairing_pwd r) (sm_bssid r) (sm_cloud_select r)"

lemma pairing_lengths:
  assumes "pairing_good r"
  shows "length (pairing_ssid r) = unat (sm_ssid_len r)" "length (pairing_pwd r) = unat (sm_password_len r)"
    "unat (sm_ssid_len r) \<le> 32" "0 < unat (sm_ssid_len r)" "unat (sm_password_len r) \<le> 64"
proof -
  show l: "unat (sm_ssid_len r) \<le> 32" "unat (sm_password_len r) \<le> 64"
    using assms by (simp_all add: pairing_good_def word_le_nat_alt)
  show "0 < unat (sm_ssid_len r)" using assms by (simp add: pairing_good_def unat_gt_0)
  show "length (pairing_ssid r) = unat (sm_ssid_len r)" "length (pairing_pwd r) = unat (sm_password_len r)"
    using assms l by (simp_all add: pairing_ssid_def pairing_pwd_def pairing_good_def smart_ok_def)
qed

lemma smart_callback_result:
  assumes "app_inv s" and "pairing_good r" and "ya_main_msg_queue s = []"
  shows "\<exists>t. ya_smart_config_result_callback r s = Some t \<and> app_inv t \<and> ya_user_data t = pairing_user r \<and>
     ya_main_msg_queue t = [(YA_SNIFFER_SUCCESS, None)] \<and> ya_app_state t = ya_app_state s \<and> rebooted t = rebooted s \<and>
     ya_app_main_para_obj t = ya_app_main_para_obj s \<and> app_events t = app_events s"
proof -
  note len = pairing_lengths [OF assms(2)]
  obtain t where t: "paired (pairing_ssid r) (pairing_pwd r) (sm_bssid r) (sm_cloud_select r) (sm_rand r) s = Some t" "app_inv t"
    "t = s\<lparr>ya_user_data := pairing_user r, config_random_num := config_random_num t\<rparr>"
    using paired_result [OF assms(1), of "pairing_ssid r" "pairing_pwd r" "sm_bssid r" "sm_rand r" "sm_cloud_select r"] len assms(2)
    by (auto simp: pairing_good_def smart_ok_def pairing_user_def)
  have f: "ya_main_msg_queue t = []" "ya_user_data t = pairing_user r" "ya_app_state t = ya_app_state s" "rebooted t = rebooted s"
    "ya_app_main_para_obj t = ya_app_main_para_obj s" "app_events t = app_events s"
    using assms(3) by (subst t(3), simp)+
  have "app_inv (snd (queue_send (YA_SNIFFER_SUCCESS, None) t))" using app_queue_inv [OF t(2)] by simp
  moreover have "ya_smart_config_result_callback r s = Some (snd (queue_send (YA_SNIFFER_SUCCESS, None) t))"
    using assms(2) len t(1)
    by (auto simp: ya_smart_config_result_callback_def rd_def slice_def pairing_good_def smart_ok_def pairing_ssid_def pairing_pwd_def)
  ultimately show ?thesis using f by (simp add: queue_send_def MSG_QUEUE_LENGTH_def)
qed

lemma pairing_user_ok:
  assumes "pairing_good r"
  shows "user_ok (pairing_user r)" and "\<not> credentials_bad (pairing_user r)" and "factory_get_rssi_flag (pairing_user r) \<noteq> 1"
    and "ud_mode (pairing_user r) = CONNECT_MODE"
proof -
  note len = pairing_lengths [OF assms]
  have u: "unat (of_nat (length (pairing_ssid r)) :: u8) = unat (sm_ssid_len r)"
    "unat (of_nat (length (pairing_pwd r)) :: u8) = unat (sm_password_len r)"
    using len by (simp_all add: unat_of_nat_u8)
  have "pairing_ssid r ! 0 = sm_ssid r ! 0" using len by (simp add: pairing_ssid_def)
  then have nz: "pairing_ssid r ! 0 \<noteq> 0" using assms by (simp add: pairing_good_def)
  have "sm_ssid_len r \<noteq> 0" using assms by (simp add: pairing_good_def)
  have zero: "factory_get_rssi_flag user_zero = 0" by (simp add: user_zero_def user_of_def USER_SIZE_def)
  show "user_ok (pairing_user r)"
    using user_zero_ok [of 0] len u assms
    by (simp add: pairing_user_def paired_user_def user_ok_def user_wf_def word_le_nat_alt pairing_good_def smart_ok_def)
  show "\<not> credentials_bad (pairing_user r)"
    using len u nz by (simp add: pairing_user_def paired_user_def credentials_bad_def word_less_nat_alt nth_append word_eq_iff_unsigned unat_gt_0)
  show "factory_get_rssi_flag (pairing_user r) \<noteq> 1" by (simp add: pairing_user_def paired_user_def zero)
  show "ud_mode (pairing_user r) = CONNECT_MODE" by (simp add: pairing_user_def paired_user_def)
qed

lemma turn_message:
  assumes "\<not> rebooted s" and "app_state_step w s = Some s" and "ya_main_msg_queue s = [m]"
  shows "app_turn w s = app_handle_msg w m (s\<lparr>ya_main_msg_queue := []\<rparr>)"
  using assms by (simp add: app_turn_def)

lemma drained_inv: "app_inv s \<Longrightarrow> app_inv (s\<lparr>ya_main_msg_queue := []\<rparr>)"
  using sane_copy_cong [of _ "s\<lparr>ya_main_msg_queue := []\<rparr>" s] board_ok_cong [of "s\<lparr>ya_main_msg_queue := []\<rparr>" s]
  by (simp add: app_inv_def ram_ok_def board_of_eq)

lemma record_upd: "record_at (s\<lparr>ya_sniffer_broadcast_enable := x\<rparr>) a d = record_at s a d"
  by (simp add: record_at_def)

text \<open>The first round after a start with credentials asks the driver for that network.\<close>

lemma connect_after_boot:
  assumes "app_inv t" and "ya_user_data t = paired_user sd pw bs ct" and "ya_app_state t = YA_APP_TO_CONNECT" and "\<not> rebooted t"
    and "ya_main_msg_queue t = []" and "w_connect_ap w = C_OK" and "length sd \<le> 32" and "length pw \<le> 64"
  shows "\<exists>x. app_turn w t = Some x \<and> ya_app_state x = YA_APP_CONNECTING \<and>
     last (app_events x) = ConnectAp (sd @ replicate (33 - length sd) 0) (pw @ replicate (65 - length pw) 0) bs"
proof -
  have "unat (of_nat (length sd) :: u8) = length sd" "unat (of_nat (length pw) :: u8) = length pw"
    using assms(7,8) by (simp_all add: unat_of_nat_u8)
  then show ?thesis using assms(2-8)
    by (simp add: app_turn_def app_state_step_def connect_router_result [OF assms(1)] connect_event_def paired_user_def Let_def)
qed

section \<open>Properties\<close>

text \<open>C9: from a start with any flash on which no user data with lengths out of range are stored, no
  sequence of starts, rounds of the loop, pairing results, Wi-Fi events and requests from other tasks is
  undefined, and the invariant holds throughout: credentials fit their arrays, strings are
  terminated, the queue is never longer than its capacity, and the flash stays free of bad user data.  The inputs have to
  respect the sizes the code does not check (\<open>app_step_ok\<close>): pairing results with credentials that fit, names for the
  strength test of at most 32 characters, URLs for the update test of at most 399, and terminated names from the Aliyun client.\<close>

theorem app_run_safe:
  assumes "board_ok s" and "sane_copy YA_USER_DATA_ADDR s" and "sane_copy YA_USER_DATA_BACK_ADDR s" and "list_all app_step_ok es"
  shows "\<exists>t u. app_boot para w toggle s = Some t \<and> run_steps (app_do para) es t = Some u \<and> app_inv u"
proof -
  obtain t where t: "app_boot para w toggle s = Some t" "app_inv t" using boot_inv [OF assms(1-3)] by blast
  with app_task.run_keeps [OF t(2) assms(4), of para] show ?thesis by blast
qed

definition para_demo :: ya_app_main_para_t where
  "para_demo = \<lparr>cloud_type = UNKNOWN_CLOUD_TYPE, ya_init_mode = SNIFFER_MODE, sniffer_timeout = 300, ap_timeout = 300,
     cur_version = replicate 33 0, mcu_version = replicate 65 0, mcu_ota_enable = False, enable_factory_uart = False,
     enable_factory_router_scan = True, enable_low_power = False, enable_debind = True\<rparr>"

definition world_demo :: world where
  "world_demo = \<lparr>w_msec = 0, w_start_smnt = 0, w_connect_ap = 0, w_cloud_start = 0, w_ota_start = 0, w_uart_start = 0,
     w_hardware_start = 0, w_wdt = 0, w_cloud_status = False, ya_aly_get_thing_name = None, ya_aly_get_client_id = None,
     w_rssi_scan = (\<lambda>_. (-1, 0, 0)), w_factory_scan = (-1, (0, 0), (0, 0))\<rparr>"

definition app_demo :: app where
  "app_demo = app_power_on (cert.extend cert_demo
     \<lparr>ya_user_data = user_zero, sniffer_ap_mode = False, debine_enable = False, support_cloud = False,
      ya_app_state = YA_APP_IDLE, config_random_num = [], ya_app_main_para_obj = para_demo, ya_wifiCloud = 0,
      ya_main_msg_queue = [], enter_get_rssi_mode = False, app_events = [], rebooted = False, link_connect = False,
      ya_sniffer_broadcast_enable = INIT_MODE, wait_coonnect_router_start_timer = 0, reconnect_count = 0\<rparr>)"

lemma app_demo_flash: "fl_mem app_demo = (\<lambda>_. 0xFF)" "fl_rsp app_demo = []" "heap app_demo = (\<lambda>_. Some (\<lambda>_. 0xCD))" "ret_reg app_demo = 0"
  by (simp_all add: app_demo_def app_power_on_def cert.extend_def cert_demo_def)

lemma app_demo_ok: "board_ok app_demo" "sane_copy a app_demo"
  by (simp_all add: board_ok_def chip_ready_def app_demo_flash sane_no_magic)

lemma world_demo_ok: "world_ok world_demo" "world_fine world_demo"
  by (simp_all add: world_ok_def world_fine_def world_demo_def terminated_def cert_codes)

theorem app_run_safe_witness:
  "\<exists>t u. app_boot para_demo world_demo True app_demo = Some t \<and>
     run_steps (app_do para_demo) [AppTurn world_demo, SetApMode, AppTurn world_demo, AppBoot world_demo False] t = Some u \<and> app_inv u"
  using app_run_safe [OF app_demo_ok(1) app_demo_ok(2) app_demo_ok(2),
      of "[AppTurn world_demo, SetApMode, AppTurn world_demo, AppBoot world_demo False]" para_demo world_demo True]
  by (simp add: world_demo_ok)

text \<open>C8: the user data behave like an atomic store.  Whatever sequence of saves, power losses (between operations, between the
  two writes of a save, or inside the write of either copy, also while a start repairs the main copy) and starts has
  happened, the next start reads in full the data of the last save whose write of the main copy had begun, and the main copy holds them
  again; the remains of an interrupted write of the main copy are supposed to be refused by the reader.\<close>

theorem user_data_survive_power_loss:
  assumes "user_life False u s"
  shows "\<exists>t. ya_read_user_data s = Some t \<and> ya_user_data t = u \<and> holds_main t u"
proof -
  from user_life_invariant [OF assms] have "board_ok s" "user_wf u" "keeps_user s u" "\<not> credentials_bad u" by simp_all
  from read_user_data [OF this] obtain t where
    t: "ya_read_user_data s = Some t" "holds_main t u" "t = s\<lparr>fl_mem := fl_mem t, fl_rsp := fl_rsp t, ya_user_data := u\<rparr>" by blast
  from t(3) have "ya_user_data t = u" by (metis app.select_convs(1) app.surjective app.update_convs(1))
  with t show ?thesis by blast
qed

lemma torn_erased: "torn a s (s\<lparr>fl_mem := erase_range a 4096 (fl_mem s)\<rparr>)"
  unfolding torn_def by (intro exI [of _ "erase_range a 4096 (fl_mem s)"]) (auto simp: erase_range_def)

lemma refused_erased: "main_refused (s\<lparr>fl_mem := erase_range YA_USER_DATA_ADDR 4096 (fl_mem s)\<rparr>)"
  unfolding main_refused_def by (rule read_no_magic) (simp add: erase_range_def)

theorem user_data_survive_power_loss_witness:
  "\<exists>s. user_life False (user_zero\<lparr>ud_mode := IDLE_MODE\<rparr>) (s :: app) \<and>
     (\<exists>t. ya_read_user_data s = Some t \<and> ya_user_data t = user_zero\<lparr>ud_mode := IDLE_MODE\<rparr>)"
proof -
  let ?u = "user_zero\<lparr>ud_mode := AP_MODE\<rparr>" and ?v = "user_zero\<lparr>ud_mode := IDLE_MODE\<rparr>"
  have ok: "user_wf ?u" "user_wf ?v" "\<not> credentials_bad ?u" "\<not> credentials_bad ?v"
    using user_zero_ok [of AP_MODE] user_zero_ok [of IDLE_MODE] by (simp_all add: user_ok_def credentials_bad_def mode_defs)
  obtain r s1 where "ya_save_user_data (app_demo\<lparr>ya_user_data := ?u\<rparr>) = Some (r, s1)"
    using save_user_data [of "app_demo\<lparr>ya_user_data := ?u\<rparr>"] app_demo_ok(1) ok(1) by auto
  then have l1: "user_life True ?u s1" using user_life.first [OF app_demo_ok(1) ok(1,3)] by blast
  then have "board_ok s1" using user_life_invariant by blast
  then obtain r' s2 where s2: "ya_write_flash YA_USER_DATA_BACK_ADDR (user_bytes ?v) USER_SIZE 1 s1 = Some (r', s2)"
    using write_copy [OF _ ok(2) user_sectors(2)] by blast
  from user_life.cut_main [OF l1 ok(2,4) s2 torn_erased refused_erased]
  have "user_life False ?v (s2\<lparr>fl_mem := erase_range YA_USER_DATA_ADDR 4096 (fl_mem s2)\<rparr>)" .
  with user_data_survive_power_loss [OF this] show ?thesis by blast
qed

text \<open>A module whose flash holds the result of a pairing asks for that network after a restart.\<close>

lemma stored_connects:
  assumes "app_inv u" and "holds_main u (pairing_user r)" and "pairing_good r" and "world_fine w'"
  shows "\<exists>v x. app_boot para w' False u = Some v \<and> app_turn w' v = Some x \<and> ya_app_state x = YA_APP_CONNECTING \<and>
    last (app_events x) = ConnectAp (pairing_ssid r @ replicate (33 - unat (sm_ssid_len r)) 0)
      (pairing_pwd r @ replicate (65 - unat (sm_password_len r)) 0) (sm_bssid r)"
proof -
  note len = pairing_lengths [OF assms(3)] and ok = pairing_user_ok [OF assms(3)]
  have "board_ok u" "keeps_user u (pairing_user r)" "sane_copy YA_USER_DATA_ADDR u" "sane_copy YA_USER_DATA_BACK_ADDR u"
    using assms(1,2) by (simp_all add: app_inv_def keeps_user_def)
  from boot_stored [OF this(1) ok(1) this(2) ok(2,3) assms(4), of para] boot_inv [OF this(1,3,4), of para w' False]
  obtain v where v: "app_boot para w' False u = Some v" "app_inv v" "ya_user_data v = pairing_user r"
    "ya_app_state v = YA_APP_TO_CONNECT" "\<not> rebooted v" "ya_main_msg_queue v = []"
    by (auto simp: ok(4) start_state_def mode_defs)
  have "w_connect_ap w' = C_OK" using assms(4) by (simp add: world_fine_def)
  from connect_after_boot [OF v(2) v(3) [unfolded pairing_user_def] v(4-6) this] len v(1) show ?thesis by fastforce
qed

text \<open>A module that listens for smart configuration and receives a valid result stores it, so that after a
  restart at any later moment it enters the connecting state and its first round asks the Wi-Fi driver for
  exactly the received network name, password and access point, whether or not the cloud client could be
  started at once.\<close>

lemma paired_module_connects:
  assumes "app_inv s" and "\<not> rebooted s" and "ya_app_state s = YA_APP_SNIFFER" and "ya_main_msg_queue s = []"
    and "pairing_good r" and "world_ok w" and "world_fine w'"
  shows "\<exists>t u v x. ya_smart_config_result_callback r s = Some t \<and> app_turn w t = Some u \<and>
    app_boot para w' False u = Some v \<and> app_turn w' v = Some x \<and> ya_app_state x = YA_APP_CONNECTING \<and>
    last (app_events x) = ConnectAp (pairing_ssid r @ replicate (33 - unat (sm_ssid_len r)) 0)
      (pairing_pwd r @ replicate (65 - unat (sm_password_len r)) 0) (sm_bssid r)"
proof -
  obtain t where t: "ya_smart_config_result_callback r s = Some t" "app_inv t" "ya_user_data t = pairing_user r"
    "ya_main_msg_queue t = [(YA_SNIFFER_SUCCESS, None)]" "ya_app_state t = YA_APP_SNIFFER" "\<not> rebooted t"
    using smart_callback_result [OF assms(1,5,4)] assms(2,3) by auto
  have "app_state_step w t = Some t" using t(5) by (simp add: app_state_step_def)
  note turn = turn_message [OF t(6) this t(4)]
  obtain y where y: "pairing_done w (t\<lparr>ya_main_msg_queue := []\<rparr>) = Some y" "app_inv y" "holds_main y (pairing_user r)"
    using pairing_done_stores [OF drained_inv [OF t(2)] assms(6)] t(3) by auto
  define u where "u = (if rebooted y then y else y\<lparr>ya_sniffer_broadcast_enable := SNIFFER_SUCCESS\<rparr>)"
  have u: "app_turn w t = Some u" "app_inv u" "holds_main u (pairing_user r)"
    using y by (simp_all add: turn app_handle_msg_def u_def record_upd)
  from stored_connects [OF u(2,3) assms(5,7), of para] t(1) u(1) show ?thesis by fastforce
qed

definition smart_demo :: smnt_result_t where
  "smart_demo = \<lparr>smnt_result_status = 0, sm_ssid_len = 2, sm_password_len = 1, sm_ssid = 65 # 66 # replicate 31 0,
     sm_password = 67 # replicate 64 0, sm_bssid = replicate 6 1, sm_cloud_select = 1, sm_rand = replicate 33 0\<rparr>"

lemma smart_demo_good: "pairing_good smart_demo"
  by (simp add: pairing_good_def smart_ok_def smart_demo_def smnt_result_ok_def)

lemma sniffing_demo:
  "\<exists>t. app_inv (t :: app) \<and> \<not> rebooted t \<and> ya_app_state t = YA_APP_SNIFFER \<and> ya_main_msg_queue t = [] \<and>
     cloud_type (ya_app_main_para_obj t) = AKEETA_CN"
proof -
  obtain t where t: "app_boot para_demo world_demo False app_demo = Some t" "app_inv t"
    using boot_inv [OF app_demo_ok(1) app_demo_ok(2) app_demo_ok(2)] by blast
  let ?t = "t\<lparr>rebooted := False, ya_app_state := YA_APP_SNIFFER,
    ya_app_main_para_obj := (ya_app_main_para_obj t)\<lparr>cloud_type := AKEETA_CN\<rparr>\<rparr>"
  have "app_inv (?t\<lparr>ya_main_msg_queue := []\<rparr>)" using t(2) by (intro drained_inv) simp
  then show ?thesis by (intro exI [of _ "?t\<lparr>ya_main_msg_queue := []\<rparr>"]) simp
qed

text \<open>C34: a factory reset.  The round that takes the reset message erases the user data, their backup copy, the
  OTA data and the scheduled actions and reboots, and the next start finds nothing: it begins anew in the
  mode the product was built with, with empty user data.\<close>

theorem factory_reset_forgets:
  assumes "app_inv s" and "\<not> rebooted s" and "ya_app_state s = YA_APP_CONNECTED" and "ya_main_msg_queue s = [(YA_FACTORY_MODE, None)]"
    and "world_fine w'"
  shows "\<exists>t u. app_turn w s = Some t \<and> rebooted t \<and>
    (\<forall>a\<in>{YA_USER_DATA_ADDR, YA_USER_DATA_BACK_ADDR, YA_OTA_DATA_ADDR, YA_DEVICE_TIMER_ADDR}. erased a 4096 (fl_mem t)) \<and>
    app_boot para w' False t = Some u \<and> ya_user_data u = user_zero\<lparr>ud_mode := ya_init_mode para\<rparr> \<and>
    ya_app_state u = start_state (ya_init_mode para) \<and> \<not> rebooted u"
proof -
  have "app_state_step w s = Some s" using assms(3) by (simp add: app_state_step_def)
  from turn_message [OF assms(2) this assms(4)] have "app_turn w s = Some (ya_reset_module_to_factory_internal (s\<lparr>ya_main_msg_queue := []\<rparr>))"
    by (simp add: app_handle_msg_def)
  moreover have "board_ok (s\<lparr>ya_main_msg_queue := []\<rparr>)" using drained_inv [OF assms(1)] by (rule app_invD(1))
  note e = erase_all_erases [OF this]
  let ?t = "ya_reset_module_to_factory_internal (s\<lparr>ya_main_msg_queue := []\<rparr>)"
  have t: "board_ok ?t" "\<forall>a\<in>{YA_USER_DATA_ADDR, YA_USER_DATA_BACK_ADDR, YA_OTA_DATA_ADDR, YA_DEVICE_TIMER_ADDR}. erased a 4096 (fl_mem ?t)"
    using e board_ok_cong [of ?t "ya_erase_all_user_data (s\<lparr>ya_main_msg_queue := []\<rparr>)"]
    by (simp_all add: ya_reset_module_to_factory_internal_def ya_hal_sys_reboot_def board_of_eq)
  moreover have "rebooted ?t" by (simp add: ya_reset_module_to_factory_internal_def ya_hal_sys_reboot_def)
  moreover have "fl_mem ?t YA_USER_DATA_ADDR \<noteq> 0xAA" "fl_mem ?t YA_USER_DATA_BACK_ADDR \<noteq> 0xAA" using t(2) by (simp_all add: erased_def)
  from boot_blank [OF t(1) this assms(5), of para] have "\<exists>u. app_boot para w' False ?t = Some u \<and>
      ya_user_data u = user_zero\<lparr>ud_mode := ya_init_mode para\<rparr> \<and> ya_app_state u = start_state (ya_init_mode para) \<and> \<not> rebooted u" by blast
  ultimately show ?thesis by blast
qed

lemma queued_inv: "app_inv s \<Longrightarrow> msg_ok m \<Longrightarrow> app_inv (s\<lparr>ya_main_msg_queue := [m]\<rparr>)"
  using app_queue_inv [OF drained_inv, of s m] by (simp add: queue_send_def MSG_QUEUE_LENGTH_def)

lemma state_demo: "\<exists>t. app_inv (t :: app) \<and> \<not> rebooted t \<and> ya_app_state t = st \<and> ya_main_msg_queue t = [(ty, None)] \<and> reconnect_count t = 0"
  if "msg_ok (ty, None)"
proof -
  obtain t :: app where t: "app_inv t" "\<not> rebooted t" using sniffing_demo by blast
  from queued_inv [OF t(1) that] have "app_inv ((t\<lparr>ya_main_msg_queue := [(ty, None)]\<rparr>)\<lparr>ya_app_state := st, reconnect_count := 0\<rparr>)" by simp
  with t(2) show ?thesis
    by (intro exI [of _ "(t\<lparr>ya_main_msg_queue := [(ty, None)]\<rparr>)\<lparr>ya_app_state := st, reconnect_count := 0\<rparr>"]) simp
qed

theorem factory_reset_forgets_witness:
  "\<exists>s t u. app_turn world_demo (s :: app) = Some t \<and> rebooted t \<and> erased YA_DEVICE_TIMER_ADDR 4096 (fl_mem t) \<and>
    app_boot para_demo world_demo False t = Some u \<and> ya_app_state u = YA_APP_SNIFFER_START"
proof -
  obtain s :: app where s: "app_inv s" "\<not> rebooted s" "ya_app_state s = YA_APP_CONNECTED" "ya_main_msg_queue s = [(YA_FACTORY_MODE, None)]"
    using state_demo [of YA_FACTORY_MODE YA_APP_CONNECTED] by auto
  from factory_reset_forgets [OF s world_demo_ok(2), of world_demo para_demo] show ?thesis
    by (auto simp: start_state_def para_demo_def mode_defs)
qed

text \<open>C35: reconnecting.  When the router refuses the connection at a time of the millisecond clock, the task does
  nothing until more than three seconds have passed (ten after eleven failures in a row); the first round after
  that time leaves the pause, and the round after it asks the driver for the stored network again.\<close>

theorem reconnect_after_pause:
  assumes "app_inv s" and "\<not> rebooted s" and "ya_app_state s = YA_APP_CONNECTING" and "ya_main_msg_queue s = [(YA_CONNECT_FAIL, None)]"
    and "w_msec w' = w_msec w + d" and "w_msec w \<le> w_msec w + d" and "w_connect_ap w'' = C_OK"
  shows "\<exists>t. app_turn w s = Some t \<and>
    (if d \<le> (if reconnect_count s > 10 then 10000 else 3000) then app_turn w' t = Some t
     else \<exists>u x. app_turn w' t = Some u \<and> reconnect_count u = reconnect_count s + 1 \<and> app_turn w'' u = Some x \<and>
          ya_app_state x = YA_APP_CONNECTING \<and> last (app_events x) = connect_event (ya_user_data s))"
proof -
  have "app_state_step w s = Some s" using assms(3) by (simp add: app_state_step_def)
  note turn = turn_message [OF assms(2) this assms(4)]
  define t where "t = app_emit WlanStop ((s\<lparr>ya_main_msg_queue := []\<rparr>)\<lparr>ya_app_state := YA_APP_WAIT_TO_CONNECT, wait_coonnect_router_start_timer := w_msec w\<rparr>)"
  have t: "app_turn w s = Some t" by (simp add: turn app_handle_msg_def t_def)
  have inv: "app_inv t" using drained_inv [OF assms(1)] by (simp add: t_def)
  have f: "ya_app_state t = YA_APP_WAIT_TO_CONNECT" "ya_main_msg_queue t = []" "\<not> rebooted t" "ya_user_data t = ya_user_data s"
    "wait_coonnect_router_start_timer t = w_msec w" "reconnect_count t = reconnect_count s"
    using assms(2) by (simp_all add: t_def)
  have cmp: "ya_timer_compare (w_msec w) (w_msec w') p = (if d > p then 0 else -1)" for p
    using assms(5,6) by (simp add: ya_timer_compare_eq timer_delta_eq)
  define u where "u = app_emit SetStaMode (t\<lparr>reconnect_count := reconnect_count s + 1, ya_app_state := YA_APP_TO_CONNECT\<rparr>)"
  have u: "app_inv u" "ya_app_state u = YA_APP_TO_CONNECT" "ya_main_msg_queue u = []" "\<not> rebooted u" "ya_user_data u = ya_user_data s"
    "reconnect_count u = reconnect_count s + 1" using inv f by (simp_all add: u_def)
  have turn': "app_turn w' t = Some (if d > reconnect_timer (reconnect_count s) then u else t)"
    using f by (simp add: app_turn_def app_state_step_def cmp C_OK_def u_def)
  have "\<exists>x. app_turn w'' u = Some x \<and> ya_app_state x = YA_APP_CONNECTING \<and> last (app_events x) = connect_event (ya_user_data s)"
    using u assms(7) by (simp add: app_turn_def app_state_step_def connect_router_result [OF u(1)] Let_def)
  with t turn' u(6) show ?thesis by (intro exI [of _ t]) (auto simp: reconnect_timer_def not_less split: if_splits)
qed

theorem reconnect_after_pause_witness:
  "\<exists>s t u x. app_turn world_demo (s :: app) = Some t \<and> app_turn (world_demo\<lparr>w_msec := 3000\<rparr>) t = Some t \<and>
     app_turn (world_demo\<lparr>w_msec := 3001\<rparr>) t = Some u \<and> app_turn world_demo u = Some x \<and> ya_app_state x = YA_APP_CONNECTING"
proof -
  obtain s :: app where s: "app_inv s" "\<not> rebooted s" "ya_app_state s = YA_APP_CONNECTING" "ya_main_msg_queue s = [(YA_CONNECT_FAIL, None)]"
    "reconnect_count s = 0" using state_demo [of YA_CONNECT_FAIL YA_APP_CONNECTING] by auto
  have w: "w_connect_ap world_demo = C_OK" "w_msec world_demo = 0" by (simp_all add: world_demo_def C_OK_def)
  have "\<exists>t. app_turn world_demo s = Some t \<and> app_turn (world_demo\<lparr>w_msec := 3000\<rparr>) t = Some t"
    using reconnect_after_pause [OF s(1-4) _ _ w(1), of "world_demo\<lparr>w_msec := 3000\<rparr>" world_demo 3000] w s(5) by simp
  moreover have "\<exists>t u x. app_turn world_demo s = Some t \<and> app_turn (world_demo\<lparr>w_msec := 3001\<rparr>) t = Some u \<and> app_turn world_demo u = Some x \<and> ya_app_state x = YA_APP_CONNECTING"
    using reconnect_after_pause [OF s(1-4) _ _ w(1), of "world_demo\<lparr>w_msec := 3001\<rparr>" world_demo 3001] w s(5) by auto
  ultimately show ?thesis by fastforce
qed

text \<open>A cloud that pairing refuses is used after the next start.  A module built for the Chinese cloud that is paired
  with the American one notes the cloud as not supported and starts no client, but it has stored the selection, and
  the next start connects to the American cloud without a check.\<close>

theorem refused_cloud_started_after_reboot:
  assumes "app_inv s" and "\<not> rebooted s" and "ya_app_state s = YA_APP_SNIFFER" and "ya_main_msg_queue s = []"
    and "pairing_good r" and "sm_cloud_select r = 1" and "cloud_type (ya_app_main_para_obj s) = AKEETA_CN" and "world_fine w'"
  shows "\<exists>t u v. ya_smart_config_result_callback r s = Some t \<and> app_turn w t = Some u \<and> \<not> support_cloud u \<and>
    app_events u = app_events s @ [ClearTimerFlash, SetStaMode] \<and>
    app_boot para w' False u = Some v \<and> CloudStart WIFI_US \<in> set (app_events v)"
proof -
  note ok = pairing_user_ok [OF assms(5)]
  obtain t where t: "ya_smart_config_result_callback r s = Some t" "app_inv t" "ya_user_data t = pairing_user r"
    "ya_main_msg_queue t = [(YA_SNIFFER_SUCCESS, None)]" "ya_app_state t = YA_APP_SNIFFER" "\<not> rebooted t"
    "ya_app_main_para_obj t = ya_app_main_para_obj s" "app_events t = app_events s"
    using smart_callback_result [OF assms(1,5,4)] assms(2,3) by auto
  have "app_state_step w t = Some t" using t(5) by (simp add: app_state_step_def)
  note turn = turn_message [OF t(6) this t(4)]
  have d: "board_ok (t\<lparr>ya_main_msg_queue := []\<rparr>)" using app_invD(1) [OF drained_inv [OF t(2)]] .
  have wf: "user_wf (ya_user_data (t\<lparr>ya_main_msg_queue := []\<rparr>))" using ok(1) t(3) by (simp add: user_ok_def)
  obtain y where y: "ya_save_user_data (t\<lparr>ya_main_msg_queue := []\<rparr>) = Some (C_OK, y)" "board_ok y" "holds_main y (pairing_user r)"
    "y = (t\<lparr>ya_main_msg_queue := []\<rparr>)\<lparr>fl_mem := fl_mem y, fl_rsp := fl_rsp y\<rparr>"
    using save_user_data [OF d wf] t(3) by auto
  have f: "ya_user_data y = pairing_user r" "ya_app_main_para_obj y = ya_app_main_para_obj s" "\<not> rebooted y" "app_events y = app_events s"
    using t(3,6-8) by (subst y(4), simp)+
  have ct: "cloud_select (pairing_user r) = 2" using assms(6) by (simp add: pairing_user_def paired_user_def)
  have no: "ya_check_cloud_support w (cloud_select (ya_user_data y)) (app_emit ClearTimerFlash y) = Some (-1, app_emit ClearTimerFlash y)"
    using f(1,2) assms(7) by (simp add: ya_check_cloud_support_def ct cloud_defs Let_def)
  define u where "u = (app_emit SetStaMode ((app_emit ClearTimerFlash y)\<lparr>support_cloud := False, ya_app_state := YA_APP_TO_CONNECT\<rparr>))
      \<lparr>ya_sniffer_broadcast_enable := SNIFFER_SUCCESS\<rparr>"
  have u: "app_turn w t = Some u" using y(1) no f(3) by (simp add: turn app_handle_msg_def pairing_done_def u_def Let_def)
  have "board_ok u" "keeps_user u (pairing_user r)"
    using y(2,3) board_ok_cong [of u y] by (simp_all add: u_def board_of_eq keeps_user_def record_at_def)
  from boot_stored [OF this(1) ok(1) this(2) ok(2,3) assms(8), of para] obtain v where
    "app_boot para w' False u = Some v" "CloudStart (connect_cloud (pairing_user r)) \<in> set (app_events v)" by (auto simp: ok(4))
  moreover have "connect_cloud (pairing_user r) = WIFI_US" by (simp add: connect_cloud_def ct cloud_defs word_le_nat_alt)
  ultimately show ?thesis using t(1) u f(4) by (auto simp: u_def)
qed

theorem refused_cloud_started_after_reboot_witness:
  "\<exists>s t u v. ya_smart_config_result_callback smart_demo (s :: app) = Some t \<and> app_turn world_demo t = Some u \<and> \<not> support_cloud u \<and>
    app_boot para_demo world_demo False u = Some v \<and> CloudStart WIFI_US \<in> set (app_events v)"
proof -
  obtain s :: app where s: "app_inv s" "\<not> rebooted s" "ya_app_state s = YA_APP_SNIFFER" "ya_main_msg_queue s = []"
    "cloud_type (ya_app_main_para_obj s) = AKEETA_CN" using sniffing_demo by blast
  have "sm_cloud_select smart_demo = 1" by (simp add: smart_demo_def)
  from refused_cloud_started_after_reboot [OF s(1-4) smart_demo_good this s(5) world_demo_ok(2), of world_demo para_demo]
  show ?thesis by blast
qed

end
