(* ===== verification/Product.thy ===== *)
theory Product
  imports Light AppMain
begin

text \<open>
  The product as a whole: the light task of \<^verbatim>\<open>ya_light_example.c\<close> and the main task of
  \<^verbatim>\<open>ya_app_main.c\<close> on one flash chip.  The light starts the main task, asks it for a change of
  mode or a factory reset, and is told the state of the module.  Each component keeps its own
  record of the state; \<open>with_flash\<close> hands the contents of the chip from one to the other.
\<close>

section \<open>One chip, two tasks\<close>

definition with_flash :: "'b flash_scheme \<Rightarrow> 'a flash_scheme \<Rightarrow> 'a flash_scheme" where
  "with_flash b s = s\<lparr>fl_mem := fl_mem b, fl_rsp := fl_rsp b\<rparr>"

type_synonym product = "light \<times> app"

text \<open>The calls of \<open>ya_thing_handle_router\<close> among the events of the main task reach the light.\<close>

primrec hear :: "app_event list \<Rightarrow> 'a light_scheme \<Rightarrow> 'a light_scheme option" where
  "hear [] l = Some l"
| "hear (e # es) l =
     (case e of Router st d \<Rightarrow> do { l \<leftarrow> ya_thing_handle_router_status_callback st d l; hear es l } | _ \<Rightarrow> hear es l)"

definition TEST_WIFI_LIGHT_VERSION :: bytes where "TEST_WIFI_LIGHT_VERSION = ascii ''tr6260.light.300.005''"

text \<open>\<open>LIGHT_CLOUD\<close> is 2, the cloud is chosen by the app; the version of an MCU is empty.\<close>

definition test_light_main_para :: ya_app_main_para_t where
  "test_light_main_para =
     \<lparr>cloud_type = UNKNOWN_CLOUD_TYPE, ya_init_mode = SNIFFER_MODE, sniffer_timeout = 300, ap_timeout = 300,
      cur_version = TEST_WIFI_LIGHT_VERSION @ replicate (33 - length TEST_WIFI_LIGHT_VERSION) 0,
      mcu_version = replicate 65 0, mcu_ota_enable = False, enable_factory_uart = False,
      enable_factory_router_scan = True, enable_low_power = False, enable_debind = True\<rparr>"

text \<open>The start of the light task, which starts the main task, up to the loops of both.\<close>

definition product_start :: "world \<Rightarrow> product \<Rightarrow> product option" where
  "product_start w p = (case p of (l, a) \<Rightarrow> do {
     l \<leftarrow> ya_light_start l;
     a \<leftarrow> app_boot test_light_main_para w (ToggleMode \<in> set (light_events l)) (with_flash l a);
     l \<leftarrow> hear (app_events a) (with_flash a l);
     Some (l, a) })"

text \<open>The cloud removes the device: the light forgets its setting and asks for a reset, which the next round of the main task serves.\<close>

definition product_debind :: "cjson_lib \<Rightarrow> world \<Rightarrow> product \<Rightarrow> product option" where
  "product_debind lib w p = (case p of (l, a) \<Rightarrow> do {
     l \<leftarrow> ya_thing_handle_cloud_status lib YA_CLOUD_DEBIND l;
     a \<leftarrow> app_turn w ((if last (light_events l) = ResetToFactory then snd \<circ> ya_reset_module_to_factory else id) (with_flash l a));
     Some (with_flash a l, a) })"

section \<open>Sharing the chip\<close>

lemma with_flash_fields [simp]:
  "fl_mem (with_flash b s) = fl_mem b" "fl_rsp (with_flash b s) = fl_rsp b"
  "heap (with_flash b t) = heap t" "ret_reg (with_flash b t) = ret_reg t"
  by (simp_all add: with_flash_def)

lemma with_flash_ok: "board_ok b \<Longrightarrow> board_ok s \<Longrightarrow> board_ok (with_flash b s)"
  by (simp add: board_ok_def chip_ready_def)

lemma record_at_with_flash [simp]: "record_at (with_flash b s) a d = record_at b a d"
  by (simp add: record_at_def)

lemma hear_filter: "hear (filter is_router es) l = hear es l"
  by (induction es arbitrary: l) (auto simp: is_router_def split: app_event.splits option.splits Option.bind_splits)


text \<open>What the light hears of a start: the state the main task announces.\<close>

definition heard :: "ya_app_status_t \<Rightarrow> ya_router_status_t" where
  "heard st = (case announced st of [Router r _] \<Rightarrow> r | _ \<Rightarrow> MODULE_UNKNOWN)"

lemma hear_announced:
  assumes "filter is_router es = announced st" and "cur_status l = MODULE_UNKNOWN"
  shows "hear es l = Some (l\<lparr>cur_status := heard st\<rparr>)"
proof -
  have "hear es l = hear (announced st) l" using hear_filter [of es l] assms(1) by simp
  then show ?thesis
    using assms(2) by (cases st) (simp_all add: announced_def heard_def ya_thing_handle_router_status_callback_def)
qed

lemma heard_simps [simp]:
  "heard YA_APP_TO_CONNECT = MODULE_CONNECTING" "heard YA_APP_SNIFFER_START = MODULE_SNIFFER"
  by (simp_all add: heard_def announced_def)

section \<open>The stored state of the product\<close>

text \<open>The chip holds the setting \<open>d\<close> of the light and the user data \<open>u\<close> of the main task.\<close>

definition holds :: "ya_save_light_data_t \<Rightarrow> ya_user_data_t \<Rightarrow> product \<Rightarrow> bool" where
  "holds d u p \<longleftrightarrow> (case p of (l, a) \<Rightarrow> board_ok l \<and> board_ok a \<and> stored l d \<and> keeps_user (with_flash l a) u)"

definition user_fine :: "ya_user_data_t \<Rightarrow> bool" where
  "user_fine u \<longleftrightarrow> user_ok u \<and> \<not> credentials_bad u \<and> factory_get_rssi_flag u \<noteq> 1"

lemmas light_sector = YA_LIGHT_FLASH_PARA_ADDR_def user_addrs

lemma keeps_user_cong:
  assumes "\<And>x. YA_USER_DATA_ADDR \<le> x \<Longrightarrow> x < YA_USER_DATA_BACK_ADDR + 4096 \<Longrightarrow> fl_mem t x = fl_mem s x"
    and "heap t = heap s" and "user_wf u"
  shows "keeps_user t u = keeps_user s u"
proof -
  have "ya_read_flash_with_fix_len YA_USER_DATA_ADDR USER_SIZE 1 t = ya_read_flash_with_fix_len YA_USER_DATA_ADDR USER_SIZE 1 s"
    using assms(1,2) by (intro read_sector_cong) (simp_all add: user_addrs)
  moreover have "record_at t b (user_bytes u) = record_at s b (user_bytes u)"
    if "b = YA_USER_DATA_ADDR \<or> b = YA_USER_DATA_BACK_ADDR" for b
    unfolding record_at_def using that assms(1,3) by (intro arg_cong [of _ _ "\<lambda>m. m = _"] map_cong) (auto simp: user_addrs USER_SIZE_def)
  ultimately show ?thesis by (simp add: keeps_user_def main_refused_def)
qed

text \<open>The light writes only its own sector.\<close>

lemma light_keeps_user:
  assumes "\<forall>x. x < YA_LIGHT_FLASH_PARA_ADDR \<or> YA_LIGHT_FLASH_PARA_ADDR + 4096 \<le> x \<longrightarrow> fl_mem t x = fl_mem l x"
    and "user_wf u"
  shows "keeps_user (with_flash t a) u = keeps_user (with_flash l a) u"
  using assms by (intro keeps_user_cong) (auto simp: light_sector)

lemma stored_frame:
  assumes "stored s d" and "\<And>x. YA_LIGHT_FLASH_PARA_ADDR \<le> x \<Longrightarrow> x < YA_LIGHT_FLASH_PARA_ADDR + 4096 \<Longrightarrow> fl_mem t x = fl_mem s x"
  shows "stored t d"
  using assms(2) by (intro record_at_frame [OF assms(1)]) (simp add: SAVE_SIZE_def)

lemma stored_status: "record_at (l\<lparr>cur_status := r\<rparr>) a b = record_at l a b"
  by (simp add: record_at_def)

lemma board_ok_status: "board_ok (l\<lparr>cur_status := r\<rparr>) = board_ok l"
  by (simp add: board_ok_def chip_ready_def)

text \<open>A start that is not the fourth in a row keeps what is stored, but for the counter.\<close>

lemma start_keeps:
  assumes "holds d u (l, a)" and "user_fine u" and "num d + 1 \<noteq> 4" and "world_fine w"
  shows "\<exists>l' a'. product_start w (l, a) = Some (l', a') \<and> holds (boot_count d) u (l', a') \<and>
    ya_app_state a' = start_state (ud_mode u) \<and> cur_status l' = heard (start_state (ud_mode u)) \<and>
    ya_cloud_light_data_default l' = boot_light d"
proof -
  have u: "user_ok u" "\<not> credentials_bad u" "factory_get_rssi_flag u \<noteq> 1" "user_wf u"
    using assms(2) by (simp_all add: user_fine_def user_ok_def)
  have h: "board_ok l" "board_ok a" "stored l d" "keeps_user (with_flash l a) u" using assms(1) by (simp_all add: holds_def)
  obtain l1 where l1: "ya_light_start l = Some l1" "started d l1"
    "\<forall>x. x < YA_LIGHT_FLASH_PARA_ADDR \<or> YA_LIGHT_FLASH_PARA_ADDR + 4096 \<le> x \<longrightarrow> fl_mem l1 x = fl_mem l x"
    using start_stored [OF h(1,3)] by blast
  have s1: "board_ok l1" "stored l1 (boot_count d)" "light_events l1 = []" "cur_status l1 = MODULE_UNKNOWN"
    "ya_cloud_light_data_default l1 = boot_light d" using l1(2) assms(3) by (simp_all add: started_def)
  have k: "keeps_user (with_flash l1 a) u" using h(4) unfolding light_keeps_user [OF l1(3) u(4), of a] .
  obtain a1 where a1: "app_boot test_light_main_para w False (with_flash l1 a) = Some a1" "ya_app_state a1 = start_state (ud_mode u)"
    "holds_main a1 u" "board_ok a1" "\<forall>x. x < YA_USER_DATA_ADDR \<or> YA_USER_DATA_BACK_ADDR + 4096 \<le> x \<longrightarrow> fl_mem a1 x = fl_mem l1 x"
    "filter is_router (app_events a1) = announced (start_state (ud_mode u))"
    using boot_stored [OF with_flash_ok [OF s1(1) h(2)] u(1) k u(2,3) assms(4), of test_light_main_para] by auto
  let ?l = "(with_flash a1 l1)\<lparr>cur_status := heard (start_state (ud_mode u))\<rparr>"
  have "hear (app_events a1) (with_flash a1 l1) = Some ?l"
    using hear_announced [OF a1(6), of "with_flash a1 l1"] s1(4) by (simp add: with_flash_def)
  then have "product_start w (l, a) = Some (?l, a1)" using l1(1) a1(1) s1(3) by (simp add: product_start_def)
  moreover have "stored (with_flash a1 l1) (boot_count d)"
    using a1(5) by (intro stored_frame [OF s1(2)]) (auto simp: light_sector)
  then have "holds (boot_count d) u (?l, a1)"
    using a1(3,4) with_flash_ok [OF a1(4) s1(1)] by (simp add: holds_def board_ok_status stored_status keeps_user_def)
  ultimately show ?thesis using a1(2) s1(5) by (auto simp: with_flash_def)
qed

text \<open>The fourth start in a row changes the mode and forgets the setting.\<close>

lemma start_toggles:
  assumes "holds d u (l, a)" and "user_fine u" and "num d + 1 = 4" and "world_fine w"
  shows "\<exists>l' a'. product_start w (l, a) = Some (l', a') \<and>
    ya_app_state a' = start_state (other_mode SNIFFER_MODE (ud_mode u)) \<and>
    cur_status l' = heard (start_state (other_mode SNIFFER_MODE (ud_mode u))) \<and>
    ya_cloud_light_data_default l' = boot_light d"
proof -
  have u: "user_ok u" "\<not> credentials_bad u" "factory_get_rssi_flag u \<noteq> 1" "user_wf u"
    using assms(2) by (simp_all add: user_fine_def user_ok_def)
  have h: "board_ok l" "board_ok a" "stored l d" "keeps_user (with_flash l a) u" using assms(1) by (simp_all add: holds_def)
  obtain l1 where l1: "ya_light_start l = Some l1" "started d l1"
    "\<forall>x. x < YA_LIGHT_FLASH_PARA_ADDR \<or> YA_LIGHT_FLASH_PARA_ADDR + 4096 \<le> x \<longrightarrow> fl_mem l1 x = fl_mem l x"
    using start_stored [OF h(1,3)] by blast
  have s1: "board_ok l1" "light_events l1 = [ToggleMode]" "cur_status l1 = MODULE_UNKNOWN"
    "ya_cloud_light_data_default l1 = boot_light d" using l1(2) assms(3) by (simp_all add: started_def)
  have k: "keeps_user (with_flash l1 a) u" using h(4) unfolding light_keeps_user [OF l1(3) u(4), of a] .
  obtain a1 where a1: "app_boot test_light_main_para w True (with_flash l1 a) = Some a1"
    "ya_app_state a1 = start_state (other_mode SNIFFER_MODE (ud_mode u))"
    "filter is_router (app_events a1) = announced (start_state (other_mode SNIFFER_MODE (ud_mode u)))"
    using boot_toggled [OF with_flash_ok [OF s1(1) h(2)] u(1) k u(2,3) assms(4), of test_light_main_para]
    by (auto simp: test_light_main_para_def)
  have "hear (app_events a1) (with_flash a1 l1) =
      Some ((with_flash a1 l1)\<lparr>cur_status := heard (start_state (other_mode SNIFFER_MODE (ud_mode u)))\<rparr>)"
    using hear_announced [OF a1(3), of "with_flash a1 l1"] s1(3) by (simp add: with_flash_def)
  then show ?thesis using l1(1) a1(1,2) s1(2,4) by (simp add: product_start_def with_flash_def)
qed

section \<open>Removal from the cloud\<close>

lemma app_turn_reset:
  assumes "board_ok a" and "\<not> rebooted a" and "ya_app_state a = YA_APP_CONNECTED" and "ya_main_msg_queue a = []"
  shows "\<exists>t. app_turn w (snd (ya_reset_module_to_factory a)) = Some t \<and> rebooted t \<and> board_ok t \<and>
    erased YA_USER_DATA_ADDR 4096 (fl_mem t) \<and> erased YA_USER_DATA_BACK_ADDR 4096 (fl_mem t) \<and>
    (\<forall>x. x < YA_USER_DATA_ADDR \<or> YA_DEVICE_TIMER_ADDR + 4096 \<le> x \<longrightarrow> fl_mem t x = fl_mem a x)"
proof -
  let ?q = "a\<lparr>ya_main_msg_queue := [(YA_FACTORY_MODE, None)]\<rparr>"
  have q: "snd (ya_reset_module_to_factory a) = ?q"
    using assms(4) by (simp add: ya_reset_module_to_factory_def queue_send_def MSG_QUEUE_LENGTH_def)
  have "app_state_step w ?q = Some ?q" using assms(3) by (simp add: app_state_step_def)
  from turn_message [OF _ this, of "(YA_FACTORY_MODE, None)"] assms(2)
  have "app_turn w ?q = Some (ya_hal_sys_reboot (ya_erase_all_user_data (a\<lparr>ya_main_msg_queue := []\<rparr>)))"
    by (simp add: app_handle_msg_def ya_reset_module_to_factory_internal_def)
  moreover have "board_ok (a\<lparr>ya_main_msg_queue := []\<rparr>)" using assms(1) by (simp add: board_ok_def chip_ready_def)
  from erase_all_erases [OF this] have "board_ok (ya_hal_sys_reboot (ya_erase_all_user_data (a\<lparr>ya_main_msg_queue := []\<rparr>)))"
    by (simp add: ya_hal_sys_reboot_def board_ok_def chip_ready_def)
  ultimately show ?thesis
    using erase_all_erases [OF \<open>board_ok (a\<lparr>ya_main_msg_queue := []\<rparr>)\<close>] by (simp add: q ya_hal_sys_reboot_def)
qed

lemma debind_resets:
  assumes "board_ok l" and "board_ok a" and "\<not> rebooted a" and "ya_app_state a = YA_APP_CONNECTED" and "ya_main_msg_queue a = []"
  shows "\<exists>l' a'. product_debind lib w (l, a) = Some (l', a') \<and> rebooted a' \<and> board_ok l' \<and> board_ok a' \<and>
    stored l' ((ya_save_light_data l)\<lparr>config_default := 0\<rparr>) \<and>
    erased YA_USER_DATA_ADDR 4096 (fl_mem l') \<and> erased YA_USER_DATA_BACK_ADDR 4096 (fl_mem l')"
proof -
  let ?c = "l\<lparr>ya_save_light_data := (ya_save_light_data l)\<lparr>config_default := 0\<rparr>\<rparr>"
  have "board_ok ?c" using assms(1) by simp
  then obtain F R where f: "save_light ?c = Some (?c\<lparr>fl_mem := F, fl_rsp := R\<rparr>)" "board_ok (?c\<lparr>fl_mem := F, fl_rsp := R\<rparr>)"
    "stored (?c\<lparr>fl_mem := F, fl_rsp := R\<rparr>) (ya_save_light_data ?c)" by (rule save_light_stores)
  define l1 where "l1 = ?c\<lparr>fl_mem := F, fl_rsp := R, wait_to_restart := True, light_events := light_events l @ [ResetToFactory]\<rparr>"
  have l1: "ya_thing_handle_cloud_status lib YA_CLOUD_DEBIND l = Some l1" "board_ok l1" "last (light_events l1) = ResetToFactory"
    "stored l1 ((ya_save_light_data l)\<lparr>config_default := 0\<rparr>)"
    using f by (simp_all add: ya_thing_handle_cloud_status_def l1_def board_ok_def chip_ready_def record_at_def)
  let ?a = "with_flash l1 a"
  have "\<not> rebooted ?a" "ya_app_state ?a = YA_APP_CONNECTED" "ya_main_msg_queue ?a = []"
    using assms(3-5) by (simp_all add: with_flash_def)
  from app_turn_reset [OF with_flash_ok [OF l1(2) assms(2)] this, of w] obtain t where
    t: "app_turn w (snd (ya_reset_module_to_factory ?a)) = Some t" "rebooted t" "board_ok t"
      "erased YA_USER_DATA_ADDR 4096 (fl_mem t)" "erased YA_USER_DATA_BACK_ADDR 4096 (fl_mem t)"
      "\<forall>x. x < YA_USER_DATA_ADDR \<or> YA_DEVICE_TIMER_ADDR + 4096 \<le> x \<longrightarrow> fl_mem t x = fl_mem l1 x" by auto
  have "product_debind lib w (l, a) = Some (with_flash t l1, t)" using l1(1,3) t(1) by (simp add: product_debind_def)
  moreover have "stored (with_flash t l1) ((ya_save_light_data l)\<lparr>config_default := 0\<rparr>)"
    using t(6) by (intro stored_frame [OF l1(4)]) (auto simp: light_sector)
  ultimately show ?thesis using t(2-5) with_flash_ok [OF t(3) l1(2)] by auto
qed

text \<open>A start that finds no user data and no setting of the user.\<close>

lemma start_anew:
  assumes "board_ok l" and "board_ok a" and "stored l d" and "config_default d = 0" and "num d + 1 \<noteq> 4"
    and "fl_mem l YA_USER_DATA_ADDR \<noteq> 0xAA" and "fl_mem l YA_USER_DATA_BACK_ADDR \<noteq> 0xAA" and "world_fine w"
  shows "\<exists>l' a'. product_start w (l, a) = Some (l', a') \<and> ya_app_state a' = YA_APP_SNIFFER_START \<and>
    ya_user_data a' = user_zero\<lparr>ud_mode := SNIFFER_MODE\<rparr> \<and> cur_status l' = MODULE_SNIFFER \<and>
    ya_cloud_light_data_default l' = factory_light"
proof -
  obtain l1 where l1: "ya_light_start l = Some l1" "started d l1"
    "\<forall>x. x < YA_LIGHT_FLASH_PARA_ADDR \<or> YA_LIGHT_FLASH_PARA_ADDR + 4096 \<le> x \<longrightarrow> fl_mem l1 x = fl_mem l x"
    using start_stored [OF assms(1,3)] by blast
  have "boot_light d = factory_light" using assms(4) by (simp add: boot_light_def boot_count_def Let_def)
  then have s1: "board_ok l1" "light_events l1 = []" "cur_status l1 = MODULE_UNKNOWN"
    "ya_cloud_light_data_default l1 = factory_light" using l1(2) assms(5) by (simp_all add: started_def)
  have para: "ya_init_mode test_light_main_para = SNIFFER_MODE" "start_state SNIFFER_MODE = YA_APP_SNIFFER_START"
    by (simp_all add: test_light_main_para_def start_state_def mode_defs)
  have "fl_mem (with_flash l1 a) YA_USER_DATA_ADDR \<noteq> 0xAA" "fl_mem (with_flash l1 a) YA_USER_DATA_BACK_ADDR \<noteq> 0xAA"
    using l1(3) assms(6,7) by (simp_all add: light_sector)
  from boot_blank [OF with_flash_ok [OF s1(1) assms(2)] this assms(8), of test_light_main_para, unfolded para]
  obtain a1 where a1: "app_boot test_light_main_para w False (with_flash l1 a) = Some a1"
    "ya_app_state a1 = YA_APP_SNIFFER_START" "ya_user_data a1 = user_zero\<lparr>ud_mode := SNIFFER_MODE\<rparr>"
    "filter is_router (app_events a1) = announced YA_APP_SNIFFER_START" by blast
  have "hear (app_events a1) (with_flash a1 l1) = Some ((with_flash a1 l1)\<lparr>cur_status := MODULE_SNIFFER\<rparr>)"
    using hear_announced [OF a1(4), of "with_flash a1 l1"] s1(3) by (simp add: with_flash_def)
  then show ?thesis using l1(1) a1(1-3) s1(2,4) by (simp add: product_start_def with_flash_def)
qed

end
