(* ===== verification/AesMd5.thy ===== *)
theory AesMd5
  imports YaFlash
begin

text \<open>
  The wrappers of \<^verbatim>\<open>src/apps/akeeta_tr6260/akeeta/app/src/ya_aes_md5.c\<close> around the cipher library: CBC with
  PKCS5 padding and CFB without padding, and the chaining loops they run
  (\<open>mbedtls_aes_crypt_cbc\<close> and \<open>mbedtls_aes_crypt_cfb128\<close> of \<^verbatim>\<open>src/platform/mbedtls/mbedtls/library/aes.c\<close>).

  The block cipher with a 128-bit key and the digest are the arguments \<open>crypto\<close>; the key schedule is
  part of them.  What the routines rely on is \<open>crypto_ok\<close>: blocks and digests have 16 bytes, and decryption
  undoes encryption.
\<close>

section \<open>Definitions\<close>

record crypto =
  aes_enc :: "bytes \<Rightarrow> bytes \<Rightarrow> bytes"
  aes_dec :: "bytes \<Rightarrow> bytes \<Rightarrow> bytes"
  md5 :: "bytes \<Rightarrow> bytes"

definition crypto_ok :: "crypto \<Rightarrow> bool" where
  "crypto_ok c \<longleftrightarrow> (\<forall>k b. length b = 16 \<longrightarrow> length (aes_enc c k b) = 16 \<and> aes_dec c k (aes_enc c k b) = b) \<and>
     (\<forall>b. length (md5 c b) = 16)"

definition xor_bytes :: "bytes \<Rightarrow> bytes \<Rightarrow> bytes" where
  "xor_bytes = map2 (XOR)"

text \<open>The loop over the bytes, with the chaining block and the position in it; \<open>decrypt\<close> is the mode.\<close>

fun mbedtls_aes_crypt_cfb128 :: "(bytes \<Rightarrow> bytes) \<Rightarrow> bool \<Rightarrow> nat \<Rightarrow> bytes \<Rightarrow> bytes \<Rightarrow> bytes" where
  "mbedtls_aes_crypt_cfb128 ecb decrypt n iv [] = []"
| "mbedtls_aes_crypt_cfb128 ecb decrypt n iv (c # cs) =
     (let iv = (if n = 0 then ecb iv else iv); x = iv ! n XOR c
      in x # mbedtls_aes_crypt_cfb128 ecb decrypt ((n + 1) mod 16) (iv[n := if decrypt then c else x]) cs)"

function cbc_encrypt :: "(bytes \<Rightarrow> bytes) \<Rightarrow> bytes \<Rightarrow> bytes \<Rightarrow> bytes" where
  "cbc_encrypt ecb iv inp =
     (if inp = [] then []
      else let b = ecb (xor_bytes (take 16 inp) iv) in b @ cbc_encrypt ecb b (drop 16 inp))"
  by pat_completeness auto
termination by (relation "measure (\<lambda>(ecb, iv, inp). length inp)") auto

function cbc_decrypt :: "(bytes \<Rightarrow> bytes) \<Rightarrow> bytes \<Rightarrow> bytes \<Rightarrow> bytes" where
  "cbc_decrypt ecb iv inp =
     (if inp = [] then []
      else xor_bytes (ecb (take 16 inp)) iv @ cbc_decrypt ecb (take 16 inp) (drop 16 inp))"
  by pat_completeness auto
termination by (relation "measure (\<lambda>(ecb, iv, inp). length inp)") auto

declare cbc_encrypt.simps [simp del] cbc_decrypt.simps [simp del]

text \<open>The output buffer is unchanged and the result an error when the length is zero.\<close>

definition ya_mbedtls_md5 :: "crypto \<Rightarrow> bytes \<Rightarrow> bytes \<Rightarrow> nat \<Rightarrow> (int \<times> bytes) option" where
  "ya_mbedtls_md5 c inp out len =
     (if len = 0 then Some (-1, out)
      else do { b \<leftarrow> slice inp 0 len; out \<leftarrow> memcpy_at out 0 (md5 c b); Some (0, out) })"

definition AES_BLOCK_SIZE :: nat where "AES_BLOCK_SIZE = 16"

text \<open>
  The results are the length and the buffer of the caller, which is written from \<open>pos\<close> on; an allocation that fails is
  not noticed.  The initial vector is changed in place, too; every caller computes it anew before the next use.
\<close>

definition AES_CBC_PKCS5Padding_encrypt ::
    "crypto \<Rightarrow> bytes \<Rightarrow> bytes \<Rightarrow> bytes \<Rightarrow> bytes \<Rightarrow> nat \<Rightarrow> nat \<Rightarrow> 'a board_scheme \<Rightarrow> (nat \<times> bytes) option" where
  "AES_CBC_PKCS5Padding_encrypt c p_aes_key iv plaintext ciphertext pos len s =
     (let nTotal = (len div AES_BLOCK_SIZE + 1) * AES_BLOCK_SIZE;
          nNumber = of_nat (if len mod AES_BLOCK_SIZE > 0 then nTotal - len else AES_BLOCK_SIZE) :: u8
      in do {
        enc_s \<leftarrow> mem_alloc s nTotal;
        enc_s \<leftarrow> memset enc_s nNumber nTotal;
        p \<leftarrow> slice plaintext 0 len;
        enc_s \<leftarrow> memcpy_at enc_s 0 p;
        ciphertext \<leftarrow> memcpy_at ciphertext pos (cbc_encrypt (aes_enc c p_aes_key) iv enc_s);
        Some (nTotal, ciphertext) })"

text \<open>A length that is no multiple of the block size decrypts nothing, and the fresh block is copied.  For the length zero the
  byte before the text is read.\<close>

definition AES_CBC_PKCS5Padding_decrypt ::
    "crypto \<Rightarrow> bytes \<Rightarrow> bytes \<Rightarrow> bytes \<Rightarrow> bytes \<Rightarrow> nat \<Rightarrow> nat \<Rightarrow> 'a board_scheme \<Rightarrow> (nat \<times> bytes) option" where
  "AES_CBC_PKCS5Padding_decrypt c p_aes_key iv ciphertext plaintext pos len s = do {
     dec_s \<leftarrow> mem_alloc s len;
     dec_s \<leftarrow> (if len mod 16 \<noteq> 0 then Some dec_s
              else do { b \<leftarrow> slice ciphertext 0 len; memcpy_at dec_s 0 (cbc_decrypt (aes_dec c p_aes_key) iv b) });
     plaintext \<leftarrow> memcpy_at plaintext pos dec_s;
     l \<leftarrow> (if pos + len = 0 then None else rd plaintext (pos + len - 1));
     Some (if len > unat l then len - unat l else 0, plaintext) }"

definition AES_CFB_NoPadding_decrypt ::
    "crypto \<Rightarrow> bytes \<Rightarrow> bytes \<Rightarrow> bytes \<Rightarrow> bytes \<Rightarrow> nat \<Rightarrow> 'a board_scheme \<Rightarrow> (nat \<times> bytes) option" where
  "AES_CFB_NoPadding_decrypt c p_aes_key iv ciphertext plaintext len s = do {
     dec_s \<leftarrow> mem_alloc s len;
     b \<leftarrow> slice ciphertext 0 len;
     dec_s \<leftarrow> memcpy_at dec_s 0 (mbedtls_aes_crypt_cfb128 (aes_enc c p_aes_key) True 0 iv b);
     plaintext \<leftarrow> memcpy_at plaintext 0 dec_s;
     Some (len, plaintext) }"

section \<open>Lengths and inverses\<close>

lemma cfb_length [simp]: "length (mbedtls_aes_crypt_cfb128 ecb d n iv bs) = length bs"
  by (induction ecb d n iv bs rule: mbedtls_aes_crypt_cfb128.induct) (simp_all add: Let_def)

lemma xor_cancel: "x XOR (x XOR y) = (y :: 'a::len word)"
  by (simp flip: xor.assoc)

text \<open>The chaining block of the receiver is the one of the sender, whatever the block function does.\<close>

lemma cfb_inverse:
  "mbedtls_aes_crypt_cfb128 ecb True n iv (mbedtls_aes_crypt_cfb128 ecb False n iv bs) = bs"
  by (induction ecb "False" n iv bs rule: mbedtls_aes_crypt_cfb128.induct) (simp_all add: Let_def xor_cancel)

lemma xor_bytes_length [simp]: "length (xor_bytes a b) = min (length a) (length b)"
  by (simp add: xor_bytes_def)

lemma xor_bytes_cancel: "length a = length b \<Longrightarrow> xor_bytes (xor_bytes a b) b = a"
  by (induction a b rule: list_induct2) (simp_all add: xor_bytes_def xor.assoc)

lemma cbc_inverse:
  assumes "\<And>b. length b = 16 \<Longrightarrow> length (enc b) = 16 \<and> dec (enc b) = b"
  shows "length iv = 16 \<Longrightarrow> length bs = 16 * k \<Longrightarrow>
    length (cbc_encrypt enc iv bs) = 16 * k \<and> cbc_decrypt dec iv (cbc_encrypt enc iv bs) = bs"
proof (induction k arbitrary: iv bs)
  case 0
  then show ?case by (simp add: cbc_encrypt.simps cbc_decrypt.simps)
next
  case (Suc k)
  let ?x = "xor_bytes (take 16 bs) iv" and ?r = "drop 16 bs"
  have l: "length (take 16 bs) = 16" "length ?x = 16" "bs \<noteq> []" using Suc.prems by auto
  note b = assms [OF l(2)]
  have IH: "length (cbc_encrypt enc (enc ?x) ?r) = 16 * k" "cbc_decrypt dec (enc ?x) (cbc_encrypt enc (enc ?x) ?r) = ?r"
    using Suc.IH [of "enc ?x" ?r] b Suc.prems(2) by auto
  have e: "cbc_encrypt enc iv bs = enc ?x @ cbc_encrypt enc (enc ?x) ?r"
    by (subst cbc_encrypt.simps) (simp add: l(3) Let_def)
  have "cbc_decrypt dec iv (cbc_encrypt enc iv bs) = xor_bytes ?x iv @ ?r"
    unfolding e using b IH(2) by (subst cbc_decrypt.simps) auto
  then show ?case using xor_bytes_cancel [of "take 16 bs" iv] l(1) Suc.prems e IH(1) b by simp
qed

definition pkcs5 :: "bytes \<Rightarrow> bytes" where
  "pkcs5 p = (let n = 16 - length p mod 16 in p @ replicate n (of_nat n))"

lemma pkcs5_length: "length (pkcs5 p) = (length p div 16 + 1) * 16"
proof -
  obtain q r where "length p = 16 * q + r" "r < 16" "length p div 16 = q" "length p mod 16 = r"
    by (rule div_mod_split [of 16 "length p"]) simp
  then show ?thesis by (simp add: pkcs5_def Let_def)
qed

lemma pkcs5_last: "unat (pkcs5 p ! (length (pkcs5 p) - 1)) = 16 - length p mod 16"
proof -
  have n: "16 - length p mod 16 \<noteq> 0" "16 - length p mod 16 \<le> 16" by (simp_all add: mod_less_divisor not_le)
  let ?n = "16 - length p mod 16"
  have last: "a + b - 1 = a + (b - 1)" if "b \<noteq> 0" for a b :: nat using that by simp
  have "length (pkcs5 p) - 1 = length p + (?n - 1)"
    unfolding pkcs5_def Let_def length_append length_replicate by (rule last) (rule n(1))
  then have "pkcs5 p ! (length (pkcs5 p) - 1) = (p @ replicate ?n (of_nat ?n)) ! (length p + (?n - 1))"
    by (simp only: pkcs5_def Let_def)
  also have "\<dots> = of_nat ?n" using n(1) by (simp only: nth_append_length_plus) simp
  finally have "pkcs5 p ! (length (pkcs5 p) - 1) = of_nat ?n" .
  moreover have "unat (of_nat m :: u8) = m" if "m \<le> 16" for m using that by (simp add: unat_of_nat take_bit_eq_mod)
  ultimately show ?thesis using n(2) by metis
qed

lemma cbc_encrypt_pads:
  assumes "crypto_ok c" and "board_ok s" and "length iv = 16" and "pos + (length p div 16 + 1) * 16 \<le> length out"
  shows "AES_CBC_PKCS5Padding_encrypt c k iv p out pos (length p) s =
    Some ((length p div 16 + 1) * 16, take pos out @ cbc_encrypt (aes_enc c k) iv (pkcs5 p) @ drop (pos + (length p div 16 + 1) * 16) out)"
    and "length (cbc_encrypt (aes_enc c k) iv (pkcs5 p)) = (length p div 16 + 1) * 16"
proof -
  let ?n = "(length p div 16 + 1) * 16"
  obtain q r where q: "length p = 16 * q + r" "r < 16" "length p div 16 = q" "length p mod 16 = r"
    by (rule div_mod_split [of 16 "length p"]) simp
  obtain b where b: "mem_alloc s ?n = Some b" "length b = ?n" using mem_alloc_board_ok [OF assms(2)] by blast
  let ?v = "of_nat (if length p mod 16 > 0 then ?n - length p else 16) :: u8"
  have v: "?v = of_nat (16 - length p mod 16)" using q by auto
  have set: "memset b ?v ?n = Some (replicate ?n ?v)" using b(2) by (simp add: memset_def memcpy_at_def)
  have copy: "memcpy_at (replicate ?n ?v) 0 p = Some (pkcs5 p)"
    unfolding v using q by (simp add: memcpy_at_def pkcs5_def Let_def)
  have src: "slice p 0 (length p) = Some p" by (simp add: slice_def)
  show len: "length (cbc_encrypt (aes_enc c k) iv (pkcs5 p)) = ?n"
    using cbc_inverse [of "aes_enc c k" "aes_dec c k" iv "pkcs5 p" "length p div 16 + 1"] assms(1,3)
    by (simp add: crypto_ok_def pkcs5_length)
  have out: "memcpy_at out pos (cbc_encrypt (aes_enc c k) iv (pkcs5 p)) =
    Some (take pos out @ cbc_encrypt (aes_enc c k) iv (pkcs5 p) @ drop (pos + ?n) out)"
    using len assms(4) by (simp add: memcpy_at_def)
  show "AES_CBC_PKCS5Padding_encrypt c k iv p out pos (length p) s =
    Some (?n, take pos out @ cbc_encrypt (aes_enc c k) iv (pkcs5 p) @ drop (pos + ?n) out)"
    unfolding AES_CBC_PKCS5Padding_encrypt_def AES_BLOCK_SIZE_def Let_def b(1)
    by (simp only: set copy src out Option.bind.bind_lunit)
qed

lemma cbc_decrypt_unpads:
  assumes "crypto_ok c" and "board_ok s" and "length iv = 16" and "pos + (length p div 16 + 1) * 16 \<le> length dst"
  shows "AES_CBC_PKCS5Padding_decrypt c k iv (cbc_encrypt (aes_enc c k) iv (pkcs5 p) @ rest) dst pos ((length p div 16 + 1) * 16) s =
    Some (length p, take pos dst @ pkcs5 p @ drop (pos + (length p div 16 + 1) * 16) dst)"
proof -
  let ?n = "(length p div 16 + 1) * 16" and ?e = "cbc_encrypt (aes_enc c k) iv (pkcs5 p)"
  obtain q r where q: "length p = 16 * q + r" "r < 16" "length p div 16 = q" "length p mod 16 = r"
    by (rule div_mod_split [of 16 "length p"]) simp
  have inv: "length ?e = ?n" "cbc_decrypt (aes_dec c k) iv ?e = pkcs5 p"
    using cbc_inverse [of "aes_enc c k" "aes_dec c k" iv "pkcs5 p" "length p div 16 + 1"] assms(1,3)
    by (simp_all add: crypto_ok_def pkcs5_length)
  obtain b where b: "mem_alloc s ?n = Some b" "length b = ?n" using mem_alloc_board_ok [OF assms(2)] by blast
  let ?r = "take pos dst @ pkcs5 p @ drop (pos + ?n) dst"
  have pos: "length (take pos dst) = pos" using assms(4) by simp
  have "?r ! (pos + (?n - 1)) = pkcs5 p ! (length (pkcs5 p) - 1)"
    using pkcs5_length [of p] pos by (simp add: nth_append)
  moreover have "pos + ?n - 1 = pos + (?n - 1)" by simp
  ultimately have l: "unat (?r ! (pos + ?n - 1)) = 16 - length p mod 16" using pkcs5_last [of p] by (metis (no_types))
  have "slice (?e @ rest) 0 ?n = Some ?e" using inv(1) by (simp add: slice_def)
  moreover have "memcpy_at b 0 (pkcs5 p) = Some (pkcs5 p)" using b(2) pkcs5_length [of p] by (simp add: memcpy_at_def)
  moreover have "memcpy_at dst pos (pkcs5 p) = Some ?r" using pkcs5_length [of p] assms(4) by (simp add: memcpy_at_def)
  moreover have "rd ?r (pos + ?n - 1) = Some (?r ! (pos + ?n - 1))" using pkcs5_length [of p] pos by (simp add: rd_def)
  ultimately have "AES_CBC_PKCS5Padding_decrypt c k iv (?e @ rest) dst pos ?n s =
      Some (if ?n > unat (?r ! (pos + ?n - 1)) then ?n - unat (?r ! (pos + ?n - 1)) else 0, ?r)"
    using b(1) inv(2) by (simp add: AES_CBC_PKCS5Padding_decrypt_def)
  moreover have "(if ?n > 16 - length p mod 16 then ?n - (16 - length p mod 16) else 0) = length p" using q by auto
  ultimately show ?thesis unfolding l by simp
qed

section \<open>Properties\<close>

text \<open>C36: CBC with PKCS5 padding.  A text of any length, encrypted into a buffer of sufficient size and decrypted with the
  same key and initial vector, comes back with its length, and every buffer access is in range.\<close>

theorem cbc_padding_roundtrip:
  assumes "crypto_ok c" and "board_ok s" and "length iv = 16" and "i + (length p div 16 + 1) * 16 \<le> length out"
    and "j + (length p div 16 + 1) * 16 \<le> length dst"
  shows "\<exists>n e r. AES_CBC_PKCS5Padding_encrypt c k iv p out i (length p) s = Some (n, e) \<and> length p < n \<and> n mod 16 = 0 \<and>
    AES_CBC_PKCS5Padding_decrypt c k iv (drop i e) dst j n s = Some (length p, r) \<and> slice r j (length p) = Some p \<and>
    take j r = take j dst"
proof -
  let ?n = "(length p div 16 + 1) * 16" and ?e = "cbc_encrypt (aes_enc c k) iv (pkcs5 p)"
  let ?o = "take i out @ ?e @ drop (i + ?n) out" and ?r = "take j dst @ pkcs5 p @ drop (j + ?n) dst"
  note e = cbc_encrypt_pads [OF assms(1-4)]
  have d: "drop i ?o = ?e @ drop (i + ?n) out" using assms(4) by simp
  note u = cbc_decrypt_unpads [OF assms(1-3,5)]
  have "slice ?r j (length p) = Some p" using assms(5) pkcs5_length [of p] by (simp add: slice_def pkcs5_def Let_def)
  moreover have "take j ?r = take j dst" using assms(5) by simp
  moreover have "length p < ?n" "?n mod 16 = 0" by (simp_all add: dividend_less_div_times)
  ultimately show ?thesis using e(1) d u by (intro exI [of _ ?n] exI [of _ ?o] exI [of _ ?r]) simp
qed

text \<open>A cipher for the examples: the block is rotated by one place.\<close>

definition crypto_demo :: crypto where
  "crypto_demo = \<lparr>aes_enc = (\<lambda>k. rotate1), aes_dec = (\<lambda>k b. last b # butlast b), md5 = (\<lambda>b. replicate 16 (foldl (+) 0 b))\<rparr>"

lemma crypto_demo_ok: "crypto_ok crypto_demo"
proof -
  have "last (rotate1 b) # butlast (rotate1 b) = b" if "length b = 16" for b :: bytes
    using that by (cases b) simp_all
  then show ?thesis by (simp add: crypto_ok_def crypto_demo_def)
qed

definition cipher_board :: board where
  "cipher_board = \<lparr>fl_mem = (\<lambda>_. 0xFF), fl_rsp = [], heap = (\<lambda>_. Some (\<lambda>_. 0xCD)), ret_reg = 0\<rparr>"

lemma cipher_board_ok: "board_ok cipher_board"
  by (simp add: board_ok_def chip_ready_def cipher_board_def)

theorem cbc_padding_roundtrip_witness:
  "\<exists>n e r. AES_CBC_PKCS5Padding_encrypt crypto_demo [] (replicate 16 0) [1, 2, 3] (replicate 20 0) 4 3 cipher_board = Some (n, e) \<and>
    AES_CBC_PKCS5Padding_decrypt crypto_demo [] (replicate 16 0) (drop 4 e) (replicate 20 0) 2 n cipher_board = Some (3, r) \<and>
    slice r 2 3 = Some [1, 2, 3]"
proof -
  have l: "length [1, 2, 3 :: u8] = 3" by simp
  have "length (replicate 16 (0 :: u8)) = 16" "4 + (3 div 16 + 1) * 16 \<le> length (replicate 20 (0 :: u8))"
    "2 + (3 div 16 + 1) * 16 \<le> length (replicate 20 (0 :: u8))" by simp_all
  from cbc_padding_roundtrip [OF crypto_demo_ok cipher_board_ok, of "replicate 16 0" 4 "[1, 2, 3]" "replicate 20 0" 2 "replicate 20 0" "[]",
      unfolded l, OF this]
  show ?thesis by blast
qed

end
