(* ===== verification/Wifi80211.thy ===== *)
theory Wifi80211
  imports Prelude
begin

text \<open>
  Reading IEEE 802.11 frames, \<^verbatim>\<open>src/apps/akeeta_tr6260/akeeta/app/src/wifi_80211.c\<close> with the constants of
  \<^verbatim>\<open>internal_include/wifi_80211.h\<close>: frame control, addresses, and the information elements of beacons.

  A frame is the list of its bytes; pointers into it are offsets, and \<open>None\<close> in a result of type
  \<open>nat option option\<close> is a read outside the frame, \<open>Some None\<close> the null pointer.  The core is little-endian, so
  \<open>os_htole16\<close> and \<open>os_le16toh\<close> are the identity.  \<open>SUPPORT_SMARTCONFIG_WPS\<close> is not defined: vendor elements are not looked at.
\<close>

section \<open>Frame control\<close>

definition IEEE80211_FCTL_FTYPE :: u16 where "IEEE80211_FCTL_FTYPE = 0x000c"
definition IEEE80211_FCTL_STYPE :: u16 where "IEEE80211_FCTL_STYPE = 0x00f0"
definition IEEE80211_FCTL_TODS :: u16 where "IEEE80211_FCTL_TODS = 0x0100"
definition IEEE80211_FCTL_FROMDS :: u16 where "IEEE80211_FCTL_FROMDS = 0x0200"
definition IEEE80211_FCTL_MOREFRAGS :: u16 where "IEEE80211_FCTL_MOREFRAGS = 0x0400"
definition IEEE80211_FCTL_RETRY :: u16 where "IEEE80211_FCTL_RETRY = 0x0800"
definition IEEE80211_FCTL_PROTECTED :: u16 where "IEEE80211_FCTL_PROTECTED = 0x4000"
definition IEEE80211_FCTL_ORDER :: u16 where "IEEE80211_FCTL_ORDER = 0x8000"
definition IEEE80211_FTYPE_MGMT :: u16 where "IEEE80211_FTYPE_MGMT = 0x0000"
definition IEEE80211_FTYPE_CTL :: u16 where "IEEE80211_FTYPE_CTL = 0x0004"
definition IEEE80211_FTYPE_DATA :: u16 where "IEEE80211_FTYPE_DATA = 0x0008"
definition IEEE80211_STYPE_QOS_DATA :: u16 where "IEEE80211_STYPE_QOS_DATA = 0x0080"
definition IEEE80211_STYPE_PROBE_RESP :: u16 where "IEEE80211_STYPE_PROBE_RESP = 0x0050"
definition IEEE80211_STYPE_BEACON :: u16 where "IEEE80211_STYPE_BEACON = 0x0080"

lemmas fctl_defs = IEEE80211_FCTL_FTYPE_def IEEE80211_FCTL_STYPE_def IEEE80211_FCTL_TODS_def IEEE80211_FCTL_FROMDS_def
  IEEE80211_FCTL_MOREFRAGS_def IEEE80211_FCTL_RETRY_def IEEE80211_FCTL_PROTECTED_def IEEE80211_FCTL_ORDER_def
  IEEE80211_FTYPE_MGMT_def IEEE80211_FTYPE_CTL_def IEEE80211_FTYPE_DATA_def IEEE80211_STYPE_QOS_DATA_def
  IEEE80211_STYPE_PROBE_RESP_def IEEE80211_STYPE_BEACON_def

definition u16_le :: "bytes \<Rightarrow> nat \<Rightarrow> u16 option" where
  "u16_le f i = do { a \<leftarrow> rd f i; b \<leftarrow> rd f (i + 1); Some (of_nat (le16 a b)) }"

definition wifi_80211_is_ctl :: "u16 \<Rightarrow> bool" where
  "wifi_80211_is_ctl fc \<longleftrightarrow> fc AND IEEE80211_FCTL_FTYPE = IEEE80211_FTYPE_CTL"

definition wifi_80211_is_data :: "u16 \<Rightarrow> bool" where
  "wifi_80211_is_data fc \<longleftrightarrow> fc AND IEEE80211_FCTL_FTYPE = IEEE80211_FTYPE_DATA"

definition wifi_80211_has_tods :: "u16 \<Rightarrow> bool" where
  "wifi_80211_has_tods fc \<longleftrightarrow> fc AND IEEE80211_FCTL_TODS \<noteq> 0"

definition wifi_80211_is_retry :: "u16 \<Rightarrow> bool" where
  "wifi_80211_is_retry fc \<longleftrightarrow> fc AND IEEE80211_FCTL_RETRY \<noteq> 0"

definition wifi_80211_has_fromds :: "u16 \<Rightarrow> bool" where
  "wifi_80211_has_fromds fc \<longleftrightarrow> fc AND IEEE80211_FCTL_FROMDS \<noteq> 0"

definition wifi_80211_has_a4 :: "u16 \<Rightarrow> bool" where
  "wifi_80211_has_a4 fc \<longleftrightarrow>
     (let tmp = IEEE80211_FCTL_TODS OR IEEE80211_FCTL_FROMDS in fc AND tmp = tmp)"

definition wifi_80211_has_order :: "u16 \<Rightarrow> bool" where
  "wifi_80211_has_order fc \<longleftrightarrow> fc AND IEEE80211_FCTL_ORDER \<noteq> 0"

definition wifi_80211_has_protected :: "u16 \<Rightarrow> bool" where
  "wifi_80211_has_protected fc \<longleftrightarrow> fc AND IEEE80211_FCTL_PROTECTED \<noteq> 0"

definition wifi_80211_is_data_qos :: "u16 \<Rightarrow> bool" where
  "wifi_80211_is_data_qos fc \<longleftrightarrow>
     fc AND (IEEE80211_FCTL_FTYPE OR IEEE80211_STYPE_QOS_DATA) = IEEE80211_FTYPE_DATA OR IEEE80211_STYPE_QOS_DATA"

definition wifi_80211_is_data_exact :: "u16 \<Rightarrow> bool" where
  "wifi_80211_is_data_exact fc \<longleftrightarrow>
     (let tmp = fc AND (IEEE80211_FCTL_FTYPE OR IEEE80211_FCTL_STYPE)
      in tmp = IEEE80211_FTYPE_DATA \<or> tmp = IEEE80211_FTYPE_DATA OR IEEE80211_STYPE_QOS_DATA)"

definition wifi_80211_is_beacon :: "u16 \<Rightarrow> bool" where
  "wifi_80211_is_beacon fc \<longleftrightarrow>
     fc AND (IEEE80211_FCTL_FTYPE OR IEEE80211_FCTL_STYPE) = IEEE80211_FTYPE_MGMT OR IEEE80211_STYPE_BEACON"

definition wifi_80211_is_probe_resp :: "u16 \<Rightarrow> bool" where
  "wifi_80211_is_probe_resp fc \<longleftrightarrow>
     fc AND (IEEE80211_FCTL_FTYPE OR IEEE80211_FCTL_STYPE) = IEEE80211_FTYPE_MGMT OR IEEE80211_STYPE_PROBE_RESP"

definition wifi_80211_has_frags :: "u16 \<Rightarrow> bool" where
  "wifi_80211_has_frags fc \<longleftrightarrow> fc AND (IEEE80211_FCTL_MOREFRAGS OR IEEE80211_FCTL_ORDER) \<noteq> 0"

section \<open>Addresses\<close>

text \<open>Offsets of the four addresses: 4, 10, 16 and 24.  The results are offsets into the frame.\<close>

definition wifi_80211_get_SA :: "u16 \<Rightarrow> nat" where
  "wifi_80211_get_SA fc = (if wifi_80211_has_a4 fc then 24 else if wifi_80211_has_fromds fc then 16 else 10)"

definition wifi_80211_get_DA :: "u16 \<Rightarrow> nat" where
  "wifi_80211_get_DA fc = (if wifi_80211_has_tods fc then 16 else 4)"

definition wifi_80211_get_BSSID :: "u16 \<Rightarrow> nat option" where
  "wifi_80211_get_BSSID fc =
     (if wifi_80211_has_tods fc then if \<not> wifi_80211_has_fromds fc then Some 4 else None
      else if wifi_80211_has_fromds fc then Some 10 else Some 16)"

definition ETH_ALEN :: nat where "ETH_ALEN = 6"

definition wifi_80211_get_bssid :: "bytes \<Rightarrow> bytes \<Rightarrow> (int \<times> bytes) option" where
  "wifi_80211_get_bssid f mac = do {
     fc \<leftarrow> u16_le f 0;
     case wifi_80211_get_BSSID fc of
       Some i \<Rightarrow> do { b \<leftarrow> slice f i ETH_ALEN; mac \<leftarrow> memcpy_at mac 0 b; Some (0, mac) }
     | None \<Rightarrow> Some (-1, mac) }"

definition wifi_80211_hdrlen :: "u16 \<Rightarrow> nat" where
  "wifi_80211_hdrlen fc =
     (if wifi_80211_is_data fc
      then (if wifi_80211_has_a4 fc then 30 else 24) +
           (if wifi_80211_is_data_qos fc then 2 + (if wifi_80211_has_order fc then 4 else 0) else 0)
      else if wifi_80211_is_ctl fc then if fc AND 0x00E0 = 0x00C0 then 10 else 16
      else 24)"

section \<open>Information elements\<close>

definition WLAN_EID_SSID :: u8 where "WLAN_EID_SSID = 0"
definition WLAN_EID_DS_PARAMS :: u8 where "WLAN_EID_DS_PARAMS = 3"
definition WLAN_EID_RSN :: u8 where "WLAN_EID_RSN = 48"
definition WLAN_EID_HT_OPERATION :: u8 where "WLAN_EID_HT_OPERATION = 61"

text \<open>The two tests after the loop.\<close>

definition ie_fits :: "bytes \<Rightarrow> nat \<Rightarrow> int \<Rightarrow> nat option option" where
  "ie_fits f ies len =
     (if len < 2 then Some None
      else do { n \<leftarrow> rd f (ies + 1); Some (if len < 2 + uint n then None else Some ies) })"

function wifi_80211_find_ie :: "u8 \<Rightarrow> bytes \<Rightarrow> nat \<Rightarrow> int \<Rightarrow> nat option option" where
  "wifi_80211_find_ie eid f ies len =
     (if len > 2 then do {
        e \<leftarrow> rd f ies;
        if e \<noteq> eid then do {
          n \<leftarrow> rd f (ies + 1);
          wifi_80211_find_ie eid f (ies + unat n + 2) (len - (uint n + 2)) }
        else ie_fits f ies len }
      else ie_fits f ies len)"
  by pat_completeness auto
termination
proof (relation "measure (\<lambda>(eid, f, ies, len). nat len)")
  fix eid :: u8 and f :: bytes and ies :: nat and len :: int and n :: u8
  assume "2 < len"
  moreover have "0 \<le> uint n" by simp
  ultimately have "nat (len - (uint n + 2)) < nat len" by (simp only: zless_nat_conj) linarith
  then show "((eid, f, ies + unat n + 2, len - (uint n + 2)), eid, f, ies, len) \<in> measure (\<lambda>(eid, f, ies, len). nat len)"
    by simp
qed simp

declare wifi_80211_find_ie.simps [simp del]

text \<open>\<open>offsetof(struct wifi_80211_mgmt, u.beacon.variable)\<close>; the length of a frame is kept in 16 bits.\<close>

definition ieoffset :: nat where "ieoffset = 36"

definition wifi_80211_get_ssid :: "bytes \<Rightarrow> nat \<Rightarrow> bytes \<Rightarrow> (int \<times> bytes) option" where
  "wifi_80211_get_ssid f frame_len ssid = do {
     p \<leftarrow> wifi_80211_find_ie WLAN_EID_SSID f ieoffset (int (frame_len mod 65536) - int ieoffset);
     case p of
       None \<Rightarrow> Some (-1, ssid)
     | Some i \<Rightarrow> do {
         n \<leftarrow> rd f (i + 1);
         if n \<le> 32 then do {
           b \<leftarrow> slice f (i + 2) (unat n);
           ssid \<leftarrow> memcpy_at ssid 0 b;
           ssid \<leftarrow> wr ssid (unat n) 0;
           Some (0, ssid) }
         else Some (-1, ssid) } }"

text \<open>The length of the elements as an \<open>uint16_t\<close>: it wraps for a frame shorter than the fixed part.\<close>

definition ie_len :: "nat \<Rightarrow> int" where
  "ie_len frame_len = (int (frame_len mod 65536) - int ieoffset) mod 65536"

text \<open>\<open>struct wifi_80211_ht_operation\<close> has 22 bytes and begins with the channel.\<close>

definition wifi_80211_get_bss_channel :: "bytes \<Rightarrow> nat \<Rightarrow> u8 option" where
  "wifi_80211_get_bss_channel f frame_len = do {
     tmp \<leftarrow> wifi_80211_find_ie WLAN_EID_DS_PARAMS f ieoffset (ie_len frame_len);
     n \<leftarrow> (case tmp of None \<Rightarrow> Some 0 | Some i \<Rightarrow> rd f (i + 1));
     case (tmp, n = 1) of
       (Some i, True) \<Rightarrow> rd f (i + 2)
     | _ \<Rightarrow> do {
         tmp \<leftarrow> wifi_80211_find_ie WLAN_EID_HT_OPERATION f ieoffset (ie_len frame_len);
         case tmp of None \<Rightarrow> Some 0
         | Some i \<Rightarrow> do { n \<leftarrow> rd f (i + 1); if unat n \<ge> 22 then rd f (i + 2) else Some 0 } } }"

section \<open>Ciphers\<close>

definition ENC_TYPE_NONE :: u8 where "ENC_TYPE_NONE = 0"
definition ENC_TYPE_WEP :: u8 where "ENC_TYPE_WEP = 1"
definition ENC_TYPE_TKIP :: u8 where "ENC_TYPE_TKIP = 2"
definition ENC_TYPE_AES :: u8 where "ENC_TYPE_AES = 3"
definition ENC_TYPE_TKIPAES :: u8 where "ENC_TYPE_TKIPAES = 4"
definition ENC_TYPE_MAX :: u8 where "ENC_TYPE_MAX = ENC_TYPE_TKIPAES"
definition ENC_TYPE_INVALID :: u8 where "ENC_TYPE_INVALID = 0xff"
definition AUTH_TYPE_OPEN :: u8 where "AUTH_TYPE_OPEN = 0"
definition AUTH_TYPE_SHARED :: u8 where "AUTH_TYPE_SHARED = 1"
definition AUTH_TYPE_WPA2PSK :: u8 where "AUTH_TYPE_WPA2PSK = 4"
definition AUTH_TYPE_WPA28021X :: u8 where "AUTH_TYPE_WPA28021X = 5"
definition AUTH_TYPE_MAX :: u8 where "AUTH_TYPE_MAX = 6"
definition AUTH_TYPE_INVALID :: u8 where "AUTH_TYPE_INVALID = 0xff"

lemmas enc_defs = ENC_TYPE_NONE_def ENC_TYPE_WEP_def ENC_TYPE_TKIP_def ENC_TYPE_AES_def ENC_TYPE_TKIPAES_def
  ENC_TYPE_MAX_def ENC_TYPE_INVALID_def

definition WPA_CIPHER_NONE :: u8 where "WPA_CIPHER_NONE = 1"
definition WPA_CIPHER_WEP40 :: u8 where "WPA_CIPHER_WEP40 = 2"
definition WPA_CIPHER_WEP104 :: u8 where "WPA_CIPHER_WEP104 = 4"
definition WPA_CIPHER_TKIP :: u8 where "WPA_CIPHER_TKIP = 8"
definition WPA_CIPHER_CCMP :: u8 where "WPA_CIPHER_CCMP = 16"

lemmas cipher_defs = WPA_CIPHER_NONE_def WPA_CIPHER_WEP40_def WPA_CIPHER_WEP104_def WPA_CIPHER_TKIP_def WPA_CIPHER_CCMP_def

definition map_cipher_to_encry :: "u8 \<Rightarrow> u8" where
  "map_cipher_to_encry cipher =
     (if cipher = WPA_CIPHER_CCMP then ENC_TYPE_AES
      else if cipher = WPA_CIPHER_TKIP then ENC_TYPE_TKIP
      else if cipher = WPA_CIPHER_WEP40 \<or> cipher = WPA_CIPHER_WEP104 then ENC_TYPE_WEP
      else if cipher = WPA_CIPHER_NONE then ENC_TYPE_NONE
      else if cipher = WPA_CIPHER_TKIP OR WPA_CIPHER_CCMP then ENC_TYPE_TKIPAES
      else ENC_TYPE_INVALID)"

definition get_wpa2_cipher_suite :: "bytes \<Rightarrow> u8" where
  "get_wpa2_cipher_suite s =
     (if s = [0x00, 0x0f, 0xac, 0x00] then WPA_CIPHER_NONE
      else if s = [0x00, 0x0f, 0xac, 0x01] then WPA_CIPHER_WEP40
      else if s = [0x00, 0x0f, 0xac, 0x02] then WPA_CIPHER_TKIP
      else if s = [0x00, 0x0f, 0xac, 0x04] then WPA_CIPHER_CCMP
      else if s = [0x00, 0x0f, 0xac, 0x05] then WPA_CIPHER_WEP104
      else 0)"

definition RSN_SELECTOR_LEN :: nat where "RSN_SELECTOR_LEN = 4"
definition RSN_SUITE_1X :: bytes where "RSN_SUITE_1X = [0x00, 0x0f, 0xac, 0x01]"

text \<open>The loop over the pairwise ciphers: \<open>count\<close> selectors from \<open>pos\<close> on.\<close>

primrec pairwise_ciphers :: "bytes \<Rightarrow> nat \<Rightarrow> nat \<Rightarrow> u8 \<Rightarrow> u8 option" where
  "pairwise_ciphers f pos 0 c = Some c"
| "pairwise_ciphers f pos (Suc count) c = do {
     s \<leftarrow> slice f pos RSN_SELECTOR_LEN;
     pairwise_ciphers f (pos + RSN_SELECTOR_LEN) count (c OR get_wpa2_cipher_suite s) }"

text \<open>
  The ciphers and the flag are changed in place, also before an error return; the result is the return
  value, group cipher, pairwise ciphers and flag.
\<close>

definition rsn_1x :: "bytes \<Rightarrow> nat \<Rightarrow> int \<Rightarrow> bool option" where
  "rsn_1x f pos left = (if left \<ge> 6 then do { s \<leftarrow> slice f (pos + 2) 4; Some (s = RSN_SUITE_1X) } else Some False)"

definition rsn_pairwise :: "bytes \<Rightarrow> nat \<Rightarrow> int \<Rightarrow> u8 \<Rightarrow> (int \<times> u8 \<times> u8 \<times> bool) option" where
  "rsn_pairwise f pos left grp =
     (if left \<ge> 2 then do {
        count \<leftarrow> u16_le f pos;
        if count = 0 \<or> left - 2 < uint count * 4 then Some (-1, grp, 0, False)
        else do {
          pw \<leftarrow> pairwise_ciphers f (pos + 2) (unat count) 0;
          x \<leftarrow> rsn_1x f (pos + 2 + unat count * 4) (left - 2 - uint count * 4);
          Some (0, grp, pw, x) } }
      else if left = 1 then Some (-1, grp, 0, False)
      else do { x \<leftarrow> rsn_1x f pos left; Some (0, grp, 0, x) })"

definition cfg80211_parse_wpa2_info :: "bytes \<Rightarrow> nat \<Rightarrow> nat \<Rightarrow> (int \<times> u8 \<times> u8 \<times> bool) option" where
  "cfg80211_parse_wpa2_info f rsn_ie rsn_ie_len =
     (if rsn_ie_len = 0 then Some (-1, 0, 0, False)
      else do {
        e \<leftarrow> rd f rsn_ie;
        n \<leftarrow> (if e \<noteq> WLAN_EID_RSN then Some 0 else rd f (rsn_ie + 1));
        if e \<noteq> WLAN_EID_RSN \<or> n \<noteq> of_nat rsn_ie_len - 2 then Some (-1, 0, 0, False)
        else let left = int rsn_ie_len - 4; pos = rsn_ie + 4
          in if left \<ge> 4 then do {
               g \<leftarrow> slice f pos RSN_SELECTOR_LEN;
               rsn_pairwise f (pos + RSN_SELECTOR_LEN) (left - 4) (get_wpa2_cipher_suite g) }
             else if left > 0 then Some (-1, 0, 0, False)
             else rsn_pairwise f pos left 0 })"

definition WLAN_CAPABILITY_PRIVACY :: u16 where "WLAN_CAPABILITY_PRIVACY = 16"

text \<open>The result is authentication type, pairwise and group cipher; \<open>capab_info\<close> is at offset 34.\<close>

definition wifi_80211_get_cipher_info :: "bytes \<Rightarrow> nat \<Rightarrow> (int \<times> u8 \<times> u8 \<times> u8) option" where
  "wifi_80211_get_cipher_info f frame_len = do {
     cap \<leftarrow> u16_le f 34;
     tmp \<leftarrow> wifi_80211_find_ie WLAN_EID_RSN f ieoffset (ie_len frame_len);
     n \<leftarrow> (case tmp of None \<Rightarrow> Some 0 | Some i \<Rightarrow> rd f (i + 1));
     case (tmp, n = 0) of
       (Some i, False) \<Rightarrow> do {
         (ret, grp, pw, x) \<leftarrow> cfg80211_parse_wpa2_info f i (unat n + 2);
         Some (ret, if x then AUTH_TYPE_WPA28021X else AUTH_TYPE_WPA2PSK, map_cipher_to_encry pw, map_cipher_to_encry grp) }
     | _ \<Rightarrow> Some (if cap AND WLAN_CAPABILITY_PRIVACY \<noteq> 0 then (0, AUTH_TYPE_SHARED, ENC_TYPE_WEP, ENC_TYPE_WEP)
               else (0, AUTH_TYPE_OPEN, ENC_TYPE_NONE, ENC_TYPE_NONE)) }"

section \<open>No read leaves the frame\<close>

lemma int_unat_uint: "int (unat n) = uint n"
  by simp

text \<open>An element that is found lies in the searched range, header and contents.\<close>

lemma ie_fits_safe:
  assumes "int ies + len \<le> int (length f)"
  shows "\<exists>r. ie_fits f ies len = Some r \<and> (\<forall>i. r = Some i \<longrightarrow> i = ies \<and> i + 2 + unat (f ! (i + 1)) \<le> length f)"
proof (cases "len < 2")
  case False
  then have "ies + 1 < length f" using assms by linarith
  moreover have "ies + 2 + unat (f ! (ies + 1)) \<le> length f" if "\<not> len < 2 + uint (f ! (ies + 1))"
    using that assms int_unat_uint [of "f ! (ies + 1)"] by linarith
  ultimately show ?thesis using False by (simp add: ie_fits_def rd_def)
qed (simp add: ie_fits_def)

lemma find_ie_safe:
  assumes "int ies + len \<le> int (length f)"
  shows "\<exists>r. wifi_80211_find_ie eid f ies len = Some r \<and> (\<forall>i. r = Some i \<longrightarrow> ies \<le> i \<and> i + 2 + unat (f ! (i + 1)) \<le> length f)"
  using assms
proof (induction eid f ies len rule: wifi_80211_find_ie.induct)
  case (1 eid f ies len)
  obtain r where r: "ie_fits f ies len = Some r" "\<forall>i. r = Some i \<longrightarrow> i = ies \<and> i + 2 + unat (f ! (i + 1)) \<le> length f"
    using ie_fits_safe [OF "1.prems"] by blast
  show ?case
  proof (cases "len > 2 \<and> f ! ies \<noteq> eid")
    case True
    then have b: "ies + 1 < length f" using "1.prems" by linarith
    let ?n = "f ! (ies + 1)"
    have rd: "rd f ies = Some (f ! ies)" "rd f (ies + 1) = Some ?n" using b by (simp_all add: rd_def)
    have "int (ies + unat ?n + 2) + (len - (uint ?n + 2)) \<le> int (length f)" using "1.prems" by simp
    from "1.IH" [OF conjunct1 [OF True] rd(1) conjunct2 [OF True] rd(2) this] obtain q where
      "wifi_80211_find_ie eid f (ies + unat ?n + 2) (len - (uint ?n + 2)) = Some q"
      "\<forall>i. q = Some i \<longrightarrow> ies + unat ?n + 2 \<le> i \<and> i + 2 + unat (f ! (i + 1)) \<le> length f" by blast
    then show ?thesis using True rd by (subst wifi_80211_find_ie.simps) auto
  next
    case False
    have "rd f ies = Some (f ! ies)" if "len > 2" using that "1.prems" by (simp add: rd_def)
    then have "wifi_80211_find_ie eid f ies len = ie_fits f ies len"
      using False by (subst wifi_80211_find_ie.simps) auto
    with r show ?thesis by auto
  qed
qed

lemma frame_len_le: "int ieoffset + (int (length f mod 65536) - int ieoffset) \<le> int (length f)"
  by (simp add: zmod_int [symmetric])

lemma get_ssid_safe:
  assumes "length ssid = 33"
  shows "\<exists>r s. wifi_80211_get_ssid f (length f) ssid = Some (r, s) \<and> length s = 33 \<and>
    (r = 0 \<longrightarrow> 0 \<in> set s \<and> ieoffset + 2 \<le> length f mod 65536) \<and> (r = 0 \<or> r = -1)"
proof -
  let ?len = "int (length f mod 65536) - int ieoffset"
  obtain p where p: "wifi_80211_find_ie WLAN_EID_SSID f ieoffset ?len = Some p"
    "\<forall>i. p = Some i \<longrightarrow> ieoffset \<le> i \<and> i + 2 + unat (f ! (i + 1)) \<le> length f"
    using find_ie_safe [OF frame_len_le] by blast
  have short: "p = None" if "?len < 2"
    using p(1) that by (subst (asm) wifi_80211_find_ie.simps) (simp add: ie_fits_def)
  show ?thesis
  proof (cases p)
    case None
    with p assms show ?thesis by (simp add: wifi_80211_get_ssid_def)
  next
    case (Some i)
    then have i: "i + 2 + unat (f ! (i + 1)) \<le> length f" using p(2) by simp
    let ?n = "f ! (i + 1)"
    have "rd f (i + 1) = Some ?n" using i by (simp add: rd_def)
    moreover have "\<exists>s. memcpy_at ssid 0 (take (unat ?n) (drop (i + 2) f)) = Some s \<and> length s = 33" if "?n \<le> 32"
      using that i assms by (simp add: memcpy_at_def word_le_nat_alt)
    moreover have "slice f (i + 2) (unat ?n) = Some (take (unat ?n) (drop (i + 2) f))" using i by (simp add: slice_def)
    moreover have "\<not> ?len < 2" using short Some by auto
    ultimately show ?thesis using Some p(1) assms
      by (auto simp: wifi_80211_get_ssid_def wr_def word_le_nat_alt set_update_memI)
  qed
qed

lemma ie_len_le: "ieoffset \<le> length f mod 65536 \<Longrightarrow> int ieoffset + ie_len (length f) \<le> int (length f)"
  using frame_len_le [of f] by (simp add: ie_len_def)

lemma bss_channel_safe:
  assumes "ieoffset \<le> length f mod 65536"
  shows "\<exists>c. wifi_80211_get_bss_channel f (length f) = Some c"
proof -
  obtain p where p: "wifi_80211_find_ie WLAN_EID_DS_PARAMS f ieoffset (ie_len (length f)) = Some p"
    "\<forall>i. p = Some i \<longrightarrow> i + 2 + unat (f ! (i + 1)) \<le> length f" using find_ie_safe [OF ie_len_le [OF assms]] by blast
  obtain q where q: "wifi_80211_find_ie WLAN_EID_HT_OPERATION f ieoffset (ie_len (length f)) = Some q"
    "\<forall>i. q = Some i \<longrightarrow> i + 2 + unat (f ! (i + 1)) \<le> length f" using find_ie_safe [OF ie_len_le [OF assms]] by blast
  show ?thesis using p q by (cases p; cases q) (auto simp: wifi_80211_get_bss_channel_def rd_def split: bool.split)
qed

lemma pairwise_ciphers_safe: "pos + 4 * count \<le> length f \<Longrightarrow> \<exists>c. pairwise_ciphers f pos count c0 = Some c"
  by (induction count arbitrary: pos c0) (simp_all add: slice_def RSN_SELECTOR_LEN_def)

lemma rsn_1x_safe: "int pos + left \<le> int (length f) \<Longrightarrow> \<exists>x. rsn_1x f pos left = Some x"
  by (auto simp: rsn_1x_def slice_def)

lemma rsn_pairwise_safe:
  assumes "int pos + left \<le> int (length f)"
  shows "\<exists>r. rsn_pairwise f pos left g = Some r"
proof (cases "left \<ge> 2")
  case True
  then have "pos + 1 < length f" using assms by linarith
  then obtain c where c: "u16_le f pos = Some c" by (simp add: u16_le_def rd_def)
  have u: "int (unat c) = uint c" by simp
  have "\<exists>r. pairwise_ciphers f (pos + 2) (unat c) 0 = Some r" if "\<not> left - 2 < uint c * 4"
    using that assms u by (intro pairwise_ciphers_safe) linarith
  moreover have "\<exists>x. rsn_1x f (pos + 2 + unat c * 4) (left - 2 - uint c * 4) = Some x"
    using assms by (intro rsn_1x_safe) simp
  ultimately show ?thesis using True c by (auto simp: rsn_pairwise_def)
next
  case False
  with rsn_1x_safe [OF assms] show ?thesis by (auto simp: rsn_pairwise_def)
qed

lemma cipher_info_safe:
  assumes "ieoffset \<le> length f mod 65536"
  shows "\<exists>r. wifi_80211_get_cipher_info f (length f) = Some r"
proof -
  obtain p where p: "wifi_80211_find_ie WLAN_EID_RSN f ieoffset (ie_len (length f)) = Some p"
    "\<forall>i. p = Some i \<longrightarrow> i + 2 + unat (f ! (i + 1)) \<le> length f" using find_ie_safe [OF ie_len_le [OF assms]] by blast
  have len: "36 \<le> length f" using assms mod_less_eq_dividend [of "length f" 65536] by (simp add: ieoffset_def)
  then obtain cap where cap: "u16_le f 34 = Some cap" by (simp add: u16_le_def rd_def)
  show ?thesis
  proof (cases p)
    case None
    with p(1) cap show ?thesis by (simp add: wifi_80211_get_cipher_info_def)
  next
    case (Some i)
    let ?n = "f ! (i + 1)"
    have i: "i + 2 + unat ?n \<le> length f" using p(2) Some by simp
    have "\<exists>r. rsn_pairwise f (i + 4) (int (unat ?n + 2) - 4) g = Some r" for g
      using i int_unat_uint [of ?n] by (intro rsn_pairwise_safe) linarith
    moreover have "\<exists>r. rsn_pairwise f (i + 4 + 4) (int (unat ?n + 2) - 4 - 4) g = Some r" for g
      using i int_unat_uint [of ?n] by (intro rsn_pairwise_safe) linarith
    moreover have "slice f (i + 4) 4 = Some (take 4 (drop (i + 4) f))" if "int (unat ?n + 2) - 4 \<ge> 4"
      using that i int_unat_uint [of ?n] unfolding slice_def by (subst if_P, linarith) (rule refl)
    moreover have "rd f i = Some (f ! i)" "rd f (i + 1) = Some ?n" using i by (simp_all add: rd_def)
    ultimately have "\<exists>r. cfg80211_parse_wpa2_info f i (unat ?n + 2) = Some r"
      by (simp add: cfg80211_parse_wpa2_info_def Let_def RSN_SELECTOR_LEN_def) blast
    then show ?thesis using Some p(1) cap i by (auto simp: wifi_80211_get_cipher_info_def rd_def split: bool.split)
  qed
qed

section \<open>The search against the list of elements\<close>

text \<open>Elements as identifier and contents, their encoding, and the offset of the first one with an identifier.\<close>

type_synonym element = "u8 \<times> bytes"

definition ie_bytes :: "element \<Rightarrow> bytes" where
  "ie_bytes x = fst x # of_nat (length (snd x)) # snd x"

definition ies_ok :: "element list \<Rightarrow> bool" where
  "ies_ok xs = list_all (\<lambda>x. length (snd x) \<le> 255) xs"

primrec ie_pos :: "u8 \<Rightarrow> nat \<Rightarrow> element list \<Rightarrow> nat option" where
  "ie_pos eid p [] = None"
| "ie_pos eid p (x # xs) = (if fst x = eid then Some p else ie_pos eid (p + 2 + length (snd x)) xs)"

text \<open>What the code finds: an empty last element is taken whatever its identifier.\<close>

primrec ie_found :: "u8 \<Rightarrow> nat \<Rightarrow> element list \<Rightarrow> nat option" where
  "ie_found eid p [] = None"
| "ie_found eid p (x # xs) =
     (if fst x = eid \<or> xs = [] \<and> snd x = [] then Some p else ie_found eid (p + 2 + length (snd x)) xs)"

lemma len_byte: "n \<le> 255 \<Longrightarrow> uint (of_nat n :: u8) = int n" "n \<le> 255 \<Longrightarrow> unat (of_nat n :: u8) = n"
  by (simp_all add: uint_nat unat_of_nat take_bit_eq_mod)

lemma find_ie_found:
  assumes "ies_ok xs"
  shows "wifi_80211_find_ie eid (pre @ concat (map ie_bytes xs) @ post) (length pre) (int (length (concat (map ie_bytes xs)))) =
    Some (ie_found eid (length pre) xs)"
  using assms
proof (induction xs arbitrary: pre)
  case Nil
  show ?case by (subst wifi_80211_find_ie.simps) (simp add: ie_fits_def)
next
  case (Cons x ys)
  then have n: "uint (of_nat (length (snd x)) :: u8) = int (length (snd x))" "unat (of_nat (length (snd x)) :: u8) = length (snd x)"
    and ok: "ies_ok ys" using len_byte [of "length (snd x)"] by (simp_all add: ies_ok_def)
  let ?r = "concat (map ie_bytes ys)"
  define f where "f = pre @ concat (map ie_bytes (x # ys)) @ post"
  have rd: "rd f (length pre) = Some (fst x)" "rd f (length pre + 1) = Some (of_nat (length (snd x)))"
    by (simp_all add: f_def rd_def ie_bytes_def nth_append)
  have l: "int (length (concat (map ie_bytes (x # ys)))) = 2 + int (length (snd x)) + int (length ?r)" by (simp add: ie_bytes_def)
  have fits: "ie_fits f (length pre) (2 + int (length (snd x)) + int (length ?r)) = Some (Some (length pre))"
    using n rd by (simp add: ie_fits_def)
  have p: "length pre + length (snd x) + 2 = length (pre @ ie_bytes x)" "length pre + 2 + length (snd x) = length (pre @ ie_bytes x)"
    "(pre @ ie_bytes x) @ ?r @ post = f" by (simp_all add: ie_bytes_def f_def)
  have r: "wifi_80211_find_ie eid f (length pre + length (snd x) + 2) (int (length ?r)) =
      Some (ie_found eid (length pre + 2 + length (snd x)) ys)"
    using Cons.IH [OF ok, of "pre @ ie_bytes x"] unfolding p .
  have pos: "0 < int (length (snd x)) + int (length ?r) \<longleftrightarrow> snd x \<noteq> [] \<or> ys \<noteq> []" by (cases ys) (auto simp: ie_bytes_def)
  have step: "wifi_80211_find_ie eid f (length pre) (2 + int (length (snd x)) + int (length ?r)) =
    (if fst x \<noteq> eid \<and> (snd x \<noteq> [] \<or> ys \<noteq> []) then Some (ie_found eid (length pre + 2 + length (snd x)) ys) else Some (Some (length pre)))"
    using n rd r fits pos by (subst wifi_80211_find_ie.simps) auto
  show ?case unfolding f_def [symmetric] l step by auto
qed

lemma ie_found_none:
  assumes "\<forall>x\<in>set xs. fst x \<noteq> eid" and "snd (last xs) = []" and "xs \<noteq> []"
  shows "ie_found eid p xs = Some (p + length (concat (map ie_bytes xs)) - 2)"
  using assms
proof (induction xs arbitrary: p)
  case (Cons x ys)
  show ?case
  proof (cases "ys = []")
    case True
    with Cons.prems show ?thesis by (simp add: ie_bytes_def)
  next
    case False
    then have "2 \<le> length (concat (map ie_bytes ys))" by (cases ys) (simp_all add: ie_bytes_def)
    with False Cons show ?thesis by (simp add: ie_bytes_def)
  qed
qed simp

section \<open>Properties\<close>

text \<open>C37: the search for an information element.  In a sequence of elements the routine finds the first
  one with the wanted identifier, or nothing, exactly as a walk over the list does, provided the last element has
  contents or is the wanted one.  When no element has the identifier and the last one is empty, the routine
  takes that last element for the wanted one.\<close>

theorem find_ie_is_first:
  assumes "ies_ok xs" and "xs \<noteq> []" and "f = pre @ concat (map ie_bytes xs)" and "n = int (length f) - int (length pre)"
  shows "wifi_80211_find_ie eid f (length pre) n =
    Some (if ie_pos eid 0 xs = None \<and> snd (last xs) = [] then Some (length f - 2) else ie_pos eid (length pre) xs)"
proof -
  have "n = int (length (concat (map ie_bytes xs)))" using assms(3,4) by simp
  then have *: "wifi_80211_find_ie eid f (length pre) n = Some (ie_found eid (length pre) xs)"
    using find_ie_found [OF assms(1), of eid pre "[]"] assms(3) by simp
  have none: "ie_pos eid p xs = None \<longleftrightarrow> (\<forall>x\<in>set xs. fst x \<noteq> eid)" for p by (induction xs arbitrary: p) auto
  show ?thesis
  proof (cases "ie_pos eid 0 xs = None \<and> snd (last xs) = []")
    case True
    then have "\<forall>x\<in>set xs. fst x \<noteq> eid" "snd (last xs) = []" using none by auto
    then have "ie_found eid p xs = Some (p + length (concat (map ie_bytes xs)) - 2)" for p
      using assms(2) by (rule ie_found_none)
    with * True assms(2,3) show ?thesis by simp
  next
    case False
    have "eid \<in> fst ` set ys \<or> snd (last ys) \<noteq> [] \<Longrightarrow> ie_found eid p ys = ie_pos eid p ys" for p ys
      by (induction ys arbitrary: p) (auto split: if_splits)
    moreover have "eid \<in> fst ` set xs \<or> snd (last xs) \<noteq> []" using False none [of 0] by force
    ultimately show ?thesis using * False by auto
  qed
qed

theorem find_ie_is_first_witness:
  "wifi_80211_find_ie 3 [9, 0, 1, 65, 3, 1, 6] 1 6 = Some (Some 4) \<and> wifi_80211_find_ie 3 [0, 1, 65, 7, 0] 0 5 = Some (Some 3)"
  using find_ie_is_first [of "[(0, [65]), (3, [6])]" "[9, 0, 1, 65, 3, 1, 6]" "[9]" 6 3]
    find_ie_is_first [of "[(0, [65]), (7, [])]" "[0, 1, 65, 7, 0]" "[]" 5 3]
  by (simp add: ies_ok_def ie_bytes_def)

end
