(* ===== verification/SmartConfig.thy ===== *)
theory SmartConfig
  imports AesMd5 Wifi80211 AppMain
begin

text \<open>
  Pairing by smart configuration, \<^verbatim>\<open>src/apps/akeeta_tr6260/akeeta/app/src/ya_smartconfig.c\<close>.  The module hops over the
  channels and listens to all frames.  A phone that is connected to the router sends the encrypted
  credentials as the lengths of broadcast frames, or in the addresses of multicast frames; the
  module locks onto the first sender it recognises, collects the bytes until a checksum fits, decrypts them and hands
  the result to the callback it was started with.

  \<open>easyjoin_callback\<close> runs for every frame heard, \<open>smart_turn\<close> is one round of the task.  Time is an argument:
  \<open>current_time\<close> is the first reading of a round, \<open>now\<close> the later ones.  Channel changes, the end of
  monitoring and the results are recorded in \<open>smart_events\<close>.  A pointer is null, owned or freed; the frame
  handed to the callback is the list of its bytes.
\<close>

section \<open>State\<close>

datatype 'a ptr = Null | Owned 'a | Freed

definition deref :: "'a ptr \<Rightarrow> 'a option" where
  "deref p = (case p of Owned x \<Rightarrow> Some x | _ \<Rightarrow> None)"

definition MAX_SSID_LEN :: nat where "MAX_SSID_LEN = 33"

record ROUTER_INFO =
  ri_auth :: u8
  ri_channel :: u8
  ri_encry :: bytes
  ri_bssid :: bytes
  ri_ssid :: bytes

datatype SCONFIG_STATUS = SCONFIG_IDLE | SCONFIG_LEN | SCONFIG_INDEX | SCONFIG_KEY | SCONFIG_CHK | SCONFIG_OK
datatype channel_search = CHANNEL_SEARCH_START | CHANNEL_SEARCH_END | CHANNEL_SEARCH_OK
datatype find_phone = NOT_ACTIVE | OK_KEY

record SCONFIG_INFO =
  switchChannel :: channel_search
  findPhone :: find_phone
  sc_delay :: u16
  sc_bssid :: bytes
  srcmac :: bytes

record ya_parse_para_multicast_t =
  pkey :: bytes
  key_flag :: bytes
  key_len :: u8
  key_cur_index :: u8
  key_checksum :: u8
  key_checksum_flag :: u8
  count_num :: u8
  pfinish :: u8

record ya_parse_para_broadcast_t = ya_parse_para_multicast_t +
  pstatus :: SCONFIG_STATUS

definition multicast_zero :: ya_parse_para_multicast_t where
  "multicast_zero = \<lparr>pkey = replicate 128 0, key_flag = replicate 128 0, key_len = 0, key_cur_index = 0, key_checksum = 0,
     key_checksum_flag = 0, count_num = 0, pfinish = 0\<rparr>"

definition broadcast_zero :: ya_parse_para_broadcast_t where
  "broadcast_zero = \<lparr>pkey = replicate 80 0, key_flag = replicate 80 0, key_len = 0, key_cur_index = 0, key_checksum = 0,
     key_checksum_flag = 0, count_num = 0, pfinish = 0, pstatus = SCONFIG_IDLE\<rparr>"

datatype smart_event = SetChannel u8 | StartMonitor | StopMonitor | SmartResultEv smnt_result_t

text \<open>The members from \<open>start_time\<close> on are locals of the task.\<close>

record smart = board +
  channel_lock_time :: u32
  info_head :: "ROUTER_INFO list ptr"
  sconfig_info :: "SCONFIG_INFO ptr"
  get_result_callback :: bool
  smart_timeout :: u32
  smnt_result :: smnt_result_t
  run_smartconfig :: bool
  ya_parse_mul :: "ya_parse_para_multicast_t ptr"
  ya_parse_to_ds :: "ya_parse_para_broadcast_t ptr"
  ya_parse_from_ds :: "ya_parse_para_broadcast_t ptr"
  smart_events :: "smart_event list"
  start_time :: u32
  first_time :: u32
  fix_channel_flag :: bool
  hop :: nat
  ended :: bool

abbreviation smart_emit :: "smart_event \<Rightarrow> 'a smart_scheme \<Rightarrow> 'a smart_scheme" where
  "smart_emit e s \<equiv> s\<lparr>smart_events := smart_events s @ [e]\<rparr>"

section \<open>Routers that were heard\<close>

text \<open>A fresh node holds what the allocator returns: after the link, four bytes, the address and the name.\<close>

definition ROUTER_SIZE :: nat where "ROUTER_SIZE = 48"

definition router_of :: "bytes \<Rightarrow> ROUTER_INFO" where
  "router_of b = \<lparr>ri_auth = b ! 4, ri_channel = b ! 5, ri_encry = take 2 (drop 6 b), ri_bssid = take 6 (drop 8 b),
     ri_ssid = take 33 (drop 14 b)\<rparr>"

definition sconfig_init :: "'a smart_scheme \<Rightarrow> 'a smart_scheme option" where
  "sconfig_init s = do {
     node \<leftarrow> mem_alloc s ROUTER_SIZE;
     b \<leftarrow> mem_alloc s 16;
     Some (s\<lparr>info_head := Owned [router_of node],
            sconfig_info := Owned \<lparr>switchChannel = CHANNEL_SEARCH_START, findPhone = NOT_ACTIVE, sc_delay = 60,
              sc_bssid = take 6 (drop 4 b), srcmac = take 6 (drop 10 b)\<rparr>\<rparr>) }"

text \<open>The list begins with the node of \<open>sconfig_init\<close>, which takes part in the search.\<close>

primrec get_ap_info :: "bytes \<Rightarrow> ROUTER_INFO list \<Rightarrow> ROUTER_INFO option" where
  "get_ap_info bssid [] = None"
| "get_ap_info bssid (r # rs) = (if ri_bssid r = bssid then Some r else get_ap_info bssid rs)"

definition get_ap_info_channel :: "bytes \<Rightarrow> ROUTER_INFO list \<Rightarrow> u8" where
  "get_ap_info_channel bssid rs = (case get_ap_info bssid rs of None \<Rightarrow> 0 | Some r \<Rightarrow> ri_channel r)"

definition add_node_info :: "ROUTER_INFO \<Rightarrow> ROUTER_INFO list \<Rightarrow> nat \<times> ROUTER_INFO list" where
  "add_node_info r rs = (length rs, rs @ [r])"

text \<open>The node after the head is freed before its link is read.\<close>

definition free_node_info :: "ROUTER_INFO list \<Rightarrow> ROUTER_INFO list option" where
  "free_node_info rs = (if length rs > 1 then None else Some rs)"

definition strncpy :: "bytes \<Rightarrow> bytes \<Rightarrow> nat \<Rightarrow> bytes option" where
  "strncpy dst src n = do {
     let c = take n (case cstr src of Some str \<Rightarrow> str | None \<Rightarrow> src);
     if length c < n \<and> cstr src = None then None else memcpy_at dst 0 (c @ replicate (n - length c) 0) }"

definition cipher_type :: "u8 \<Rightarrow> u8" where
  "cipher_type c = (if c > ENC_TYPE_MAX then ENC_TYPE_INVALID else c)"

definition auth_type :: "u8 \<Rightarrow> u8" where
  "auth_type a = (if a > AUTH_TYPE_MAX then AUTH_TYPE_INVALID else a)"

definition pairwise_type :: "u8 \<Rightarrow> u8" where
  "pairwise_type c = (if cipher_type c = ENC_TYPE_TKIPAES then ENC_TYPE_AES else cipher_type c)"

definition save_aplist :: "bytes \<Rightarrow> bytes \<Rightarrow> u8 \<Rightarrow> u8 \<Rightarrow> u8 \<Rightarrow> u8 \<Rightarrow> 'a smart_scheme \<Rightarrow> (int \<times> 'a smart_scheme) option" where
  "save_aplist ssid bssid ch auth pw grp s = do {
     rs \<leftarrow> deref (info_head s);
     if get_ap_info bssid rs \<noteq> None then Some (-1, s)
     else do {
       node \<leftarrow> mem_alloc s ROUTER_SIZE;
       name \<leftarrow> memset (ri_ssid (router_of node)) 0 MAX_SSID_LEN;
       name \<leftarrow> strncpy name ssid (MAX_SSID_LEN - 1);
       Some (0, s\<lparr>info_head := Owned (snd (add_node_info
         \<lparr>ri_auth = auth_type auth, ri_channel = ch, ri_encry = [cipher_type grp, pairwise_type pw], ri_bssid = bssid,
          ri_ssid = name\<rparr> rs))\<rparr>) } }"

definition wifi_80211_aplist_process :: "bytes \<Rightarrow> 'a smart_scheme \<Rightarrow> 'a smart_scheme option" where
  "wifi_80211_aplist_process f s = do {
     (ret, bssid) \<leftarrow> wifi_80211_get_bssid f (replicate 6 0);
     if ret < 0 then Some s
     else do {
       (ret, ssid) \<leftarrow> wifi_80211_get_ssid f (length f) (replicate 33 0);
       if ret < 0 then Some s
       else do {
         ch \<leftarrow> wifi_80211_get_bss_channel f (length f);
         (_, auth, pw, grp) \<leftarrow> wifi_80211_get_cipher_info f (length f);
         (_, s) \<leftarrow> save_aplist ssid bssid ch auth pw grp s;
         Some s } } }"

section \<open>Collecting the bytes\<close>

text \<open>The loop over the flags: \<open>Some None\<close> when a byte is missing, otherwise the sum of the bytes.\<close>

function key_sum :: "bytes \<Rightarrow> bytes \<Rightarrow> nat \<Rightarrow> nat \<Rightarrow> u8 \<Rightarrow> u8 option option" where
  "key_sum key flags len index acc =
     (if index < len then do {
        f \<leftarrow> rd flags index;
        if f = 0 then Some None
        else do { k \<leftarrow> rd key index; key_sum key flags len (index + 1) (acc + k) } }
      else Some (Some acc))"
  by pat_completeness auto
termination by (relation "measure (\<lambda>(k, f, len, i, a). len - i)") auto

declare key_sum.simps [simp del]

text \<open>Whether all bytes are there and their sum is the checksum.\<close>

definition key_complete :: "'a ya_parse_para_multicast_t_scheme \<Rightarrow> bool option" where
  "key_complete p =
     (if key_checksum_flag p \<noteq> 0 \<and> key_len p \<noteq> 0
      then do { r \<leftarrow> key_sum (pkey p) (key_flag p) (unat (key_len p)) 0 0; Some (r = Some (key_checksum p)) }
      else Some False)"

type_synonym 'p parsing = "SCONFIG_INFO \<times> 'p \<times> u32"

definition lock_on :: "bytes \<Rightarrow> bytes \<Rightarrow> SCONFIG_INFO \<Rightarrow> SCONFIG_INFO" where
  "lock_on bssid sa sc = sc\<lparr>switchChannel := CHANNEL_SEARCH_END, srcmac := sa, sc_bssid := bssid\<rparr>"

definition foreign :: "bytes \<Rightarrow> bytes \<Rightarrow> SCONFIG_INFO \<Rightarrow> bool" where
  "foreign bssid sa sc \<longleftrightarrow> switchChannel sc = CHANNEL_SEARCH_END \<and> (sa \<noteq> srcmac sc \<or> sc_bssid sc \<noteq> bssid)"

text \<open>What a multicast address says once the sender is known; \<open>None\<close> in the inner option is an early return.\<close>

definition multicast_data :: "u8 \<Rightarrow> u8 \<Rightarrow> u8 \<Rightarrow> ya_parse_para_multicast_t \<Rightarrow> (bool \<times> bool \<times> ya_parse_para_multicast_t) option" where
  "multicast_data d0 d1 d2 m =
     (if d0 = 0x20 \<and> d1 = d2 then
        if d1 \<ge> 8 \<and> d1 \<le> 128 then Some (True, True, m\<lparr>key_len := d1\<rparr>) else Some (True, False, m)
      else if d0 AND 0x40 \<noteq> 0 then
        let i = unat (d0 AND 0x3F) * 2 in do {
          k \<leftarrow> wr (pkey m) i d1;
          k \<leftarrow> wr k (i + 1) d2;
          fl \<leftarrow> wr (key_flag m) i 1;
          fl \<leftarrow> wr fl (i + 1) 1;
          Some (True, True, m\<lparr>pkey := k, key_flag := fl\<rparr>) }
      else if d0 = 0x01 \<and> d1 = d2 then Some (True, True, m\<lparr>key_checksum := d1, key_checksum_flag := 1\<rparr>)
      else Some (False, False, m))"

definition ya_parse_multicast ::
    "u32 \<Rightarrow> bytes \<Rightarrow> bytes \<Rightarrow> bytes \<Rightarrow> int \<Rightarrow> ya_parse_para_multicast_t parsing \<Rightarrow> ya_parse_para_multicast_t parsing option" where
  "ya_parse_multicast now bssid ds sa len st = (case st of (sc, m, t) \<Rightarrow>
     if foreign bssid sa sc then Some st
     else do {
       d0 \<leftarrow> rd ds 0; d1 \<leftarrow> rd ds 1; d2 \<leftarrow> rd ds 2;
       let d0 = d0 AND 0x7F;
       let tmp_len_check = uint (d0 + d1 + d2) + 1;
       if switchChannel sc = CHANNEL_SEARCH_START then
         let m = m\<lparr>count_num := if len = tmp_len_check then count_num m + 1 else 0\<rparr>
         in Some (if count_num m > 1 then lock_on bssid sa sc else sc, m, t)
       else if len \<noteq> tmp_len_check then Some st
       else do {
         (heard, go, m) \<leftarrow> multicast_data d0 d1 d2 m;
         let t = (if heard then now else t);
         if \<not> go then Some (sc, m, t)
         else do {
           ok \<leftarrow> key_complete m;
           Some (if ok then (sc\<lparr>findPhone := OK_KEY\<rparr>, m\<lparr>pfinish := 1\<rparr>, t) else (sc, m, t)) } } })"

text \<open>The lengths 1, 3 and 5 announce what the next length means.\<close>

definition broadcast_mark :: "int \<Rightarrow> SCONFIG_STATUS option" where
  "broadcast_mark len =
     (if len = 1 then Some SCONFIG_LEN else if len = 3 then Some SCONFIG_INDEX else if len = 5 then Some SCONFIG_CHK else None)"

definition byte_of :: "int \<Rightarrow> u8" where "byte_of = word_of_int"

text \<open>The switch on the state; \<open>None\<close> in the inner option is the early return.\<close>

definition broadcast_data :: "int \<Rightarrow> ya_parse_para_broadcast_t \<Rightarrow> ya_parse_para_broadcast_t option option" where
  "broadcast_data len b =
     (case pstatus b of
        SCONFIG_LEN \<Rightarrow>
          if len < 6 \<or> len > 80 then Some None
          else Some (Some (b\<lparr>key_len := byte_of len, key_cur_index := 0xff, pstatus := SCONFIG_IDLE\<rparr>))
      | SCONFIG_INDEX \<Rightarrow>
          if len < 7 \<or> len > 87 then Some None
          else Some (Some (b\<lparr>key_cur_index := byte_of (len - 7), pstatus := SCONFIG_KEY\<rparr>))
      | SCONFIG_KEY \<Rightarrow>
          if len < 100 \<or> len > 255 + 100 then Some None
          else do {
            k \<leftarrow> wr (pkey b) (unat (key_cur_index b)) (byte_of (len - 100));
            fl \<leftarrow> wr (key_flag b) (unat (key_cur_index b)) 1;
            Some (Some (b\<lparr>pkey := k, key_flag := fl, pstatus := SCONFIG_IDLE\<rparr>)) }
      | SCONFIG_CHK \<Rightarrow>
          if len < 100 \<or> len > 255 + 100 then Some None
          else Some (Some (b\<lparr>key_checksum := byte_of (len - 100), key_checksum_flag := 1, pstatus := SCONFIG_IDLE\<rparr>))
      | _ \<Rightarrow> Some (Some b))"

definition ya_parse_broadcast ::
    "u32 \<Rightarrow> ROUTER_INFO list \<Rightarrow> bytes \<Rightarrow> bytes \<Rightarrow> int \<Rightarrow> ya_parse_para_broadcast_t parsing \<Rightarrow> ya_parse_para_broadcast_t parsing option" where
  "ya_parse_broadcast now rs bssid sa len st = (case st of (sc, b, t) \<Rightarrow>
     if findPhone sc = OK_KEY \<or> foreign bssid sa sc then Some st
     else if switchChannel sc = CHANNEL_SEARCH_START then
       if len = 3 then
         let b = b\<lparr>count_num := count_num b + 1\<rparr>
         in Some (if count_num b > 3 then (lock_on bssid sa sc, broadcast_zero, t) else (sc, b, t))
       else Some (sc, b\<lparr>count_num := 0\<rparr>, t)
     else case broadcast_mark len of
       Some st \<Rightarrow> Some (sc, b\<lparr>pstatus := st, key_cur_index := 0xff\<rparr>, now)
     | None \<Rightarrow> do {
         r \<leftarrow> broadcast_data len b;
         case r of None \<Rightarrow> Some (sc, b, t)
         | Some b \<Rightarrow> do {
             ok \<leftarrow> key_complete b;
             if \<not> ok then Some (sc, b, t)
             else do {
               ap \<leftarrow> get_ap_info (sc_bssid sc) rs;
               n \<leftarrow> strlen (ri_ssid ap);
               Some (if n \<noteq> 0 then (sc\<lparr>findPhone := OK_KEY\<rparr>, b\<lparr>pfinish := 1\<rparr>, t) else (sc, b, t)) } } })"

section \<open>A frame\<close>

definition broadcast_mac :: bytes where "broadcast_mac = replicate 6 0xff"
definition multicast_mac :: bytes where "multicast_mac = [0x01, 0x00, 0x5e]"

text \<open>The first column of the table; the second one, for frames to the router, is never read.\<close>

definition len_fixed_offset :: "int list" where "len_fixed_offset = [36, 44, 56, 52, 56]"

text \<open>The cipher of a frame from a router whose cipher is not known; \<open>None\<close> in the inner option is the early return.\<close>

definition guess_encry :: "bytes \<Rightarrow> u16 \<Rightarrow> nat \<Rightarrow> u8 option option" where
  "guess_encry f fc hdrlen =
     (if \<not> wifi_80211_has_protected fc then Some (Some ENC_TYPE_NONE)
      else if length f - hdrlen < 8 then Some None
      else do {
        u3 \<leftarrow> rd f 3;
        d0 \<leftarrow> rd f hdrlen; d1 \<leftarrow> rd f (hdrlen + 1); d2 \<leftarrow> rd f (hdrlen + 2); d3 \<leftarrow> rd f (hdrlen + 3);
        Some (Some (if u3 AND 0x3F = 0 then ENC_TYPE_WEP
                    else if d3 AND 0x20 \<noteq> 0 then
                      if d2 = 0 \<and> d3 AND 0x0F = 0 then ENC_TYPE_AES
                      else if d1 = (d0 OR 0x20) AND 0x7F then ENC_TYPE_TKIP else ENC_TYPE_INVALID
                    else ENC_TYPE_INVALID)) })"

text \<open>The length of the payload that a data frame carries for the protocol, without the overhead of its cipher.\<close>

definition payload_len :: "bytes \<Rightarrow> u16 \<Rightarrow> bytes \<Rightarrow> ROUTER_INFO list \<Rightarrow> int option option" where
  "payload_len f fc bssid rs =
     (let hdrlen = wifi_80211_hdrlen fc; tods = (if wifi_80211_has_tods fc then 1 else 0)
      in do {
        known \<leftarrow> (case get_ap_info bssid rs of None \<Rightarrow> Some ENC_TYPE_INVALID | Some ap \<Rightarrow> rd (ri_encry ap) tods);
        e \<leftarrow> (if known \<noteq> ENC_TYPE_INVALID then Some (Some known) else guess_encry f fc hdrlen);
        case e of None \<Rightarrow> Some None
        | Some encry \<Rightarrow> do { off \<leftarrow> rd len_fixed_offset (unat encry); Some (Some (int (length f) - int hdrlen - off)) } })"

definition easyjoin_data :: "u32 \<Rightarrow> bytes \<Rightarrow> u16 \<Rightarrow> 'a smart_scheme \<Rightarrow> 'a smart_scheme option" where
  "easyjoin_data now f fc s = do {
     rs \<leftarrow> deref (info_head s);
     sc \<leftarrow> deref (sconfig_info s);
     i \<leftarrow> wifi_80211_get_BSSID fc;
     bssid \<leftarrow> slice f i 6;
     da \<leftarrow> slice f (wifi_80211_get_DA fc) 6;
     sa \<leftarrow> slice f (wifi_80211_get_SA fc) 6;
     l \<leftarrow> payload_len f fc bssid rs;
     case l of None \<Rightarrow> Some s
     | Some len \<Rightarrow>
         if wifi_80211_is_retry fc then Some s
         else if da = broadcast_mac then
           if wifi_80211_has_tods fc then do {
             b \<leftarrow> deref (ya_parse_to_ds s);
             (sc, b, t) \<leftarrow> ya_parse_broadcast now rs bssid sa len (sc, b, channel_lock_time s);
             Some (s\<lparr>sconfig_info := Owned sc, ya_parse_to_ds := Owned b, channel_lock_time := t\<rparr>) }
           else if wifi_80211_has_fromds fc then do {
             b \<leftarrow> deref (ya_parse_from_ds s);
             (sc, b, t) \<leftarrow> ya_parse_broadcast now rs bssid sa len (sc, b, channel_lock_time s);
             Some (s\<lparr>sconfig_info := Owned sc, ya_parse_from_ds := Owned b, channel_lock_time := t\<rparr>) }
           else Some s
         else if take 3 da = multicast_mac then do {
           m \<leftarrow> deref (ya_parse_mul s);
           (sc, m, t) \<leftarrow> ya_parse_multicast now bssid (drop 3 da) sa len (sc, m, channel_lock_time s);
           Some (s\<lparr>sconfig_info := Owned sc, ya_parse_mul := Owned m, channel_lock_time := t\<rparr>) }
         else Some s }"

definition easyjoin_callback :: "u32 \<Rightarrow> bytes \<Rightarrow> 'a smart_scheme \<Rightarrow> 'a smart_scheme option" where
  "easyjoin_callback now f s = do {
     fc \<leftarrow> u16_le f 0;
     if wifi_80211_has_frags fc then Some s
     else do {
       s \<leftarrow> (if wifi_80211_is_beacon fc \<or> wifi_80211_is_probe_resp fc then wifi_80211_aplist_process f s else Some s);
       sc \<leftarrow> deref (sconfig_info s);
       if findPhone sc \<noteq> NOT_ACTIVE \<or> \<not> wifi_80211_is_data_exact fc \<or> wifi_80211_hdrlen fc > length f then Some s
       else easyjoin_data now f fc s } }"

section \<open>Decoding\<close>

definition AES_KEY_SMARTCONFIG_STRING :: bytes where "AES_KEY_SMARTCONFIG_STRING = ascii ''ABKFnm123##&''"

definition smnt_zero :: smnt_result_t where
  "smnt_zero = \<lparr>smnt_result_status = 0, sm_ssid_len = 0, sm_password_len = 0, sm_ssid = replicate 33 0, sm_password = replicate 65 0,
     sm_bssid = replicate 6 0, sm_cloud_select = 0, sm_rand = replicate 33 0\<rparr>"

text \<open>
  The members of the message.  The flag is false for the jump to \<open>err\<close>, which leaves what was already read in the
  result.  \<open>dec_tail\<close> is the part after the password: a length of at least three, the cloud and the two random bytes.
\<close>

type_synonym decoded = "bool \<times> smnt_result_t \<times> u8 \<times> u8"

definition dec_tail :: "bytes \<Rightarrow> nat \<Rightarrow> nat \<Rightarrow> smnt_result_t \<Rightarrow> decoded option" where
  "dec_tail buf out_len pos r = do {
     n \<leftarrow> rd buf pos;
     if out_len < 1 + pos + unat n + 1 \<or> n < 3 then Some (False, r, 0, 0)
     else do {
       c \<leftarrow> rd buf (pos + 1); ra \<leftarrow> rd buf (pos + 2); rb \<leftarrow> rd buf (pos + 3);
       Some (True, r\<lparr>sm_cloud_select := c\<rparr>, ra, rb) } }"

definition dec_password :: "bytes \<Rightarrow> nat \<Rightarrow> nat \<Rightarrow> smnt_result_t \<Rightarrow> decoded option" where
  "dec_password buf out_len pos r = do {
     n \<leftarrow> rd buf pos;
     if n > 64 then Some (False, r, 0, 0)
     else do {
       b \<leftarrow> slice buf (pos + 1) (unat n);
       pw \<leftarrow> memcpy_at (sm_password r) 0 b;
       dec_tail buf out_len (pos + 1 + unat n) (r\<lparr>sm_password_len := n, sm_password := pw\<rparr>) } }"

definition dec_multicast :: "bytes \<Rightarrow> nat \<Rightarrow> smnt_result_t \<Rightarrow> decoded option" where
  "dec_multicast buf out_len r = do {
     n \<leftarrow> rd buf 0;
     if n > 32 \<or> n = 0 then Some (False, r, 0, 0)
     else let r = r\<lparr>sm_ssid_len := n\<rparr>
       in if out_len < 1 + unat n + 1 then Some (False, r, 0, 0)
          else do {
            b \<leftarrow> slice buf 1 (unat n);
            name \<leftarrow> memcpy_at (sm_ssid r) 0 b;
            l \<leftarrow> rd buf (1 + unat n);
            let r = r\<lparr>sm_ssid := name\<rparr>;
            if out_len < 1 + (1 + unat n) + unat l + 1 then Some (False, r, 0, 0)
            else dec_password buf out_len (1 + unat n) r } }"

text \<open>The name of the router that was heard goes before the one in the message.\<close>

definition dec_name :: "ROUTER_INFO option \<Rightarrow> smnt_result_t \<Rightarrow> (bool \<times> smnt_result_t) option" where
  "dec_name ap r =
     (case ap of
        Some ap \<Rightarrow> do {
          c \<leftarrow> rd (ri_ssid ap) 0;
          if c \<noteq> 0 then do {
            name \<leftarrow> strcpy (replicate 33 0) (ri_ssid ap);
            n \<leftarrow> strlen (ri_ssid ap);
            Some (True, r\<lparr>sm_ssid := name, sm_ssid_len := of_nat n\<rparr>) }
          else Some (True, r) }
      | None \<Rightarrow> do { c \<leftarrow> rd (sm_ssid r) 0; Some (c \<noteq> 0, r) })"

text \<open>The random number: the digest of the password and four hexadecimal digits.\<close>

definition dec_random :: "crypto \<Rightarrow> bytes \<Rightarrow> u8 \<Rightarrow> u8 \<Rightarrow> smnt_result_t \<Rightarrow> smnt_result_t option" where
  "dec_random c aes ra rb r = do {
     tmp \<leftarrow> strcpy (replicate 72 0) (sm_password r);
     let n = unat (sm_password_len r);
     d \<leftarrow> HexArrayToString [ra] 1 (drop n tmp);
     tmp \<leftarrow> memcpy_at tmp n d;
     d \<leftarrow> HexArrayToString [rb] 1 (drop (n + 2) tmp);
     tmp \<leftarrow> memcpy_at tmp (n + 2) d;
     l \<leftarrow> strlen tmp;
     (_, aes) \<leftarrow> ya_mbedtls_md5 c tmp aes l;
     rand \<leftarrow> HexArrayToString aes 16 (sm_rand r);
     Some (r\<lparr>sm_rand := rand\<rparr>) }"

text \<open>Which collection is complete, with its length.\<close>

definition dec_source :: "'a smart_scheme \<Rightarrow> (bytes \<times> nat) option option" where
  "dec_source s = do {
     td \<leftarrow> deref (ya_parse_to_ds s);
     if pfinish td = 1 then Some (Some (pkey td, unat (key_len td)))
     else do {
       fd \<leftarrow> deref (ya_parse_from_ds s);
       if pfinish fd = 1 then Some (Some (pkey fd, unat (key_len fd)))
       else do {
         m \<leftarrow> deref (ya_parse_mul s);
         Some (if pfinish m = 1 then Some (pkey m, unat (key_len m)) else None) } } }"

definition ya_smartconfig_decode :: "crypto \<Rightarrow> 'a smart_scheme \<Rightarrow> (int \<times> 'a smart_scheme) option" where
  "ya_smartconfig_decode c s = do {
     (_, aes) \<leftarrow> ya_mbedtls_md5 c (AES_KEY_SMARTCONFIG_STRING @ [0]) (replicate 16 0) (length AES_KEY_SMARTCONFIG_STRING);
     case mem_alloc s 128 of None \<Rightarrow> Some (-1, s)
     | Some buf \<Rightarrow> do {
         buf \<leftarrow> memset buf 0 128;
         src \<leftarrow> dec_source s;
         case src of None \<Rightarrow> Some (-1, s)
         | Some (p, in_len) \<Rightarrow>
             if in_len = 0 then Some (-1, s)
             else do {
               (out_len, buf) \<leftarrow> AES_CFB_NoPadding_decrypt c aes aes p buf in_len s;
               b \<leftarrow> slice buf 0 (out_len - 1);
               chk \<leftarrow> rd buf (out_len - 1);
               if foldl (+) 0 b \<noteq> chk then Some (-1, s)
               else do {
                 rs \<leftarrow> deref (info_head s);
                 sc \<leftarrow> deref (sconfig_info s);
                 m \<leftarrow> deref (ya_parse_mul s);
                 (ok, r, ra, rb) \<leftarrow>
                   (if pfinish m = 1 then dec_multicast buf out_len smnt_zero else dec_password buf out_len 0 smnt_zero);
                 if \<not> ok then Some (-1, s\<lparr>smnt_result := r\<rparr>)
                 else do {
                   (ok, r) \<leftarrow> dec_name (get_ap_info (sc_bssid sc) rs) (r\<lparr>sm_bssid := sc_bssid sc\<rparr>);
                   if \<not> ok then Some (-1, s\<lparr>smnt_result := r\<rparr>)
                   else do {
                     r \<leftarrow> dec_random c aes ra rb r;
                     Some (0, s\<lparr>smnt_result := r\<rparr>) } } } } } }"

section \<open>The task\<close>

definition smnt_result_overtime :: nat where "smnt_result_overtime = 4"

definition smartconfig_finish :: "nat \<Rightarrow> 'a smart_scheme \<Rightarrow> 'a smart_scheme" where
  "smartconfig_finish st s =
     (if get_result_callback s
      then let r = (smnt_result s)\<lparr>smnt_result_status := st\<rparr> in smart_emit (SmartResultEv r) (s\<lparr>smnt_result := r\<rparr>)
      else s)"

text \<open>Clearing the three collections: \<open>memset\<close> through a null or freed pointer is undefined.\<close>

definition clear_parse :: "'a smart_scheme \<Rightarrow> 'a smart_scheme option" where
  "clear_parse s = do {
     _ \<leftarrow> deref (ya_parse_to_ds s); _ \<leftarrow> deref (ya_parse_from_ds s); _ \<leftarrow> deref (ya_parse_mul s);
     Some (s\<lparr>ya_parse_to_ds := Owned broadcast_zero, ya_parse_from_ds := Owned broadcast_zero,
            ya_parse_mul := Owned multicast_zero\<rparr>) }"

definition search_again :: "'a smart_scheme \<Rightarrow> 'a smart_scheme option" where
  "search_again s = do {
     s \<leftarrow> clear_parse s;
     sc \<leftarrow> deref (sconfig_info s);
     Some (s\<lparr>sconfig_info := Owned (sc\<lparr>switchChannel := CHANNEL_SEARCH_START, findPhone := NOT_ACTIVE\<rparr>),
            fix_channel_flag := False\<rparr>) }"

definition smart_begin :: "u32 \<Rightarrow> 'a smart_scheme \<Rightarrow> 'a smart_scheme option" where
  "smart_begin now s = clear_parse ((smart_emit StartMonitor s)
     \<lparr>start_time := now, first_time := now, channel_lock_time := now, fix_channel_flag := False, hop := 0, ended := False\<rparr>)"

definition channel_list :: bytes where "channel_list = [1, 6, 11, 4, 8, 13, 2, 5, 9, 3, 7, 12, 10]"

definition channel_hop :: "u32 \<Rightarrow> u32 \<Rightarrow> SCONFIG_INFO \<Rightarrow> 'a smart_scheme \<Rightarrow> 'a smart_scheme option" where
  "channel_hop current_time now sc s =
     (let s = s\<lparr>channel_lock_time := now\<rparr>
      in if current_time - start_time s \<ge> ucast (sc_delay sc) then
           let h = (if hop s > 12 then 0 else hop s) in do {
             ch \<leftarrow> rd channel_list h;
             Some ((smart_emit (SetChannel ch) s)\<lparr>hop := h + 1, start_time := now\<rparr>) }
         else Some s)"

definition fix_channel :: "'a smart_scheme \<Rightarrow> 'a smart_scheme option" where
  "fix_channel s = do {
     sc \<leftarrow> deref (sconfig_info s);
     if \<not> fix_channel_flag s \<and> switchChannel sc = CHANNEL_SEARCH_END then do {
       rs \<leftarrow> deref (info_head s);
       let ch = get_ap_info_channel (sc_bssid sc) rs;
       Some (if ch \<noteq> 0 then smart_emit (SetChannel ch) (s\<lparr>fix_channel_flag := True\<rparr>) else s) }
     else Some s }"

text \<open>One round; after the jump to \<open>ejoin_out\<close> the task has ended.\<close>

definition smart_turn :: "crypto \<Rightarrow> u32 \<Rightarrow> u32 \<Rightarrow> 'a smart_scheme \<Rightarrow> 'a smart_scheme option" where
  "smart_turn c current_time now s =
     (if ended s then Some s
      else if current_time - first_time s > smart_timeout s * 1000
      then Some ((smartconfig_finish smnt_result_overtime (smart_emit StopMonitor s))\<lparr>ended := True\<rparr>)
      else do {
        sc \<leftarrow> deref (sconfig_info s);
        if findPhone sc = OK_KEY then do {
          (ret, s) \<leftarrow> ya_smartconfig_decode c s;
          if ret < 0 then search_again s \<bind> fix_channel
          else Some ((smartconfig_finish smnt_result_ok (smart_emit StopMonitor s))\<lparr>ended := True\<rparr>) }
        else if switchChannel sc = CHANNEL_SEARCH_START then channel_hop current_time now sc s \<bind> fix_channel
        else if current_time - channel_lock_time s > 8 * 1000
        then search_again (s\<lparr>channel_lock_time := now\<rparr>) \<bind> fix_channel
        else fix_channel s })"

text \<open>What follows \<open>ejoin_out\<close>: the pointers of the collections keep the addresses of the freed blocks.\<close>

definition free_parse :: "'a ptr \<Rightarrow> 'a ptr option" where
  "free_parse p = (case p of Null \<Rightarrow> Some Null | Owned _ \<Rightarrow> Some Freed | Freed \<Rightarrow> None)"

definition smart_release :: "'a smart_scheme \<Rightarrow> 'a smart_scheme option" where
  "smart_release s = do {
     rs \<leftarrow> deref (info_head s);
     _ \<leftarrow> free_node_info rs;
     _ \<leftarrow> free_parse (sconfig_info s);
     td \<leftarrow> free_parse (ya_parse_to_ds s); fd \<leftarrow> free_parse (ya_parse_from_ds s); m \<leftarrow> free_parse (ya_parse_mul s);
     Some (s\<lparr>run_smartconfig := False, ya_parse_to_ds := td, ya_parse_from_ds := fd, ya_parse_mul := m, info_head := Null,
            sconfig_info := Null, get_result_callback := False\<rparr>) }"

definition alloc_parse :: "nat \<Rightarrow> 'p \<Rightarrow> 'p ptr \<Rightarrow> 'a smart_scheme \<Rightarrow> 'p ptr" where
  "alloc_parse n x p s = (if p = Null then case mem_alloc s n of None \<Rightarrow> Null | Some _ \<Rightarrow> Owned x else p)"

text \<open>
  \<open>thread\<close> is the result of creating the task.  The contents of the fresh collections are arbitrary until the task clears
  them before it reads them; here they are zero.
\<close>

definition start_smnt :: "u32 \<Rightarrow> bool \<Rightarrow> bool \<Rightarrow> 'a smart_scheme \<Rightarrow> (int \<times> 'a smart_scheme) option" where
  "start_smnt timeout callback thread s =
     (if run_smartconfig s then Some (-1, s)
      else let s = s\<lparr>run_smartconfig := True, get_result_callback := callback \<or> get_result_callback s, smart_timeout := timeout,
                   ya_parse_to_ds := alloc_parse 167 broadcast_zero (ya_parse_to_ds s) s,
                   ya_parse_from_ds := alloc_parse 167 broadcast_zero (ya_parse_from_ds s) s,
                   ya_parse_mul := alloc_parse 262 multicast_zero (ya_parse_mul s) s\<rparr>
           in do { s \<leftarrow> sconfig_init s; Some (if thread then 0 else -1, s) })"

definition stop_smnt :: "'a smart_scheme \<Rightarrow> 'a smart_scheme option" where
  "stop_smnt s = (if \<not> run_smartconfig s then Some s else smart_release (smart_emit StopMonitor s))"

section \<open>What holds while the task listens\<close>

definition para_ok :: "nat \<Rightarrow> 'a ya_parse_para_multicast_t_scheme \<Rightarrow> bool" where
  "para_ok n p \<longleftrightarrow> length (pkey p) = n \<and> length (key_flag p) = n \<and> unat (key_len p) \<le> n"

definition index_ok :: "ya_parse_para_broadcast_t \<Rightarrow> bool" where
  "index_ok b \<longleftrightarrow> (pstatus b = SCONFIG_KEY \<longrightarrow> unat (key_cur_index b) \<le> 80)"

definition router_ok :: "ROUTER_INFO \<Rightarrow> bool" where
  "router_ok r \<longleftrightarrow> length (ri_encry r) = 2 \<and> list_all (\<lambda>e. e \<le> ENC_TYPE_MAX \<or> e = ENC_TYPE_INVALID) (ri_encry r) \<and>
     length (ri_ssid r) = 33 \<and> 0 \<in> set (ri_ssid r)"

definition sconfig_ok :: "SCONFIG_INFO \<Rightarrow> bool" where
  "sconfig_ok sc \<longleftrightarrow> length (sc_bssid sc) = 6"

definition listening ::
    "'a smart_scheme \<Rightarrow> ROUTER_INFO list \<Rightarrow> SCONFIG_INFO \<Rightarrow> ya_parse_para_broadcast_t \<Rightarrow> ya_parse_para_broadcast_t \<Rightarrow>
     ya_parse_para_multicast_t \<Rightarrow> bool" where
  "listening s rs sc td fd m \<longleftrightarrow> info_head s = Owned rs \<and> sconfig_info s = Owned sc \<and> ya_parse_to_ds s = Owned td \<and>
     ya_parse_from_ds s = Owned fd \<and> ya_parse_mul s = Owned m"

definition listen_inv :: "'a smart_scheme \<Rightarrow> bool" where
  "listen_inv s \<longleftrightarrow> (\<exists>rs sc td fd m. listening s rs sc td fd m \<and> list_all router_ok rs \<and> sconfig_ok sc \<and>
     para_ok 80 td \<and> index_ok td \<and> para_ok 80 fd \<and> index_ok fd \<and> para_ok 128 m) \<and>
     board_ok s \<and> smart_ok (smnt_result s) \<and> hop s \<le> 13"

lemma listen_invE:
  assumes "listen_inv s"
  obtains rs sc td fd m where "listening s rs sc td fd m" and "list_all router_ok rs" and "sconfig_ok sc"
    and "para_ok 80 td" and "index_ok td" and "para_ok 80 fd" and "index_ok fd" and "para_ok 128 m"
    and "board_ok s" and "smart_ok (smnt_result s)" and "hop s \<le> 13"
  using assms by (auto simp: listen_inv_def)

lemma listeningD:
  assumes "listening s rs sc td fd m"
  shows "info_head s = Owned rs" "sconfig_info s = Owned sc" "ya_parse_to_ds s = Owned td" "ya_parse_from_ds s = Owned fd"
    "ya_parse_mul s = Owned m"
  using assms by (simp_all add: listening_def)

lemma deref_Owned [simp]: "deref (Owned x) = Some x"
  by (simp add: deref_def)

lemma board_ok_smart [simp]:
  "board_ok (s\<lparr>channel_lock_time := a\<rparr>) = board_ok s" "board_ok (s\<lparr>info_head := b\<rparr>) = board_ok s"
  "board_ok (s\<lparr>sconfig_info := c\<rparr>) = board_ok s" "board_ok (s\<lparr>smnt_result := d\<rparr>) = board_ok s"
  "board_ok (s\<lparr>ya_parse_mul := e\<rparr>) = board_ok s" "board_ok (s\<lparr>ya_parse_to_ds := f\<rparr>) = board_ok s"
  "board_ok (s\<lparr>ya_parse_from_ds := f\<rparr>) = board_ok s" "board_ok (s\<lparr>smart_events := g\<rparr>) = board_ok s"
  "board_ok (s\<lparr>start_time := h\<rparr>) = board_ok s" "board_ok (s\<lparr>first_time := h\<rparr>) = board_ok s"
  "board_ok (s\<lparr>fix_channel_flag := i\<rparr>) = board_ok s" "board_ok (s\<lparr>hop := j\<rparr>) = board_ok s" "board_ok (s\<lparr>ended := k\<rparr>) = board_ok s"
  by (simp_all add: board_ok_def chip_ready_def)

lemma parse_zero_ok [simp]: "para_ok 80 broadcast_zero" "index_ok broadcast_zero" "para_ok 128 multicast_zero"
  by (simp_all add: para_ok_def index_ok_def broadcast_zero_def multicast_zero_def)

section \<open>The collections stay in their arrays\<close>

lemma key_sum_total:
  assumes "len \<le> length key" and "len \<le> length flags"
  shows "\<exists>r. key_sum key flags len i acc = Some r"
  using assms
proof (induction key flags len i acc rule: key_sum.induct)
  case (1 key flags len i acc)
  then show ?case by (subst key_sum.simps) (simp add: rd_def)
qed

lemma key_complete_total: "para_ok n p \<Longrightarrow> \<exists>r. key_complete p = Some r"
  using key_sum_total [of "unat (key_len p)" "pkey p" "key_flag p" 0 0] by (auto simp: key_complete_def para_ok_def)

lemma byte_of_unat: "0 \<le> x \<Longrightarrow> x \<le> 255 \<Longrightarrow> unat (byte_of x) = nat x"
  by (simp add: byte_of_def unat_eq_nat_uint word_of_int_inverse)

text \<open>The index of a byte that a length frame announces may be 80, one past the end of the array.\<close>

definition index_overrun :: "ya_parse_para_broadcast_t \<Rightarrow> bool" where
  "index_overrun b \<longleftrightarrow> pstatus b = SCONFIG_KEY \<and> key_cur_index b = 80"

lemma broadcast_data_safe:
  assumes "para_ok 80 b" and "index_ok b" and "\<not> index_overrun b"
  shows "\<exists>r. broadcast_data len b = Some r \<and> (\<forall>b'. r = Some b' \<longrightarrow> para_ok 80 b' \<and> index_ok b')"
proof (cases "pstatus b")
  case SCONFIG_LEN
  then show ?thesis using assms byte_of_unat [of len] by (auto simp: broadcast_data_def para_ok_def index_ok_def)
next
  case SCONFIG_INDEX
  then show ?thesis using assms byte_of_unat [of "len - 7"] by (auto simp: broadcast_data_def para_ok_def index_ok_def)
next
  case SCONFIG_KEY
  have "key_cur_index b \<noteq> 80" using SCONFIG_KEY assms(3) by (simp add: index_overrun_def)
  then have "unat (key_cur_index b) \<noteq> 80" by (simp add: word_unat_eq_iff)
  then have "unat (key_cur_index b) < 80" using SCONFIG_KEY assms(2) by (simp add: index_ok_def)
  then show ?thesis using SCONFIG_KEY assms by (auto simp: broadcast_data_def para_ok_def index_ok_def wr_def)
qed (use assms in \<open>auto simp: broadcast_data_def para_ok_def index_ok_def\<close>)

lemma strlen_router: "router_ok r \<Longrightarrow> \<exists>n. strlen (ri_ssid r) = Some n \<and> n \<le> 32"
proof -
  assume "router_ok r"
  then have "cstr (ri_ssid r) \<noteq> None" "length (ri_ssid r) = 33" by (simp_all add: router_ok_def cstr_None)
  then obtain str where "cstr (ri_ssid r) = Some str" by auto
  with cstr_SomeD(2) [OF this] \<open>length (ri_ssid r) = 33\<close> show ?thesis by (simp add: strlen_def)
qed

lemma get_ap_info_ok: "get_ap_info a rs = Some r \<Longrightarrow> list_all router_ok rs \<Longrightarrow> router_ok r"
  by (induction rs) (auto split: if_splits)

lemma parse_broadcast_safe:
  assumes "para_ok 80 b" and "index_ok b" and "\<not> index_overrun b" and "list_all router_ok rs" and "sconfig_ok sc"
    and "switchChannel sc \<noteq> CHANNEL_SEARCH_START \<Longrightarrow> get_ap_info (sc_bssid sc) rs \<noteq> None" and "length bssid = 6"
  shows "\<exists>sc' b' t'. ya_parse_broadcast now rs bssid sa len (sc, b, t) = Some (sc', b', t') \<and> sconfig_ok sc' \<and> para_ok 80 b' \<and> index_ok b'"
proof -
  consider "findPhone sc = OK_KEY \<or> foreign bssid sa sc"
    | "\<not> (findPhone sc = OK_KEY \<or> foreign bssid sa sc)" "switchChannel sc = CHANNEL_SEARCH_START"
    | st where "\<not> (findPhone sc = OK_KEY \<or> foreign bssid sa sc)" "switchChannel sc \<noteq> CHANNEL_SEARCH_START" "broadcast_mark len = Some st"
    | "\<not> (findPhone sc = OK_KEY \<or> foreign bssid sa sc)" "switchChannel sc \<noteq> CHANNEL_SEARCH_START" "broadcast_mark len = None"
    by blast
  then show ?thesis
  proof cases
    case 1
    then show ?thesis using assms(1,2,5) by (simp add: ya_parse_broadcast_def)
  next
    case 2
    then show ?thesis using assms(1,2,5,7)
      by (auto simp: ya_parse_broadcast_def Let_def lock_on_def sconfig_ok_def para_ok_def index_ok_def broadcast_zero_def)
  next
    case 3
    then have "st \<noteq> SCONFIG_KEY" by (auto simp: broadcast_mark_def split: if_splits)
    with 3 show ?thesis using assms(1,2,5) by (auto simp: ya_parse_broadcast_def para_ok_def index_ok_def)
  next
    case 4
    obtain r where r: "broadcast_data len b = Some r" "\<forall>b'. r = Some b' \<longrightarrow> para_ok 80 b' \<and> index_ok b'"
      using broadcast_data_safe [OF assms(1-3)] by blast
    show ?thesis
    proof (cases r)
      case None
      with 4 r assms(1,2,5) show ?thesis by (auto simp: ya_parse_broadcast_def)
    next
      case (Some b')
      then have b': "para_ok 80 b'" "index_ok b'" using r(2) by auto
      obtain ok where ok: "key_complete b' = Some ok" using key_complete_total [OF b'(1)] by blast
      obtain ap where ap: "get_ap_info (sc_bssid sc) rs = Some ap" using assms(6) [OF 4(2)] by blast
      obtain n where n: "strlen (ri_ssid ap) = Some n" using strlen_router [OF get_ap_info_ok [OF ap assms(4)]] by blast
      show ?thesis using 4 r Some ok ap n b' assms(5)
        by (auto simp: ya_parse_broadcast_def para_ok_def index_ok_def sconfig_ok_def)
    qed
  qed
qed

lemma multicast_data_safe:
  assumes "para_ok 128 m"
  shows "\<exists>h g m'. multicast_data d0 d1 d2 m = Some (h, g, m') \<and> para_ok 128 m'"
proof -
  have "d0 AND 0x3F \<le> 0x3F" by (rule word_and_le1)
  then have i: "unat (d0 AND 0x3F) \<le> 63" by (simp add: word_le_nat_alt)
  show ?thesis using assms i by (auto simp: multicast_data_def para_ok_def wr_def Let_def word_le_nat_alt)
qed

lemma parse_multicast_safe:
  assumes "para_ok 128 m" and "sconfig_ok sc" and "length ds = 3" and "length bssid = 6"
  shows "\<exists>sc' m' t'. ya_parse_multicast now bssid ds sa len (sc, m, t) = Some (sc', m', t') \<and> sconfig_ok sc' \<and> para_ok 128 m'"
proof (cases "foreign bssid sa sc")
  case False
  have rd: "rd ds 0 = Some (ds ! 0)" "rd ds 1 = Some (ds ! 1)" "rd ds 2 = Some (ds ! 2)" using assms(3) by (simp_all add: rd_def)
  define d0 where "d0 = ds ! 0 AND 0x7F"
  obtain h g m' where m': "multicast_data d0 (ds ! 1) (ds ! 2) m = Some (h, g, m')" "para_ok 128 m'"
    using multicast_data_safe [OF assms(1)] by blast
  obtain ok where ok: "key_complete m' = Some ok" using key_complete_total [OF m'(2)] by blast
  show ?thesis
    using False rd m' ok assms(1,2,4) unfolding ya_parse_multicast_def
    by (auto simp: Let_def d0_def [symmetric] lock_on_def sconfig_ok_def para_ok_def)
qed (use assms in \<open>simp add: ya_parse_multicast_def\<close>)

section \<open>Frames\<close>

text \<open>
  What the callback needs of a frame: it has a frame control field, a beacon has its addresses, a data frame is not a
  four-address frame, and when it is protected its cipher is known from the beacon or recognised; and of the state, for
  a data frame: no index past the end is pending, and the router of the sender it has locked onto was heard.
\<close>

definition frame_control :: "bytes \<Rightarrow> u16" where
  "frame_control f = of_nat (le16 (f ! 0) (f ! 1))"

definition four_address :: "bytes \<Rightarrow> bool" where
  "four_address f \<longleftrightarrow> wifi_80211_has_tods (frame_control f) \<and> wifi_80211_has_fromds (frame_control f)"

definition bssid_of :: "bytes \<Rightarrow> bytes" where
  "bssid_of f = take 6 (drop (the (wifi_80211_get_BSSID (frame_control f))) f)"

definition known_cipher :: "ROUTER_INFO list \<Rightarrow> bytes \<Rightarrow> bool" where
  "known_cipher rs f \<longleftrightarrow> (case get_ap_info (bssid_of f) rs of None \<Rightarrow> False
     | Some ap \<Rightarrow> ri_encry ap ! (if wifi_80211_has_tods (frame_control f) then 1 else 0) \<noteq> ENC_TYPE_INVALID)"

definition cipher_told :: "ROUTER_INFO list \<Rightarrow> bytes \<Rightarrow> bool" where
  "cipher_told rs f \<longleftrightarrow> known_cipher rs f \<or>
     guess_encry f (frame_control f) (wifi_80211_hdrlen (frame_control f)) \<noteq> Some (Some ENC_TYPE_INVALID)"

definition state_fit :: "'a smart_scheme \<Rightarrow> bool" where
  "state_fit s \<longleftrightarrow> (\<forall>rs sc td fd m. listening s rs sc td fd m \<longrightarrow> \<not> index_overrun td \<and> \<not> index_overrun fd \<and>
     (switchChannel sc \<noteq> CHANNEL_SEARCH_START \<longrightarrow> get_ap_info (sc_bssid sc) rs \<noteq> None))"

lemma frame_control_read: "2 \<le> length f \<Longrightarrow> u16_le f 0 = Some (frame_control f)"
  by (cases f; cases "tl f") (simp_all add: u16_le_def rd_def frame_control_def)

lemma hdrlen_data:
  assumes "wifi_80211_is_data_exact fc"
  shows "24 \<le> wifi_80211_hdrlen fc" and "wifi_80211_has_a4 fc \<Longrightarrow> 30 \<le> wifi_80211_hdrlen fc"
proof -
  have "fc AND 0x000c = (fc AND 0x00fc) AND 0x000c" by (simp add: and.assoc)
  moreover have "fc AND 0x00fc = 0x0008 \<or> fc AND 0x00fc = 0x0088"
    using assms by (simp add: wifi_80211_is_data_exact_def fctl_defs Let_def)
  ultimately have "wifi_80211_is_data fc" by (auto simp: wifi_80211_is_data_def fctl_defs)
  then show "24 \<le> wifi_80211_hdrlen fc" "wifi_80211_has_a4 fc \<Longrightarrow> 30 \<le> wifi_80211_hdrlen fc"
    by (simp_all add: wifi_80211_hdrlen_def)
qed

lemma a4_ds: "wifi_80211_has_a4 fc \<Longrightarrow> wifi_80211_has_tods fc \<and> wifi_80211_has_fromds fc"
proof -
  assume "wifi_80211_has_a4 fc"
  then have "fc AND 0x300 = 0x300" by (simp add: wifi_80211_has_a4_def fctl_defs)
  moreover have "fc AND 0x100 = (fc AND 0x300) AND 0x100" "fc AND 0x200 = (fc AND 0x300) AND 0x200" by (simp_all add: and.assoc)
  ultimately show ?thesis by (simp add: wifi_80211_has_tods_def wifi_80211_has_fromds_def fctl_defs)
qed

text \<open>The addresses of a frame that is as long as a header.\<close>

definition sa_of :: "bytes \<Rightarrow> bytes" where
  "sa_of f = take 6 (drop (wifi_80211_get_SA (frame_control f)) f)"

definition da_of :: "bytes \<Rightarrow> bytes" where
  "da_of f = take 6 (drop (wifi_80211_get_DA (frame_control f)) f)"

lemma addresses_read:
  assumes "24 \<le> length f" and "\<not> four_address f"
  shows "\<exists>i. wifi_80211_get_BSSID (frame_control f) = Some i \<and> slice f i 6 = Some (bssid_of f)"
    and "slice f (wifi_80211_get_DA (frame_control f)) 6 = Some (da_of f)"
    and "slice f (wifi_80211_get_SA (frame_control f)) 6 = Some (sa_of f)"
    and "length (bssid_of f) = 6" and "length (da_of f) = 6"
  using assms a4_ds [of "frame_control f"]
  by (auto simp: four_address_def wifi_80211_get_BSSID_def wifi_80211_get_DA_def wifi_80211_get_SA_def slice_def bssid_of_def
      da_of_def sa_of_def)

text \<open>The length of the payload is defined: the bytes that tell the cipher are read only when they are there.\<close>

lemma guess_encry_cases:
  assumes "4 \<le> length f" and "hdrlen \<le> length f"
  shows "guess_encry f fc hdrlen = Some None \<or> (\<exists>e. guess_encry f fc hdrlen = Some (Some e) \<and> (unat e \<le> 4 \<or> e = ENC_TYPE_INVALID))"
proof (cases "wifi_80211_has_protected fc \<and> 8 \<le> length f - hdrlen")
  case True
  then have "hdrlen + 3 < length f" by linarith
  then have "rd f hdrlen = Some (f ! hdrlen)" "rd f (hdrlen + 1) = Some (f ! (hdrlen + 1))" "rd f (hdrlen + 2) = Some (f ! (hdrlen + 2))"
    "rd f (hdrlen + 3) = Some (f ! (hdrlen + 3))" "rd f 3 = Some (f ! 3)" using assms(1) by (simp_all add: rd_def)
  then show ?thesis using True by (simp add: guess_encry_def enc_defs)
qed (auto simp: guess_encry_def enc_defs)

lemma payload_len_defined:
  assumes "list_all router_ok rs" and "4 \<le> length f" and "wifi_80211_hdrlen (frame_control f) \<le> length f" and "cipher_told rs f"
  shows "\<exists>p. payload_len f (frame_control f) (bssid_of f) rs = Some p"
proof -
  let ?fc = "frame_control f" and ?i = "if wifi_80211_has_tods (frame_control f) then 1 else 0 :: nat"
  have off: "\<exists>x. rd len_fixed_offset (unat e) = Some x" if "unat e \<le> 4" for e :: u8
    using that by (simp add: rd_def len_fixed_offset_def)
  have g: "\<exists>p. (case (e :: u8 option) of None \<Rightarrow> Some None
      | Some e \<Rightarrow> do { off \<leftarrow> rd len_fixed_offset (unat e); Some (Some (int (length f) - int (wifi_80211_hdrlen ?fc) - off)) }) = Some p"
    if "e = None \<or> (\<exists>x. e = Some x \<and> unat x \<le> 4)" for e :: "u8 option"
  proof (cases e)
    case (Some x)
    with that have "unat x \<le> 4" by simp
    from off [OF this] show ?thesis using Some by auto
  qed simp
  consider (known) ap where "get_ap_info (bssid_of f) rs = Some ap" "ri_encry ap ! ?i \<noteq> ENC_TYPE_INVALID"
    | (guess) "\<not> known_cipher rs f" "guess_encry f ?fc (wifi_80211_hdrlen ?fc) \<noteq> Some (Some ENC_TYPE_INVALID)"
    using assms(4) by (auto simp: cipher_told_def known_cipher_def split: option.splits)
  then show ?thesis
  proof cases
    case known
    have ap: "length (ri_encry ap) = 2" "list_all (\<lambda>e. e \<le> ENC_TYPE_MAX \<or> e = ENC_TYPE_INVALID) (ri_encry ap)"
      using get_ap_info_ok [OF known(1) assms(1)] by (simp_all add: router_ok_def)
    moreover have "?i < 2" by simp
    ultimately have "ri_encry ap ! ?i \<le> ENC_TYPE_MAX" using known(2) unfolding list_all_length by metis
    then have "unat (ri_encry ap ! ?i) \<le> 4" by (simp add: enc_defs word_le_nat_alt)
    moreover have "rd (ri_encry ap) ?i = Some (ri_encry ap ! ?i)" using ap(1) by (simp add: rd_def)
    ultimately show ?thesis using known g [of "Some (ri_encry ap ! ?i)"] by (simp add: payload_len_def Let_def)
  next
    case guess
    have r: "(case get_ap_info (bssid_of f) rs of None \<Rightarrow> Some ENC_TYPE_INVALID | Some ap \<Rightarrow> rd (ri_encry ap) ?i) = Some ENC_TYPE_INVALID"
      using guess(1) get_ap_info_ok [OF _ assms(1)] by (auto simp: known_cipher_def router_ok_def rd_def split: option.splits)
    obtain e where "guess_encry f ?fc (wifi_80211_hdrlen ?fc) = Some e" "e = None \<or> (\<exists>x. e = Some x \<and> unat x \<le> 4)"
      using guess_encry_cases [OF assms(2,3), of ?fc] guess(2) by auto
    then show ?thesis using r g [of e] by (simp add: payload_len_def Let_def)
  qed
qed

lemma listen_invI:
  assumes "listening s rs sc td fd m" and "list_all router_ok rs" and "sconfig_ok sc" and "para_ok 80 td" and "index_ok td"
    and "para_ok 80 fd" and "index_ok fd" and "para_ok 128 m" and "board_ok s" and "smart_ok (smnt_result s)" and "hop s \<le> 13"
  shows "listen_inv s"
  using assms unfolding listen_inv_def by blast

lemma state_fitD:
  assumes "state_fit s" and "listening s rs sc td fd m"
  shows "\<not> index_overrun td" and "\<not> index_overrun fd" and "switchChannel sc \<noteq> CHANNEL_SEARCH_START \<Longrightarrow> get_ap_info (sc_bssid sc) rs \<noteq> None"
  using assms unfolding state_fit_def by blast+

lemma easyjoin_data_safe:
  assumes "listen_inv s" and "24 \<le> length f" and "wifi_80211_hdrlen (frame_control f) \<le> length f" and "\<not> four_address f"
    and "\<forall>rs. info_head s = Owned rs \<longrightarrow> cipher_told rs f" and "state_fit s"
  shows "\<exists>t. easyjoin_data now f (frame_control f) s = Some t \<and> listen_inv t"
proof -
  obtain rs sc td fd m where l: "listening s rs sc td fd m" and inv: "list_all router_ok rs" "sconfig_ok sc"
    "para_ok 80 td" "index_ok td" "para_ok 80 fd" "index_ok fd" "para_ok 128 m" "board_ok s" "smart_ok (smnt_result s)" "hop s \<le> 13"
    using assms(1) by (rule listen_invE)
  note fit = state_fitD [OF assms(6) l]
  note ls = listeningD [OF l]
  note a = addresses_read [OF assms(2,4)]
  obtain i where i: "wifi_80211_get_BSSID (frame_control f) = Some i" "slice f i 6 = Some (bssid_of f)" using a(1) by blast
  obtain p where p: "payload_len f (frame_control f) (bssid_of f) rs = Some p"
    using payload_len_defined [OF inv(1) _ assms(3)] assms(2,5) ls(1) by fastforce
  let ?t = "channel_lock_time s" and ?ds = "drop 3 (da_of f)"
  show ?thesis
  proof (cases p)
    case None
    then show ?thesis using ls i a(2,3) p assms(1) by (auto simp: easyjoin_data_def)
  next
    case (Some len)
    obtain sc1 b1 t1 where b1: "ya_parse_broadcast now rs (bssid_of f) (sa_of f) len (sc, td, ?t) = Some (sc1, b1, t1)"
      "sconfig_ok sc1" "para_ok 80 b1" "index_ok b1" using parse_broadcast_safe [OF inv(3,4) fit(1) inv(1,2) fit(3) a(4)] by blast
    obtain sc2 b2 t2 where b2: "ya_parse_broadcast now rs (bssid_of f) (sa_of f) len (sc, fd, ?t) = Some (sc2, b2, t2)"
      "sconfig_ok sc2" "para_ok 80 b2" "index_ok b2" using parse_broadcast_safe [OF inv(5,6) fit(2) inv(1,2) fit(3) a(4)] by blast
    have ds: "length ?ds = 3" using a(5) by simp
    obtain sc3 m3 t3 where m3: "ya_parse_multicast now (bssid_of f) ?ds (sa_of f) len (sc, m, ?t) = Some (sc3, m3, t3)"
      "sconfig_ok sc3" "para_ok 128 m3" using parse_multicast_safe [OF inv(7,2) ds a(4)] by blast
    have k1: "listen_inv (s\<lparr>sconfig_info := Owned sc1, ya_parse_to_ds := Owned b1, channel_lock_time := t1\<rparr>)"
      using ls inv b1 by (intro listen_invI [of _ rs sc1 b1 fd m]) (simp_all add: listening_def)
    have k2: "listen_inv (s\<lparr>sconfig_info := Owned sc2, ya_parse_from_ds := Owned b2, channel_lock_time := t2\<rparr>)"
      using ls inv b2 by (intro listen_invI [of _ rs sc2 td b2 m]) (simp_all add: listening_def)
    have k3: "listen_inv (s\<lparr>sconfig_info := Owned sc3, ya_parse_mul := Owned m3, channel_lock_time := t3\<rparr>)"
      using ls inv m3 by (intro listen_invI [of _ rs sc3 td fd m3]) (simp_all add: listening_def)
    show ?thesis unfolding easyjoin_data_def using ls i a(2,3) p Some b1(1) b2(1) m3(1) k1 k2 k3 assms(1) by simp
  qed
qed

lemma cipher_type_ok: "cipher_type c \<le> ENC_TYPE_MAX \<or> cipher_type c = ENC_TYPE_INVALID"
  by (auto simp: cipher_type_def)

lemma strncpy_name:
  assumes "length src = 33" and "0 \<in> set src"
  shows "\<exists>name. strncpy (replicate 33 0) src 32 = Some name \<and> length name = 33 \<and> 0 \<in> set name"
proof -
  have "cstr src \<noteq> None" using assms(2) by (simp add: cstr_None)
  then obtain str where "cstr src = Some str" by auto
  then show ?thesis by (auto simp: strncpy_def memcpy_at_def Let_def)
qed

lemma save_aplist_safe:
  assumes "listen_inv s" and "length ssid = 33" and "0 \<in> set ssid"
  shows "\<exists>r t. save_aplist ssid bssid ch auth pw grp s = Some (r, t) \<and> listen_inv t"
proof -
  obtain rs sc td fd m where l: "listening s rs sc td fd m" and inv: "list_all router_ok rs" "sconfig_ok sc"
    "para_ok 80 td" "index_ok td" "para_ok 80 fd" "index_ok fd" "para_ok 128 m" "board_ok s" "smart_ok (smnt_result s)" "hop s \<le> 13"
    using assms(1) by (rule listen_invE)
  note ls = listeningD [OF l]
  obtain node where node: "mem_alloc s ROUTER_SIZE = Some node" "length node = 48"
    using mem_alloc_board_ok [OF inv(8), of ROUTER_SIZE] by (auto simp: ROUTER_SIZE_def)
  have blank: "memset (ri_ssid (router_of node)) 0 33 = Some (replicate 33 0)"
    using node(2) by (simp add: memset_def memcpy_at_def router_of_def)
  obtain name where name: "strncpy (replicate 33 0) ssid 32 = Some name" "length name = 33" "0 \<in> set name"
    using strncpy_name [OF assms(2,3)] by blast
  have len: "MAX_SSID_LEN = 33" "MAX_SSID_LEN - 1 = 32" by (simp_all add: MAX_SSID_LEN_def)
  have "pairwise_type pw \<le> ENC_TYPE_MAX \<or> pairwise_type pw = ENC_TYPE_INVALID"
    using cipher_type_ok [of pw] by (auto simp: pairwise_type_def enc_defs word_le_nat_alt)
  note enc = this cipher_type_ok [of grp]
  define r where "r = \<lparr>ri_auth = auth_type auth, ri_channel = ch, ri_encry = [cipher_type grp, pairwise_type pw],
     ri_bssid = bssid, ri_ssid = name\<rparr>"
  have r: "router_ok r" using enc name by (simp add: router_ok_def r_def)
  have "listen_inv (s\<lparr>info_head := Owned (rs @ [r])\<rparr>)"
    using ls inv r by (intro listen_invI [of _ "rs @ [r]" sc td fd m]) (simp_all add: listening_def)
  moreover have "save_aplist ssid bssid ch auth pw grp s =
      (if get_ap_info bssid rs \<noteq> None then Some (-1, s) else Some (0, s\<lparr>info_head := Owned (rs @ [r])\<rparr>))"
    unfolding save_aplist_def len using ls node blank name(1)
    by (simp add: add_node_info_def r_def)
  ultimately show ?thesis using assms(1) by auto
qed

lemma aplist_process_safe:
  assumes "listen_inv s" and "22 \<le> length f"
  shows "\<exists>t. wifi_80211_aplist_process f s = Some t \<and> listen_inv t"
proof -
  have "\<exists>p. wifi_80211_get_bssid f (replicate 6 0) = Some p"
    using assms(2) frame_control_read [of f]
    by (simp add: wifi_80211_get_bssid_def wifi_80211_get_BSSID_def slice_def ETH_ALEN_def memcpy_at_def)
  then obtain r b where b: "wifi_80211_get_bssid f (replicate 6 0) = Some (r, b)" by auto
  obtain q n where n: "wifi_80211_get_ssid f (length f) (replicate 33 0) = Some (q, n)" "length n = 33"
    "q = 0 \<longrightarrow> 0 \<in> set n \<and> ieoffset + 2 \<le> length f mod 65536" "q = 0 \<or> q = -1"
    using get_ssid_safe [of "replicate 33 0" f] by auto
  show ?thesis
  proof (cases "r < 0 \<or> q < 0")
    case True
    then show ?thesis using b n assms(1) by (auto simp: wifi_80211_aplist_process_def)
  next
    case False
    then have q: "0 \<in> set n" "ieoffset \<le> length f mod 65536" using n(3,4) by auto
    obtain ch where ch: "wifi_80211_get_bss_channel f (length f) = Some ch" using bss_channel_safe [OF q(2)] by blast
    obtain x auth pw grp where c: "wifi_80211_get_cipher_info f (length f) = Some (x, auth, pw, grp)"
      using cipher_info_safe [OF q(2)] by (metis prod_cases4)
    obtain u t where "save_aplist n b ch auth pw grp s = Some (u, t)" "listen_inv t"
      using save_aplist_safe [OF assms(1) n(2) q(1)] by blast
    then show ?thesis using False b n(1) ch c by (auto simp: wifi_80211_aplist_process_def)
  qed
qed

lemma beacon_not_data: "wifi_80211_is_beacon fc \<or> wifi_80211_is_probe_resp fc \<Longrightarrow> \<not> wifi_80211_is_data_exact fc"
  by (auto simp: wifi_80211_is_beacon_def wifi_80211_is_probe_resp_def wifi_80211_is_data_exact_def fctl_defs Let_def)

definition frame_ok :: "'a smart_scheme \<Rightarrow> bytes \<Rightarrow> bool" where
  "frame_ok s f \<longleftrightarrow> 2 \<le> length f \<and>
     (wifi_80211_is_beacon (frame_control f) \<or> wifi_80211_is_probe_resp (frame_control f) \<longrightarrow> 22 \<le> length f) \<and>
     (wifi_80211_is_data_exact (frame_control f) \<longrightarrow>
        \<not> four_address f \<and> (\<forall>rs. info_head s = Owned rs \<longrightarrow> cipher_told rs f) \<and> state_fit s)"

lemma callback_safe:
  assumes "listen_inv s" and "frame_ok s f"
  shows "\<exists>t. easyjoin_callback now f s = Some t \<and> listen_inv t"
proof -
  let ?fc = "frame_control f"
  have fc: "u16_le f 0 = Some ?fc" using assms(2) by (intro frame_control_read) (simp add: frame_ok_def)
  obtain sc where sc: "deref (sconfig_info s) = Some sc" using assms(1) by (metis deref_Owned listen_invE listeningD(2))
  show ?thesis
  proof (cases "wifi_80211_is_beacon ?fc \<or> wifi_80211_is_probe_resp ?fc")
    case True
    then obtain t where t: "wifi_80211_aplist_process f s = Some t" "listen_inv t"
      using aplist_process_safe [OF assms(1)] assms(2) by (auto simp: frame_ok_def)
    obtain sc' where "deref (sconfig_info t) = Some sc'" using t(2) by (metis deref_Owned listen_invE listeningD(2))
    then show ?thesis using True fc t assms(1) beacon_not_data [OF True] by (simp add: easyjoin_callback_def)
  next
    case False
    show ?thesis
    proof (cases "wifi_80211_is_data_exact ?fc \<and> wifi_80211_hdrlen ?fc \<le> length f")
      case True
      then have "24 \<le> length f" using hdrlen_data(1) [of ?fc] by simp
      then obtain u where "easyjoin_data now f ?fc s = Some u" "listen_inv u"
        using easyjoin_data_safe [OF assms(1) _ conjunct2 [OF True]] True assms(2) by (auto simp: frame_ok_def)
      then show ?thesis using False True fc sc assms(1) by (simp add: easyjoin_callback_def)
    next
      case other: False
      then show ?thesis using False fc sc assms(1) by (auto simp: easyjoin_callback_def)
    qed
  qed
qed

section \<open>Decoding is safe\<close>

definition pwd_ok :: "smnt_result_t \<Rightarrow> bool" where
  "pwd_ok r \<longleftrightarrow> 0 \<in> set (sm_password r) \<and> unat (sm_password_len r) \<le> 64"

lemma smnt_zero_ok [simp]: "smart_ok smnt_zero"
  by (simp add: smart_ok_def smnt_zero_def)

lemma dec_tail_safe:
  assumes "length buf = 128" and "pos \<le> 98"
  shows "\<exists>ok c ra rb. dec_tail buf out_len pos r = Some (ok, r\<lparr>sm_cloud_select := c\<rparr>, ra, rb)"
proof -
  have "r = r\<lparr>sm_cloud_select := sm_cloud_select r\<rparr>" by simp
  then have "\<exists>c. r = r\<lparr>sm_cloud_select := c\<rparr>" by blast
  then show ?thesis using assms by (auto simp: dec_tail_def rd_def)
qed

lemma dec_password_safe:
  assumes "length buf = 128" and "pos \<le> 33" and "smart_ok r" and "sm_password r = replicate 65 0"
  shows "\<exists>ok r' ra rb. dec_password buf out_len pos r = Some (ok, r', ra, rb) \<and> smart_ok r' \<and> (ok \<longrightarrow> pwd_ok r')"
proof (cases "buf ! pos > 64")
  case True
  then show ?thesis using assms by (auto simp: dec_password_def rd_def)
next
  case False
  let ?n = "unat (buf ! pos)" and ?pw = "take (unat (buf ! pos)) (drop (pos + 1) buf) @ replicate (65 - unat (buf ! pos)) 0"
  have n: "?n \<le> 64" using False by (simp add: word_le_nat_alt not_less)
  have s: "slice buf (pos + 1) ?n = Some (take ?n (drop (pos + 1) buf))" using assms(1,2) n by (simp add: slice_def)
  have c: "memcpy_at (sm_password r) 0 (take ?n (drop (pos + 1) buf)) = Some ?pw"
    using assms(1,2,4) n by (simp add: memcpy_at_def min_absorb2)
  define r1 where "r1 = r\<lparr>sm_password_len := buf ! pos, sm_password := ?pw\<rparr>"
  obtain ok cl ra rb where t: "dec_tail buf out_len (pos + 1 + ?n) r1 = Some (ok, r1\<lparr>sm_cloud_select := cl\<rparr>, ra, rb)"
    using dec_tail_safe [OF assms(1), of "pos + 1 + ?n" out_len r1] assms(2) n by auto
  have "dec_password buf out_len pos r = Some (ok, r1\<lparr>sm_cloud_select := cl\<rparr>, ra, rb)"
    using False assms(1,2) s c t by (simp add: dec_password_def rd_def r1_def)
  moreover have "length ?pw = 65" using assms(1,2) n by simp
  then have "smart_ok (r1\<lparr>sm_cloud_select := cl\<rparr>)" "pwd_ok (r1\<lparr>sm_cloud_select := cl\<rparr>)"
    using assms(3) n by (simp_all add: smart_ok_def r1_def pwd_ok_def)
  ultimately show ?thesis by blast
qed

lemma dec_multicast_safe:
  assumes "length buf = 128"
  shows "\<exists>ok r ra rb. dec_multicast buf out_len smnt_zero = Some (ok, r, ra, rb) \<and> smart_ok r \<and> (ok \<longrightarrow> pwd_ok r)"
proof (cases "buf ! 0 > 32 \<or> buf ! 0 = 0")
  case True
  then show ?thesis using assms by (auto simp: dec_multicast_def rd_def)
next
  case False
  let ?n = "unat (buf ! 0)"
  have n: "?n \<le> 32" using False by (simp add: word_le_nat_alt not_less)
  let ?name = "take ?n (drop 1 buf) @ replicate (33 - ?n) 0"
  have c: "slice buf 1 ?n = Some (take ?n (drop 1 buf))" "memcpy_at (replicate 33 0) 0 (take ?n (drop 1 buf)) = Some ?name"
    using assms n by (simp_all add: slice_def memcpy_at_def min_absorb2)
  have z: "sm_ssid smnt_zero = replicate 33 0" by (simp add: smnt_zero_def)
  define r where "r = smnt_zero\<lparr>sm_ssid_len := buf ! 0, sm_ssid := ?name\<rparr>"
  have "length ?name = 33" using assms n by simp
  then have r: "smart_ok r" "sm_password r = replicate 65 0" using smnt_zero_ok by (simp_all add: r_def smart_ok_def) (simp add: smnt_zero_def)
  have z1: "smart_ok (smnt_zero\<lparr>sm_ssid_len := buf ! 0\<rparr>)" using smnt_zero_ok by (simp add: smart_ok_def)
  obtain ok r' ra rb where d: "dec_password buf out_len (1 + ?n) r = Some (ok, r', ra, rb)" "smart_ok r'" "ok \<longrightarrow> pwd_ok r'"
    using dec_password_safe [OF assms _ r, of "1 + ?n" out_len] n by auto
  show ?thesis
    using False assms n c z r(1) z1 d unfolding dec_multicast_def Let_def
    by (auto simp: rd_def r_def [simplified])
qed

lemma dec_name_safe:
  assumes "\<And>a. ap = Some a \<Longrightarrow> router_ok a" and "smart_ok r"
  shows "\<exists>ok r'. dec_name ap r = Some (ok, r') \<and> smart_ok r' \<and> (pwd_ok r \<longrightarrow> pwd_ok r')"
proof (cases ap)
  case None
  then show ?thesis using assms(2) by (auto simp: dec_name_def rd_def smart_ok_def)
next
  case (Some a)
  then have a: "router_ok a" using assms(1) by simp
  obtain str where str: "cstr (ri_ssid a) = Some str" using a by (cases "cstr (ri_ssid a)") (auto simp: cstr_None router_ok_def)
  have "length str < 33" using cstr_SomeD(2) [OF str] a by (simp add: router_ok_def)
  then have c: "strcpy (replicate 33 0) (ri_ssid a) = Some (str @ 0 # drop (Suc (length str)) (replicate 33 0))"
    unfolding strcpy_Some using str by simp
  have "rd (ri_ssid a) 0 = Some (ri_ssid a ! 0)" using a by (simp add: rd_def router_ok_def)
  then show ?thesis using Some str c \<open>length str < 33\<close> assms(2) by (auto simp: dec_name_def strlen_def smart_ok_def pwd_ok_def)
qed

lemma strlen_total: "0 \<in> set b \<Longrightarrow> \<exists>n. strlen b = Some n \<and> n < length b"
proof -
  assume "0 \<in> set b"
  then obtain str where "cstr b = Some str" by (cases "cstr b") (auto simp: cstr_None)
  then show ?thesis using cstr_SomeD(2) [of b str] by (simp add: strlen_def)
qed

text \<open>The digits are written after the password, with a terminating NUL.\<close>

lemma dec_random_safe:
  assumes "crypto_ok c" and "length aes = 16" and "smart_ok r" and "pwd_ok r"
  shows "\<exists>r'. dec_random c aes ra rb r = Some r' \<and> smart_ok r'"
proof -
  let ?n = "unat (sm_password_len r)"
  obtain str where str: "cstr (sm_password r) = Some str" using assms(4) by (cases "cstr (sm_password r)") (auto simp: cstr_None pwd_ok_def)
  have "length str < 65" using cstr_SomeD(2) [OF str] assms(3) by (simp add: smart_ok_def)
  then obtain t1 where t1: "strcpy (replicate 72 0) (sm_password r) = Some t1" "length t1 = 72"
    using str by (simp add: strcpy_Some)
  have n: "?n \<le> 64" using assms(4) by (simp add: pwd_ok_def)
  let ?d1 = "hex2 ra @ 0 # drop 3 (drop ?n t1)"
  have h1: "HexArrayToString [ra] 1 (drop ?n t1) = Some ?d1" using hex_write [of 1 "[ra]" "drop ?n t1"] n t1(2) by simp
  have l1: "length ?d1 = 72 - ?n" using n t1(2) by simp
  obtain t2 where t2: "memcpy_at t1 ?n ?d1 = Some t2" "length t2 = 72" using n t1(2) l1 by (simp add: memcpy_at_def)
  let ?d2 = "hex2 rb @ 0 # drop 3 (drop (?n + 2) t2)"
  have h2: "HexArrayToString [rb] 1 (drop (?n + 2) t2) = Some ?d2" using hex_write [of 1 "[rb]" "drop (?n + 2) t2"] n t2(2) by simp
  have l2: "length ?d2 = 70 - ?n" using n t2(2) by simp
  obtain t3 where t3: "memcpy_at t2 (?n + 2) ?d2 = Some t3" "length t3 = 72" "0 \<in> set t3"
    using n t2(2) l2 by (simp add: memcpy_at_def)
  obtain l where l: "strlen t3 = Some l" "l < 72" using strlen_total [OF t3(3)] t3(2) by auto
  have "ya_mbedtls_md5 c t3 aes l = Some (if l = 0 then (-1, aes) else (0, md5 c (take l t3)))"
    using assms(1,2) t3(2) l(2) by (simp add: ya_mbedtls_md5_def slice_def memcpy_at_def crypto_ok_def)
  then obtain x aes' where m: "ya_mbedtls_md5 c t3 aes l = Some (x, aes')" "length aes' = 16"
    using assms(1,2) by (cases "l = 0") (auto simp: crypto_ok_def)
  let ?rand = "concat (map hex2 (take 16 aes')) @ 0 # drop 33 (sm_rand r)"
  have h3: "HexArrayToString aes' 16 (sm_rand r) = Some ?rand"
    using hex_write [of 16 aes' "sm_rand r"] m(2) assms(3) by (simp add: smart_ok_def)
  have "smart_ok (r\<lparr>sm_rand := ?rand\<rparr>)" using assms(3) m(2) by (simp add: smart_ok_def)
  then show ?thesis using t1(1) h1 t2(1) h2 t3(1) l(1) m(1) h3 by (simp add: dec_random_def Let_def)
qed

definition final_bytes :: "bytes \<times> nat \<Rightarrow> bool" where
  "final_bytes p \<longleftrightarrow> snd p \<le> length (fst p) \<and> snd p \<le> 128"

lemma dec_source_safe:
  assumes "listen_inv s"
  shows "\<exists>r. dec_source s = Some r \<and> (\<forall>p. r = Some p \<longrightarrow> final_bytes p)"
proof -
  obtain rs sc td fd m where l: "listening s rs sc td fd m" and inv: "list_all router_ok rs" "sconfig_ok sc"
    "para_ok 80 td" "index_ok td" "para_ok 80 fd" "index_ok fd" "para_ok 128 m" "board_ok s" "smart_ok (smnt_result s)" "hop s \<le> 13"
    using assms by (rule listen_invE)
  show ?thesis using listeningD [OF l] inv(3,5,7) by (auto simp: dec_source_def para_ok_def final_bytes_def)
qed

lemma smart_key_md5:
  assumes "crypto_ok c"
  shows "ya_mbedtls_md5 c (AES_KEY_SMARTCONFIG_STRING @ [0]) (replicate 16 0) (length AES_KEY_SMARTCONFIG_STRING) =
    Some (0, md5 c AES_KEY_SMARTCONFIG_STRING)"
proof -
  have "AES_KEY_SMARTCONFIG_STRING \<noteq> []" by (simp add: AES_KEY_SMARTCONFIG_STRING_def ascii_def)
  then show ?thesis using assms by (simp add: ya_mbedtls_md5_def slice_def memcpy_at_def crypto_ok_def)
qed

lemma cfb_decrypt_run:
  assumes "board_ok s" and "n \<le> length p" and "n \<le> length buf"
  shows "AES_CFB_NoPadding_decrypt c k iv p buf n s =
    Some (n, mbedtls_aes_crypt_cfb128 (aes_enc c k) True 0 iv (take n p) @ drop n buf)"
proof -
  obtain b where b: "mem_alloc s n = Some b" "length b = n" using mem_alloc_board_ok [OF assms(1)] by blast
  show ?thesis using assms(2,3) b by (simp add: AES_CFB_NoPadding_decrypt_def slice_def memcpy_at_def)
qed

lemma decode_safe:
  assumes "listen_inv s" and "crypto_ok c"
  shows "\<exists>x t. ya_smartconfig_decode c s = Some (x, s\<lparr>smnt_result := t\<rparr>) \<and> smart_ok t"
proof -
  obtain rs sc td fd m where l: "listening s rs sc td fd m" and inv: "list_all router_ok rs" "sconfig_ok sc"
    "para_ok 80 td" "index_ok td" "para_ok 80 fd" "index_ok fd" "para_ok 128 m" "board_ok s" "smart_ok (smnt_result s)" "hop s \<le> 13"
    using assms(1) by (rule listen_invE)
  have same: "s = s\<lparr>smnt_result := smnt_result s\<rparr>" by simp
  let ?k = "md5 c AES_KEY_SMARTCONFIG_STRING"
  obtain b where b: "mem_alloc s 128 = Some b" "length b = 128" using mem_alloc_board_ok [OF inv(8)] by blast
  have z: "memset b 0 128 = Some (replicate 128 0)" using b(2) by (simp add: memset_def memcpy_at_def)
  obtain src where src: "dec_source s = Some src" "\<forall>p. src = Some p \<longrightarrow> final_bytes p" using dec_source_safe [OF assms(1)] by blast
  note start = smart_key_md5 [OF assms(2)] b(1) z src(1)
  show ?thesis
  proof (cases "\<exists>p n. src = Some (p, n) \<and> n \<noteq> 0")
    case False
    then have "ya_smartconfig_decode c s = Some (-1, s)" by (cases src) (auto simp: ya_smartconfig_decode_def start)
    then show ?thesis using same inv(9) by metis
  next
    case True
    then obtain p n where pn: "src = Some (p, n)" "n \<noteq> 0" by blast
    then have fb: "n \<le> length p" "n \<le> 128" using src(2) by (simp_all add: final_bytes_def)
    define buf where "buf = mbedtls_aes_crypt_cfb128 (aes_enc c ?k) True 0 ?k (take n p) @ drop n (replicate 128 0)"
    have d: "AES_CFB_NoPadding_decrypt c ?k ?k p (replicate 128 0) n s = Some (n, buf)"
      unfolding buf_def using cfb_decrypt_run [OF inv(8) fb(1), of "replicate 128 0"] fb(2) by simp
    have lb: "length buf = 128" using fb by (simp add: buf_def)
    have zp: "sm_password smnt_zero = replicate 65 0" by (simp add: smnt_zero_def)
    obtain ok r ra rb where r: "(if pfinish m = 1 then dec_multicast buf n smnt_zero else dec_password buf n 0 smnt_zero) = Some (ok, r, ra, rb)"
      "smart_ok r" "ok \<longrightarrow> pwd_ok r"
      using dec_multicast_safe [OF lb, of n] dec_password_safe [OF lb _ smnt_zero_ok zp, of 0 n]
      by (cases "pfinish m = 1") (simp_all, blast+)
    let ?ap = "get_ap_info (sc_bssid sc) rs"
    have rb6: "smart_ok (r\<lparr>sm_bssid := sc_bssid sc\<rparr>)" using r(2) inv(2) by (simp add: smart_ok_def sconfig_ok_def)
    obtain ok2 r2 where r2: "dec_name ?ap (r\<lparr>sm_bssid := sc_bssid sc\<rparr>) = Some (ok2, r2)" "smart_ok r2"
      "pwd_ok (r\<lparr>sm_bssid := sc_bssid sc\<rparr>) \<longrightarrow> pwd_ok r2"
      using dec_name_safe [OF _ rb6, of ?ap] get_ap_info_ok [OF _ inv(1), of "sc_bssid sc"] by blast
    have k16: "length ?k = 16" using assms(2) by (simp add: crypto_ok_def)
    have r3: "\<exists>r3. dec_random c ?k ra rb r2 = Some r3 \<and> smart_ok r3" if ok
      using dec_random_safe [OF assms(2) k16 r2(2)] r(3) r2(3) that by (auto simp: pwd_ok_def)
    have s1: "slice buf 0 (n - 1) = Some (take (n - 1) buf)" "rd buf (n - 1) = Some (buf ! (n - 1))"
      using lb fb(2) pn(2) by (simp_all add: slice_def rd_def)
    show ?thesis
    proof (cases "foldl (+) 0 (take (n - 1) buf) \<noteq> buf ! (n - 1)")
      case True
      then have "ya_smartconfig_decode c s = Some (-1, s)" using pn d s1 by (simp add: ya_smartconfig_decode_def start)
      then show ?thesis using same inv(9) by metis
    next
      case False
      then have dec: "ya_smartconfig_decode c s =
         (if \<not> ok then Some (-1, s\<lparr>smnt_result := r\<rparr>) else if \<not> ok2 then Some (-1, s\<lparr>smnt_result := r2\<rparr>)
          else do { r3 \<leftarrow> dec_random c ?k ra rb r2; Some (0, s\<lparr>smnt_result := r3\<rparr>) })"
        using pn d s1 r(1) r2(1) listeningD [OF l] by (simp add: ya_smartconfig_decode_def start)
      show ?thesis
      proof (cases "ok \<and> ok2")
        case True
        then obtain r3 where r3: "dec_random c ?k ra rb r2 = Some r3" "smart_ok r3" using r3 by blast
        then have "ya_smartconfig_decode c s = Some (0, s\<lparr>smnt_result := r3\<rparr>)" using dec True by simp
        then show ?thesis using r3(2) by blast
      next
        case False
        then have "ya_smartconfig_decode c s = Some (-1, s\<lparr>smnt_result := if ok then r2 else r\<rparr>)" using dec by simp
        then show ?thesis using r(2) r2(2) by (metis (full_types))
      qed
    qed
  qed
qed

section \<open>Rounds of the task are safe\<close>

definition results_of :: "smart_event list \<Rightarrow> smnt_result_t list" where
  "results_of es = List.map_filter (\<lambda>e. case e of SmartResultEv r \<Rightarrow> Some r | _ \<Rightarrow> None) es"

definition turn_ok :: "'a smart_scheme \<Rightarrow> 'a smart_scheme \<Rightarrow> bool" where
  "turn_ok s t \<longleftrightarrow> listen_inv t \<and> (list_all smart_ok (results_of (smart_events s)) \<longrightarrow> list_all smart_ok (results_of (smart_events t)))"

lemma results_append [simp]:
  "results_of (es @ fs) = results_of es @ results_of fs" "results_of [] = []"
  "results_of (e # es) = (case e of SmartResultEv r \<Rightarrow> [r] | _ \<Rightarrow> []) @ results_of es"
  by (simp_all add: results_of_def List.map_filter_def split: smart_event.split)

lemma listen_inv_upd [simp]:
  "listen_inv (s\<lparr>channel_lock_time := a\<rparr>) = listen_inv s" "listen_inv (s\<lparr>smart_events := g\<rparr>) = listen_inv s"
  "listen_inv (s\<lparr>start_time := h\<rparr>) = listen_inv s" "listen_inv (s\<lparr>first_time := h\<rparr>) = listen_inv s"
  "listen_inv (s\<lparr>fix_channel_flag := i\<rparr>) = listen_inv s" "listen_inv (s\<lparr>ended := k\<rparr>) = listen_inv s"
  by (simp_all add: listen_inv_def listening_def)

lemma listen_inv_result: "listen_inv s \<Longrightarrow> smart_ok r \<Longrightarrow> listen_inv (s\<lparr>smnt_result := r\<rparr>)"
  by (simp add: listen_inv_def listening_def)

lemma listen_inv_hop: "listen_inv s \<Longrightarrow> h \<le> 13 \<Longrightarrow> listen_inv (s\<lparr>hop := h\<rparr>)"
  by (simp add: listen_inv_def listening_def)

lemma smart_ok_status [simp]: "smart_ok (r\<lparr>smnt_result_status := x\<rparr>) = smart_ok r"
  by (simp add: smart_ok_def)

lemma finish_ok:
  assumes "listen_inv s"
  shows "turn_ok s ((smartconfig_finish x (smart_emit StopMonitor s))\<lparr>ended := True\<rparr>)"
proof -
  have "smart_ok (smnt_result s)" using assms by (simp add: listen_inv_def)
  then show ?thesis using assms by (simp add: turn_ok_def smartconfig_finish_def Let_def listen_inv_result)
qed

lemma fix_channel_ok:
  assumes "listen_inv s"
  shows "\<exists>t. fix_channel s = Some t \<and> turn_ok s t"
proof -
  obtain rs sc td fd m where l: "listening s rs sc td fd m" using assms by (rule listen_invE)
  show ?thesis using listeningD [OF l] assms by (simp add: fix_channel_def turn_ok_def Let_def)
qed

lemma search_again_ok:
  assumes "listen_inv s"
  shows "\<exists>t. search_again s = Some t \<and> turn_ok s t"
proof -
  obtain rs sc td fd m where l: "listening s rs sc td fd m" and inv: "list_all router_ok rs" "sconfig_ok sc"
    "para_ok 80 td" "index_ok td" "para_ok 80 fd" "index_ok fd" "para_ok 128 m" "board_ok s" "smart_ok (smnt_result s)" "hop s \<le> 13"
    using assms by (rule listen_invE)
  let ?sc = "sc\<lparr>switchChannel := CHANNEL_SEARCH_START, findPhone := NOT_ACTIVE\<rparr>"
  let ?t = "s\<lparr>ya_parse_to_ds := Owned broadcast_zero, ya_parse_from_ds := Owned broadcast_zero, ya_parse_mul := Owned multicast_zero,
     sconfig_info := Owned ?sc\<rparr>"
  have "listen_inv ?t" using listeningD [OF l] inv
    by (intro listen_invI [of _ rs ?sc broadcast_zero broadcast_zero multicast_zero]) (simp_all add: listening_def sconfig_ok_def)
  then show ?thesis using listeningD [OF l] by (simp add: search_again_def clear_parse_def turn_ok_def)
qed

lemma channel_hop_ok:
  assumes "listen_inv s"
  shows "\<exists>t. channel_hop t0 t1 sc s = Some t \<and> turn_ok s t"
proof -
  have "hop s \<le> 13" using assms by (simp add: listen_inv_def)
  moreover have "listen_inv (s\<lparr>hop := h + 1\<rparr>)" if "h \<le> 12" for h using listen_inv_hop [OF assms, of "h + 1"] that by simp
  moreover have "listen_inv ((smart_emit e s)\<lparr>hop := h\<rparr>) = listen_inv (s\<lparr>hop := h\<rparr>)" for e h by (simp add: listen_inv_def listening_def)
  ultimately show ?thesis using assms
    by (auto simp: channel_hop_def Let_def rd_def channel_list_def turn_ok_def listen_inv_def listening_def)
qed

lemma turn_ok_trans: "turn_ok s t \<Longrightarrow> turn_ok t u \<Longrightarrow> turn_ok s u"
  by (simp add: turn_ok_def)

lemma bind_turn:
  assumes "\<exists>t. f = Some t \<and> turn_ok s t" and "\<And>t. listen_inv t \<Longrightarrow> \<exists>u. g t = Some u \<and> turn_ok t u"
  shows "\<exists>u. f \<bind> g = Some u \<and> turn_ok s u"
  using assms by (metis Option.bind.bind_lunit turn_ok_def turn_ok_trans)

lemma smart_turn_safe:
  assumes "listen_inv s" and "crypto_ok c"
  shows "\<exists>t. smart_turn c t0 t1 s = Some t \<and> turn_ok s t"
proof -
  obtain rs sc td fd m where l: "listening s rs sc td fd m" using assms(1) by (rule listen_invE)
  have sc: "deref (sconfig_info s) = Some sc" using listeningD [OF l] by simp
  obtain x r where d: "ya_smartconfig_decode c s = Some (x, s\<lparr>smnt_result := r\<rparr>)" "smart_ok r"
    using decode_safe [OF assms] by blast
  have s': "listen_inv (s\<lparr>smnt_result := r\<rparr>)" using listen_inv_result [OF assms(1) d(2)] .
  have same: "turn_ok s (s\<lparr>smnt_result := r\<rparr>)" "turn_ok s (s\<lparr>channel_lock_time := t1\<rparr>)" "turn_ok s s"
    using s' assms(1) by (simp_all add: turn_ok_def)
  have "\<exists>t. (search_again (s\<lparr>smnt_result := r\<rparr>) \<bind> fix_channel) = Some t \<and> turn_ok s t"
    using bind_turn [OF search_again_ok [OF s'] fix_channel_ok] turn_ok_trans [OF same(1)] by blast
  moreover have "\<exists>t. (search_again (s\<lparr>channel_lock_time := t1\<rparr>) \<bind> fix_channel) = Some t \<and> turn_ok s t"
    using bind_turn [OF search_again_ok fix_channel_ok] turn_ok_trans [OF same(2)] assms(1) listen_inv_upd(1) by metis
  moreover have "\<exists>t. (channel_hop t0 t1 sc s \<bind> fix_channel) = Some t \<and> turn_ok s t"
    using bind_turn [OF channel_hop_ok [OF assms(1)] fix_channel_ok] .
  ultimately show ?thesis
    using sc d(1) same(3) fix_channel_ok [OF assms(1)] finish_ok [OF assms(1), of smnt_result_overtime]
      turn_ok_trans [OF same(1) finish_ok [OF s', of smnt_result_ok]]
    by (simp add: smart_turn_def)
qed

section \<open>A session\<close>

text \<open>What happens while the task runs: a frame is heard, or the task makes a round.\<close>

datatype smart_input = Heard u32 bytes | Round u32 u32

primrec smart_step :: "crypto \<Rightarrow> smart_input \<Rightarrow> 'a smart_scheme \<Rightarrow> 'a smart_scheme option" where
  "smart_step c (Heard now f) s = easyjoin_callback now f s"
| "smart_step c (Round t0 t1) s = smart_turn c t0 t1 s"

primrec smart_run :: "crypto \<Rightarrow> smart_input list \<Rightarrow> 'a smart_scheme \<Rightarrow> 'a smart_scheme option" where
  "smart_run c [] s = Some s"
| "smart_run c (i # is) s = smart_step c i s \<bind> smart_run c is"

definition frame_fits :: "'a smart_scheme \<Rightarrow> smart_input \<Rightarrow> bool" where
  "frame_fits s i \<longleftrightarrow> (case i of Heard now f \<Rightarrow> frame_ok s f | Round _ _ \<Rightarrow> True)"

primrec frames_fit :: "crypto \<Rightarrow> smart_input list \<Rightarrow> 'a smart_scheme \<Rightarrow> bool" where
  "frames_fit c [] s = True"
| "frames_fit c (i # is) s = (frame_fits s i \<and> (case smart_step c i s of None \<Rightarrow> True | Some t \<Rightarrow> frames_fit c is t))"

lemma smart_run_append: "smart_run c (xs @ ys) s = smart_run c xs s \<bind> smart_run c ys"
  by (induction xs arbitrary: s) (auto simp: Option.bind_assoc intro!: Option.bind_cong)

text \<open>The callback does not touch the events: whatever it returns, it returns the state with other members changed.\<close>

lemma data_events: "easyjoin_data now f fc s = Some t \<Longrightarrow> smart_events t = smart_events s"
proof -
  have "pred_option (\<lambda>t. smart_events t = smart_events s) (easyjoin_data now f fc s)"
    unfolding easyjoin_data_def by (intro pred_rules) simp_all
  then show "easyjoin_data now f fc s = Some t \<Longrightarrow> smart_events t = smart_events s" by simp
qed

lemma save_events: "save_aplist n b ch au pw grp s = Some (r, t) \<Longrightarrow> smart_events t = smart_events s"
proof -
  have "pred_option (\<lambda>(r, t). smart_events t = smart_events s) (save_aplist n b ch au pw grp s)"
    unfolding save_aplist_def by (intro pred_rules) simp_all
  then show "save_aplist n b ch au pw grp s = Some (r, t) \<Longrightarrow> smart_events t = smart_events s" by simp
qed

lemma aplist_events: "wifi_80211_aplist_process f s = Some t \<Longrightarrow> smart_events t = smart_events s"
  by (auto simp: wifi_80211_aplist_process_def bind_eq_Some_conv dest: save_events split: if_splits)

lemma callback_events: "easyjoin_callback now f s = Some t \<Longrightarrow> smart_events t = smart_events s"
  by (auto simp: easyjoin_callback_def bind_eq_Some_conv dest: aplist_events data_events split: if_splits)
    (metis aplist_events data_events)+

lemma smart_step_safe:
  assumes "listen_inv s" and "crypto_ok c" and "frame_fits s i"
  shows "\<exists>t. smart_step c i s = Some t \<and> turn_ok s t"
proof (cases i)
  case (Heard now f)
  then obtain t where "easyjoin_callback now f s = Some t" "listen_inv t"
    using callback_safe [OF assms(1), of f now] assms(3) by (auto simp: frame_fits_def)
  then show ?thesis using Heard callback_events [of now f s t] by (simp add: turn_ok_def)
next
  case (Round t0 t1)
  then show ?thesis using smart_turn_safe [OF assms(1,2)] by simp
qed

text \<open>C11: Smart configuration.  While the task listens, frames of any kind, length and contents may be heard between its
  rounds.  As long as every frame has two bytes, a beacon has its addresses, a data frame is no four-address frame and is not
  encrypted in a way the code does not recognise, and when it comes no index past the end is pending and the router of the sender was
  heard, no access leaves its buffer, the state stays consistent, and every result that is delivered has a terminated random number
  and fields of the sizes the application copies.\<close>

theorem smart_session_safe:
  assumes "listen_inv s" and "crypto_ok c" and "frames_fit c is s" and "results_of (smart_events s) = []"
  shows "\<exists>t. smart_run c is s = Some t \<and> listen_inv t \<and> list_all smart_ok (results_of (smart_events t))"
proof -
  have "\<exists>t. smart_run c is s = Some t \<and> turn_ok s t" using assms(1,3)
  proof (induction "is" arbitrary: s)
    case Nil
    then show ?case by (simp add: turn_ok_def)
  next
    case (Cons i "is")
    then obtain t where t: "smart_step c i s = Some t" "turn_ok s t" using smart_step_safe [OF _ assms(2), of s i] by auto
    then have "listen_inv t" "frames_fit c is t" using Cons.prems by (simp_all add: turn_ok_def)
    then obtain u where "smart_run c is t = Some u" "turn_ok t u" using Cons.IH by blast
    then show ?case using t turn_ok_trans by auto
  qed
  then show ?thesis using assms(4) by (auto simp: turn_ok_def)
qed

text \<open>A first session begins in such a state if the block of the list's head, which is not initialised, does not spoil the search.\<close>

lemma session_begins:
  assumes "board_ok s" and "\<not> run_smartconfig s" and "ya_parse_to_ds s = Null" and "ya_parse_from_ds s = Null" and "ya_parse_mul s = Null"
    and "smart_ok (smnt_result s)" and "mem_alloc s ROUTER_SIZE = Some node" and "router_ok (router_of node)"
  shows "\<exists>u v. start_smnt timeout True True s = Some (0, u) \<and> smart_begin now u = Some v \<and> listen_inv v"
proof -
  obtain b where b: "mem_alloc s 16 = Some b" "length b = 16" using mem_alloc_board_ok [OF assms(1)] by blast
  obtain x where x: "mem_alloc s 167 = Some x" using mem_alloc_board_ok [OF assms(1)] by blast
  obtain y where y: "mem_alloc s 262 = Some y" using mem_alloc_board_ok [OF assms(1)] by blast
  let ?sc = "\<lparr>switchChannel = CHANNEL_SEARCH_START, findPhone = NOT_ACTIVE, sc_delay = 60, sc_bssid = take 6 (drop 4 b), srcmac = take 6 (drop 10 b)\<rparr>"
  let ?v = "s\<lparr>run_smartconfig := True, get_result_callback := True, smart_timeout := timeout,
     ya_parse_to_ds := Owned broadcast_zero, ya_parse_from_ds := Owned broadcast_zero, ya_parse_mul := Owned multicast_zero\<rparr>"
  let ?u = "?v\<lparr>info_head := Owned [router_of node], sconfig_info := Owned ?sc\<rparr>"
  have "mem_alloc ?v n = mem_alloc s n" for n by (simp add: mem_alloc_def)
  then have "sconfig_init ?v = Some ?u" using assms(7) b(1) by (simp only: sconfig_init_def Option.bind.bind_lunit)
  then have s: "start_smnt timeout True True s = Some (0, ?u)" using assms(2-5) x y by (simp add: start_smnt_def alloc_parse_def)
  let ?w = "(smart_emit StartMonitor ?u)\<lparr>start_time := now, first_time := now, channel_lock_time := now, fix_channel_flag := False, hop := 0,
    ended := False, ya_parse_to_ds := Owned broadcast_zero, ya_parse_from_ds := Owned broadcast_zero, ya_parse_mul := Owned multicast_zero\<rparr>"
  have g: "smart_begin now ?u = Some ?w" by (simp add: smart_begin_def clear_parse_def)
  have "board_ok ?w" using assms(1) by (simp add: board_ok_def chip_ready_def)
  then have "listen_inv ?w"
    using assms(6,8) b(2) by (intro listen_invI [of _ "[router_of node]" ?sc broadcast_zero broadcast_zero multicast_zero])
      (simp_all add: listening_def sconfig_ok_def)
  then show ?thesis using s g by blast
qed

section \<open>Frames and calls that do harm\<close>

text \<open>C39: Smart configuration.  The router of a frame that goes from one router to another is taken through a null pointer:
  any such data frame that is heard while the module listens makes it read through that pointer.\<close>

theorem four_address_frame_crashes:
  assumes "listen_inv s" and "deref (sconfig_info s) = Some sc" and "findPhone sc = NOT_ACTIVE"
    and "24 \<le> length f" and "four_address f" and "wifi_80211_is_data_exact (frame_control f)"
    and "\<not> wifi_80211_has_frags (frame_control f)" and "wifi_80211_hdrlen (frame_control f) \<le> length f"
  shows "easyjoin_callback now f s = None"
proof -
  obtain rs sc td fd m where l: "listening s rs sc td fd m" using assms(1) by (rule listen_invE)
  have "wifi_80211_get_BSSID (frame_control f) = None" using assms(5) by (simp add: wifi_80211_get_BSSID_def four_address_def)
  then have "easyjoin_data now f (frame_control f) s = None" using listeningD [OF l] by (simp add: easyjoin_data_def)
  then show ?thesis
    using assms(2-8) frame_control_read [of f] beacon_not_data [of "frame_control f"] by (auto simp: easyjoin_callback_def)
qed

text \<open>Smart configuration.  Once the module has locked onto a sender, three frames of that sender with the lengths 3, 87 and any
  length from 100 to 355 write one byte past the end of the collected key.\<close>

theorem length_87_overruns_key:
  assumes "switchChannel sc = CHANNEL_SEARCH_END" and "findPhone sc = NOT_ACTIVE" and "para_ok 80 b"
    and "key_checksum_flag b = 0" and "100 \<le> len" and "len \<le> 355"
  shows "\<exists>b1 b2. ya_parse_broadcast n1 rs (sc_bssid sc) (srcmac sc) 3 (sc, b, t) = Some (sc, b1, n1) \<and>
     ya_parse_broadcast n2 rs (sc_bssid sc) (srcmac sc) 87 (sc, b1, n1) = Some (sc, b2, n1) \<and>
     ya_parse_broadcast n3 rs (sc_bssid sc) (srcmac sc) len (sc, b2, n1) = None"
proof -
  let ?b1 = "b\<lparr>pstatus := SCONFIG_INDEX, key_cur_index := 0xff\<rparr>"
  let ?b2 = "b\<lparr>key_cur_index := 80, pstatus := SCONFIG_KEY\<rparr>"
  have f: "\<not> foreign (sc_bssid sc) (srcmac sc) sc" by (simp add: foreign_def)
  have "ya_parse_broadcast n1 rs (sc_bssid sc) (srcmac sc) 3 (sc, b, t) = Some (sc, ?b1, n1)"
    using assms(1,2) f by (simp add: ya_parse_broadcast_def broadcast_mark_def)
  moreover have "key_complete ?b2 = Some False" using assms(4) by (simp add: key_complete_def)
  then have "ya_parse_broadcast n2 rs (sc_bssid sc) (srcmac sc) 87 (sc, ?b1, n1) = Some (sc, ?b2, n1)"
    using assms(1,2) f by (simp add: ya_parse_broadcast_def broadcast_mark_def broadcast_data_def byte_of_def)
  moreover have "ya_parse_broadcast n3 rs (sc_bssid sc) (srcmac sc) len (sc, ?b2, n1) = None"
    using assms f by (simp add: ya_parse_broadcast_def broadcast_mark_def broadcast_data_def wr_def para_ok_def)
  ultimately show ?thesis by blast
qed

text \<open>C38: Smart configuration.  The end of a session frees the three collections and keeps their addresses: the next session
  starts without allocating them again, and its task clears freed memory before it does anything else.\<close>

theorem second_session_uses_freed_memory:
  assumes "listen_inv s" and "info_head s = Owned [r]"
  shows "\<exists>t u. smart_release s = Some t \<and> start_smnt timeout cb th t = Some (if th then 0 else -1, u) \<and> smart_begin now u = None"
proof -
  obtain rs sc td fd m where l: "listening s rs sc td fd m" and b: "board_ok s" using assms(1) by (rule listen_invE)
  let ?t = "s\<lparr>run_smartconfig := False, ya_parse_to_ds := Freed, ya_parse_from_ds := Freed, ya_parse_mul := Freed, info_head := Null,
            sconfig_info := Null, get_result_callback := False\<rparr>"
  have rs: "rs = [r]" using listeningD(1) [OF l] assms(2) by simp
  have t: "smart_release s = Some ?t"
    using listeningD [OF l] by (simp add: smart_release_def free_node_info_def free_parse_def rs)
  obtain x where x: "mem_alloc s ROUTER_SIZE = Some x" by (rule mem_alloc_board_ok [OF b])
  obtain y where y: "mem_alloc s 16 = Some y" by (rule mem_alloc_board_ok [OF b])
  have init: "\<exists>u. sconfig_init v = Some u \<and> ya_parse_to_ds u = ya_parse_to_ds v" if "heap v = heap s" for v :: "'a smart_scheme"
  proof -
    have "mem_alloc v n = mem_alloc s n" for n using that by (simp add: mem_alloc_def)
    then show ?thesis using x y by (simp add: sconfig_init_def)
  qed
  let ?v = "s\<lparr>info_head := Null, sconfig_info := Null, run_smartconfig := True, get_result_callback := cb, smart_timeout := timeout,
    ya_parse_to_ds := Freed, ya_parse_from_ds := Freed, ya_parse_mul := Freed\<rparr>"
  have "heap ?v = heap s" by simp
  from init [OF this] obtain u where u: "sconfig_init ?v = Some u" "ya_parse_to_ds u = Freed" by auto
  have "start_smnt timeout cb th ?t = Some (if th then 0 else -1, u)"
    using u(1) by (simp add: start_smnt_def alloc_parse_def)
  then show ?thesis using t u(2) by (auto simp: smart_begin_def clear_parse_def deref_def)
qed

section \<open>An example\<close>

text \<open>A module that has heard one open network, and a frame to that network whose payload has length \<open>n\<close>.\<close>

definition router_demo :: ROUTER_INFO where
  "router_demo = \<lparr>ri_auth = 0, ri_channel = 6, ri_encry = [0, 0], ri_bssid = replicate 6 1, ri_ssid = 65 # replicate 32 0\<rparr>"

definition head_demo :: ROUTER_INFO where "head_demo = router_of (replicate 48 0)"

definition listen_demo :: smart where
  "listen_demo = \<lparr>fl_mem = (\<lambda>_. 0xFF), fl_rsp = [], heap = (\<lambda>_. Some (\<lambda>_. 0)), ret_reg = 0, channel_lock_time = 0,
     info_head = Owned [head_demo, router_demo], sconfig_info = Owned \<lparr>switchChannel = CHANNEL_SEARCH_START, findPhone = NOT_ACTIVE, sc_delay = 60,
       sc_bssid = replicate 6 0, srcmac = replicate 6 0\<rparr>, get_result_callback = True, smart_timeout = 120, smnt_result = smnt_zero,
     run_smartconfig = True, ya_parse_mul = Owned multicast_zero, ya_parse_to_ds = Owned broadcast_zero, ya_parse_from_ds = Owned broadcast_zero,
     smart_events = [StartMonitor], start_time = 0, first_time = 0, fix_channel_flag = False, hop = 0, ended = False\<rparr>"

definition frame_demo :: "u8 \<Rightarrow> nat \<Rightarrow> bytes" where
  "frame_demo ds n = [0x08, ds, 0, 0] @ replicate 6 1 @ replicate 6 2 @ replicate 6 0xff @ [0, 0] @ replicate (36 + n) 0"

lemma listen_demo_inv: "listen_inv listen_demo"
proof (rule listen_invI)
  show "listening listen_demo [head_demo, router_demo] \<lparr>switchChannel = CHANNEL_SEARCH_START, findPhone = NOT_ACTIVE, sc_delay = 60,
       sc_bssid = replicate 6 0, srcmac = replicate 6 0\<rparr> broadcast_zero broadcast_zero multicast_zero"
    by (simp add: listening_def listen_demo_def)
  show "list_all router_ok [head_demo, router_demo]" by (simp add: router_ok_def head_demo_def router_demo_def router_of_def enc_defs list_all_iff)
qed (simp_all add: sconfig_ok_def listen_demo_def board_ok_def chip_ready_def)

lemma frame_demo_control: "frame_control (frame_demo 1 n) = 0x0108" "frame_control (frame_demo 3 n) = 0x0308"
  by (simp_all add: frame_control_def frame_demo_def le16_def)

lemma frame_demo_class:
  "wifi_80211_has_tods 0x0108" "\<not> wifi_80211_has_fromds 0x0108" "wifi_80211_is_data_exact 0x0108" "\<not> wifi_80211_has_frags 0x0108"
  "wifi_80211_hdrlen 0x0108 = 24" "\<not> wifi_80211_is_retry 0x0108" "\<not> wifi_80211_has_a4 0x0108" "\<not> wifi_80211_has_protected 0x0108"
  "wifi_80211_has_tods 0x0308" "wifi_80211_has_fromds 0x0308" "wifi_80211_is_data_exact 0x0308" "\<not> wifi_80211_has_frags 0x0308"
  "wifi_80211_hdrlen 0x0308 = 30"
  by (simp_all add: wifi_80211_has_tods_def wifi_80211_has_fromds_def wifi_80211_is_data_exact_def wifi_80211_has_frags_def
      wifi_80211_hdrlen_def wifi_80211_is_retry_def wifi_80211_has_a4_def wifi_80211_has_protected_def wifi_80211_is_data_def
      wifi_80211_is_data_qos_def fctl_defs)

lemma frame_demo_addresses:
  "bssid_of (frame_demo 1 n) = replicate 6 1" "sa_of (frame_demo 1 n) = replicate 6 2" "da_of (frame_demo 1 n) = broadcast_mac"
  by (simp_all add: bssid_of_def sa_of_def da_of_def frame_demo_control wifi_80211_get_BSSID_def wifi_80211_get_SA_def wifi_80211_get_DA_def
      frame_demo_class) (simp_all add: frame_demo_def broadcast_mac_def)

lemma frame_demo_len:
  "payload_len (frame_demo 1 n) 0x0108 (replicate 6 1) [head_demo, router_demo] = Some (Some (int n))"
  by (simp add: payload_len_def head_demo_def router_of_def router_demo_def frame_demo_class rd_def enc_defs len_fixed_offset_def
      frame_demo_def)

lemma listen_demo_fits: "frame_fits listen_demo (Heard now (frame_demo 1 n))"
  using frame_demo_len [of n]
  by (simp add: frame_fits_def frame_ok_def four_address_def frame_demo_control frame_demo_class cipher_told_def state_fit_def
      listening_def index_overrun_def broadcast_zero_def guess_encry_def enc_defs wifi_80211_is_beacon_def wifi_80211_is_probe_resp_def fctl_defs)
    (simp add: frame_demo_def listen_demo_def broadcast_zero_def)

theorem smart_session_safe_witness:
  "\<exists>t. smart_run crypto_demo [Heard 5 (frame_demo 1 3), Round 70 70] listen_demo = Some t \<and> listen_inv t \<and>
     list_all smart_ok (results_of (smart_events t))"
proof -
  have "frames_fit crypto_demo [Heard 5 (frame_demo 1 3), Round 70 70] listen_demo"
    using listen_demo_fits by (auto simp: frame_fits_def split: option.split)
  moreover have "results_of (smart_events listen_demo) = []" by (simp add: listen_demo_def)
  ultimately show ?thesis using smart_session_safe [OF listen_demo_inv crypto_demo_ok] by blast
qed

theorem four_address_frame_crashes_witness: "easyjoin_callback 5 (frame_demo 3 0) listen_demo = None"
proof (rule four_address_frame_crashes [OF listen_demo_inv])
  show "deref (sconfig_info listen_demo) = Some \<lparr>switchChannel = CHANNEL_SEARCH_START, findPhone = NOT_ACTIVE, sc_delay = 60,
       sc_bssid = replicate 6 0, srcmac = replicate 6 0\<rparr>" by (simp add: listen_demo_def)
qed (simp_all add: four_address_def frame_demo_control frame_demo_class, simp_all add: frame_demo_def)

theorem length_87_overruns_key_witness:
  "\<exists>b1 b2. ya_parse_broadcast 1 [] (replicate 6 1) (replicate 6 2) 3 (\<lparr>switchChannel = CHANNEL_SEARCH_END, findPhone = NOT_ACTIVE, sc_delay = 60,
       sc_bssid = replicate 6 1, srcmac = replicate 6 2\<rparr>, broadcast_zero, 0) =
      Some (\<lparr>switchChannel = CHANNEL_SEARCH_END, findPhone = NOT_ACTIVE, sc_delay = 60, sc_bssid = replicate 6 1, srcmac = replicate 6 2\<rparr>, b1, 1) \<and>
    ya_parse_broadcast 3 [] (replicate 6 1) (replicate 6 2) 200 (\<lparr>switchChannel = CHANNEL_SEARCH_END, findPhone = NOT_ACTIVE, sc_delay = 60,
       sc_bssid = replicate 6 1, srcmac = replicate 6 2\<rparr>, b2, 1) = None"
proof -
  have "key_checksum_flag broadcast_zero = 0" by (simp add: broadcast_zero_def)
  from length_87_overruns_key [of "\<lparr>switchChannel = CHANNEL_SEARCH_END, findPhone = NOT_ACTIVE, sc_delay = 60,
      sc_bssid = replicate 6 1, srcmac = replicate 6 2\<rparr>" broadcast_zero 200 1 "[]" 0 2 3, OF _ _ _ this]
  show ?thesis by auto
qed

theorem second_session_uses_freed_memory_witness:
  "\<exists>t u. smart_release (listen_demo\<lparr>info_head := Owned [head_demo]\<rparr>) = Some t \<and> start_smnt 120 True True t = Some (0, u) \<and> smart_begin 9 u = None"
proof -
  have "listen_inv (listen_demo\<lparr>info_head := Owned [head_demo]\<rparr>)"
    using listen_demo_inv by (auto simp: listen_inv_def listening_def listen_demo_def board_ok_def chip_ready_def)
  from second_session_uses_freed_memory [OF this, of head_demo 120 True True 9] show ?thesis by simp
qed

end
