(* ===== verification/SmartPhone.thy ===== *)
theory SmartPhone
  imports SmartConfig
begin

text \<open>
  The other end of smart configuration: a phone that sends its credentials as the lengths of broadcast frames, and the
  proof that the module of \<open>SmartConfig\<close> receives them.  The phone sends packets, each a marker length followed by data:
  the length of the message, a byte with its index, the checksum.  They may come in any order and be repeated, and
  frames of other senders may come between them.
\<close>

section \<open>The phone\<close>

datatype packet = LenPacket | BytePacket nat | SumPacket

primrec packet_lens :: "bytes \<Rightarrow> packet \<Rightarrow> int list" where
  "packet_lens E LenPacket = [1, int (length E)]"
| "packet_lens E (BytePacket i) = [3, 7 + int i, 100 + uint (E ! i)]"
| "packet_lens E SumPacket = [5, 100 + uint (sum_list E)]"

definition packets :: "bytes \<Rightarrow> packet set" where
  "packets E = insert LenPacket (insert SumPacket (BytePacket ` {..<length E}))"

definition phone_message :: "bytes \<Rightarrow> u8 \<Rightarrow> u8 \<Rightarrow> u8 \<Rightarrow> bytes" where
  "phone_message pw cloud ra rb =
     (let body = of_nat (length pw) # pw @ [3, cloud, ra, rb] in body @ [sum_list body])"

definition phone_cipher :: "crypto \<Rightarrow> bytes \<Rightarrow> bytes" where
  "phone_cipher c msg = (let k = md5 c AES_KEY_SMARTCONFIG_STRING in mbedtls_aes_crypt_cfb128 (aes_enc c k) False 0 k msg)"

section \<open>What the module has collected\<close>

definition collected :: "bytes \<Rightarrow> ya_parse_para_broadcast_t \<Rightarrow> bool" where
  "collected E b \<longleftrightarrow> length (pkey b) = 80 \<and> length (key_flag b) = 80 \<and>
     (\<forall>i < length E. key_flag b ! i \<noteq> 0 \<longrightarrow> pkey b ! i = E ! i) \<and>
     (key_len b = 0 \<or> key_len b = of_nat (length E)) \<and> (key_checksum_flag b = 0 \<or> key_checksum b = sum_list E)"

primrec knows :: "ya_parse_para_broadcast_t \<Rightarrow> packet \<Rightarrow> bool" where
  "knows b LenPacket = (key_len b \<noteq> 0)"
| "knows b (BytePacket i) = (key_flag b ! i \<noteq> 0)"
| "knows b SumPacket = (key_checksum_flag b \<noteq> 0)"

lemma key_sum_all:
  assumes "len \<le> length key" and "len \<le> length flags"
  shows "key_sum key flags len i acc =
    Some (if \<forall>j. i \<le> j \<and> j < len \<longrightarrow> flags ! j \<noteq> 0 then Some (acc + sum_list (take (len - i) (drop i key))) else None)"
  using assms
proof (induction key flags len i acc rule: key_sum.induct)
  case (1 key flags len i acc)
  show ?case
  proof (cases "i < len \<and> flags ! i \<noteq> 0")
    case True
    have d: "take (len - i) (drop i key) = key ! i # take (len - Suc i) (drop (Suc i) key)"
      using True "1.prems"(1) by (simp add: Cons_nth_drop_Suc [symmetric] Suc_diff_Suc [symmetric])
    have all: "(\<forall>j. i \<le> j \<and> j < len \<longrightarrow> flags ! j \<noteq> 0) \<longleftrightarrow> (\<forall>j. i + 1 \<le> j \<and> j < len \<longrightarrow> flags ! j \<noteq> 0)"
      using True by (metis Suc_eq_plus1 Suc_leI le_eq_less_or_eq le_less_trans lessI)
    have rd: "rd flags i = Some (flags ! i)" "rd key i = Some (key ! i)" using True "1.prems" by (simp_all add: rd_def)
    have "key_sum key flags len i acc = key_sum key flags len (i + 1) (acc + key ! i)"
      using True rd by (subst key_sum.simps) simp
    then show ?thesis using "1.IH" [OF conjunct1 [OF True] rd(1) conjunct2 [OF True] rd(2) "1.prems"] d all by (simp add: add.assoc)
  next
    case False
    then show ?thesis using "1.prems" by (subst key_sum.simps) (auto simp: rd_def)
  qed
qed

lemma key_complete_all:
  assumes "collected E b" and "6 \<le> length E" and "length E \<le> 80"
  shows "key_complete b = Some (\<forall>p \<in> packets E. knows b p)"
proof -
  have n: "unat (of_nat (length E) :: u8) = length E" using assms(3) by (simp add: unat_of_nat_u8)
  show ?thesis
  proof (cases "key_checksum_flag b \<noteq> 0 \<and> key_len b \<noteq> 0")
    case True
    then have kl: "unat (key_len b) = length E" "key_checksum b = sum_list E" using assms(1) n by (auto simp: collected_def)
    have "take (length E) (pkey b) = E" if "\<forall>j < length E. key_flag b ! j \<noteq> 0"
      using that assms(1,3) by (intro nth_equalityI) (auto simp: collected_def)
    then show ?thesis
      using True kl assms(1,3) key_sum_all [of "length E" "pkey b" "key_flag b" 0 0]
      by (auto simp: key_complete_def packets_def collected_def)
  next
    case False
    then show ?thesis by (auto simp: key_complete_def packets_def)
  qed
qed

section \<open>Receiving packets\<close>

primrec parse_run :: "ROUTER_INFO list \<Rightarrow> bytes \<Rightarrow> bytes \<Rightarrow> (u32 \<times> int) list \<Rightarrow> ya_parse_para_broadcast_t parsing \<Rightarrow> ya_parse_para_broadcast_t parsing option" where
  "parse_run rs bssid sa [] st = Some st"
| "parse_run rs bssid sa (x # xs) st = ya_parse_broadcast (fst x) rs bssid sa (snd x) st \<bind> parse_run rs bssid sa xs"

lemma parse_run_append: "parse_run rs bssid sa (xs @ ys) st = parse_run rs bssid sa xs st \<bind> parse_run rs bssid sa ys"
  by (induction xs arbitrary: st) (auto simp: Option.bind_assoc intro!: Option.bind_cong)

definition locked :: "bytes \<Rightarrow> bytes \<Rightarrow> SCONFIG_INFO \<Rightarrow> bool" where
  "locked bssid sa sc \<longleftrightarrow> switchChannel sc = CHANNEL_SEARCH_END \<and> srcmac sc = sa \<and> sc_bssid sc = bssid"

text \<open>The module is locked onto the phone and has what it knows right; it has stopped as soon as it knew everything.\<close>

definition progress :: "bytes \<Rightarrow> bytes \<Rightarrow> bytes \<Rightarrow> packet set \<Rightarrow> ya_parse_para_broadcast_t parsing \<Rightarrow> bool" where
  "progress E bssid sa Q st \<longleftrightarrow> (case st of (sc, b, t) \<Rightarrow> locked bssid sa sc \<and> collected E b \<and>
     (if findPhone sc = OK_KEY then (\<forall>p \<in> packets E. knows b p) \<and> pfinish b = 1
      else \<not> (\<forall>p \<in> packets E. knows b p) \<and> (\<forall>p \<in> Q. knows b p)))"

definition heard_router :: "ROUTER_INFO list \<Rightarrow> bytes \<Rightarrow> bool" where
  "heard_router rs bssid \<longleftrightarrow> (case get_ap_info bssid rs of None \<Rightarrow> False | Some ap \<Rightarrow> router_ok ap \<and> ri_ssid ap ! 0 \<noteq> 0)"

lemma heard_routerE:
  assumes "heard_router rs bssid"
  obtains ap n where "get_ap_info bssid rs = Some ap" and "router_ok ap" and "strlen (ri_ssid ap) = Some n" and "n \<noteq> 0" and "n \<le> 32"
    and "ri_ssid ap ! 0 \<noteq> 0"
proof -
  obtain ap where ap: "get_ap_info bssid rs = Some ap" "router_ok ap" "ri_ssid ap ! 0 \<noteq> 0"
    using assms by (auto simp: heard_router_def split: option.splits)
  obtain n where n: "strlen (ri_ssid ap) = Some n" "n \<le> 32" using strlen_router [OF ap(2)] by blast
  have "n \<noteq> 0" using n(1) ap(3) by (cases "ri_ssid ap") (auto simp: strlen_def)
  then show thesis using that ap n by blast
qed

lemma finished_ignores:
  assumes "progress E bssid sa Q (sc, b, t)" and "findPhone sc = OK_KEY"
  shows "parse_run rs bssid sa xs (sc, b, t) = Some (sc, b, t)" and "progress E bssid sa R (sc, b, t)"
proof -
  have "ya_parse_broadcast now rs bssid sa len (sc, b, t) = Some (sc, b, t)" for now len using assms(2) by (simp add: ya_parse_broadcast_def)
  then show "parse_run rs bssid sa xs (sc, b, t) = Some (sc, b, t)" by (induction xs) simp_all
  show "progress E bssid sa R (sc, b, t)" using assms by (simp add: progress_def)
qed

lemma mark_step:
  assumes "locked bssid sa sc" and "findPhone sc = NOT_ACTIVE" and "broadcast_mark len = Some st"
  shows "ya_parse_broadcast now rs bssid sa len (sc, b, t) = Some (sc, b\<lparr>pstatus := st, key_cur_index := 0xff\<rparr>, now)"
  using assms by (simp add: ya_parse_broadcast_def locked_def foreign_def)

text \<open>A data length after its marker.\<close>

lemma data_step:
  assumes "locked bssid sa sc" and "findPhone sc = NOT_ACTIVE" and "broadcast_mark len = None"
    and "broadcast_data len b = Some (Some b')" and "collected E b'" and "6 \<le> length E" and "length E \<le> 80" and "heard_router rs bssid"
    and "\<forall>p \<in> Q. knows b' p"
  shows "\<exists>sc' b''. ya_parse_broadcast now rs bssid sa len (sc, b, t) = Some (sc', b'', t) \<and> progress E bssid sa Q (sc', b'', t) \<and>
    (findPhone sc' = NOT_ACTIVE \<longrightarrow> sc' = sc \<and> b'' = b')"
proof -
  obtain ap n where ap: "get_ap_info bssid rs = Some ap" "strlen (ri_ssid ap) = Some n" "n \<noteq> 0"
    using assms(8) by (rule heard_routerE)
  note k = key_complete_all [OF assms(5-7)]
  have l: "\<not> foreign bssid sa sc" "switchChannel sc = CHANNEL_SEARCH_END" "sc_bssid sc = bssid" using assms(1) by (simp_all add: locked_def foreign_def)
  have c: "collected E (b'\<lparr>pfinish := 1\<rparr>) = collected E b'" by (simp add: collected_def)
  have kn: "knows (b'\<lparr>pfinish := 1\<rparr>) p = knows b' p" for p by (cases p) simp_all
  show ?thesis
  proof (cases "\<forall>p \<in> packets E. knows b' p")
    case True
    then show ?thesis using assms(1-5,9) ap k l c kn by (simp add: ya_parse_broadcast_def progress_def locked_def)
  next
    case False
    then show ?thesis using assms(1-5,9) ap k l by (simp add: ya_parse_broadcast_def progress_def)
  qed
qed

lemma progressD:
  assumes "progress E bssid sa Q (sc, b, t)" and "findPhone sc = NOT_ACTIVE"
  shows "locked bssid sa sc" and "collected E b" and "\<forall>p \<in> Q. knows b p"
  using assms by (simp_all add: progress_def)

lemma len_bytes:
  assumes "6 \<le> length E" and "length E \<le> 80"
  shows "byte_of (int (length E)) = of_nat (length E)" and "(of_nat (length E) :: u8) \<noteq> 0"
proof -
  show "byte_of (int (length E)) = of_nat (length E)" by (simp add: byte_of_def)
  have "unat (of_nat (length E) :: u8) = length E" using assms(2) by (simp add: unat_of_nat_u8)
  then show "(of_nat (length E) :: u8) \<noteq> 0" using assms(1) by auto
qed

lemma mark_data: "broadcast_mark (100 + uint (x :: u8)) = None"
proof -
  have "0 \<le> uint x" by simp
  then have "\<not> 100 + uint x \<le> 5" by linarith
  then show ?thesis by (auto simp: broadcast_mark_def)
qed

lemma len_packet:
  assumes "progress E bssid sa Q (sc, b, t)" and "findPhone sc = NOT_ACTIVE" and "6 \<le> length E" and "length E \<le> 80" and "heard_router rs bssid"
  shows "\<exists>st. parse_run rs bssid sa [(n1, 1), (n2, int (length E))] (sc, b, t) = Some st \<and> progress E bssid sa (insert LenPacket Q) st"
proof -
  note p = progressD [OF assms(1,2)] note n = len_bytes [OF assms(3,4)]
  let ?b = "b\<lparr>pstatus := SCONFIG_LEN, key_cur_index := 0xff\<rparr>"
  let ?c = "?b\<lparr>key_len := of_nat (length E), key_cur_index := 0xff, pstatus := SCONFIG_IDLE\<rparr>"
  have m: "broadcast_mark 1 = Some SCONFIG_LEN" "broadcast_mark (int (length E)) = None" using assms(3) by (simp_all add: broadcast_mark_def)
  have d: "broadcast_data (int (length E)) ?b = Some (Some ?c)" using assms(3,4) n(1) by (simp add: broadcast_data_def)
  have c: "collected E ?c" using p(2) by (simp add: collected_def)
  have "knows ?c q" if "knows b q" for q using that n(2) by (cases q) simp_all
  then have "\<forall>q \<in> insert LenPacket Q. knows ?c q" using p(3) n(2) by simp
  from data_step [OF p(1) assms(2) m(2) d c assms(3-5) this, of n2 n1] mark_step [OF p(1) assms(2) m(1), of n1 rs b t]
  show ?thesis by auto
qed

lemma sum_packet:
  assumes "progress E bssid sa Q (sc, b, t)" and "findPhone sc = NOT_ACTIVE" and "6 \<le> length E" and "length E \<le> 80" and "heard_router rs bssid"
  shows "\<exists>st. parse_run rs bssid sa [(n1, 5), (n2, 100 + uint (sum_list E))] (sc, b, t) = Some st \<and> progress E bssid sa (insert SumPacket Q) st"
proof -
  note p = progressD [OF assms(1,2)]
  let ?l = "100 + uint (sum_list E)"
  let ?b = "b\<lparr>pstatus := SCONFIG_CHK, key_cur_index := 0xff\<rparr>"
  let ?c = "?b\<lparr>key_checksum := sum_list E, key_checksum_flag := 1, pstatus := SCONFIG_IDLE\<rparr>"
  have u: "0 \<le> uint (sum_list E)" "uint (sum_list E) < 256" using uint_lt2p [of "sum_list E"] by simp_all
  have m: "broadcast_mark 5 = Some SCONFIG_CHK" "broadcast_mark ?l = None" by (rule mark_data | simp add: broadcast_mark_def)+
  have d: "broadcast_data ?l ?b = Some (Some ?c)" using u by (simp add: broadcast_data_def byte_of_def)
  have c: "collected E ?c" using p(2) by (simp add: collected_def)
  have "knows ?c q" if "knows b q" for q using that by (cases q) simp_all
  then have "\<forall>q \<in> insert SumPacket Q. knows ?c q" using p(3) by simp
  from data_step [OF p(1) assms(2) m(2) d c assms(3-5) this, of n2 n1] mark_step [OF p(1) assms(2) m(1), of n1 rs b t]
  show ?thesis by auto
qed

lemma byte_packet:
  assumes "progress E bssid sa Q (sc, b, t)" and "findPhone sc = NOT_ACTIVE" and "6 \<le> length E" and "length E \<le> 80" and "heard_router rs bssid"
    and "i < length E"
  shows "\<exists>st. parse_run rs bssid sa [(n1, 3), (n2, 7 + int i), (n3, 100 + uint (E ! i))] (sc, b, t) = Some st \<and>
    progress E bssid sa (insert (BytePacket i) Q) st"
proof -
  note p = progressD [OF assms(1,2)]
  let ?l = "100 + uint (E ! i)"
  let ?b = "b\<lparr>pstatus := SCONFIG_INDEX, key_cur_index := 0xff\<rparr>"
  let ?d = "?b\<lparr>key_cur_index := of_nat i, pstatus := SCONFIG_KEY\<rparr>"
  let ?c = "?d\<lparr>pkey := (pkey b)[i := E ! i], key_flag := (key_flag b)[i := 1], pstatus := SCONFIG_IDLE\<rparr>"
  have i: "i < 80" "unat (of_nat i :: u8) = i" using assms(4,6) by (simp_all add: unat_of_nat_u8)
  have u: "0 \<le> uint (E ! i)" "uint (E ! i) < 256" using uint_lt2p [of "E ! i"] by simp_all
  have m: "broadcast_mark 3 = Some SCONFIG_INDEX" "broadcast_mark (7 + int i) = None" "broadcast_mark ?l = None"
    by (rule mark_data | simp add: broadcast_mark_def)+
  have len: "length (pkey b) = 80" "length (key_flag b) = 80" using p(2) by (simp_all add: collected_def)
  have d: "broadcast_data (7 + int i) ?b = Some (Some ?d)" using i by (simp add: broadcast_data_def byte_of_def)
  have e: "broadcast_data ?l ?d = Some (Some ?c)" using u i len by (simp add: broadcast_data_def byte_of_def wr_def)
  have cd: "collected E ?d" using p(2) by (simp add: collected_def)
  have c: "collected E ?c" using p(2) assms(4,6) i(1) by (auto simp: collected_def nth_list_update split: if_splits)
  have kd: "\<forall>q \<in> Q. knows ?d q"
  proof
    fix q assume "q \<in> Q"
    then show "knows ?d q" using p(3) by (cases q) auto
  qed
  have kc: "\<forall>q \<in> insert (BytePacket i) Q. knows ?c q"
  proof
    fix q assume "q \<in> insert (BytePacket i) Q"
    then show "knows ?c q" using p(3) i(1) len(2) by (cases q) (auto simp: nth_list_update)
  qed
  obtain sc1 b1 where 1: "ya_parse_broadcast n2 rs bssid sa (7 + int i) (sc, ?b, n1) = Some (sc1, b1, n1)" "progress E bssid sa Q (sc1, b1, n1)"
    "findPhone sc1 = NOT_ACTIVE \<longrightarrow> sc1 = sc \<and> b1 = ?d"
    using data_step [OF p(1) assms(2) m(2) d cd assms(3-5) kd, of n2 n1] by blast
  note 0 = mark_step [OF p(1) assms(2) m(1), of n1 rs b t]
  show ?thesis
  proof (cases "findPhone sc1")
    case NOT_ACTIVE
    then have "sc1 = sc" "b1 = ?d" using 1(3) by auto
    then show ?thesis using 0 1(1) data_step [OF p(1) assms(2) m(3) e c assms(3-5) kc, of n3 n1] by auto
  next
    case OK_KEY
    then show ?thesis using 0 1(1) finished_ignores(1) [OF 1(2) OK_KEY, where xs = "[(n3, ?l)]" and rs = rs]
      finished_ignores(2) [OF 1(2) OK_KEY, of "insert (BytePacket i) Q"] by auto
  qed
qed

lemma packet_step:
  assumes "progress E bssid sa Q st" and "6 \<le> length E" and "length E \<le> 80" and "heard_router rs bssid"
    and "p \<in> packets E" and "map snd xs = packet_lens E p"
  shows "\<exists>st'. parse_run rs bssid sa xs st = Some st' \<and> progress E bssid sa (insert p Q) st'"
proof -
  obtain sc b t where st: "st = (sc, b, t)" by (cases st)
  show ?thesis
  proof (cases "findPhone sc")
    case OK_KEY
    then show ?thesis using finished_ignores assms(1) unfolding st by blast
  next
    case NOT_ACTIVE
    note a = assms(1) [unfolded st] NOT_ACTIVE assms(2-4)
    show ?thesis
    proof (cases p)
      case LenPacket
      then obtain n1 n2 where "xs = [(n1, 1), (n2, int (length E))]" using assms(6) by (auto simp: map_eq_Cons_conv)
      then show ?thesis using len_packet [OF a] LenPacket st by simp
    next
      case (BytePacket i)
      then obtain n1 n2 n3 where "xs = [(n1, 3), (n2, 7 + int i), (n3, 100 + uint (E ! i))]" using assms(6) by (auto simp: map_eq_Cons_conv)
      moreover have "i < length E" using assms(5) BytePacket by (auto simp: packets_def)
      ultimately show ?thesis using byte_packet [OF a] BytePacket st by simp
    next
      case SumPacket
      then obtain n1 n2 where "xs = [(n1, 5), (n2, 100 + uint (sum_list E))]" using assms(6) by (auto simp: map_eq_Cons_conv)
      then show ?thesis using sum_packet [OF a] SumPacket st by simp
    qed
  qed
qed

lemma packets_run:
  assumes "6 \<le> length E" and "length E \<le> 80" and "heard_router rs bssid"
  shows "progress E bssid sa Q st \<Longrightarrow> set ps \<subseteq> packets E \<Longrightarrow> map snd xs = concat (map (packet_lens E) ps) \<Longrightarrow>
    \<exists>st'. parse_run rs bssid sa xs st = Some st' \<and> progress E bssid sa (Q \<union> set ps) st'"
proof (induction ps arbitrary: Q st xs)
  case Nil
  then show ?case by simp
next
  case (Cons p ps)
  from Cons.prems(3) obtain ys zs where xs: "xs = ys @ zs" "map snd ys = packet_lens E p" "map snd zs = concat (map (packet_lens E) ps)"
    by (auto simp: map_eq_append_conv)
  obtain st1 where 1: "parse_run rs bssid sa ys st = Some st1" "progress E bssid sa (insert p Q) st1"
    using packet_step [OF Cons.prems(1) assms _ xs(2)] Cons.prems(2) by auto
  from Cons.IH [OF this(2) _ xs(3)] Cons.prems(2) obtain st2 where
    "parse_run rs bssid sa zs st1 = Some st2" "progress E bssid sa (insert p Q \<union> set ps) st2" by auto
  then show ?case using 1(1) xs(1) by (simp add: parse_run_append)
qed

section \<open>Frames on the air\<close>

definition data_frame :: "ROUTER_INFO list \<Rightarrow> bytes \<Rightarrow> bool" where
  "data_frame rs f \<longleftrightarrow> wifi_80211_is_data_exact (frame_control f) \<and> \<not> wifi_80211_has_frags (frame_control f) \<and>
     wifi_80211_hdrlen (frame_control f) \<le> length f \<and> \<not> four_address f \<and> cipher_told rs f"

text \<open>A frame of the phone to its router with a payload of a given length.\<close>

definition phone_frame :: "ROUTER_INFO list \<Rightarrow> bytes \<Rightarrow> bytes \<Rightarrow> int \<Rightarrow> bytes \<Rightarrow> bool" where
  "phone_frame rs bssid sa len f \<longleftrightarrow> data_frame rs f \<and> wifi_80211_has_tods (frame_control f) \<and> \<not> wifi_80211_is_retry (frame_control f) \<and>
     da_of f = broadcast_mac \<and> bssid_of f = bssid \<and> sa_of f = sa \<and> payload_len f (frame_control f) bssid rs = Some (Some len)"

text \<open>What else may be heard: data frames of other stations or networks, beacons of routers that have been heard before, and
  frames of other kinds (acknowledgements, management frames) or too short for their header.\<close>

definition known_beacon :: "ROUTER_INFO list \<Rightarrow> bytes \<Rightarrow> bool" where
  "known_beacon rs f \<longleftrightarrow> (wifi_80211_is_beacon (frame_control f) \<or> wifi_80211_is_probe_resp (frame_control f)) \<and> 24 \<le> length f \<and>
     \<not> four_address f \<and> get_ap_info (bssid_of f) rs \<noteq> None"

definition quiet_frame :: "bytes \<Rightarrow> bool" where
  "quiet_frame f \<longleftrightarrow> 2 \<le> length f \<and> \<not> wifi_80211_is_beacon (frame_control f) \<and> \<not> wifi_80211_is_probe_resp (frame_control f) \<and>
     (wifi_80211_is_data_exact (frame_control f) \<longrightarrow> length f < wifi_80211_hdrlen (frame_control f))"

definition other_frame :: "ROUTER_INFO list \<Rightarrow> bytes \<Rightarrow> bytes \<Rightarrow> bytes \<Rightarrow> bool" where
  "other_frame rs bssid sa f \<longleftrightarrow> data_frame rs f \<and> (bssid_of f \<noteq> bssid \<or> sa_of f \<noteq> sa) \<or> known_beacon rs f \<or> quiet_frame f"

lemma data_frame_len: "data_frame rs f \<Longrightarrow> 24 \<le> length f"
  using hdrlen_data(1) [of "frame_control f"] by (simp add: data_frame_def)

lemma data_frame_callback:
  assumes "data_frame rs f" and "sconfig_info s = Owned sc"
  shows "easyjoin_callback now f s = (if findPhone sc = NOT_ACTIVE then easyjoin_data now f (frame_control f) s else Some s)"
  using assms frame_control_read [of f] data_frame_len [OF assms(1)] beacon_not_data [of "frame_control f"]
  by (auto simp: easyjoin_callback_def data_frame_def)

abbreviation parsed :: "ya_parse_para_broadcast_t parsing \<Rightarrow> 'a smart_scheme \<Rightarrow> 'a smart_scheme" where
  "parsed st s \<equiv> s\<lparr>sconfig_info := Owned (fst st), ya_parse_to_ds := Owned (fst (snd st)), channel_lock_time := snd (snd st)\<rparr>"

lemma phone_frame_step:
  assumes "phone_frame rs bssid sa len f" and "listening s rs sc td fd m"
    and "ya_parse_broadcast now rs bssid sa len (sc, td, channel_lock_time s) = Some st"
  shows "easyjoin_callback now f s = Some (parsed st s)"
proof -
  have d: "data_frame rs f" "\<not> four_address f" using assms(1) by (simp_all add: phone_frame_def data_frame_def)
  note ls = listeningD [OF assms(2)]
  note a = addresses_read [OF data_frame_len [OF d(1)] d(2)]
  obtain sc' b' t' where st: "st = (sc', b', t')" by (cases st)
  show ?thesis
  proof (cases "findPhone sc")
    case OK_KEY
    then have "st = (sc, td, channel_lock_time s)" using assms(3) by (simp add: ya_parse_broadcast_def)
    then have "parsed st s = s" using ls by simp
    then show ?thesis using OK_KEY data_frame_callback [OF d(1) ls(2)] by simp
  next
    case NOT_ACTIVE
    then show ?thesis using data_frame_callback [OF d(1) ls(2)] a assms(1,3) ls st
      by (auto simp: easyjoin_data_def phone_frame_def)
  qed
qed

lemma known_beacon_step:
  assumes "known_beacon rs f" and "listening s rs sc td fd m"
  shows "easyjoin_callback now f s = Some s"
proof -
  note ls = listeningD [OF assms(2)]
  have k: "wifi_80211_is_beacon (frame_control f) \<or> wifi_80211_is_probe_resp (frame_control f)" "24 \<le> length f" "\<not> four_address f"
    "get_ap_info (bssid_of f) rs \<noteq> None" using assms(1) by (simp_all add: known_beacon_def)
  have fc: "u16_le f 0 = Some (frame_control f)" using k(2) by (intro frame_control_read) simp
  obtain i where i: "wifi_80211_get_BSSID (frame_control f) = Some i" "slice f i 6 = Some (bssid_of f)"
    using addresses_read(1) [OF k(2,3)] by blast
  then have b: "wifi_80211_get_bssid f (replicate 6 0) = Some (0, bssid_of f)"
    using fc addresses_read(4) [OF k(2,3)] by (simp add: wifi_80211_get_bssid_def ETH_ALEN_def memcpy_at_def)
  obtain q n where n: "wifi_80211_get_ssid f (length f) (replicate 33 0) = Some (q, n)"
    "q = 0 \<longrightarrow> 0 \<in> set n \<and> ieoffset + 2 \<le> length f mod 65536" "q = 0 \<or> q = -1"
    using get_ssid_safe [of "replicate 33 0" f] by auto
  have "wifi_80211_aplist_process f s = Some s"
  proof (cases "q < 0")
    case False
    then have "ieoffset \<le> length f mod 65536" using n(2,3) by auto
    then obtain ch x auth pw grp where "wifi_80211_get_bss_channel f (length f) = Some ch"
      "wifi_80211_get_cipher_info f (length f) = Some (x, auth, pw, grp)"
      using bss_channel_safe [of f] cipher_info_safe [of f] by (metis prod_cases4)
    then show ?thesis using False b n(1) k(4) ls by (simp add: wifi_80211_aplist_process_def save_aplist_def)
  qed (use b n in \<open>simp add: wifi_80211_aplist_process_def\<close>)
  then show ?thesis using fc k(1) ls beacon_not_data [OF k(1)] by (simp add: easyjoin_callback_def)
qed

lemma other_frame_step:
  assumes "other_frame rs bssid sa f" and "listening s rs sc td fd m" and "locked bssid sa sc" and "list_all router_ok rs"
  shows "easyjoin_callback now f s = Some s"
proof -
  note ls = listeningD [OF assms(2)]
  consider (data) "data_frame rs f" "bssid_of f \<noteq> bssid \<or> sa_of f \<noteq> sa" | (beacon) "known_beacon rs f" | (quiet) "quiet_frame f"
    using assms(1) by (auto simp: other_frame_def)
  then show ?thesis
  proof cases
    case data
    then have d: "\<not> four_address f" "wifi_80211_hdrlen (frame_control f) \<le> length f" "cipher_told rs f" by (simp_all add: data_frame_def)
    note a = addresses_read [OF data_frame_len [OF data(1)] d(1)]
    have fo: "foreign (bssid_of f) (sa_of f) sc" using data(2) assms(3) by (auto simp: locked_def foreign_def)
    obtain l where l: "payload_len f (frame_control f) (bssid_of f) rs = Some l"
      using payload_len_defined [OF assms(4) _ d(2,3)] data_frame_len [OF data(1)] by auto
    have "easyjoin_data now f (frame_control f) s = Some s"
      using a ls fo l unfolding easyjoin_data_def
      by (auto simp: ya_parse_broadcast_def ya_parse_multicast_def split: option.split)
    then show ?thesis using data_frame_callback [OF data(1) ls(2)] by simp
  next
    case beacon
    then show ?thesis using known_beacon_step assms(2) by blast
  next
    case quiet
    then show ?thesis using frame_control_read [of f] ls by (auto simp: quiet_frame_def easyjoin_callback_def)
  qed
qed

lemma parse_locked:
  assumes "ya_parse_broadcast now rs bssid sa len (sc, b, t) = Some (sc', b', t')" and "locked bssid sa sc"
  shows "locked bssid sa sc'"
  using assms by (auto simp: ya_parse_broadcast_def locked_def bind_eq_Some_conv split: if_splits option.splits)

text \<open>The time of the lock is that of the last marker of the phone.\<close>

lemma parse_lock_time:
  assumes "ya_parse_broadcast now rs bssid sa len (sc, b, t) = Some (sc', b', t')" and "locked bssid sa sc" and "findPhone sc = NOT_ACTIVE"
  shows "t' = (if broadcast_mark len = None then t else now)"
  using assms by (auto simp: ya_parse_broadcast_def locked_def foreign_def bind_eq_Some_conv split: if_splits option.splits)

section \<open>A session\<close>

text \<open>
  What the air and the clock bring while a phone sends, in two parts: four frames with a payload of three bytes make the module lock
  onto the phone; then come the lengths of the packets.  The task makes rounds at any moments between the frames: while it searches, a
  round may change the channel; once it has locked onto the phone, every round comes at most eight seconds after the last
  marker of the phone (\<open>mk\<close>); and none comes after the timeout of the session (\<open>first\<close>, \<open>tmo\<close>).
\<close>

definition in_time :: "u32 \<Rightarrow> u32 \<Rightarrow> u32 \<Rightarrow> bool" where
  "in_time first tmo now \<longleftrightarrow> now - first \<le> tmo * 1000"

inductive locking :: "ROUTER_INFO list \<Rightarrow> bytes \<Rightarrow> bytes \<Rightarrow> u32 \<Rightarrow> u32 \<Rightarrow> nat \<Rightarrow> u32 \<Rightarrow> smart_input list \<Rightarrow> u32 \<Rightarrow> bool"
  for rs bssid sa first tmo where
  locking_done: "locking rs bssid sa first tmo 0 mk [] mk"
| locking_frame: "phone_frame rs bssid sa 3 f \<Longrightarrow> locking rs bssid sa first tmo k mk is e \<Longrightarrow>
    locking rs bssid sa first tmo (Suc k) mk (Heard now f # is) e"
| locking_round: "in_time first tmo t0 \<Longrightarrow> locking rs bssid sa first tmo (Suc k) t1 is e \<Longrightarrow>
    locking rs bssid sa first tmo (Suc k) mk (Round t0 t1 # is) e"

inductive on_air :: "ROUTER_INFO list \<Rightarrow> bytes \<Rightarrow> bytes \<Rightarrow> u32 \<Rightarrow> u32 \<Rightarrow> u32 \<Rightarrow> smart_input list \<Rightarrow> (u32 \<times> int) list \<Rightarrow> bool"
  for rs bssid sa first tmo where
  air_end: "on_air rs bssid sa first tmo mk [] []"
| air_phone: "phone_frame rs bssid sa len f \<Longrightarrow> on_air rs bssid sa first tmo (if broadcast_mark len = None then mk else now) is xs \<Longrightarrow>
    on_air rs bssid sa first tmo mk (Heard now f # is) ((now, len) # xs)"
| air_other: "other_frame rs bssid sa f \<Longrightarrow> on_air rs bssid sa first tmo mk is xs \<Longrightarrow>
    on_air rs bssid sa first tmo mk (Heard now f # is) xs"
| air_round: "in_time first tmo t0 \<Longrightarrow> t0 - mk \<le> 8 * 1000 \<Longrightarrow> on_air rs bssid sa first tmo mk is xs \<Longrightarrow>
    on_air rs bssid sa first tmo mk (Round t0 t1 # is) xs"

text \<open>The part of the state the session is about: what has been collected, and that no result has been delivered since \<open>R\<close>.\<close>

definition tracking ::
    "ROUTER_INFO list \<Rightarrow> ya_parse_para_broadcast_t \<Rightarrow> ya_parse_para_multicast_t \<Rightarrow> u32 \<Rightarrow> u32 \<Rightarrow> smnt_result_t list \<Rightarrow>
     ya_parse_para_broadcast_t parsing \<Rightarrow> 'a smart_scheme \<Rightarrow> bool" where
  "tracking rs fd m first tmo R st s \<longleftrightarrow> listening s rs (fst st) (fst (snd st)) fd m \<and> channel_lock_time s = snd (snd st) \<and>
     board_ok s \<and> first_time s = first \<and> smart_timeout s = tmo \<and> get_result_callback s \<and> \<not> ended s \<and> results_of (smart_events s) = R"

definition finished :: "ROUTER_INFO list \<Rightarrow> smnt_result_t list \<Rightarrow> (smnt_result_t \<Rightarrow> bool) \<Rightarrow> 'a smart_scheme \<Rightarrow> bool" where
  "finished rs R P s \<longleftrightarrow> ended s \<and> (\<exists>sc td fd m. listening s rs sc td fd m \<and> findPhone sc = OK_KEY) \<and>
     (\<exists>r. results_of (smart_events s) = R @ [r] \<and> P r)"

lemma tracking_parsed: "tracking rs fd m first tmo R st s \<Longrightarrow> tracking rs fd m first tmo R st' (parsed st' s)"
  by (simp add: tracking_def listening_def)

lemma tracking_phone:
  assumes "tracking rs fd m first tmo R (sc, b, t) s" and "phone_frame rs bssid sa len f"
    and "ya_parse_broadcast now rs bssid sa len (sc, b, t) = Some st"
  shows "\<exists>v. smart_step c (Heard now f) s = Some v \<and> tracking rs fd m first tmo R st v"
  using phone_frame_step [OF assms(2), of s sc b fd m now st] assms(1,3) tracking_parsed [OF assms(1), of st]
  by (auto simp: tracking_def)

lemma tracking_other:
  assumes "tracking rs fd m first tmo R (sc, b, t) s" and "other_frame rs bssid sa f" and "locked bssid sa sc" and "list_all router_ok rs"
  shows "smart_step c (Heard now f) s = Some s"
  using other_frame_step [OF assms(2) _ assms(3,4), of s b fd m now] assms(1) by (auto simp: tracking_def)

lemma tracking_search_round:
  assumes "tracking rs fd m first tmo R (sc, b, t) s" and "switchChannel sc = CHANNEL_SEARCH_START" and "findPhone sc = NOT_ACTIVE"
    and "in_time first tmo t0"
  shows "\<exists>v. smart_step c (Round t0 t1) s = Some v \<and> tracking rs fd m first tmo R (sc, b, t1) v"
proof -
  have tr: "listening s rs sc b fd m" "board_ok s" "first_time s = first" "smart_timeout s = tmo" "get_result_callback s" "\<not> ended s"
    "results_of (smart_events s) = R" using assms(1) by (simp_all add: tracking_def)
  note ls = listeningD [OF tr(1)]
  have h: "rd channel_list n = Some (channel_list ! n)" if "n \<le> 12" for n using that by (simp add: rd_def channel_list_def)
  have "\<exists>v. channel_hop t0 t1 sc s = Some v \<and> sconfig_info v = sconfig_info s \<and> tracking rs fd m first tmo R (sc, b, t1) v"
    using tr h by (cases "t0 - start_time s \<ge> ucast (sc_delay sc)"; cases "12 < hop s")
      (simp_all add: channel_hop_def Let_def tracking_def listening_def)
  then obtain v where v: "channel_hop t0 t1 sc s = Some v" "sconfig_info v = sconfig_info s" "tracking rs fd m first tmo R (sc, b, t1) v"
    by blast
  then have "fix_channel v = Some v" using assms(2) ls by (simp add: fix_channel_def)
  then show ?thesis using v tr(3,4,6) ls assms(2-4) by (auto simp: smart_turn_def in_time_def)
qed

lemma tracking_locked_round:
  assumes "tracking rs fd m first tmo R (sc, b, t) s" and "locked bssid sa sc" and "findPhone sc = NOT_ACTIVE"
    and "in_time first tmo t0" and "t0 - t \<le> 8 * 1000"
  shows "\<exists>v. smart_step c (Round t0 t1) s = Some v \<and> tracking rs fd m first tmo R (sc, b, t) v"
proof -
  have tr: "listening s rs sc b fd m" "board_ok s" "first_time s = first" "smart_timeout s = tmo" "\<not> ended s" "channel_lock_time s = t"
    using assms(1) by (simp_all add: tracking_def)
  note ls = listeningD [OF tr(1)]
  have "\<not> tmo * 1000 < t0 - first" "\<not> 8 * 1000 < t0 - t" using assms(4,5) by (simp_all add: in_time_def leD)
  then have "smart_step c (Round t0 t1) s = fix_channel s"
    using tr ls assms(2,3) by (simp add: smart_turn_def locked_def)
  moreover have "\<exists>v. fix_channel s = Some v \<and> tracking rs fd m first tmo R (sc, b, t) v"
    using assms(1) ls by (auto simp: fix_channel_def Let_def tracking_def listening_def)
  ultimately show ?thesis by simp
qed

lemma locking_run:
  assumes "locking rs bssid sa first tmo k mk is e"
  shows "tracking rs fd m first tmo R (sc, b, mk) s \<Longrightarrow> switchChannel sc = CHANNEL_SEARCH_START \<Longrightarrow> findPhone sc = NOT_ACTIVE \<Longrightarrow>
    count_num b = of_nat (4 - k) \<Longrightarrow> 0 < k \<Longrightarrow> k \<le> 4 \<Longrightarrow>
    \<exists>v. smart_run c is s = Some v \<and> tracking rs fd m first tmo R (lock_on bssid sa sc, broadcast_zero, e) v"
  using assms
proof (induction arbitrary: b s)
  case (locking_frame f k mk "is" e now)
  have "k = 0 \<or> k = 1 \<or> k = 2 \<or> k = 3" using locking_frame.prems(6) by auto
  then have n: "unat (count_num b + 1) = 4 - k" using locking_frame.prems(4) by auto
  have p: "ya_parse_broadcast now rs bssid sa 3 (sc, b, mk) =
      Some (if k = 0 then (lock_on bssid sa sc, broadcast_zero, mk) else (sc, b\<lparr>count_num := count_num b + 1\<rparr>, mk))"
    using locking_frame.prems(2,3,6) n by (auto simp: ya_parse_broadcast_def foreign_def Let_def word_less_nat_alt)
  show ?case
  proof (cases "k = 0")
    case True
    obtain v where v: "smart_step c (Heard now f) s = Some v" "tracking rs fd m first tmo R (lock_on bssid sa sc, broadcast_zero, mk) v"
      using tracking_phone [OF locking_frame.prems(1) locking_frame.hyps(1), where st = "(lock_on bssid sa sc, broadcast_zero, mk)"] p True by auto
    from True locking_frame.hyps(2) have "is = []" "e = mk" by (auto elim: locking.cases)
    then show ?thesis using v by simp
  next
    case False
    let ?b = "b\<lparr>count_num := count_num b + 1\<rparr>"
    obtain v where v: "smart_step c (Heard now f) s = Some v" "tracking rs fd m first tmo R (sc, ?b, mk) v"
      using tracking_phone [OF locking_frame.prems(1) locking_frame.hyps(1), where st = "(sc, ?b, mk)"] p False by auto
    have "count_num ?b = of_nat (4 - k)" using n by (simp add: word_unat_eq_iff unat_of_nat)
    from locking_frame.IH [OF v(2) locking_frame.prems(2,3) this] False locking_frame.prems(6) v(1) show ?thesis by simp
  qed
next
  case (locking_round t0 k t1 "is" e mk)
  obtain v where "smart_step c (Round t0 t1) s = Some v" "tracking rs fd m first tmo R (sc, b, t1) v"
    using tracking_search_round [OF locking_round.prems(1-3) locking_round.hyps(1)] by blast
  with locking_round.IH [OF this(2) locking_round.prems(2-)] show ?case by simp
qed simp

lemma finished_run:
  assumes "on_air rs bssid sa first tmo mk is xs" and "finished rs R P s"
  shows "smart_run c is s = Some s"
  using assms(1)
proof induction
  case (air_phone len f mk now "is" xs)
  obtain sc where "sconfig_info s = Owned sc" "findPhone sc = OK_KEY" using assms(2) by (auto simp: finished_def listening_def)
  with air_phone show ?case using data_frame_callback [of rs f s sc now] by (simp add: phone_frame_def)
next
  case (air_other f mk "is" xs now)
  obtain sc td fd m where l: "listening s rs sc td fd m" "findPhone sc = OK_KEY" using assms(2) by (auto simp: finished_def)
  have "easyjoin_callback now f s = Some s"
    using air_other.hyps(1) data_frame_callback [of rs f s sc now] known_beacon_step [OF _ l(1), of f now] l(2) listeningD [OF l(1)]
      frame_control_read [of f]
    by (auto simp: other_frame_def quiet_frame_def easyjoin_callback_def)
  with air_other show ?case by simp
next
  case (air_round t0 mk "is" xs t1)
  then show ?case using assms(2) by (simp add: smart_turn_def finished_def)
qed simp

text \<open>The frames and rounds of a session, while the parser receives the lengths: what has been collected at the end, or a result
  that a round has delivered before the end.\<close>

lemma air_run:
  fixes s :: "'a smart_scheme"
  assumes "on_air rs bssid sa first tmo mk is xs" and "list_all router_ok rs"
    and "\<And>(v :: 'a smart_scheme) t0 t1. findPhone (fst st) = OK_KEY \<Longrightarrow> tracking rs fd m first tmo R st v \<Longrightarrow> in_time first tmo t0 \<Longrightarrow>
      \<exists>w. smart_step c (Round t0 t1) v = Some w \<and> finished rs R P w"
  shows "tracking rs fd m first tmo R (sc, b, t) s \<Longrightarrow> locked bssid sa sc \<Longrightarrow> (findPhone sc = NOT_ACTIVE \<Longrightarrow> t = mk) \<Longrightarrow>
    parse_run rs bssid sa xs (sc, b, t) = Some st \<Longrightarrow>
    \<exists>v. smart_run c is s = Some v \<and> (tracking rs fd m first tmo R st v \<or> finished rs R P v)"
  using assms(1)
proof (induction arbitrary: s sc b t)
  case air_end
  then show ?case by simp
next
  case (air_phone len f mk now "is" xs)
  obtain sc' b' t' where p: "ya_parse_broadcast now rs bssid sa len (sc, b, t) = Some (sc', b', t')" "parse_run rs bssid sa xs (sc', b', t') = Some st"
    using air_phone.prems(4) by (auto simp: bind_eq_Some_conv)
  obtain v where v: "smart_step c (Heard now f) s = Some v" "tracking rs fd m first tmo R (sc', b', t') v"
    using tracking_phone [OF air_phone.prems(1) air_phone.hyps(1) p(1)] by blast
  have k: "findPhone sc' = NOT_ACTIVE \<Longrightarrow> t' = (if broadcast_mark len = None then mk else now)"
  proof (cases "findPhone sc")
    case NOT_ACTIVE
    then show "t' = (if broadcast_mark len = None then mk else now)"
      using parse_lock_time [OF p(1) air_phone.prems(2) NOT_ACTIVE] air_phone.prems(3) by simp
  next
    case OK_KEY
    moreover assume "findPhone sc' = NOT_ACTIVE"
    ultimately show "t' = (if broadcast_mark len = None then mk else now)" using p(1) by (simp add: ya_parse_broadcast_def)
  qed
  from air_phone.IH [OF v(2) parse_locked [OF p(1) air_phone.prems(2)] k p(2)] v(1) show ?case by simp
next
  case (air_other f mk "is" xs now)
  have "smart_step c (Heard now f) s = Some s" using tracking_other [OF air_other.prems(1) air_other.hyps(1) air_other.prems(2) assms(2)] .
  with air_other.IH [OF air_other.prems] show ?case by simp
next
  case (air_round t0 mk "is" xs t1)
  show ?case
  proof (cases "findPhone sc")
    case NOT_ACTIVE
    have "t0 - t \<le> 8 * 1000" using air_round.hyps(2) air_round.prems(3) [OF NOT_ACTIVE] by simp
    from tracking_locked_round [OF air_round.prems(1,2) NOT_ACTIVE air_round.hyps(1) this] obtain v where
      "smart_step c (Round t0 t1) s = Some v" "tracking rs fd m first tmo R (sc, b, t) v" by blast
    with air_round.IH [OF this(2) air_round.prems(2-4)] show ?thesis by simp
  next
    case OK_KEY
    then have "parse_run rs bssid sa xs (sc, b, t) = Some (sc, b, t)"
      by (induction xs) (simp_all add: ya_parse_broadcast_def)
    then have st: "st = (sc, b, t)" using air_round.prems(4) by simp
    obtain w where w: "smart_step c (Round t0 t1) s = Some w" "finished rs R P w"
      using assms(3) [of s t0 t1] air_round.prems(1) air_round.hyps(1) OK_KEY unfolding st by auto
    then show ?thesis using finished_run [OF air_round.hyps(3) w(2), of c] by simp
  qed
qed

section \<open>The whole message\<close>

lemma lock_progress:
  assumes "findPhone sc = NOT_ACTIVE" and "length E \<le> 80"
  shows "progress E bssid sa {} (lock_on bssid sa sc, broadcast_zero, t)"
proof -
  have "\<not> (\<forall>p \<in> packets E. knows broadcast_zero p)" by (simp add: packets_def broadcast_zero_def)
  moreover have "collected E broadcast_zero" using assms(2) by (simp add: collected_def broadcast_zero_def)
  ultimately show ?thesis using assms by (simp add: progress_def locked_def lock_on_def)
qed

lemma progress_done:
  assumes "progress E bssid sa Q (sc, b, t)" and "packets E \<subseteq> Q" and "length E \<le> 80"
  shows "findPhone sc = OK_KEY" and "pfinish b = 1" and "unat (key_len b) = length E" and "take (length E) (pkey b) = E"
    and "length (pkey b) = 80"
proof -
  have n: "unat (of_nat (length E) :: u8) = length E" using assms(3) by (simp add: unat_of_nat_u8)
  show ok: "findPhone sc = OK_KEY"
  proof (rule ccontr)
    assume "findPhone sc \<noteq> OK_KEY"
    then show False using assms(1,2) by (auto simp: progress_def)
  qed
  then have c: "collected E b" "\<forall>p \<in> packets E. knows b p" "pfinish b = 1" using assms(1) by (simp_all add: progress_def)
  then show "pfinish b = 1" "length (pkey b) = 80" by (simp_all add: collected_def)
  show "unat (key_len b) = length E" using c n by (auto simp: collected_def packets_def)
  show "take (length E) (pkey b) = E" using c assms(3) by (intro nth_equalityI) (auto simp: collected_def packets_def)
qed

lemma foldl_sum_list: "foldl (+) a xs = a + sum_list (xs :: u8 list)"
  by (induction xs arbitrary: a) (simp_all add: add.assoc)

lemma phone_message_length [simp]: "length (phone_message pw cloud ra rb) = length pw + 6"
  by (simp add: phone_message_def Let_def)

lemma phone_cipher_length [simp]: "length (phone_cipher c msg) = length msg"
  by (simp add: phone_cipher_def Let_def)

text \<open>The module reads the fields of the message back.\<close>

lemma dec_message:
  assumes "length pw \<le> 64" and "buf = phone_message pw cloud ra rb @ replicate n 0"
  shows "dec_password buf (length pw + 6) 0 smnt_zero = Some (True, smnt_zero\<lparr>sm_password_len := of_nat (length pw),
     sm_password := pw @ replicate (65 - length pw) 0, sm_cloud_select := cloud\<rparr>, ra, rb)"
    and "foldl (+) 0 (take (length pw + 5) buf) = buf ! (length pw + 5)"
proof -
  have u: "unat (of_nat (length pw) :: u8) = length pw" using assms(1) by (simp add: unat_of_nat_u8)
  let ?body = "of_nat (length pw) # pw @ [3, cloud, ra, rb]"
  have b: "buf = ?body @ sum_list ?body # replicate n 0" using assms(2) by (simp add: phone_message_def)
  have len: "length ?body = length pw + 5" by simp
  show "foldl (+) 0 (take (length pw + 5) buf) = buf ! (length pw + 5)"
    unfolding b len [symmetric] by (simp only: foldl_sum_list nth_append_length) simp
  have at: "buf ! 0 = of_nat (length pw)" "buf ! (1 + length pw) = 3" "buf ! (1 + length pw + 1) = cloud" "buf ! (1 + length pw + 2) = ra"
    "buf ! (1 + length pw + 3) = rb" by (simp_all add: b nth_append)
  have lb: "length pw + 6 \<le> length buf" by (simp add: b)
  have c: "slice buf 1 (length pw) = Some pw" by (simp add: b slice_def)
  have p: "memcpy_at (sm_password smnt_zero) 0 pw = Some (pw @ replicate (65 - length pw) 0)"
    using assms(1) by (simp add: smnt_zero_def memcpy_at_def)
  have tl: "dec_tail buf (length pw + 6) (1 + length pw) r = Some (True, r\<lparr>sm_cloud_select := cloud\<rparr>, ra, rb)" for r
    unfolding dec_tail_def using at lb by (simp add: rd_def)
  have "\<not> (of_nat (length pw) :: u8) > 64" using u assms(1) by (simp add: word_less_nat_alt)
  moreover have "rd buf 0 = Some (of_nat (length pw))" using at(1) b by (simp add: rd_def)
  ultimately show "dec_password buf (length pw + 6) 0 smnt_zero = Some (True, smnt_zero\<lparr>sm_password_len := of_nat (length pw),
     sm_password := pw @ replicate (65 - length pw) 0, sm_cloud_select := cloud\<rparr>, ra, rb)"
    using c p u tl by (simp add: dec_password_def)
qed

lemma dec_heard_name:
  assumes "router_ok ap" and "ri_ssid ap ! 0 \<noteq> 0" and "strlen (ri_ssid ap) = Some n"
  shows "\<exists>name. dec_name (Some ap) r = Some (True, r\<lparr>sm_ssid := name, sm_ssid_len := of_nat n\<rparr>) \<and> length name = 33 \<and> name ! 0 \<noteq> 0 \<and>
    take n name = take n (ri_ssid ap)"
proof -
  obtain str where str: "cstr (ri_ssid ap) = Some str" "length str = n" using assms(3) by (auto simp: strlen_def)
  note sp = cstr_Some_split [OF str(1)]
  have n: "n < 33" using cstr_SomeD(2) [OF str(1)] assms(1) str(2) by (simp add: router_ok_def)
  have c: "strcpy (replicate 33 0) (ri_ssid ap) = Some (str @ 0 # drop (Suc n) (replicate 33 0))"
    unfolding strcpy_Some using str n by auto
  have tk: "take n (ri_ssid ap) = str" using str(2) by (subst sp) simp
  have "str \<noteq> []" using str(1) assms(2) by (cases "ri_ssid ap") (auto split: if_splits)
  then have s0: "str ! 0 = ri_ssid ap ! 0" using tk str(2) by (metis length_greater_0_conv nth_take)
  have "rd (ri_ssid ap) 0 = Some (ri_ssid ap ! 0)" using assms(1) by (simp add: rd_def router_ok_def)
  then have "dec_name (Some ap) r = Some (True, r\<lparr>sm_ssid := str @ 0 # drop (Suc n) (replicate 33 0), sm_ssid_len := of_nat n\<rparr>)"
    using c assms(2,3) by (simp add: dec_name_def)
  moreover have "(str @ 0 # drop (Suc n) (replicate 33 0)) ! 0 \<noteq> 0" using s0 assms(2) \<open>str \<noteq> []\<close> by (simp add: nth_append)
  ultimately show ?thesis using tk str(2) n by (intro exI [of _ "str @ 0 # drop (Suc n) (replicate 33 0)"]) simp
qed

lemma decode_phone:
  assumes "board_ok s" and "crypto_ok c" and "listening s rs sc td fd m" and "pfinish td = 1" and "pfinish m \<noteq> 1"
    and "E = phone_cipher c (phone_message pw cloud ra rb)" and "length pw \<le> 64"
    and "unat (key_len td) = length E" and "take (length E) (pkey td) = E" and "length (pkey td) = 80"
    and "get_ap_info (sc_bssid sc) rs = Some ap" and "ri_ssid ap ! 0 \<noteq> 0" and "strlen (ri_ssid ap) = Some n"
    and "router_ok ap" and "sconfig_ok sc"
  shows "\<exists>r. ya_smartconfig_decode c s = Some (0, s\<lparr>smnt_result := r\<rparr>) \<and> smart_ok r \<and> sm_ssid_len r = of_nat n \<and> sm_ssid r ! 0 \<noteq> 0 \<and>
    take n (sm_ssid r) = take n (ri_ssid ap) \<and> sm_password_len r = of_nat (length pw) \<and> take (length pw) (sm_password r) = pw \<and>
    sm_bssid r = sc_bssid sc \<and> sm_cloud_select r = cloud"
proof -
  let ?k = "md5 c AES_KEY_SMARTCONFIG_STRING" and ?l = "length pw + 6"
  note ls = listeningD [OF assms(3)]
  obtain b where b: "mem_alloc s 128 = Some b" "length b = 128" using mem_alloc_board_ok [OF assms(1)] by blast
  have z: "memset b 0 128 = Some (replicate 128 0)" using b(2) by (simp add: memset_def memcpy_at_def)
  have len: "length E = ?l" using assms(6) by simp
  have src: "dec_source s = Some (Some (pkey td, ?l))" using ls assms(4,8) len by (simp add: dec_source_def)
  define buf where "buf = phone_message pw cloud ra rb @ replicate (122 - length pw) 0"
  have "mbedtls_aes_crypt_cfb128 (aes_enc c ?k) True 0 ?k E = phone_message pw cloud ra rb"
    by (simp add: assms(6) phone_cipher_def Let_def cfb_inverse)
  then have d: "AES_CFB_NoPadding_decrypt c ?k ?k (pkey td) (replicate 128 0) ?l s = Some (?l, buf)"
    using cfb_decrypt_run [OF assms(1), of ?l "pkey td" "replicate 128 0" c ?k ?k] assms(7,9,10) len by (simp add: buf_def)
  note m = dec_message [OF assms(7) buf_def]
  have lb: "length buf = 128" using assms(7) by (simp add: buf_def)
  have rd: "slice buf 0 (?l - 1) = Some (take (length pw + 5) buf)" "rd buf (?l - 1) = Some (buf ! (length pw + 5))"
    using lb assms(7) by (simp_all add: slice_def rd_def add.commute)
  define r1 where "r1 = smnt_zero\<lparr>sm_password_len := of_nat (length pw), sm_password := pw @ replicate (65 - length pw) 0,
    sm_cloud_select := cloud, sm_bssid := sc_bssid sc\<rparr>"
  obtain name where nm: "dec_name (Some ap) r1 = Some (True, r1\<lparr>sm_ssid := name, sm_ssid_len := of_nat n\<rparr>)" "length name = 33"
    "name ! 0 \<noteq> 0" "take n name = take n (ri_ssid ap)" using dec_heard_name [OF assms(14,12,13)] by blast
  define r2 where "r2 = r1\<lparr>sm_ssid := name, sm_ssid_len := of_nat n\<rparr>"
  have ok: "smart_ok r2" "pwd_ok r2"
    using nm(2) assms(7,15) smnt_zero_ok by (simp_all add: smart_ok_def pwd_ok_def r2_def r1_def sconfig_ok_def unat_of_nat_u8)
  obtain r3 where r3: "dec_random c ?k ra rb r2 = Some r3" "smart_ok r3"
    using dec_random_safe [OF assms(2) _ ok, of ?k ra rb] assms(2) by (auto simp: crypto_ok_def)
  have "\<exists>x. r3 = r2\<lparr>sm_rand := x\<rparr>" using r3(1) by (auto simp: dec_random_def bind_eq_Some_conv Let_def split: prod.splits)
  then obtain x where x: "r3 = r2\<lparr>sm_rand := x\<rparr>" by blast
  have "ya_smartconfig_decode c s = Some (0, s\<lparr>smnt_result := r3\<rparr>)"
    using ls assms(5,11) d m rd nm(1) r3(1) unfolding ya_smartconfig_decode_def
    by (simp add: smart_key_md5 [OF assms(2)] b(1) z src r1_def [symmetric] r2_def [symmetric])
  then show ?thesis using r3(2) x nm(3,4) by (auto simp: r2_def r1_def)
qed

lemma phone_frame_bssid: "phone_frame rs bssid sa len f \<Longrightarrow> length bssid = 6"
  using addresses_read(4) [of f] data_frame_len [of rs f] by (auto simp: phone_frame_def data_frame_def)

lemma locking_bssid: "locking rs bssid sa first tmo k mk is e \<Longrightarrow> 0 < k \<Longrightarrow> length bssid = 6"
  by (induction rule: locking.induct) (auto dest: phone_frame_bssid)

text \<open>The result of the phone: its password and cloud, and the name and address of the router.\<close>

definition phone_result :: "bytes \<Rightarrow> bytes \<Rightarrow> bytes \<Rightarrow> u8 \<Rightarrow> smnt_result_t \<Rightarrow> bool" where
  "phone_result ssid pw bssid cloud r \<longleftrightarrow> pairing_good r \<and> pairing_ssid r = ssid \<and> pairing_pwd r = pw \<and> sm_bssid r = bssid \<and> sm_cloud_select r = cloud"

text \<open>A round that finds the message complete delivers it.\<close>

lemma decode_round:
  assumes "crypto_ok c" and "list_all router_ok rs" and "get_ap_info bssid rs = Some ap" and "cstr (ri_ssid ap) = Some ssid" and "ssid \<noteq> []"
    and "length pw \<le> 64" and "E = phone_cipher c (phone_message pw cloud ra rb)" and "length bssid = 6" and "pfinish m \<noteq> 1"
    and "progress E bssid sa (packets E) (sc, b, t)" and "tracking rs fd m first tmo R (sc, b, t) s" and "in_time first tmo t0"
  shows "\<exists>w. smart_step c (Round t0 t1) s = Some w \<and> finished rs R (phone_result ssid pw bssid cloud) w"
proof -
  have tr: "listening s rs sc b fd m" "board_ok s" "first_time s = first" "smart_timeout s = tmo" "get_result_callback s" "\<not> ended s"
    "results_of (smart_events s) = R" using assms(11) by (simp_all add: tracking_def)
  note ls = listeningD [OF tr(1)]
  have ap: "router_ok ap" using get_ap_info_ok [OF assms(3,2)] .
  let ?n = "length ssid"
  have n: "strlen (ri_ssid ap) = Some ?n" using assms(4) by (simp add: strlen_def)
  have n32: "?n \<le> 32" using strlen_router [OF ap] n by auto
  have a0: "ri_ssid ap ! 0 \<noteq> 0" using assms(4,5) by (cases "ri_ssid ap") (auto split: if_splits)
  have sp: "take ?n (ri_ssid ap) = ssid" by (subst cstr_Some_split [OF assms(4)]) simp
  have "length E \<le> 80" using assms(6,7) by simp
  note d = progress_done [OF assms(10) subset_refl this]
  have sc: "sc_bssid sc = bssid" using assms(10) by (simp add: progress_def locked_def)
  from decode_phone [OF tr(2) assms(1) tr(1) d(2) assms(9,7,6) d(3-5), of ap ?n] obtain r where
    dec: "ya_smartconfig_decode c s = Some (0, s\<lparr>smnt_result := r\<rparr>)" "smart_ok r" "sm_ssid_len r = of_nat ?n" "sm_ssid r ! 0 \<noteq> 0"
    "take ?n (sm_ssid r) = ssid" "sm_password_len r = of_nat (length pw)" "take (length pw) (sm_password r) = pw"
    "sm_bssid r = bssid" "sm_cloud_select r = cloud"
    using assms(3,8) a0 n ap sc sp by (auto simp: sconfig_ok_def)
  let ?r = "r\<lparr>smnt_result_status := smnt_result_ok\<rparr>"
  let ?e = "(smartconfig_finish smnt_result_ok (smart_emit StopMonitor (s\<lparr>smnt_result := r\<rparr>)))\<lparr>ended := True\<rparr>"
  have "\<not> tmo * 1000 < t0 - first" using assms(12) by (simp add: in_time_def leD)
  then have e: "smart_step c (Round t0 t1) s = Some ?e" using tr(3,4,6) ls d(1) dec(1) by (simp add: smart_turn_def)
  have u: "unat (of_nat ?n :: u8) = ?n" "unat (of_nat (length pw) :: u8) = length pw" using n32 assms(6) by (simp_all add: unat_of_nat_u8)
  then have "(of_nat ?n :: u8) \<noteq> 0" "(of_nat ?n :: u8) \<le> 32" "(of_nat (length pw) :: u8) \<le> 64"
    using assms(5,6) n32 by (auto simp: word_le_nat_alt)
  then have "phone_result ssid pw bssid cloud ?r"
    using dec(2-9) u by (simp add: phone_result_def pairing_good_def pairing_ssid_def pairing_pwd_def)
  then have "finished rs R (phone_result ssid pw bssid cloud) ?e"
    using tr(1,5,7) d(1) by (auto simp: finished_def smartconfig_finish_def Let_def listening_def)
  with e show ?thesis by blast
qed

text \<open>
  A whole session: however the rounds of the task fall between the frames, it ends with one result.
\<close>

lemma phone_session:
  assumes "listen_inv s" and "crypto_ok c" and "listening s rs sc td fd m" and "switchChannel sc = CHANNEL_SEARCH_START"
    and "findPhone sc = NOT_ACTIVE" and "count_num td = 0" and "pfinish m \<noteq> 1" and "get_result_callback s" and "\<not> ended s"
    and "get_ap_info bssid rs = Some ap" and "cstr (ri_ssid ap) = Some ssid" and "ssid \<noteq> []" and "length pw \<le> 64"
    and "E = phone_cipher c (phone_message pw cloud ra rb)"
    and "locking rs bssid sa (first_time s) (smart_timeout s) 4 (channel_lock_time s) is mk"
    and "on_air rs bssid sa (first_time s) (smart_timeout s) mk js xs"
    and "map snd xs = concat (map (packet_lens E) ps)" and "set ps = packets E" and "in_time (first_time s) (smart_timeout s) t0"
  shows "\<exists>t r. smart_run c (is @ js @ [Round t0 t1]) s = Some t \<and> ended t \<and>
    results_of (smart_events t) = results_of (smart_events s) @ [r] \<and> phone_result ssid pw bssid cloud r"
proof -
  let ?R = "results_of (smart_events s)" and ?P = "phone_result ssid pw bssid cloud" and ?F = "first_time s" and ?T = "smart_timeout s"
  have inv: "board_ok s" "list_all router_ok rs" using assms(1,3) by (auto simp: listen_inv_def listening_def)
  have len: "6 \<le> length E" "length E \<le> 80" using assms(13,14) by simp_all
  have ap: "router_ok ap" using get_ap_info_ok [OF assms(10) inv(2)] .
  have "ri_ssid ap ! 0 \<noteq> 0" using assms(11,12) by (cases "ri_ssid ap") (auto split: if_splits)
  then have h: "heard_router rs bssid" using assms(10) ap by (simp add: heard_router_def)
  have b6: "length bssid = 6" using locking_bssid [OF assms(15)] by simp
  have tr: "tracking rs fd m ?F ?T ?R (sc, td, channel_lock_time s) s" using assms(3,8,9) inv(1) by (simp add: tracking_def)
  obtain u where u: "smart_run c is s = Some u" "tracking rs fd m ?F ?T ?R (lock_on bssid sa sc, broadcast_zero, mk) u"
    using locking_run [OF assms(15) tr assms(4,5)] assms(6) by auto
  obtain sc' b t where r: "parse_run rs bssid sa xs (lock_on bssid sa sc, broadcast_zero, mk) = Some (sc', b, t)"
    "progress E bssid sa (packets E) (sc', b, t)"
    using packets_run [OF len h lock_progress [OF assms(5) len(2), of bssid sa mk], of ps xs] assms(17,18) by auto
  note dec = decode_round [OF assms(2) inv(2) assms(10-14) b6 assms(7) r(2)]
  have k: "locked bssid sa (lock_on bssid sa sc)" by (simp add: locked_def lock_on_def)
  have dec': "\<exists>w. smart_step c (Round t0 t1) v = Some w \<and> finished rs ?R ?P w"
    if "findPhone (fst (sc', b, t)) = OK_KEY" "tracking rs fd m ?F ?T ?R (sc', b, t) v" "in_time ?F ?T t0" for v t0 t1
    using dec that by blast
  obtain v where v: "smart_run c js u = Some v" "tracking rs fd m ?F ?T ?R (sc', b, t) v \<or> finished rs ?R ?P v"
    using air_run [OF assms(16) inv(2) dec' u(2) k refl r(1)] by blast
  have "\<exists>w. smart_step c (Round t0 t1) v = Some w \<and> finished rs ?R ?P w"
    using v(2)
  proof
    assume "finished rs ?R ?P v"
    then show ?thesis by (auto simp: finished_def smart_turn_def)
  qed (use dec assms(19) in blast)
  then obtain w where "smart_step c (Round t0 t1) v = Some w" "finished rs ?R ?P w" by blast
  then show ?thesis using u(1) v(1) by (auto simp: smart_run_append finished_def)
qed

section \<open>An example\<close>

definition packets_demo :: "packet list" where
  "packets_demo = map BytePacket [6, 5, 4, 3, 2, 1, 0] @ [SumPacket, LenPacket]"

definition cipher_demo :: bytes where
  "cipher_demo = phone_cipher crypto_demo (phone_message [67] 1 8 9)"

definition lens_demo :: "int list" where
  "lens_demo = concat (map (packet_lens cipher_demo) packets_demo)"

lemma packets_demo_set: "set packets_demo = packets cipher_demo"
proof -
  have "length cipher_demo = 7" by (simp add: cipher_demo_def)
  moreover have "{..<7 :: nat} = {0, 1, 2, 3, 4, 5, 6}" by auto
  ultimately show ?thesis by (auto simp: packets_def packets_demo_def)
qed

lemma lens_demo_nonneg: "\<forall>l \<in> set lens_demo. 0 \<le> l"
  by (auto simp: lens_demo_def packets_demo_def)

lemma phone_frame_demo:
  "phone_frame [head_demo, router_demo] (replicate 6 1) (replicate 6 2) (int n) (frame_demo 1 n)"
  using frame_demo_len [of n] frame_demo_class frame_demo_addresses [of n]
  by (simp add: phone_frame_def data_frame_def four_address_def frame_demo_control cipher_told_def guess_encry_def enc_defs)
    (simp add: frame_demo_def)

text \<open>An acknowledgement and a round of the task after every frame of the phone.\<close>

definition ack_demo :: bytes where "ack_demo = [0xD4, 0, 0, 0] @ replicate 6 1"

lemma ack_demo_quiet: "quiet_frame ack_demo"
proof -
  have "frame_control ack_demo = 0x00D4" by (simp add: ack_demo_def frame_control_def le16_def)
  then show ?thesis
    by (simp add: quiet_frame_def wifi_80211_is_beacon_def wifi_80211_is_probe_resp_def wifi_80211_is_data_exact_def fctl_defs)
      (simp add: ack_demo_def)
qed

definition air_demo :: "int list \<Rightarrow> smart_input list" where
  "air_demo ls = concat (map (\<lambda>l. [Heard 5 (frame_demo 1 (nat l)), Heard 6 ack_demo, Round 20 20]) ls)"

lemma air_demo_heard:
  "\<forall>l \<in> set ls. 0 \<le> l \<Longrightarrow> on_air [head_demo, router_demo] (replicate 6 1) (replicate 6 2) 0 120 5 (air_demo ls) (map (\<lambda>l. (5, l)) ls)"
proof (induction ls)
  case Nil
  then show ?case by (simp add: air_demo_def air_end)
next
  case (Cons l ls)
  have t: "in_time 0 120 20" "(20 :: u32) - 5 \<le> 8 * 1000" by (simp_all add: in_time_def word_le_nat_alt)
  have "other_frame [head_demo, router_demo] (replicate 6 1) (replicate 6 2) ack_demo" using ack_demo_quiet by (simp add: other_frame_def)
  moreover have "on_air [head_demo, router_demo] (replicate 6 1) (replicate 6 2) 0 120 5 (Round 20 20 # air_demo ls) (map (\<lambda>l. (5, l)) ls)"
    using Cons by (intro air_round t) simp
  ultimately have "on_air [head_demo, router_demo] (replicate 6 1) (replicate 6 2) 0 120 5 (Heard 6 ack_demo # Round 20 20 # air_demo ls) (map (\<lambda>l. (5, l)) ls)"
    by (rule air_other)
  then show ?case using air_phone [OF phone_frame_demo [of "nat l"], of 0 120 5 5] Cons.prems by (simp add: air_demo_def)
qed

definition lock_demo :: "smart_input list" where
  "lock_demo = [Heard 1 (frame_demo 1 3), Round 3 3, Heard 4 (frame_demo 1 3), Heard 4 (frame_demo 1 3), Round 5 5, Heard 5 (frame_demo 1 3)]"

lemma lock_demo_heard: "locking [head_demo, router_demo] (replicate 6 1) (replicate 6 2) 0 120 4 0 lock_demo 5"
proof -
  have t: "in_time 0 120 3" "in_time 0 120 5" by (simp_all add: in_time_def word_le_nat_alt)
  have f: "phone_frame [head_demo, router_demo] (replicate 6 1) (replicate 6 2) 3 (frame_demo 1 3)" using phone_frame_demo [of 3] by simp
  have "locking [head_demo, router_demo] (replicate 6 1) (replicate 6 2) 0 120 (Suc (Suc (Suc (Suc 0)))) 0 lock_demo 5"
    unfolding lock_demo_def by (intro locking_frame locking_round locking_done t f)
  then show ?thesis by (simp add: numeral_eq_Suc)
qed

definition sc_demo :: SCONFIG_INFO where
  "sc_demo = \<lparr>switchChannel = CHANNEL_SEARCH_START, findPhone = NOT_ACTIVE, sc_delay = 60, sc_bssid = replicate 6 0, srcmac = replicate 6 0\<rparr>"

lemma listen_demo_state: "listening listen_demo [head_demo, router_demo] sc_demo broadcast_zero broadcast_zero multicast_zero"
  by (simp add: listening_def listen_demo_def sc_demo_def)

lemma router_demo_heard: "get_ap_info (replicate 6 1) [head_demo, router_demo] = Some router_demo"
  by (simp add: head_demo_def router_demo_def router_of_def)

lemma router_demo_name: "cstr (ri_ssid router_demo) = Some [65]"
proof -
  have "replicate 32 (0 :: u8) = 0 # replicate 31 0" by (simp flip: replicate_Suc)
  then show ?thesis by (simp add: router_demo_def)
qed

end
