(* ===== verification/SoftAp.thy ===== *)
theory SoftAp
  imports AesMd5 Cjson AppMain "HOL-Library.Sublist"
begin

text \<open>
  Pairing over an access point of the module, \<^verbatim>\<open>src/apps/akeeta_tr6260/akeeta/app/src/ya_softap_update.c\<close>.  The module opens a
  network and waits for packets of a phone: a header with command and length, a JSON text encrypted with CBC, and
  the digest of the text.  The first key is derived from the name of the network; with it the phone asks for the random
  bytes that are key and initial vector of the following messages, by which it asks for the device and sends the
  credentials of the router.  Other packets are licence commands of the factory.

  The state extends the one of the main task, whose callback is called; what the device sends is recorded in
  \<open>soft_events\<close>.  The cipher, the JSON library and the checks of licences are arguments.  That an object cannot
  be created has the same effect as that it cannot be printed, so only the latter is modelled.
\<close>

section \<open>State\<close>

definition SOFTAP_BUF_SIZE :: nat where "SOFTAP_BUF_SIZE = 2 * 1024"
definition SOFTAP_CONFIG_DATA_POS :: nat where "SOFTAP_CONFIG_DATA_POS = 9"
definition SOFTAP_TIME_OUT :: u8 where "SOFTAP_TIME_OUT = 1"
definition SOFTAP_ERROR :: u8 where "SOFTAP_ERROR = 2"
definition SOFTAP_CONFIG_CMD_GET_RANDOM_RESPONSE :: u16 where "SOFTAP_CONFIG_CMD_GET_RANDOM_RESPONSE = 0x8001"
definition SOFTAP_CONFIG_CMD_GET_DEVICE_MSG_RESPONSE :: u16 where "SOFTAP_CONFIG_CMD_GET_DEVICE_MSG_RESPONSE = 0x8002"
definition SOFTAP_CONFIG_CMD_GET_NET_MSG_RESPONSE :: u16 where "SOFTAP_CONFIG_CMD_GET_NET_MSG_RESPONSE = 0x8003"
definition AES_KEY_ADD_STRING :: bytes where "AES_KEY_ADD_STRING = ascii ''nm123##&''"

record softap_param_st =
  sp_timeout :: u32
  ap_ssid :: bytes
  ap_password :: bytes
  cloud_support_type :: u8

record soft_env =
  soft_crypto :: crypto
  soft_json :: cjson_lib
  crt_check :: "bytes \<Rightarrow> int"
  pk_check :: "bytes \<Rightarrow> int"
  soft_mac :: bytes

datatype softap_event = StartAp bytes bytes | SendTo bytes

text \<open>The members \<open>aly_product_key\<close> and \<open>aly_device_name\<close> are the static arrays of the Aliyun client.\<close>

record softap = app +
  g_softap_param :: softap_param_st
  ya_router_para :: ya_ap_router_para_t
  ya_softap_decode_buf :: "bytes option"
  ya_softap_rece_buf :: "bytes option"
  aes_key :: bytes
  soft_iv :: bytes
  random_data :: bytes
  init_aes_key_and_iv_flag :: u8
  aly_product_key :: bytes
  aly_device_name :: bytes
  enable_license_write :: bool
  ya_soft_ap_timer :: Ya_Timer
  soft_events :: "softap_event list"
  soft_ended :: bool

abbreviation soft_emit :: "softap_event \<Rightarrow> 'a softap_scheme \<Rightarrow> 'a softap_scheme" where
  "soft_emit e s \<equiv> s\<lparr>soft_events := soft_events s @ [e]\<rparr>"

definition router_para_zero :: ya_ap_router_para_t where
  "router_para_zero = \<lparr>router_ssid = replicate 33 0, router_pwd = replicate 65 0, router_bssid = replicate 6 0,
     router_random = replicate 33 0, router_cloud_type = 0\<rparr>"

text \<open>An object with string members, and sending its text.\<close>

definition jobj :: "(string \<times> bytes) list \<Rightarrow> cJSON" where
  "jobj kvs = Node cJSON_Object None None (map (\<lambda>(k, v). Node cJSON_String (Some k) (Some v) []) kvs)"

definition send_json :: "soft_env \<Rightarrow> cJSON \<Rightarrow> 'a softap_scheme \<Rightarrow> 'a softap_scheme" where
  "send_json env j s = (case cJSON_PrintUnformatted (soft_json env) j of None \<Rightarrow> s | Some b \<Rightarrow> soft_emit (SendTo b) s)"

section \<open>Licence commands of the factory\<close>

definition hex_char :: "u8 \<Rightarrow> u8" where
  "hex_char n = (if n < 10 then 48 + n else 87 + n)"

primrec mac_string :: "bytes \<Rightarrow> bytes" where
  "mac_string [] = []"
| "mac_string (b # bs) = hex_char (drop_bit 4 b) # hex_char (b AND 0x0F) # (if bs = [] then [] else 58 # mac_string bs)"

definition ya_factory_response_device_para :: "soft_env \<Rightarrow> 'a softap_scheme \<Rightarrow> 'a softap_scheme option" where
  "ya_factory_response_device_para env s = do {
     v \<leftarrow> ya_get_ver_string (replicate 65 0) s;
     ver \<leftarrow> cstr v;
     Some (send_json env (jobj [(''code'', ascii ''0''), (''mac'', mac_string (soft_mac env)), (''version'', ver)]) s) }"

definition ya_factory_test_query_response ::
    "soft_env \<Rightarrow> string option \<Rightarrow> bytes option \<Rightarrow> string \<Rightarrow> 'a softap_scheme \<Rightarrow> 'a softap_scheme" where
  "ya_factory_test_query_response env json_key buffer code s =
     send_json env (jobj ((case (json_key, buffer) of (Some k, Some b) \<Rightarrow> [(k, b)] | _ \<Rightarrow> []) @ [(''code'', ascii code)])) s"

definition ya_factory_test_cmd_response :: "soft_env \<Rightarrow> string \<Rightarrow> 'a softap_scheme \<Rightarrow> 'a softap_scheme" where
  "ya_factory_test_cmd_response env code s = send_json env (jobj [(''code'', ascii code)]) s"

text \<open>A field of the stored triple, as a string; \<open>None\<close> in the inner option is the jump to \<open>err\<close>.\<close>

definition cert_field :: "bytes \<Rightarrow> nat \<Rightarrow> nat \<Rightarrow> (bytes \<times> nat) option option" where
  "cert_field buf pos limit = do {
     n \<leftarrow> rd buf pos;
     if unat n > limit then Some None
     else do {
       v \<leftarrow> slice buf (pos + 1) (unat n);
       v \<leftarrow> memcpy_at (replicate 65 0) 0 v;
       v \<leftarrow> cstr v;
       Some (Some (v, pos + 1 + unat n)) } }"

definition ya_response_aliyun_cert :: "soft_env \<Rightarrow> 'a softap_scheme \<Rightarrow> 'a softap_scheme option" where
  "ya_response_aliyun_cert env s = do {
     let err = ya_factory_test_query_response env None None ''1'' s;
     (ret, payload) \<leftarrow> ya_read_aliyun_cert 128 YA_LICENSE_ALIYUUN s;
     if ret \<noteq> 0 then Some err
     else do {
       buf \<leftarrow> memcpy_at (replicate 128 0) 0 payload;
       a \<leftarrow> cert_field buf 0 YA_PRODUCT_KEY_LEN;
       case a of None \<Rightarrow> Some err
       | Some (pk, pos) \<Rightarrow> do {
           a \<leftarrow> cert_field buf pos YA_DEVICE_ID_LEN;
           case a of None \<Rightarrow> Some err
           | Some (di, pos) \<Rightarrow> do {
               a \<leftarrow> cert_field buf pos YA_DEVICE_SECRET_LEN;
               case a of None \<Rightarrow> Some err
               | Some (ds, _) \<Rightarrow>
                   Some (send_json env (Node cJSON_Object None None
                     [Node cJSON_Object (Some ''aliyun'') None
                        (child (jobj [(''product_key'', pk), (''device_id'', di), (''device_secret'', ds)])),
                      Node cJSON_String (Some ''code'') (Some (ascii ''0'')) []]) s) } } } }"

definition query_record :: "soft_env \<Rightarrow> string \<Rightarrow> nat \<Rightarrow> 'a softap_scheme \<Rightarrow> 'a softap_scheme option" where
  "query_record env key addr s = do {
     (ret, payload) \<leftarrow> ya_read_flash_with_var_len addr SOFTAP_BUF_SIZE 1 s;
     if ret \<noteq> 0 then Some (ya_factory_test_query_response env (Some key) None ''1'' s)
     else do {
       buf \<leftarrow> memcpy_at (replicate SOFTAP_BUF_SIZE 0) 0 payload;
       v \<leftarrow> cstr buf;
       Some (ya_factory_test_query_response env (Some key) (Some v) ''0'' (s\<lparr>ya_softap_rece_buf := Some buf\<rparr>)) } }"

definition licence_query :: "soft_env \<Rightarrow> bytes \<Rightarrow> 'a softap_scheme \<Rightarrow> 'a softap_scheme option" where
  "licence_query env v s =
     (if v = ascii ''device'' then ya_factory_response_device_para env s
      else if v = ascii ''cert'' then query_record env ''cert'' YA_LICENSE_DEVICE_CERT_ADDR s
      else if v = ascii ''key'' then query_record env ''key'' YA_LICENSE_DEVICE_RSA_PRIVATE_KEY_ADDR s
      else if v = ascii ''clientid'' then query_record env ''clientid'' YA_LICENSE_DEVICE_ID_ADDR s
      else if v = ascii ''thingtype'' then query_record env ''thingtype'' YA_LICENSE_THING_TYPE_ADDR s
      else if v = ascii ''aliyun'' then ya_response_aliyun_cert env s
      else Some s)"

type_synonym 'a licence_writer = "bytes \<Rightarrow> nat \<Rightarrow> nat \<Rightarrow> 'a \<Rightarrow> ((int \<times> bytes) \<times> 'a) option"

text \<open>A member with a field of the licence is written, if it is there, and the result is sent.\<close>

definition licence_write ::
    "soft_env \<Rightarrow> cJSON \<Rightarrow> string \<Rightarrow> 'a softap_scheme licence_writer \<Rightarrow> nat \<Rightarrow> 'a softap_scheme \<Rightarrow> 'a softap_scheme option" where
  "licence_write env obj key writer addr s =
     (case cJSON_GetObjectItem obj key of None \<Rightarrow> Some s
      | Some j \<Rightarrow> do {
          v \<leftarrow> valuestring j;
          ((ret, _), s) \<leftarrow> writer (v @ [0]) (length v) addr s;
          Some (ya_factory_test_cmd_response env (if ret \<noteq> 0 then ''1'' else ''0'') s) })"

text \<open>The three fields of the triple are collected in the receive buffer; the inner \<open>None\<close> is a missing member.\<close>

fun aliyun_collect :: "cJSON \<Rightarrow> string list \<Rightarrow> bytes \<Rightarrow> nat \<Rightarrow> (bytes \<times> nat option) option" where
  "aliyun_collect obj [] buf pos = Some (buf, Some pos)"
| "aliyun_collect obj (k # ks) buf pos =
     (case cJSON_GetObjectItem obj k of None \<Rightarrow> Some (buf, None)
      | Some j \<Rightarrow> do {
          v \<leftarrow> valuestring j;
          buf \<leftarrow> wr buf pos (of_nat (length v));
          buf \<leftarrow> memcpy_at buf (pos + 1) v;
          aliyun_collect obj ks buf (pos + 1 + length v) })"

definition licence_aliyun :: "soft_env \<Rightarrow> cJSON \<Rightarrow> 'a softap_scheme \<Rightarrow> 'a softap_scheme option" where
  "licence_aliyun env obj s =
     (case cJSON_GetObjectItem obj ''aliyun'' of None \<Rightarrow> Some s
      | Some j \<Rightarrow> do {
          buf \<leftarrow> ya_softap_rece_buf s;
          (buf, r) \<leftarrow> aliyun_collect j [''product_key'', ''device_id'', ''device_secret''] buf 0;
          let s = s\<lparr>ya_softap_rece_buf := Some buf\<rparr>;
          case r of None \<Rightarrow> Some (ya_factory_test_cmd_response env ''1'' s)
          | Some pos \<Rightarrow> do {
              (ret, s) \<leftarrow> ya_write_aliyun_cert buf pos YA_LICENSE_ALIYUUN s;
              Some (ya_factory_test_cmd_response env (if ret \<noteq> 0 then ''1'' else ''0'') s) } })"

definition ya_softap_factory_license_parse :: "soft_env \<Rightarrow> 'a softap_scheme \<Rightarrow> 'a softap_scheme option" where
  "ya_softap_factory_license_parse env s = do {
     buf \<leftarrow> ya_softap_rece_buf s;
     text \<leftarrow> cstr buf;
     case cJSON_Parse (soft_json env) text of None \<Rightarrow> Some s
     | Some obj \<Rightarrow> do {
         s \<leftarrow> (case cJSON_GetObjectItem obj ''query'' of None \<Rightarrow> Some s
               | Some j \<Rightarrow> do {
                   v \<leftarrow> valuestring j;
                   buf \<leftarrow> memset buf 0 SOFTAP_BUF_SIZE;
                   licence_query env v (s\<lparr>ya_softap_rece_buf := Some buf\<rparr>) });
         s \<leftarrow> licence_write env obj ''cert'' (ya_write_check_aws_para_device_cert (crt_check env)) YA_LICENSE_DEVICE_CERT_ADDR s;
         s \<leftarrow> licence_write env obj ''key'' (ya_write_check_aws_para_device_rsa_private_key (pk_check env))
               YA_LICENSE_DEVICE_RSA_PRIVATE_KEY_ADDR s;
         s \<leftarrow> licence_write env obj ''clientid'' ya_write_check_aws_para_device_id YA_LICENSE_DEVICE_ID_ADDR s;
         s \<leftarrow> licence_write env obj ''thingtype'' ya_write_check_aws_para_thing_type YA_LICENSE_THING_TYPE_ADDR s;
         licence_aliyun env obj s } }"

section \<open>Messages\<close>

definition create_aes_key_and_iv :: "crypto \<Rightarrow> 'a softap_scheme \<Rightarrow> 'a softap_scheme option" where
  "create_aes_key_and_iv c s =
     (if init_aes_key_and_iv_flag s = 0 then do {
        name \<leftarrow> cstr (ap_ssid (g_softap_param s));
        tmp \<leftarrow> memcpy_at (replicate 100 0) 0 name;
        tmp \<leftarrow> memcpy_at tmp (length name) AES_KEY_ADD_STRING;
        key \<leftarrow> memset (aes_key s) 0 16;
        n \<leftarrow> strlen tmp;
        (_, key) \<leftarrow> ya_mbedtls_md5 c tmp key n;
        v \<leftarrow> memcpy_at (soft_iv s) 0 key;
        Some (s\<lparr>aes_key := key, soft_iv := v\<rparr>) }
      else if init_aes_key_and_iv_flag s = 1 then do {
        b \<leftarrow> slice (random_data s) 0 16;
        v \<leftarrow> memcpy_at (soft_iv s) 0 b;
        b \<leftarrow> slice (random_data s) 16 16;
        key \<leftarrow> memcpy_at (aes_key s) 0 b;
        Some (s\<lparr>aes_key := key, soft_iv := v\<rparr>) }
      else Some s)"

text \<open>The length of the data is an \<open>uint16_t\<close>.\<close>

definition softap_feedback_encrypt_pack ::
    "crypto \<Rightarrow> u16 \<Rightarrow> bytes \<Rightarrow> 'a softap_scheme \<Rightarrow> (nat \<times> 'a softap_scheme) option" where
  "softap_feedback_encrypt_pack c cmd data s = do {
     let len = length data mod 65536;
     d \<leftarrow> ya_softap_decode_buf s;
     d \<leftarrow> wr d 3 (ucast cmd);
     d \<leftarrow> wr d 4 (ucast (drop_bit 8 cmd));
     (_, digest) \<leftarrow> ya_mbedtls_md5 c data (replicate 16 0) len;
     s \<leftarrow> create_aes_key_and_iv c s;
     (n, d) \<leftarrow> AES_CBC_PKCS5Padding_encrypt c (aes_key s) (soft_iv s) data d SOFTAP_CONFIG_DATA_POS len s;
     d \<leftarrow> wr d 7 (of_nat n);
     d \<leftarrow> wr d 8 (of_nat (n div 256));
     d \<leftarrow> memcpy_at d (SOFTAP_CONFIG_DATA_POS + n) digest;
     Some (n + 25, s\<lparr>ya_softap_decode_buf := Some d\<rparr>) }"

text \<open>Packing an answer and sending it \<open>count\<close> times.\<close>

definition send_packed :: "crypto \<Rightarrow> u16 \<Rightarrow> bytes \<Rightarrow> nat \<Rightarrow> 'a softap_scheme \<Rightarrow> 'a softap_scheme option" where
  "send_packed c cmd data count s = do {
     (n, s) \<leftarrow> softap_feedback_encrypt_pack c cmd data s;
     d \<leftarrow> ya_softap_decode_buf s;
     p \<leftarrow> slice d 0 n;
     Some (s\<lparr>soft_events := soft_events s @ replicate count (SendTo p)\<rparr>) }"

definition ya_softap_random_cmd :: "soft_env \<Rightarrow> 'a softap_scheme \<Rightarrow> (int \<times> 'a softap_scheme) option" where
  "ya_softap_random_cmd env s = do {
     h \<leftarrow> HexArrayToString (random_data s) 32 (replicate 128 0);
     v \<leftarrow> cstr h;
     case cJSON_PrintUnformatted (soft_json env) (jobj [(''Random'', v)]) of None \<Rightarrow> Some (-1, s)
     | Some b \<Rightarrow> do {
         s \<leftarrow> send_packed (soft_crypto env) SOFTAP_CONFIG_CMD_GET_RANDOM_RESPONSE b 1 s;
         Some (0, s) } }"

definition ya_aly_get_client_id :: "'a softap_scheme \<Rightarrow> (bytes option \<times> 'a softap_scheme) option" where
  "ya_aly_get_client_id s = do {
     n \<leftarrow> strlen (aly_device_name s);
     d \<leftarrow> (if n = 0 then map_option snd (ya_get_deviceID (aly_device_name s) s) else Some (aly_device_name s));
     v \<leftarrow> cstr d;
     Some (if v = [] then None else Some v, s\<lparr>aly_device_name := d\<rparr>) }"

definition ya_aly_get_thing_name :: "'a softap_scheme \<Rightarrow> (bytes option \<times> 'a softap_scheme) option" where
  "ya_aly_get_thing_name s = do {
     n \<leftarrow> strlen (aly_product_key s);
     d \<leftarrow> (if n = 0 then map_option snd (ya_get_productKey (aly_product_key s) s) else Some (aly_product_key s));
     v \<leftarrow> cstr d;
     Some (if v = [] then None else Some v, s\<lparr>aly_product_key := d\<rparr>) }"

text \<open>The string in a heap block, if there is one.\<close>

definition block_string :: "bytes option \<Rightarrow> bytes option option" where
  "block_string p = (case p of None \<Rightarrow> Some None | Some b \<Rightarrow> map_option Some (cstr b))"

definition device_names :: "int \<Rightarrow> 'a softap_scheme \<Rightarrow> (bytes option \<times> bytes option \<times> 'a softap_scheme) option" where
  "device_names cloud s =
     (if cloud = uint WIFI_CN then do {
        (pk, s) \<leftarrow> ya_aly_get_thing_name s;
        (ci, s) \<leftarrow> ya_aly_get_client_id s;
        Some (pk, ci, s) }
      else do {
        pk \<leftarrow> block_string (ya_aws_get_thing_type s);
        ci \<leftarrow> block_string (ya_aws_get_client_id s);
        Some (pk, ci, s) })"

text \<open>The part before \<open>out\<close>: the code and the two names.\<close>

definition get_cmd_code :: "cJSON \<Rightarrow> 'a softap_scheme \<Rightarrow> (nat \<times> bytes \<times> bytes \<times> 'a softap_scheme) option" where
  "get_cmd_code obj s = do {
     j \<leftarrow> cJSON_GetObjectItem obj ''CloudType'';
     if jtype j \<noteq> cJSON_String then Some (2, [], [], s)
     else do {
       v \<leftarrow> valuestring j;
       cloud \<leftarrow> atoi v;
       let support = cloud_support_type (g_softap_param s);
       if cloud \<ge> uint WIFI_MAX then Some (2, [], [], s)
       else if ucast support = AKEETA_CN \<and> cloud \<noteq> uint WIFI_CN \<or> ucast support = AKEETA_OVERSEA \<and> cloud = uint WIFI_CN
       then Some (1, [], [], s)
       else do {
         (pk, ci, s) \<leftarrow> device_names cloud s;
         Some (case (pk, ci) of
             (Some pk, Some ci) \<Rightarrow>
               if pk = [] \<or> ci = [] then (1, [], [], s)
               else (0, pk, ci, s\<lparr>ya_router_para := (ya_router_para s)\<lparr>router_cloud_type := word_of_int cloud\<rparr>\<rparr>)
           | _ \<Rightarrow> (1, [], [], s)) } } }"

definition ya_softap_get_cmd :: "soft_env \<Rightarrow> cJSON \<Rightarrow> 'a softap_scheme \<Rightarrow> (int \<times> 'a softap_scheme) option" where
  "ya_softap_get_cmd env obj s = do {
     let cloud = ya_int_to_string (ya_wifiCloud s);
     (ret, pk, ci, s) \<leftarrow> get_cmd_code obj s;
     v \<leftarrow> ya_get_ver_string (replicate 65 0) s;
     ver \<leftarrow> cstr v;
     case cJSON_PrintUnformatted (soft_json env) (jobj [(''Command'', ascii ''Return''), (''DeviceId'', ci), (''ProductKey'', pk),
         (''Code'', if ret = 0 then ascii ''0'' else if ret = 1 then ascii ''1'' else ascii ''2''), (''WiFiCloud'', cloud),
         (''Version'', ver)]) of
       None \<Rightarrow> Some (-1, s)
     | Some b \<Rightarrow> do {
         s \<leftarrow> send_packed (soft_crypto env) SOFTAP_CONFIG_CMD_GET_DEVICE_MSG_RESPONSE b 1 s;
         Some (if ret = 0 then 0 else -1, s) } }"

text \<open>A member that has to be a string of at most \<open>limit\<close> characters.\<close>

definition string_member :: "cJSON \<Rightarrow> string \<Rightarrow> nat \<Rightarrow> bytes option option" where
  "string_member obj key limit =
     (case cJSON_GetObjectItem obj key of None \<Rightarrow> Some None
      | Some j \<Rightarrow>
          if jtype j \<noteq> cJSON_String then Some None
          else do { v \<leftarrow> valuestring j; Some (if length v > limit then None else Some v) })"

definition apconfig_code :: "cJSON \<Rightarrow> 'a softap_scheme \<Rightarrow> (nat \<times> 'a softap_scheme) option" where
  "apconfig_code obj s = do {
     a \<leftarrow> string_member obj ''Ssid'' 32;
     case a of None \<Rightarrow> Some (1, s)
     | Some sd \<Rightarrow> do {
         a \<leftarrow> string_member obj ''Password'' 64;
         case a of None \<Rightarrow> Some (1, s)
         | Some pw \<Rightarrow> do {
             a \<leftarrow> string_member obj ''Bssid'' 12;
             case a of None \<Rightarrow> Some (1, s)
             | Some bs \<Rightarrow> do {
                 a \<leftarrow> string_member obj ''Random'' 32;
                 case a of None \<Rightarrow> Some (1, s)
                 | Some rn \<Rightarrow> do {
                     let p = ya_router_para s;
                     sd \<leftarrow> strcpy (router_ssid p) (sd @ [0]);
                     pw \<leftarrow> strcpy (router_pwd p) (pw @ [0]);
                     (_, bs) \<leftarrow> StringToHexArray (router_bssid p) 6 (bs @ [0]);
                     rn \<leftarrow> strcpy (router_random p) (rn @ [0]);
                     Some (0, s\<lparr>ya_router_para := p\<lparr>router_ssid := sd, router_pwd := pw, router_bssid := bs, router_random := rn\<rparr>\<rparr>) } } } } }"

definition ya_softap_apconfig_cmd :: "soft_env \<Rightarrow> cJSON \<Rightarrow> 'a softap_scheme \<Rightarrow> (int \<times> 'a softap_scheme) option" where
  "ya_softap_apconfig_cmd env obj s = do {
     (code, s) \<leftarrow> apconfig_code obj s;
     case cJSON_PrintUnformatted (soft_json env) (jobj [(''Code'', if code = 0 then ascii ''0'' else ascii ''1'')]) of
       None \<Rightarrow> Some (-1, s)
     | Some b \<Rightarrow> do {
         s \<leftarrow> send_packed (soft_crypto env) SOFTAP_CONFIG_CMD_GET_NET_MSG_RESPONSE b 3 s;
         if code = 0 then do { s \<leftarrow> ya_softap_callback SOFTAP_CONFIG_FINISH (ya_router_para s) s; Some (1, s) }
         else Some (-1, s) } }"

text \<open>
  The comparison of a string with the name of a command: \<^verbatim>\<open>memcmp\<close> over the characters of the name, which have to lie in the
  string with its zero byte.  The command \<open>Get\<close>, of four bytes, is compared with the six of \<open>Random\<close> first.  \<open>ret\<close> is zero when
  there is no command or an unknown one.
\<close>

definition memcmp_name :: "bytes \<Rightarrow> string \<Rightarrow> bool option" where
  "memcmp_name v name = map_option (\<lambda>x. x = ascii name) (slice (v @ [0]) 0 (length name))"

definition softap_command :: "soft_env \<Rightarrow> cJSON \<Rightarrow> 'a softap_scheme \<Rightarrow> (int \<times> 'a softap_scheme) option" where
  "softap_command env obj s =
     (case cJSON_GetObjectItem obj ''Command'' of None \<Rightarrow> Some (0, s)
      | Some j \<Rightarrow> do {
          v \<leftarrow> valuestring j;
          random \<leftarrow> memcmp_name v ''Random'';
          if random then ya_softap_random_cmd env s
          else do {
            get \<leftarrow> memcmp_name v ''Get'';
            if get then ya_softap_get_cmd env obj s
            else do {
              apconfig \<leftarrow> memcmp_name v ''Apconfig'';
              if apconfig then ya_softap_apconfig_cmd env obj s else Some (0, s) } } })"

text \<open>A text that was decrypted, with its digest in the packet.\<close>

definition softap_text :: "soft_env \<Rightarrow> bytes \<Rightarrow> nat \<Rightarrow> nat \<Rightarrow> 'a softap_scheme \<Rightarrow> (int \<times> 'a softap_scheme) option" where
  "softap_text env buffer clen dlen s = do {
     d \<leftarrow> ya_softap_decode_buf s;
     t \<leftarrow> slice d SOFTAP_CONFIG_DATA_POS dlen;
     (_, digest) \<leftarrow> ya_mbedtls_md5 (soft_crypto env) t (replicate 16 0) dlen;
     m \<leftarrow> slice buffer ((SOFTAP_CONFIG_DATA_POS + clen) mod 65536) 16;
     if m \<noteq> digest then Some (-1, s)
     else do {
       d \<leftarrow> wr d (SOFTAP_CONFIG_DATA_POS + dlen) 0;
       t \<leftarrow> cstr (drop SOFTAP_CONFIG_DATA_POS d);
       let s = s\<lparr>ya_softap_decode_buf := Some d\<rparr>;
       case cJSON_Parse (soft_json env) t of None \<Rightarrow> Some (-1, s)
       | Some obj \<Rightarrow> softap_command env obj s } }"

definition ya_softap_comm_parse :: "soft_env \<Rightarrow> bytes \<Rightarrow> 'a softap_scheme \<Rightarrow> (int \<times> 'a softap_scheme) option" where
  "ya_softap_comm_parse env buffer s = do {
     b0 \<leftarrow> rd buffer 0; b1 \<leftarrow> rd buffer 1;
     if b1 \<noteq> 0x5A \<or> b0 \<noteq> 0x5A then Some (-1, s)
     else do {
       d \<leftarrow> ya_softap_decode_buf s;
       d \<leftarrow> memset d 0 SOFTAP_BUF_SIZE;
       b3 \<leftarrow> rd buffer 3; b4 \<leftarrow> rd buffer 4;
       s \<leftarrow> create_aes_key_and_iv (soft_crypto env) (s\<lparr>init_aes_key_and_iv_flag := if le16 b3 b4 = 1 then 0 else 1\<rparr>);
       b7 \<leftarrow> rd buffer 7; b8 \<leftarrow> rd buffer 8;
       let clen = le16 b7 b8;
       h \<leftarrow> slice buffer 0 SOFTAP_CONFIG_DATA_POS;
       d \<leftarrow> memcpy_at d 0 h;
       (dlen, d) \<leftarrow> AES_CBC_PKCS5Padding_decrypt (soft_crypto env) (aes_key s) (soft_iv s) (drop SOFTAP_CONFIG_DATA_POS buffer) d
                      SOFTAP_CONFIG_DATA_POS clen s;
       let s = s\<lparr>ya_softap_decode_buf := Some d\<rparr>;
       if dlen = 0 then do { _ \<leftarrow> slice buffer 0 ((clen + 25) mod 65536); Some (-1, s) }
       else softap_text env buffer clen dlen s } }"

section \<open>The task\<close>

definition softap_set_ap :: "int \<Rightarrow> bytes \<Rightarrow> 'a softap_scheme \<Rightarrow> (int \<times> 'a softap_scheme) option" where
  "softap_set_ap ap_ret rnd s = do {
     ssid \<leftarrow> cstr (ap_ssid (g_softap_param s));
     pwd \<leftarrow> cstr (ap_password (g_softap_param s));
     if length ssid = 0 \<or> length ssid > 32 \<or> length pwd > 64 then Some (-1, s)
     else let s = soft_emit (StartAp ssid pwd) s
       in if ap_ret \<noteq> 0 then Some (C_ERROR, s)
          else do { r \<leftarrow> memcpy_at (random_data s) 0 rnd; Some (C_OK, s\<lparr>random_data := r\<rparr>) } }"

text \<open>What follows \<open>out\<close>.\<close>

definition softap_out :: "'a softap_scheme \<Rightarrow> 'a softap_scheme" where
  "softap_out s = s\<lparr>ya_softap_rece_buf := None, ya_softap_decode_buf := None, soft_ended := True\<rparr>"

definition alloc_buf :: "bytes option \<Rightarrow> 'a softap_scheme \<Rightarrow> bytes option" where
  "alloc_buf p s = (case p of None \<Rightarrow> mem_alloc s SOFTAP_BUF_SIZE | Some b \<Rightarrow> Some b)"

definition license_missing :: "'a softap_scheme \<Rightarrow> bool" where
  "license_missing s =
     (let t = cloud_support_type (g_softap_param s);
          cn = ya_check_cn_license_exit_internal s \<noteq> 0; us = ya_check_us_license_exit_internal s \<noteq> 0
      in if ucast t = AKEETA_CN then cn else if ucast t = AKEETA_OVERSEA then us else cn \<or> us)"

text \<open>The task before its loop; \<open>ap_ret\<close>, \<open>rnd\<close> and \<open>fd\<close> are the answers of the driver, the random generator and the network stack.\<close>

definition softap_begin :: "int \<Rightarrow> bytes \<Rightarrow> int \<Rightarrow> u32 \<Rightarrow> 'a softap_scheme \<Rightarrow> 'a softap_scheme option" where
  "softap_begin ap_ret rnd fd tick s =
     (let s = s\<lparr>enable_license_write := license_missing s\<rparr>
      in do {
        (ret, s) \<leftarrow> softap_set_ap ap_ret rnd s;
        if ret < 0 \<or> fd < 0 then Some (softap_out s)
        else case alloc_buf (ya_softap_rece_buf s) s of None \<Rightarrow> Some (softap_out s)
        | Some r \<Rightarrow> (case alloc_buf (ya_softap_decode_buf s) s of None \<Rightarrow> Some (softap_out s)
            | Some d \<Rightarrow> Some (s\<lparr>ya_softap_rece_buf := Some r, ya_softap_decode_buf := Some d,
                ya_soft_ap_timer := ya_countdown_ms tick (sp_timeout (g_softap_param s) * 1000) (ya_init_timer (ya_soft_ap_timer s)),
                ya_router_para := router_para_zero\<rparr>)) })"

text \<open>What the result of a message leads to.\<close>

definition softap_result :: "int \<Rightarrow> 'a softap_scheme \<Rightarrow> 'a softap_scheme option" where
  "softap_result ret s =
     (if ret = 1 then Some (softap_out s)
      else if ret = -1 then do { s \<leftarrow> ya_softap_callback SOFTAP_ERROR router_para_zero s; Some (softap_out s) }
      else Some s)"

text \<open>One round with the packet that was received, empty when there was none; a longer packet is cut.\<close>

definition softap_turn :: "soft_env \<Rightarrow> u32 \<Rightarrow> bytes \<Rightarrow> 'a softap_scheme \<Rightarrow> 'a softap_scheme option" where
  "softap_turn env tick packet s =
     (if soft_ended s then Some s
      else if ya_has_timer_expired tick (ya_soft_ap_timer s) = 0
      then do { s \<leftarrow> ya_softap_callback SOFTAP_TIME_OUT router_para_zero s; Some (softap_out s) }
      else do {
        buf \<leftarrow> ya_softap_rece_buf s;
        buf \<leftarrow> memset buf 0 SOFTAP_BUF_SIZE;
        let p = take (SOFTAP_BUF_SIZE - 1) packet;
        buf \<leftarrow> memcpy_at buf 0 p;
        let s = s\<lparr>ya_softap_rece_buf := Some buf\<rparr>;
        let factory = (if enable_license_write s then ya_softap_factory_license_parse env s else Some s);
        if length p > 25 then
          if buf ! 1 = 0x5A \<and> buf ! 0 = 0x5A then
            if length p \<ge> le16 (buf ! 7) (buf ! 8) then do {
              (ret, s) \<leftarrow> ya_softap_comm_parse env buf s;
              softap_result ret s }
            else Some s
          else factory
        else factory })"

text \<open>A task exists until it has ended; \<open>thread\<close> says whether a new one can be created.\<close>

definition ya_start_softap :: "softap_param_st \<Rightarrow> bool \<Rightarrow> 'a softap_scheme \<Rightarrow> int \<times> 'a softap_scheme" where
  "ya_start_softap p thread s =
     (let s = s\<lparr>ya_softap_rece_buf := None, ya_softap_decode_buf := None\<rparr>
      in if \<not> soft_ended s then (C_OK, s)
         else let s = s\<lparr>g_softap_param := p\<rparr>
           in if thread then (C_OK, s\<lparr>soft_ended := False\<rparr>) else (C_ERROR, s))"

text \<open>The parameters the main task starts the access point with (\<^verbatim>\<open>ya_app_main.c\<close>); \<open>%02X\<close> prints two digits.\<close>

definition ya_app_ap_start_para_init :: "bytes \<Rightarrow> ya_app_main_para_t \<Rightarrow> softap_param_st option" where
  "ya_app_ap_start_para_init device_mac para = do {
     m4 \<leftarrow> rd device_mac 4;
     m5 \<leftarrow> rd device_mac 5;
     name \<leftarrow> memcpy_at (replicate 33 0) 0 (ascii ''ARGRACE_01'' @ hex2 m4 @ hex2 m5);
     Some \<lparr>sp_timeout = ap_timeout para, ap_ssid = name, ap_password = replicate 65 0, cloud_support_type = ucast (cloud_type para)\<rparr> }"

section \<open>What holds while the task runs\<close>

definition short_string :: "bytes \<Rightarrow> nat \<Rightarrow> bool" where
  "short_string b n \<longleftrightarrow> (case cstr b of None \<Rightarrow> False | Some v \<Rightarrow> length v \<le> n)"

definition router_fit :: "ya_ap_router_para_t \<Rightarrow> bool" where
  "router_fit p \<longleftrightarrow> softap_ok p \<and> length (router_ssid p) = 33 \<and> length (router_pwd p) = 65"

definition names_ok :: "'a softap_scheme \<Rightarrow> bool" where
  "names_ok s \<longleftrightarrow> length (aly_product_key s) = 21 \<and> 0 \<in> set (aly_product_key s) \<and> length (aly_device_name s) = 33 \<and>
     0 \<in> set (aly_device_name s) \<and> (\<forall>b. aliyun_productkey s = Some b \<longrightarrow> short_string b 20) \<and>
     (\<forall>b. aliyun_deviceid s = Some b \<longrightarrow> short_string b 32) \<and>
     (\<forall>b. aws_thing_type s = Some b \<longrightarrow> short_string b 64) \<and> (\<forall>b. aws_client_id s = Some b \<longrightarrow> short_string b 64) \<and> short_string (cur_version (ya_app_main_para_obj s)) 64"

definition buffers :: "'a softap_scheme \<Rightarrow> bytes \<Rightarrow> bytes \<Rightarrow> bool" where
  "buffers s r d \<longleftrightarrow> ya_softap_rece_buf s = Some r \<and> length r = 2048 \<and> ya_softap_decode_buf s = Some d \<and> length d = 2048"

definition soft_inv :: "'a softap_scheme \<Rightarrow> bool" where
  "soft_inv s \<longleftrightarrow> app_inv s \<and> (\<not> soft_ended s \<longrightarrow> (\<exists>r d. buffers s r d)) \<and> length (aes_key s) = 16 \<and> length (soft_iv s) = 16 \<and>
     length (random_data s) = 32 \<and> short_string (ap_ssid (g_softap_param s)) 32 \<and> router_fit (ya_router_para s) \<and> names_ok s"

lemma app_inv_soft [simp]:
  "app_inv (s\<lparr>g_softap_param := x1\<rparr>) = app_inv s" "app_inv (s\<lparr>ya_router_para := x2\<rparr>) = app_inv s"
  "app_inv (s\<lparr>ya_softap_decode_buf := x3\<rparr>) = app_inv s" "app_inv (s\<lparr>ya_softap_rece_buf := x3\<rparr>) = app_inv s"
  "app_inv (s\<lparr>aes_key := x4\<rparr>) = app_inv s" "app_inv (s\<lparr>soft_iv := x4\<rparr>) = app_inv s" "app_inv (s\<lparr>random_data := x4\<rparr>) = app_inv s"
  "app_inv (s\<lparr>init_aes_key_and_iv_flag := x5\<rparr>) = app_inv s" "app_inv (s\<lparr>aly_product_key := x4\<rparr>) = app_inv s"
  "app_inv (s\<lparr>aly_device_name := x4\<rparr>) = app_inv s" "app_inv (s\<lparr>enable_license_write := x6\<rparr>) = app_inv s"
  "app_inv (s\<lparr>ya_soft_ap_timer := x7\<rparr>) = app_inv s" "app_inv (s\<lparr>soft_events := x8\<rparr>) = app_inv s"
  "app_inv (s\<lparr>soft_ended := x6\<rparr>) = app_inv s"
  by (rule app_inv_cong; simp add: board_of_def board.truncate_def)+

lemma soft_invD:
  assumes "soft_inv s"
  shows "app_inv s" "board_ok s" "length (aes_key s) = 16" "length (soft_iv s) = 16" "length (random_data s) = 32"
    "short_string (ap_ssid (g_softap_param s)) 32" "router_fit (ya_router_para s)" "names_ok s"
  using assms app_invD(1) [of s] by (simp_all add: soft_inv_def)

lemma short_stringE:
  assumes "short_string b n"
  obtains v where "cstr b = Some v" and "length v \<le> n" and "0 \<notin> set v"
  using assms cstr_SomeD(1) [of b] by (auto simp: short_string_def split: option.splits)

section \<open>Keys\<close>

text \<open>Key and initial vector of a message: from the name of the network for the first command, from the random bytes otherwise.\<close>

definition session_key :: "crypto \<Rightarrow> u8 \<Rightarrow> 'a softap_scheme \<Rightarrow> bytes \<times> bytes" where
  "session_key c flag s =
     (if flag = 0 then let k = md5 c (the (cstr (ap_ssid (g_softap_param s))) @ AES_KEY_ADD_STRING) in (k, k)
      else (drop 16 (random_data s), take 16 (random_data s)))"

lemma add_string: "0 \<notin> set AES_KEY_ADD_STRING" "length AES_KEY_ADD_STRING = 8"
  by (simp_all add: AES_KEY_ADD_STRING_def ascii_def)

lemma session_key_length:
  assumes "soft_inv s" and "crypto_ok c"
  shows "length (fst (session_key c f s)) = 16" and "length (snd (session_key c f s)) = 16"
  using assms by (simp_all add: session_key_def Let_def crypto_ok_def soft_inv_def)

lemma create_key:
  assumes "soft_inv s" and "crypto_ok c" and "init_aes_key_and_iv_flag s = 0 \<or> init_aes_key_and_iv_flag s = 1"
  shows "create_aes_key_and_iv c s =
    Some (s\<lparr>aes_key := fst (session_key c (init_aes_key_and_iv_flag s) s), soft_iv := snd (session_key c (init_aes_key_and_iv_flag s) s)\<rparr>)"
proof (cases "init_aes_key_and_iv_flag s = 0")
  case True
  note d = soft_invD [OF assms(1)]
  obtain v where v: "cstr (ap_ssid (g_softap_param s)) = Some v" "length v \<le> 32" "0 \<notin> set v" using d(6) by (rule short_stringE)
  let ?t = "v @ AES_KEY_ADD_STRING @ replicate (92 - length v) 0"
  have 1: "memcpy_at (replicate 100 0) 0 v = Some (v @ replicate (100 - length v) 0)" using v(2) by (simp add: memcpy_at_def)
  have 2: "memcpy_at (v @ replicate (100 - length v) 0) (length v) AES_KEY_ADD_STRING = Some ?t"
    using v(2) add_string(2) by (simp add: memcpy_at_def)
  have "replicate (92 - length v) (0 :: u8) = 0 # replicate (91 - length v) 0" using v(2) by (simp flip: replicate_Suc add: Suc_diff_le)
  then have "?t = (v @ AES_KEY_ADD_STRING) @ 0 # replicate (91 - length v) 0" by simp
  then have "cstr ?t = Some (v @ AES_KEY_ADD_STRING)" using cstr_append_nul [of "v @ AES_KEY_ADD_STRING"] v(3) add_string(1) by auto
  then have 3: "strlen ?t = Some (length v + 8)" using add_string(2) by (simp add: strlen_def)
  have 4: "memset (aes_key s) 0 16 = Some (replicate 16 0)" using d(3) by (simp add: memset_def memcpy_at_def)
  have m: "length (md5 c (v @ AES_KEY_ADD_STRING)) = 16" using assms(2) by (simp add: crypto_ok_def)
  have 5: "ya_mbedtls_md5 c ?t (replicate 16 0) (length v + 8) = Some (0, md5 c (v @ AES_KEY_ADD_STRING))"
    using v(2) m add_string(2) by (simp add: ya_mbedtls_md5_def slice_def memcpy_at_def)
  have 6: "memcpy_at (soft_iv s) 0 (md5 c (v @ AES_KEY_ADD_STRING)) = Some (md5 c (v @ AES_KEY_ADD_STRING))"
    using d(4) m by (simp add: memcpy_at_def)
  show ?thesis
    using True v(1) by (simp add: create_aes_key_and_iv_def session_key_def Let_def 1 2 3 4 5 6)
next
  case False
  then have f: "init_aes_key_and_iv_flag s = 1" using assms(3) by simp
  note d = soft_invD [OF assms(1)]
  show ?thesis using f d(3-5) by (simp add: create_aes_key_and_iv_def session_key_def slice_def memcpy_at_def)
qed

section \<open>Messages in both directions\<close>

text \<open>A packet: header, cipher text and digest; \<open>padded n\<close> is the length of the cipher text for a text of length \<open>n\<close>.\<close>

definition padded :: "nat \<Rightarrow> nat" where
  "padded n = (n div 16 + 1) * 16"

definition packet :: "crypto \<Rightarrow> bytes \<times> bytes \<Rightarrow> bytes \<Rightarrow> bytes \<Rightarrow> bytes" where
  "packet c kv h text = h @ cbc_encrypt (aes_enc c (fst kv)) (snd kv) (pkcs5 text) @ md5 c text"

definition header_ok :: "bytes \<Rightarrow> nat \<Rightarrow> bool" where
  "header_ok h n \<longleftrightarrow> length h = 9 \<and> h ! 0 = 0x5A \<and> h ! 1 = 0x5A \<and> le16 (h ! 7) (h ! 8) = padded n"

definition header_flag :: "bytes \<Rightarrow> u8" where
  "header_flag h = (if le16 (h ! 3) (h ! 4) = 1 then 0 else 1)"

lemma padded_bounds: "n < padded n" "padded n \<le> n + 16"
proof -
  obtain q r where "n = 16 * q + r" "r < 16" "n div 16 = q" "n mod 16 = r"
    by (rule div_mod_split [of 16 n]) simp
  then show "n < padded n" "padded n \<le> n + 16" by (simp_all add: padded_def)
qed

lemma packet_length:
  assumes "crypto_ok c" and "length (snd kv) = 16"
  shows "length (cbc_encrypt (aes_enc c (fst kv)) (snd kv) (pkcs5 text)) = padded (length text)"
  using cbc_inverse [of "aes_enc c (fst kv)" "aes_dec c (fst kv)" "snd kv" "pkcs5 text" "length text div 16 + 1"] assms
  by (simp add: crypto_ok_def pkcs5_length padded_def)

text \<open>A packet with the right key reaches the command in its text.\<close>

lemma comm_parse_message:
  assumes "soft_inv s" and "crypto_ok (soft_crypto env)" and "buffers s r d0" and "header_ok h (length text)"
    and "text \<noteq> []" and "0 \<notin> set text" and "length text \<le> 2000"
    and "buffer = packet (soft_crypto env) (session_key (soft_crypto env) (header_flag h) s) h text @ rest"
    and "cJSON_Parse (soft_json env) text = Some obj"
  shows "\<exists>d. length d = 2048 \<and> ya_softap_comm_parse env buffer s = softap_command env obj
    (s\<lparr>init_aes_key_and_iv_flag := header_flag h, aes_key := fst (session_key (soft_crypto env) (header_flag h) s),
       soft_iv := snd (session_key (soft_crypto env) (header_flag h) s), ya_softap_decode_buf := Some d\<rparr>)"
proof -
  let ?c = "soft_crypto env" and ?f = "header_flag h"
  define kv where "kv = session_key ?c ?f s"
  define s1 where "s1 = s\<lparr>init_aes_key_and_iv_flag := ?f\<rparr>"
  define s2 where "s2 = s1\<lparr>aes_key := fst kv, soft_iv := snd kv\<rparr>"
  have s1: "soft_inv s1" using assms(1) by (simp add: soft_inv_def s1_def buffers_def names_ok_def)
  have "session_key ?c ?f s1 = kv" by (simp add: session_key_def kv_def s1_def)
  moreover have "?f = 0 \<or> ?f = 1" by (simp add: header_flag_def)
  ultimately have ck: "create_aes_key_and_iv ?c s1 = Some s2"
    using create_key [OF s1 assms(2)] by (simp add: s1_def s2_def)
  have iv: "length (snd kv) = 16" using session_key_length(2) [OF assms(1,2)] by (simp add: kv_def)
  let ?e = "cbc_encrypt (aes_enc ?c (fst kv)) (snd kv) (pkcs5 text)" and ?n = "padded (length text)"
  have le: "length ?e = ?n" using packet_length [OF assms(2) iv] .
  have h: "length h = 9" "h ! 0 = 0x5A" "h ! 1 = 0x5A" "le16 (h ! 7) (h ! 8) = ?n" using assms(4) by (simp_all add: header_ok_def)
  have b: "buffer = h @ ?e @ md5 ?c text @ rest" using assms(8) by (simp add: packet_def kv_def)
  have lb: "9 + ?n + 16 \<le> length buffer" using h(1) le assms(2) by (simp add: b crypto_ok_def)
  have rd: "rd buffer i = Some (h ! i)" if "i < 9" for i using that h(1) by (simp add: b rd_def nth_append)
  have n: "length text < ?n" "?n \<le> 2016" using padded_bounds [of "length text"] assms(7) by (simp_all add: padded_def)
  let ?d1 = "h @ replicate 2039 0"
  have d1: "memset d0 0 SOFTAP_BUF_SIZE = Some (replicate 2048 0)" "memcpy_at (replicate 2048 0) 0 h = Some ?d1"
    using assms(3) h(1) by (simp_all add: buffers_def memset_def memcpy_at_def SOFTAP_BUF_SIZE_def)
  let ?d2 = "h @ pkcs5 text @ replicate (2039 - ?n) 0"
  have bo: "board_ok s2" using soft_invD(2) [OF s1] app_invD(1) [of s2] soft_invD(1) [OF s1] by (simp add: s2_def)
  have "AES_CBC_PKCS5Padding_decrypt ?c (fst kv) (snd kv) (?e @ md5 ?c text @ rest) ?d1 9 ?n s2 = Some (length text, ?d2)"
    using cbc_decrypt_unpads [OF assms(2) bo iv, of 9 "text" ?d1 "fst kv" "md5 ?c text @ rest"] h(1) n(2) by (simp add: padded_def)
  then have dec: "AES_CBC_PKCS5Padding_decrypt ?c (aes_key s2) (soft_iv s2) (drop 9 buffer) ?d1 9 ?n s2 = Some (length text, ?d2)"
    using h(1) by (simp add: b s2_def)
  have pk: "pkcs5 text = text @ replicate (16 - length text mod 16) (of_nat (16 - length text mod 16))" "length (pkcs5 text) = ?n"
    using pkcs5_length [of "text"] by (simp_all add: padded_def) (simp add: pkcs5_def Let_def)
  define d3 where "d3 = ?d2[9 + length text := 0]"
  have len: "length ?d2 = 2048" using h(1) pk(2) n(2) by simp
  have t0: "slice buffer 0 9 = Some h" using h(1) by (simp add: b slice_def)
  have t1: "slice ?d2 9 (length text) = Some text" using h(1) by (simp add: slice_def pk(1))
  have t2: "ya_mbedtls_md5 ?c text (replicate 16 0) (length text) = Some (0, md5 ?c text)"
    using assms(2,5) by (simp add: ya_mbedtls_md5_def slice_def memcpy_at_def crypto_ok_def)
  have t3: "slice buffer ((9 + ?n) mod 65536) 16 = Some (md5 ?c text)"
    using lb h(1) le n(2) assms(2) by (simp add: slice_def b crypto_ok_def)
  have t4: "wr ?d2 (9 + length text) 0 = Some d3" using len n by (simp add: wr_def d3_def)
  have "drop 9 d3 = (pkcs5 text @ replicate (2039 - ?n) 0)[length text := 0]" using h(1) by (simp add: d3_def list_update_append)
  also have "\<dots> = (pkcs5 text)[length text := 0] @ replicate (2039 - ?n) 0" using pk(2) n(1) by (simp add: list_update_append)
  also have "(pkcs5 text)[length text := 0] = text @ (replicate (16 - length text mod 16) (of_nat (16 - length text mod 16)))[0 := 0]"
    by (simp add: pk(1) list_update_append)
  finally have t5: "cstr (drop 9 d3) = Some text"
    using cstr_append_nul [of "text"] assms(6) by (cases "16 - length text mod 16") (auto simp: not_le)
  have "length d3 = 2048" using len by (simp add: d3_def)
  moreover have "ya_softap_comm_parse env buffer s = softap_command env obj (s2\<lparr>ya_softap_decode_buf := Some d3\<rparr>)"
    using assms(3,5,9) h rd d1 dec t0 t1 t2 t3 t4 t5 ck
    unfolding ya_softap_comm_parse_def softap_text_def SOFTAP_CONFIG_DATA_POS_def s1_def header_flag_def
    by (simp add: buffers_def)
  ultimately show ?thesis by (auto simp: s2_def s1_def kv_def)
qed

lemma le16_word: "le16 (ucast (w :: u16)) (ucast (drop_bit 8 w)) = unat w"
proof -
  have lo: "unat (ucast w :: u8) = unat w mod 256" by (simp add: unsigned_ucast_eq take_bit_eq_mod)
  have "unat (drop_bit 8 w) = unat w div 256" by (simp add: drop_bit_eq_div unat_div)
  moreover have "unat w < 65536" using unsigned_less [where ?'a = nat, of w] by simp
  ultimately have "unat (ucast (drop_bit 8 w) :: u8) = unat w div 256"
    by (simp add: unsigned_ucast_eq take_bit_eq_mod)
  with lo show ?thesis by (simp add: le16_def)
qed

text \<open>An answer is a packet with the key of the question.\<close>

lemma send_packed_run:
  assumes "soft_inv s" and "crypto_ok c" and "init_aes_key_and_iv_flag s = 0 \<or> init_aes_key_and_iv_flag s = 1"
    and "ya_softap_decode_buf s = Some d" and "length d = 2048" and "data \<noteq> []" and "length data \<le> 2000"
    and "kv = session_key c (init_aes_key_and_iv_flag s) s"
  shows "\<exists>d' h. send_packed c cmd data n s = Some (s\<lparr>aes_key := fst kv, soft_iv := snd kv, ya_softap_decode_buf := Some d',
      soft_events := soft_events s @ replicate n (SendTo (packet c kv h data))\<rparr>) \<and> length d' = 2048 \<and> length h = 9 \<and>
    h ! 0 = d ! 0 \<and> h ! 1 = d ! 1 \<and> le16 (h ! 3) (h ! 4) = unat cmd \<and> le16 (h ! 7) (h ! 8) = padded (length data)"
proof -
  define s1 where "s1 = s\<lparr>aes_key := fst kv, soft_iv := snd kv\<rparr>"
  have ck: "create_aes_key_and_iv c s = Some s1" using create_key [OF assms(1-3)] assms(8) by (simp add: s1_def)
  have iv: "length (snd kv) = 16" using session_key_length(2) [OF assms(1,2)] assms(8) by simp
  have bo: "board_ok s1" using app_invD(1) [of s1] soft_invD(1) [OF assms(1)] by (simp add: s1_def)
  let ?n = "padded (length data)" and ?e = "cbc_encrypt (aes_enc c (fst kv)) (snd kv) (pkcs5 data)" and ?m = "md5 c data"
  have n: "?n \<le> 2016" using padded_bounds [of "length data"] assms(7) by simp
  have le: "length ?e = ?n" using packet_length [OF assms(2) iv] .
  have lm: "length ?m = 16" using assms(2) by (simp add: crypto_ok_def)
  let ?d1 = "d[3 := ucast cmd, 4 := ucast (drop_bit 8 cmd)]"
  let ?d2 = "take 9 ?d1 @ ?e @ drop (9 + ?n) ?d1"
  let ?h = "(take 9 ?d1)[7 := of_nat ?n, 8 := of_nat (?n div 256)]"
  let ?d4 = "?h @ ?e @ ?m @ drop (25 + ?n) ?d1"
  have len: "length data mod 65536 = length data" using assms(7) by simp
  have w: "wr d 3 (ucast cmd) = Some (d[3 := ucast cmd])" "wr (d[3 := ucast cmd]) 4 (ucast (drop_bit 8 cmd)) = Some ?d1"
    using assms(5) by (simp_all add: wr_def)
  have md: "ya_mbedtls_md5 c data (replicate 16 0) (length data) = Some (0, ?m)"
    using assms(6) lm by (simp add: ya_mbedtls_md5_def slice_def memcpy_at_def)
  have en: "AES_CBC_PKCS5Padding_encrypt c (aes_key s1) (soft_iv s1) data ?d1 9 (length data) s1 = Some (?n, ?d2)"
    using cbc_encrypt_pads(1) [OF assms(2) bo iv, of 9 data ?d1 "fst kv"] n assms(5) by (simp add: padded_def s1_def)
  have w2: "wr ?d2 7 (of_nat ?n) = Some ((take 9 ?d1)[7 := of_nat ?n] @ ?e @ drop (9 + ?n) ?d1)"
    using assms(5) by (simp add: wr_def list_update_append)
  have w3: "wr ((take 9 ?d1)[7 := of_nat ?n] @ ?e @ drop (9 + ?n) ?d1) 8 (of_nat (?n div 256)) = Some (?h @ ?e @ drop (9 + ?n) ?d1)"
    using assms(5) by (simp add: wr_def list_update_append)
  have cp: "memcpy_at (?h @ ?e @ drop (9 + ?n) ?d1) (9 + ?n) ?m = Some ?d4"
    using assms(5) n le lm by (simp add: memcpy_at_def)
  have pk: "softap_feedback_encrypt_pack c cmd data s = Some (?n + 25, s1\<lparr>ya_softap_decode_buf := Some ?d4\<rparr>)"
    unfolding softap_feedback_encrypt_pack_def Let_def len assms(4) SOFTAP_CONFIG_DATA_POS_def
    by (simp only: w md ck en w2 w3 cp Option.bind.bind_lunit case_prod_conv)
  have "slice ?d4 0 (?n + 25) = Some (?h @ ?e @ ?m)" using assms(5) n le lm by (simp add: slice_def)
  then have "send_packed c cmd data n s = Some (s\<lparr>aes_key := fst kv, soft_iv := snd kv, ya_softap_decode_buf := Some ?d4,
      soft_events := soft_events s @ replicate n (SendTo (packet c kv ?h data))\<rparr>)"
    by (simp add: send_packed_def pk packet_def s1_def)
  moreover have "length ?d4 = 2048" using assms(5) n le lm by simp
  moreover have "length ?h = 9" "?h ! 0 = d ! 0" "?h ! 1 = d ! 1" using assms(5) by simp_all
  moreover have "?h ! 3 = ucast cmd" "?h ! 4 = ucast (drop_bit 8 cmd)" "?h ! 7 = of_nat ?n" "?h ! 8 = of_nat (?n div 256)"
    using assms(5) by simp_all
  then have "le16 (?h ! 3) (?h ! 4) = unat cmd" "le16 (?h ! 7) (?h ! 8) = ?n" using n le16_of_nat [of ?n] le16_word [of cmd] by simp_all
  ultimately show ?thesis by blast
qed

section \<open>The commands\<close>

definition hex_text :: "bytes \<Rightarrow> bytes" where
  "hex_text bs = concat (map hex2 bs)"

lemma random_cmd_run:
  assumes "soft_inv s" and "crypto_ok (soft_crypto env)" and "init_aes_key_and_iv_flag s = 0 \<or> init_aes_key_and_iv_flag s = 1"
    and "ya_softap_decode_buf s = Some d" and "length d = 2048"
    and "cJSON_PrintUnformatted (soft_json env) (jobj [(''Random'', hex_text (random_data s))]) = Some b" and "b \<noteq> []" and "length b \<le> 2000"
    and "kv = session_key (soft_crypto env) (init_aes_key_and_iv_flag s) s"
  shows "\<exists>d' h. ya_softap_random_cmd env s = Some (0, s\<lparr>aes_key := fst kv, soft_iv := snd kv, ya_softap_decode_buf := Some d',
      soft_events := soft_events s @ [SendTo (packet (soft_crypto env) kv h b)]\<rparr>) \<and> length d' = 2048 \<and> length h = 9 \<and>
    h ! 0 = d ! 0 \<and> h ! 1 = d ! 1 \<and> le16 (h ! 3) (h ! 4) = 0x8001 \<and> le16 (h ! 7) (h ! 8) = padded (length b)"
proof -
  have l: "length (random_data s) = 32" using soft_invD(5) [OF assms(1)] .
  have h: "HexArrayToString (random_data s) 32 (replicate 128 0) = Some (hex_text (random_data s) @ 0 # replicate 63 0)"
    using hex_write [of 32 "random_data s" "replicate 128 0"] l by (simp add: hex_text_def)
  have v: "cstr (hex_text (random_data s) @ 0 # replicate 63 0) = Some (hex_text (random_data s))"
    unfolding hex_text_def by (rule cstr_append_nul [OF hex2_nonzero])
  have w: "unat SOFTAP_CONFIG_CMD_GET_RANDOM_RESPONSE = 0x8001" by (simp add: SOFTAP_CONFIG_CMD_GET_RANDOM_RESPONSE_def)
  obtain d' hd where "send_packed (soft_crypto env) SOFTAP_CONFIG_CMD_GET_RANDOM_RESPONSE b 1 s = Some (s\<lparr>aes_key := fst kv, soft_iv := snd kv,
      ya_softap_decode_buf := Some d', soft_events := soft_events s @ [SendTo (packet (soft_crypto env) kv hd b)]\<rparr>)"
    "length d' = 2048" "length hd = 9" "hd ! 0 = d ! 0" "hd ! 1 = d ! 1" "le16 (hd ! 3) (hd ! 4) = 0x8001" "le16 (hd ! 7) (hd ! 8) = padded (length b)"
    using send_packed_run [OF assms(1-5) assms(7-9), of SOFTAP_CONFIG_CMD_GET_RANDOM_RESPONSE 1] w by auto
  then show ?thesis by (intro exI [of _ d'] exI [of _ hd]) (simp add: ya_softap_random_cmd_def h v assms(6))
qed

text \<open>A string member.\<close>

lemma string_member_found:
  "cJSON_GetObjectItem obj k = Some (Node cJSON_String n (Some v) cs) \<Longrightarrow> length v \<le> limit \<Longrightarrow> string_member obj k limit = Some (Some v)"
  by (simp add: string_member_def)

definition member_is :: "cJSON \<Rightarrow> string \<Rightarrow> bytes \<Rightarrow> bool" where
  "member_is obj k v \<longleftrightarrow> (case cJSON_GetObjectItem obj k of None \<Rightarrow> False | Some j \<Rightarrow> jtype j = cJSON_String \<and> valuestring j = Some v) \<and>
     0 \<notin> set v"

lemma member_isD: "member_is obj k v \<Longrightarrow> length v \<le> limit \<Longrightarrow> string_member obj k limit = Some (Some v)" "member_is obj k v \<Longrightarrow> 0 \<notin> set v"
  by (auto simp: member_is_def string_member_def split: option.splits)

lemma strcpy_text:
  assumes "0 \<notin> set v" and "length v < length dst"
  shows "strcpy dst (v @ [0]) = Some (v @ 0 # drop (Suc (length v)) dst)"
  unfolding strcpy_Some using cstr_append_nul [OF assms(1), of "[]"] assms(2) by auto

lemma unhex_text:
  assumes "length bs = 6" and "length dst = 6"
  shows "StringToHexArray dst 6 (hex_text bs @ [0]) = Some (6, bs)"
proof -
  have "cstr (hex_text bs @ [0]) = Some (hex_text bs)" unfolding hex_text_def by (rule cstr_append_nul [OF hex2_nonzero])
  moreover have "unhex_loop (hex_text bs) 0 0 dst = Some (6, bs)"
    using unhex_loop_run [of "[]" 0 bs dst] assms by (simp add: hex_text_def)
  ultimately show ?thesis using assms(1) by (simp add: StringToHexArray_def hex_text_def)
qed

definition phone_router :: "bytes \<Rightarrow> bytes \<Rightarrow> bytes \<Rightarrow> bytes \<Rightarrow> ya_ap_router_para_t \<Rightarrow> ya_ap_router_para_t" where
  "phone_router sd pw bs rn p = p\<lparr>router_ssid := sd @ 0 # drop (Suc (length sd)) (router_ssid p),
     router_pwd := pw @ 0 # drop (Suc (length pw)) (router_pwd p), router_bssid := bs,
     router_random := rn @ 0 # drop (Suc (length rn)) (router_random p)\<rparr>"

lemma apconfig_code_run:
  assumes "router_fit (ya_router_para s)" and "member_is obj ''Ssid'' sd" and "member_is obj ''Password'' pw"
    and "member_is obj ''Bssid'' (hex_text bs)" and "member_is obj ''Random'' rn"
    and "length sd \<le> 32" and "length pw \<le> 64" and "length bs = 6" and "length rn \<le> 32"
  shows "apconfig_code obj s = Some (0, s\<lparr>ya_router_para := phone_router sd pw bs rn (ya_router_para s)\<rparr>)"
    and "router_fit (phone_router sd pw bs rn (ya_router_para s))"
proof -
  let ?p = "ya_router_para s"
  have p: "length (router_ssid ?p) = 33" "length (router_pwd ?p) = 65" "length (router_bssid ?p) = 6" "length (router_random ?p) = 33"
    using assms(1) by (simp_all add: router_fit_def softap_ok_def)
  have lb: "length (hex_text bs) \<le> 12" using assms(8) by (simp add: hex_text_def)
  note m = member_isD(1) [OF assms(2,6)] member_isD(1) [OF assms(3,7)] member_isD(1) [OF assms(4) lb] member_isD(1) [OF assms(5,9)]
  have c: "strcpy (router_ssid ?p) (sd @ [0]) = Some (sd @ 0 # drop (Suc (length sd)) (router_ssid ?p))"
    "strcpy (router_pwd ?p) (pw @ [0]) = Some (pw @ 0 # drop (Suc (length pw)) (router_pwd ?p))"
    "strcpy (router_random ?p) (rn @ [0]) = Some (rn @ 0 # drop (Suc (length rn)) (router_random ?p))"
    using strcpy_text member_isD(2) [OF assms(2)] member_isD(2) [OF assms(3)] member_isD(2) [OF assms(5)] p assms(6,7,9) by simp_all
  note u = unhex_text [OF assms(8) p(3)]
  show "apconfig_code obj s = Some (0, s\<lparr>ya_router_para := phone_router sd pw bs rn ?p\<rparr>)"
    by (simp add: apconfig_code_def m c u Let_def phone_router_def)
  show "router_fit (phone_router sd pw bs rn ?p)" using p assms(6-9) by (simp add: router_fit_def softap_ok_def phone_router_def)
qed

text \<open>The callback of the main task leaves the members of the pairing task and the names alone.\<close>

definition soft_frame :: "'a softap_scheme \<Rightarrow> 'a softap_scheme \<Rightarrow> bool" where
  "soft_frame s t \<longleftrightarrow> app.more t = app.more s \<and> aliyun_productkey t = aliyun_productkey s \<and> aliyun_deviceid t = aliyun_deviceid s \<and>
     aws_thing_type t = aws_thing_type s \<and> aws_client_id t = aws_client_id s \<and> ya_app_main_para_obj t = ya_app_main_para_obj s"

lemma more_fields:
  assumes "app.more t = app.more s"
  shows "g_softap_param t = g_softap_param s" "ya_router_para t = ya_router_para s" "ya_softap_decode_buf t = ya_softap_decode_buf s"
    "ya_softap_rece_buf t = ya_softap_rece_buf s" "aes_key t = aes_key s" "soft_iv t = soft_iv s" "random_data t = random_data s"
    "init_aes_key_and_iv_flag t = init_aes_key_and_iv_flag s" "aly_product_key t = aly_product_key s" "aly_device_name t = aly_device_name s"
    "enable_license_write t = enable_license_write s" "ya_soft_ap_timer t = ya_soft_ap_timer s" "soft_events t = soft_events s"
    "soft_ended t = soft_ended s"
  using assms by (cases s rule: softap.cases_scheme; cases t rule: softap.cases_scheme; simp)+

lemma paired_frame: "paired sd pw bs ct rnd s = Some t \<Longrightarrow> soft_frame s t"
  by (auto simp: paired_def bind_eq_Some_conv Let_def soft_frame_def)

lemma soft_frame_send: "soft_frame s t \<Longrightarrow> soft_frame s (snd (queue_send m t))"
  by (simp add: queue_send_def soft_frame_def)

lemma soft_frame_refl [simp]: "soft_frame s s"
  by (simp add: soft_frame_def)

lemma callback_frame: "ya_softap_callback c p s = Some t \<Longrightarrow> soft_frame s t"
  by (auto simp: ya_softap_callback_def bind_eq_Some_conv intro: soft_frame_send dest: paired_frame split: if_splits)

lemma soft_inv_frame: "soft_inv s \<Longrightarrow> soft_frame s t \<Longrightarrow> app_inv t \<Longrightarrow> soft_inv t"
  using more_fields [of t s] by (simp add: soft_inv_def soft_frame_def names_ok_def buffers_def)

section \<open>Pairing\<close>

text \<open>The pairing of a phone as a result of the kind the main task stores.\<close>

definition phone_pairing :: "bytes \<Rightarrow> bytes \<Rightarrow> bytes \<Rightarrow> u8 \<Rightarrow> smnt_result_t" where
  "phone_pairing sd pw bs ct = \<lparr>smnt_result_status = smnt_result_ok, sm_ssid_len = of_nat (length sd), sm_password_len = of_nat (length pw),
     sm_ssid = sd @ replicate (33 - length sd) 0, sm_password = pw @ replicate (65 - length pw) 0, sm_bssid = bs, sm_cloud_select = ct,
     sm_rand = replicate 33 0\<rparr>"

lemma phone_pairing_good:
  assumes "sd \<noteq> []" and "0 \<notin> set sd" and "length sd \<le> 32" and "length pw \<le> 64" and "length bs = 6"
  shows "pairing_good (phone_pairing sd pw bs ct)" and "pairing_user (phone_pairing sd pw bs ct) = paired_user sd pw bs ct"
    and "pairing_ssid (phone_pairing sd pw bs ct) = sd" and "pairing_pwd (phone_pairing sd pw bs ct) = pw"
proof -
  have u: "unat (of_nat (length sd) :: u8) = length sd" "unat (of_nat (length pw) :: u8) = length pw"
    using assms(3,4) by (simp_all add: unat_of_nat_u8)
  show s: "pairing_ssid (phone_pairing sd pw bs ct) = sd" "pairing_pwd (phone_pairing sd pw bs ct) = pw"
    using u by (simp_all add: pairing_ssid_def pairing_pwd_def phone_pairing_def)
  then show "pairing_user (phone_pairing sd pw bs ct) = paired_user sd pw bs ct" by (simp add: pairing_user_def phone_pairing_def)
  have "(of_nat (length sd) :: u8) \<noteq> 0" "(of_nat (length sd) :: u8) \<le> 32" "(of_nat (length pw) :: u8) \<le> 64"
    using u assms(1,3,4) by (auto simp: word_le_nat_alt)
  moreover have "sd ! 0 \<noteq> 0" using assms(1,2) by (metis length_greater_0_conv nth_mem)
  ultimately show "pairing_good (phone_pairing sd pw bs ct)"
    using assms by (simp add: pairing_good_def smart_ok_def phone_pairing_def nth_append)
qed

lemma softap_callback_result:
  assumes "app_inv s" and "router_fit p" and "cstr (router_ssid p) = Some sd" and "cstr (router_pwd p) = Some pw" and "sd \<noteq> []"
    and "length sd \<le> 32" and "length pw \<le> 64" and "ya_main_msg_queue s = []"
  shows "\<exists>t. ya_softap_callback SOFTAP_CONFIG_FINISH p s = Some t \<and> app_inv t \<and>
    ya_user_data t = paired_user sd pw (router_bssid p) (router_cloud_type p) \<and> ya_main_msg_queue t = [(YA_AP_CONFIG_SUCCESS, None)] \<and>
    ya_app_state t = ya_app_state s \<and> rebooted t = rebooted s"
proof -
  have p: "length (router_bssid p) = 6" "0 \<in> set (router_random p)" "length (router_random p) = 33"
    using assms(2) by (simp_all add: router_fit_def softap_ok_def)
  obtain t where t: "paired sd pw (router_bssid p) (router_cloud_type p) (router_random p) s = Some t" "app_inv t"
    "t = s\<lparr>ya_user_data := paired_user sd pw (router_bssid p) (router_cloud_type p), config_random_num := config_random_num t\<rparr>"
    using paired_result [OF assms(1,6,7) p] by blast
  have f: "ya_main_msg_queue t = []" "ya_user_data t = paired_user sd pw (router_bssid p) (router_cloud_type p)"
    "ya_app_state t = ya_app_state s" "rebooted t = rebooted s" using assms(8) by (subst t(3), simp)+
  have "app_inv (snd (queue_send (YA_AP_CONFIG_SUCCESS, None) t))" using app_queue_inv [OF t(2)] by simp
  moreover have "ya_softap_callback SOFTAP_CONFIG_FINISH p s = Some (snd (queue_send (YA_AP_CONFIG_SUCCESS, None) t))"
    using assms(3-7) p(1) t(1) by (simp add: ya_softap_callback_def slice_def)
  ultimately show ?thesis using f by (simp add: queue_send_def MSG_QUEUE_LENGTH_def)
qed

text \<open>What the phone sends and what the library prints.\<close>

definition phone_text :: "soft_env \<Rightarrow> bytes \<Rightarrow> bytes \<Rightarrow> cJSON \<Rightarrow> bool" where
  "phone_text env h x obj \<longleftrightarrow> header_ok h (length x) \<and> x \<noteq> [] \<and> 0 \<notin> set x \<and> length x \<le> 2000 \<and> cJSON_Parse (soft_json env) x = Some obj"

definition prints :: "soft_env \<Rightarrow> cJSON \<Rightarrow> bytes \<Rightarrow> bool" where
  "prints env j b \<longleftrightarrow> cJSON_PrintUnformatted (soft_json env) j = Some b \<and> b \<noteq> [] \<and> length b \<le> 2000"

text \<open>A round with a packet of the phone comes to its command in a state that differs in the buffers and the key.\<close>

definition only_messages :: "'a softap_scheme \<Rightarrow> 'a softap_scheme \<Rightarrow> bool" where
  "only_messages s t \<longleftrightarrow> t = s\<lparr>ya_softap_rece_buf := ya_softap_rece_buf t, ya_softap_decode_buf := ya_softap_decode_buf t,
     aes_key := aes_key t, soft_iv := soft_iv t, init_aes_key_and_iv_flag := init_aes_key_and_iv_flag t, soft_events := soft_events t\<rparr>"

lemma only_messagesD:
  assumes "only_messages s t"
  shows "random_data t = random_data s" "g_softap_param t = g_softap_param s" "ya_soft_ap_timer t = ya_soft_ap_timer s"
    "ya_router_para t = ya_router_para s" "ya_app_state t = ya_app_state s" "ya_main_msg_queue t = ya_main_msg_queue s"
    "rebooted t = rebooted s" "soft_ended t = soft_ended s" "session_key c f t = session_key c f s"
proof -
  note e = assms [unfolded only_messages_def]
  show "random_data t = random_data s" "g_softap_param t = g_softap_param s" "ya_soft_ap_timer t = ya_soft_ap_timer s"
    "ya_router_para t = ya_router_para s" "ya_app_state t = ya_app_state s" "ya_main_msg_queue t = ya_main_msg_queue s"
    "rebooted t = rebooted s" "soft_ended t = soft_ended s" by (subst e, simp)+
  then show "session_key c f t = session_key c f s" by (simp add: session_key_def)
qed

lemma only_messages_trans: "only_messages s t \<Longrightarrow> only_messages t u \<Longrightarrow> only_messages s u"
  by (cases s rule: softap.cases_scheme; cases t rule: softap.cases_scheme; cases u rule: softap.cases_scheme) (simp add: only_messages_def)

lemma turn_command:
  assumes "soft_inv s" and "crypto_ok (soft_crypto env)" and "\<not> soft_ended s" and "phone_text env h x obj"
    and "ya_has_timer_expired tick (ya_soft_ap_timer s) \<noteq> 0" and "kv = session_key (soft_crypto env) (header_flag h) s"
  shows "\<exists>t d. softap_turn env tick (packet (soft_crypto env) kv h x) s = do { (ret, u) \<leftarrow> softap_command env obj t; softap_result ret u } \<and>
    soft_inv t \<and> only_messages s t \<and> init_aes_key_and_iv_flag t = header_flag h \<and> soft_events t = soft_events s \<and>
    ya_softap_decode_buf t = Some d \<and> length d = 2048"
proof -
  let ?c = "soft_crypto env" and ?p = "packet (soft_crypto env) kv h x" and ?n = "padded (length x)"
  obtain r d where b: "buffers s r d" using assms(1,3) by (auto simp: soft_inv_def)
  have x: "header_ok h (length x)" "x \<noteq> []" "0 \<notin> set x" "length x \<le> 2000" "cJSON_Parse (soft_json env) x = Some obj"
    using assms(4) by (simp_all add: phone_text_def)
  have h: "length h = 9" "h ! 0 = 0x5A" "h ! 1 = 0x5A" "le16 (h ! 7) (h ! 8) = ?n" using x(1) by (simp_all add: header_ok_def)
  have kl: "length (fst kv) = 16" "length (snd kv) = 16" using session_key_length [OF assms(1,2)] assms(6) by simp_all
  have lp: "length ?p = ?n + 25" using packet_length [OF assms(2) kl(2)] h(1) assms(2) by (simp add: packet_def crypto_ok_def)
  have n: "0 < ?n" "?n \<le> 2016" using padded_bounds [of "length x"] x(4) by simp_all
  let ?buf = "?p @ replicate (2048 - 25 - ?n) 0"
  have cut: "take (SOFTAP_BUF_SIZE - 1) ?p = ?p" using lp n(2) by (simp add: SOFTAP_BUF_SIZE_def)
  have m: "memset r 0 SOFTAP_BUF_SIZE = Some (replicate 2048 0)" "memcpy_at (replicate 2048 0) 0 ?p = Some ?buf"
    using b lp n(2) by (simp_all add: buffers_def memset_def memcpy_at_def SOFTAP_BUF_SIZE_def)
  have at: "?buf ! i = h ! i" if "i < 9" for i using that h(1) by (simp add: packet_def nth_append)
  have hd: "?buf ! 1 = 0x5A" "?buf ! 0 = 0x5A" "le16 (?buf ! 7) (?buf ! 8) = ?n" using h at by simp_all
  define s1 where "s1 = s\<lparr>ya_softap_rece_buf := Some ?buf\<rparr>"
  have s1: "soft_inv s1" "buffers s1 ?buf d" using assms(1) b lp n(2) by (simp_all add: soft_inv_def s1_def buffers_def names_ok_def)
  have k1: "session_key ?c (header_flag h) s1 = kv" by (simp add: session_key_def s1_def assms(6))
  obtain d' where d': "length d' = 2048" "ya_softap_comm_parse env ?buf s1 = softap_command env obj
      (s1\<lparr>init_aes_key_and_iv_flag := header_flag h, aes_key := fst kv, soft_iv := snd kv, ya_softap_decode_buf := Some d'\<rparr>)"
    using comm_parse_message [OF s1(1) assms(2) s1(2) x(1-4) _ x(5), of ?buf "replicate (2048 - 25 - ?n) 0"] by (auto simp: k1)
  let ?t = "s1\<lparr>init_aes_key_and_iv_flag := header_flag h, aes_key := fst kv, soft_iv := snd kv, ya_softap_decode_buf := Some d'\<rparr>"
  have "softap_turn env tick ?p s = do { (ret, u) \<leftarrow> ya_softap_comm_parse env ?buf s1; softap_result ret u }"
    using assms(3,5) b lp n hd m unfolding softap_turn_def Let_def cut by (simp add: buffers_def s1_def)
  moreover have "soft_inv ?t" using s1 d'(1) kl by (simp add: soft_inv_def buffers_def names_ok_def)
  moreover have "only_messages s ?t" by (simp add: only_messages_def s1_def)
  ultimately show ?thesis using d' by (intro exI [of _ ?t] exI [of _ d']) (simp add: s1_def)
qed

text \<open>The question for the random bytes is answered with them, under the key from the name of the network.\<close>

lemma random_turn:
  assumes "soft_inv s" and "crypto_ok (soft_crypto env)" and "\<not> soft_ended s" and "phone_text env h x obj"
    and "le16 (h ! 3) (h ! 4) = 1" and "member_is obj ''Command'' (ascii ''Random'')"
    and "prints env (jobj [(''Random'', hex_text (random_data s))]) b" and "ya_has_timer_expired tick (ya_soft_ap_timer s) \<noteq> 0"
    and "kv = session_key (soft_crypto env) 0 s"
  shows "\<exists>t h'. softap_turn env tick (packet (soft_crypto env) kv h x) s = Some t \<and> soft_inv t \<and> only_messages s t \<and>
    soft_events t = soft_events s @ [SendTo (packet (soft_crypto env) kv h' b)] \<and> le16 (h' ! 3) (h' ! 4) = 0x8001"
proof -
  let ?c = "soft_crypto env"
  have f: "header_flag h = 0" using assms(5) by (simp add: header_flag_def)
  obtain t d where t: "softap_turn env tick (packet ?c kv h x) s = do { (ret, u) \<leftarrow> softap_command env obj t; softap_result ret u }"
    "soft_inv t" "only_messages s t" "init_aes_key_and_iv_flag t = 0" "soft_events t = soft_events s" "ya_softap_decode_buf t = Some d" "length d = 2048"
    using turn_command [OF assms(1-4,8), of kv] assms(9) by (auto simp: f)
  note o = only_messagesD [OF t(3)]
  have k: "kv = session_key ?c (init_aes_key_and_iv_flag t) t" by (simp add: t(4) o assms(9))
  have b: "cJSON_PrintUnformatted (soft_json env) (jobj [(''Random'', hex_text (random_data t))]) = Some b" "b \<noteq> []" "length b \<le> 2000"
    using assms(7) by (simp_all add: prints_def o)
  let ?u = "\<lambda>d' h'. t\<lparr>aes_key := fst kv, soft_iv := snd kv, ya_softap_decode_buf := Some d', soft_events := soft_events t @ [SendTo (packet ?c kv h' b)]\<rparr>"
  obtain d' h' where r: "ya_softap_random_cmd env t = Some (0, ?u d' h')" "length d' = 2048" "le16 (h' ! 3) (h' ! 4) = 0x8001"
    using random_cmd_run [OF t(2) assms(2) _ t(6,7) b k] t(4) by blast
  have "softap_command env obj t = ya_softap_random_cmd env t"
    using assms(6) by (auto simp: softap_command_def member_is_def memcmp_name_def slice_def ascii_def split: option.splits)
  then have "softap_turn env tick (packet ?c kv h x) s = Some (?u d' h')" using t(1) r(1) by (simp add: softap_result_def)
  moreover have "length (fst kv) = 16" "length (snd kv) = 16" using session_key_length [OF assms(1,2)] assms(9) by simp_all
  then have "soft_inv (?u d' h')" using t(2,6) r(2) by (auto simp: soft_inv_def buffers_def names_ok_def)
  moreover have "only_messages s (?u d' h')" by (rule only_messages_trans [OF t(3)]) (simp add: only_messages_def)
  ultimately show ?thesis using r(3) t(5) by (intro exI [of _ "?u d' h'"] exI [of _ h']) simp
qed

text \<open>The credentials are confirmed three times under the random key and given to the main task, and the task ends.\<close>

lemma apconfig_turn:
  assumes "soft_inv s" and "crypto_ok (soft_crypto env)" and "\<not> soft_ended s" and "phone_text env h x obj"
    and "le16 (h ! 3) (h ! 4) \<noteq> 1" and "member_is obj ''Command'' (ascii ''Apconfig'')" and "member_is obj ''Ssid'' sd"
    and "member_is obj ''Password'' pw" and "member_is obj ''Bssid'' (hex_text bs)" and "member_is obj ''Random'' rn"
    and "sd \<noteq> []" and "length sd \<le> 32" and "length pw \<le> 64" and "length bs = 6" and "length rn \<le> 32"
    and "prints env (jobj [(''Code'', ascii ''0'')]) b" and "ya_has_timer_expired tick (ya_soft_ap_timer s) \<noteq> 0"
    and "kv = session_key (soft_crypto env) 1 s" and "ya_main_msg_queue s = []"
  shows "\<exists>t h'. softap_turn env tick (packet (soft_crypto env) kv h x) s = Some t \<and> app_inv t \<and> soft_ended t \<and>
    soft_events t = soft_events s @ replicate 3 (SendTo (packet (soft_crypto env) kv h' b)) \<and>
    ya_user_data t = paired_user sd pw bs (router_cloud_type (ya_router_para s)) \<and> ya_main_msg_queue t = [(YA_AP_CONFIG_SUCCESS, None)] \<and>
    ya_app_state t = ya_app_state s \<and> rebooted t = rebooted s"
proof -
  let ?c = "soft_crypto env" and ?p = "phone_router sd pw bs rn (ya_router_para s)"
  have f: "header_flag h = 1" using assms(5) by (simp add: header_flag_def)
  obtain t d where t: "softap_turn env tick (packet ?c kv h x) s = do { (ret, u) \<leftarrow> softap_command env obj t; softap_result ret u }"
    "soft_inv t" "only_messages s t" "init_aes_key_and_iv_flag t = 1" "soft_events t = soft_events s" "ya_softap_decode_buf t = Some d" "length d = 2048"
    using turn_command [OF assms(1-4,17), of kv] assms(18) by (auto simp: f)
  note o = only_messagesD [OF t(3)]
  have p: "apconfig_code obj t = Some (0, t\<lparr>ya_router_para := ?p\<rparr>)" "router_fit ?p"
    using apconfig_code_run [OF soft_invD(7) [OF t(2)] assms(7-10,12-15)] by (simp_all add: o)
  define t1 where "t1 = t\<lparr>ya_router_para := ?p\<rparr>"
  have i: "soft_inv t1" using t(2) p(2) by (simp add: soft_inv_def t1_def buffers_def names_ok_def)
  have k: "kv = session_key ?c (init_aes_key_and_iv_flag t1) t1" using o by (simp add: t(4) assms(18) t1_def session_key_def)
  have b: "cJSON_PrintUnformatted (soft_json env) (jobj [(''Code'', ascii ''0'')]) = Some b" "b \<noteq> []" "length b \<le> 2000"
    using assms(16) by (simp_all add: prints_def)
  have fb: "init_aes_key_and_iv_flag t1 = 0 \<or> init_aes_key_and_iv_flag t1 = 1" "ya_softap_decode_buf t1 = Some d" using t(4,6) by (simp_all add: t1_def)
  let ?u = "\<lambda>d' h'. t1\<lparr>aes_key := fst kv, soft_iv := snd kv, ya_softap_decode_buf := Some d',
    soft_events := soft_events t1 @ replicate 3 (SendTo (packet ?c kv h' b))\<rparr>"
  obtain d' h' where r: "send_packed ?c SOFTAP_CONFIG_CMD_GET_NET_MSG_RESPONSE b 3 t1 = Some (?u d' h')"
    using send_packed_run [OF i assms(2) fb t(7) b(2,3) k, of SOFTAP_CONFIG_CMD_GET_NET_MSG_RESPONSE 3] by blast
  have q: "app_inv (?u d' h')" "ya_main_msg_queue (?u d' h') = []" "ya_router_para (?u d' h') = ?p"
    using soft_invD(1) [OF t(2)] o(6) assms(19) by (simp_all add: t1_def)
  have s: "cstr (router_ssid ?p) = Some sd" "cstr (router_pwd ?p) = Some pw"
    using cstr_append_nul member_isD(2) [OF assms(7)] member_isD(2) [OF assms(8)] by (simp_all add: phone_router_def)
  obtain y where y: "ya_softap_callback SOFTAP_CONFIG_FINISH ?p (?u d' h') = Some y" "app_inv y"
    "ya_user_data y = paired_user sd pw bs (router_cloud_type (ya_router_para s))" "ya_main_msg_queue y = [(YA_AP_CONFIG_SUCCESS, None)]"
    "ya_app_state y = ya_app_state s" "rebooted y = rebooted s"
    using softap_callback_result [OF q(1) p(2) s assms(11-13) q(2)] o(5,7) by (auto simp: t1_def phone_router_def)
  have e: "soft_events y = soft_events s @ replicate 3 (SendTo (packet ?c kv h' b))"
    using more_fields(13) [of y "?u d' h'"] callback_frame [OF y(1)] t(5) by (simp add: soft_frame_def t1_def)
  have "softap_command env obj t = ya_softap_apconfig_cmd env obj t"
    using assms(6) by (auto simp: softap_command_def member_is_def memcmp_name_def slice_def ascii_def split: option.splits)
  moreover have "ya_softap_apconfig_cmd env obj t = Some (1, y)"
    using y(1) r q(3) unfolding ya_softap_apconfig_cmd_def p(1) t1_def [symmetric] by (simp add: b(1))
  ultimately have "softap_turn env tick (packet ?c kv h x) s = Some (softap_out y)" using t(1) by (simp add: softap_result_def)
  moreover have "app_inv (softap_out y)" using y(2) by (simp add: softap_out_def)
  ultimately show ?thesis using y e by (intro exI [of _ "softap_out y"] exI [of _ h']) (simp add: softap_out_def)
qed

text \<open>The start: the state the static variables are in between two pairings, and the task up to its loop.\<close>

definition soft_static :: "'a softap_scheme \<Rightarrow> bool" where
  "soft_static s \<longleftrightarrow> app_inv s \<and> soft_ended s \<and> length (aes_key s) = 16 \<and> length (soft_iv s) = 16 \<and> length (random_data s) = 32 \<and> names_ok s"

definition ap_name :: "bytes \<Rightarrow> bytes" where
  "ap_name mac = ascii ''ARGRACE_01'' @ hex2 (mac ! 4) @ hex2 (mac ! 5)"

lemma ap_name_text: "length (ap_name mac) = 14" "0 \<notin> set (ap_name mac)"
  using hex2_nonzero [of "[mac ! 4, mac ! 5]"] by (simp_all add: ap_name_def hex2_def ascii_def)

lemma ap_param:
  assumes "length mac = 6"
  shows "ya_app_ap_start_para_init mac para = Some \<lparr>sp_timeout = ap_timeout para, ap_ssid = ap_name mac @ replicate 19 0,
    ap_password = replicate 65 0, cloud_support_type = ucast (cloud_type para)\<rparr>"
  using assms ap_name_text(1) [of mac] by (simp add: ya_app_ap_start_para_init_def rd_def memcpy_at_def ap_name_def)

lemma cstr_zeros: "0 < n \<Longrightarrow> cstr (v @ replicate n 0) = Some v" if "0 \<notin> set v"
  using cstr_append_nul [OF that, of "replicate (n - 1) 0"] by (cases n) simp_all

lemma softap_starts:
  assumes "soft_static s" and "length mac = 6" and "length rnd = 32" and "0 \<le> fd"
    and "p = \<lparr>sp_timeout = ap_timeout para, ap_ssid = ap_name mac @ replicate 19 0, ap_password = replicate 65 0,
      cloud_support_type = ucast (cloud_type para)\<rparr>"
  shows "\<exists>t u. ya_start_softap p True s = (C_OK, t) \<and> softap_begin 0 rnd fd tick t = Some u \<and> soft_inv u \<and> \<not> soft_ended u \<and>
    random_data u = rnd \<and> g_softap_param u = p \<and> ya_router_para u = router_para_zero \<and> soft_events u = soft_events s @ [StartAp (ap_name mac) []] \<and>
    ya_soft_ap_timer u = ya_countdown_ms tick (ap_timeout para * 1000) (ya_init_timer (ya_soft_ap_timer s)) \<and>
    ya_app_state u = ya_app_state s \<and> ya_main_msg_queue u = ya_main_msg_queue s \<and> rebooted u = rebooted s"
proof -
  let ?t = "s\<lparr>ya_softap_rece_buf := None, ya_softap_decode_buf := None, g_softap_param := p, soft_ended := False\<rparr>"
  have n: "cstr (ap_name mac @ replicate 19 0) = Some (ap_name mac)" "cstr (replicate 65 (0 :: u8)) = Some []"
    using cstr_zeros [OF ap_name_text(2), of 19 mac] cstr_zeros [of "[]" 65] by simp_all
  obtain b where b: "length b = 2048" "\<And>x :: 'a softap_scheme. heap x = heap s \<Longrightarrow> mem_alloc x SOFTAP_BUF_SIZE = Some b"
  proof -
    have "board_ok s" using assms(1) app_invD(1) [of s] by (simp add: soft_static_def)
    then obtain b where "mem_alloc s SOFTAP_BUF_SIZE = Some b" "length b = SOFTAP_BUF_SIZE" by (rule mem_alloc_board_ok)
    then show thesis using that [of b] by (simp add: mem_alloc_def SOFTAP_BUF_SIZE_def)
  qed
  have ne: "ap_name mac \<noteq> []" using ap_name_text(1) [of mac] by auto
  have z: "router_fit router_para_zero" by (simp add: router_fit_def softap_ok_def router_para_zero_def)
  have m: "memcpy_at (random_data s) 0 rnd = Some rnd" using assms(1,3) by (simp add: soft_static_def memcpy_at_def)
  have "ya_start_softap p True s = (C_OK, ?t)" using assms(1) by (simp add: ya_start_softap_def soft_static_def)
  moreover let ?u = "?t\<lparr>enable_license_write := license_missing ?t, soft_events := soft_events s @ [StartAp (ap_name mac) []],
      random_data := rnd, ya_softap_rece_buf := Some b, ya_softap_decode_buf := Some b,
      ya_soft_ap_timer := ya_countdown_ms tick (ap_timeout para * 1000) (ya_init_timer (ya_soft_ap_timer s)), ya_router_para := router_para_zero\<rparr>"
  have "softap_begin 0 rnd fd tick ?t = Some ?u"
    using assms(4) n b(2) ap_name_text(1) [of mac] m ne
    by (simp add: softap_begin_def softap_set_ap_def alloc_buf_def Let_def assms(5) cert_codes)
  moreover have "soft_inv ?u"
    using assms(1,3) b(1) z n(1) ap_name_text(1) [of mac]
    by (simp add: soft_static_def soft_inv_def buffers_def names_ok_def short_string_def assms(5))
  ultimately show ?thesis by (intro exI [of _ ?t] exI [of _ ?u]) simp
qed

lemma in_time:
  assumes "timeout \<noteq> 0" and "k0 * 5 \<le> k * 5" and "k * 5 - k0 * 5 \<le> timeout"
  shows "ya_has_timer_expired k (ya_countdown_ms k0 timeout t) \<noteq> 0"
  using assms by (simp add: ya_has_timer_expired_def ya_countdown_ms_def timer_delta_def portTICK_RATE_MS_def)

text \<open>C12: Pairing over the access point, from its start to the network.  The main task starts the access point; a phone
  asks for the random bytes, in a packet encrypted with a key from the name of the network, and is answered under the same key; then it
  sends the credentials of its router, encrypted with the random bytes.  Within the time limit of the pairing the task confirms
  them three times and ends, and the main task stores them; after a restart its first round asks the Wi-Fi driver for exactly the network
  name, password and address the phone has sent.\<close>

theorem softap_connects_module:
  assumes "soft_static s" and "crypto_ok (soft_crypto env)" and "length mac = 6" and "length rnd = 32" and "0 \<le> fd"
    and "\<not> rebooted s" and "ya_app_state s = YA_APP_AP_STATE" and "ya_main_msg_queue s = []"
    and "limit = ap_timeout (ya_app_main_para_obj s) * 1000" and "limit \<noteq> 0"
    and "k0 * 5 \<le> k1 * 5" and "k1 * 5 - k0 * 5 \<le> limit" and "k0 * 5 \<le> k2 * 5" and "k2 * 5 - k0 * 5 \<le> limit"
    and "phone_text env h1 x1 o1" and "le16 (h1 ! 3) (h1 ! 4) = 1" and "member_is o1 ''Command'' (ascii ''Random'')"
    and "prints env (jobj [(''Random'', hex_text rnd)]) b1"
    and "phone_text env h2 x2 o2" and "le16 (h2 ! 3) (h2 ! 4) \<noteq> 1" and "member_is o2 ''Command'' (ascii ''Apconfig'')"
    and "member_is o2 ''Ssid'' sd" and "member_is o2 ''Password'' pw" and "member_is o2 ''Bssid'' (hex_text bs)" and "member_is o2 ''Random'' rn"
    and "sd \<noteq> []" and "length sd \<le> 32" and "length pw \<le> 64" and "length bs = 6" and "length rn \<le> 32"
    and "prints env (jobj [(''Code'', ascii ''0'')]) b2"
    and "key = md5 (soft_crypto env) (ap_name mac @ AES_KEY_ADD_STRING)" and "world_ok w" and "world_fine w'"
  shows "\<exists>p s1 s2 s3 s4 a1 a2 u v x. ya_app_ap_start_para_init mac (ya_app_main_para_obj s) = Some p \<and>
    ya_start_softap p True s = (C_OK, s1) \<and> softap_begin 0 rnd fd k0 s1 = Some s2 \<and>
    softap_turn env k1 (packet (soft_crypto env) (key, key) h1 x1) s2 = Some s3 \<and>
    softap_turn env k2 (packet (soft_crypto env) (drop 16 rnd, take 16 rnd) h2 x2) s3 = Some s4 \<and> soft_ended s4 \<and>
    soft_events s4 = soft_events s @ [StartAp (ap_name mac) [], SendTo (packet (soft_crypto env) (key, key) a1 b1)] @
      replicate 3 (SendTo (packet (soft_crypto env) (drop 16 rnd, take 16 rnd) a2 b2)) \<and>
    app_turn w s4 = Some u \<and> app_boot para w' False u = Some v \<and> app_turn w' v = Some x \<and> ya_app_state x = YA_APP_CONNECTING \<and>
    last (app_events x) = ConnectAp (sd @ replicate (33 - length sd) 0) (pw @ replicate (65 - length pw) 0) bs"
proof -
  let ?c = "soft_crypto env" and ?para = "ya_app_main_para_obj s" and ?r = "phone_pairing sd pw bs 0"
  obtain p where p: "ya_app_ap_start_para_init mac ?para = Some p" "p = \<lparr>sp_timeout = ap_timeout ?para, ap_ssid = ap_name mac @ replicate 19 0,
      ap_password = replicate 65 0, cloud_support_type = ucast (cloud_type ?para)\<rparr>" using ap_param [OF assms(3)] by blast
  obtain s1 s2 where s2: "ya_start_softap p True s = (C_OK, s1)" "softap_begin 0 rnd fd k0 s1 = Some s2" "soft_inv s2" "\<not> soft_ended s2"
    "random_data s2 = rnd" "g_softap_param s2 = p" "ya_router_para s2 = router_para_zero" "soft_events s2 = soft_events s @ [StartAp (ap_name mac) []]"
    "ya_soft_ap_timer s2 = ya_countdown_ms k0 limit (ya_init_timer (ya_soft_ap_timer s))" "ya_app_state s2 = ya_app_state s"
    "ya_main_msg_queue s2 = ya_main_msg_queue s" "rebooted s2 = rebooted s"
    using softap_starts [OF assms(1,3-5) p(2), of k0] assms(9) by blast
  have k: "(key, key) = session_key ?c 0 s2" using cstr_zeros [OF ap_name_text(2), of 19 mac] by (simp add: session_key_def s2(6) p(2) assms(32) Let_def)
  have t1: "ya_has_timer_expired k1 (ya_soft_ap_timer s2) \<noteq> 0" "ya_has_timer_expired k2 (ya_soft_ap_timer s2) \<noteq> 0"
    using in_time [OF assms(10-12)] in_time [OF assms(10,13,14)] by (simp_all add: s2(9))
  obtain s3 a1 where s3: "softap_turn env k1 (packet ?c (key, key) h1 x1) s2 = Some s3" "soft_inv s3" "only_messages s2 s3"
    "soft_events s3 = soft_events s2 @ [SendTo (packet ?c (key, key) a1 b1)]"
    using random_turn [OF s2(3) assms(2) s2(4) assms(15-17) assms(18) [folded s2(5)] t1(1) k] by blast
  note o = only_messagesD [OF s3(3)]
  have k': "(drop 16 rnd, take 16 rnd) = session_key ?c 1 s3" by (simp add: session_key_def o s2(5))
  have e: "\<not> soft_ended s3" "ya_has_timer_expired k2 (ya_soft_ap_timer s3) \<noteq> 0" "ya_main_msg_queue s3 = []"
    using t1(2) s2(4,11) assms(8) by (simp_all add: o)
  obtain s4 a2 where s4: "softap_turn env k2 (packet ?c (drop 16 rnd, take 16 rnd) h2 x2) s3 = Some s4" "app_inv s4" "soft_ended s4"
    "soft_events s4 = soft_events s3 @ replicate 3 (SendTo (packet ?c (drop 16 rnd, take 16 rnd) a2 b2))"
    "ya_user_data s4 = paired_user sd pw bs 0" "ya_main_msg_queue s4 = [(YA_AP_CONFIG_SUCCESS, None)]" "ya_app_state s4 = YA_APP_AP_STATE" "\<not> rebooted s4"
    using apconfig_turn [where tick = k2, OF s3(2) assms(2) e(1) assms(19-31) e(2) k' e(3)] s2(7,10,12) assms(6,7) by (auto simp: o router_para_zero_def)
  have g: "pairing_good ?r" "pairing_user ?r = paired_user sd pw bs 0" "pairing_ssid ?r = sd" "pairing_pwd ?r = pw"
    using phone_pairing_good [OF assms(26) member_isD(2) [OF assms(22)] assms(27-29)] by simp_all
  obtain u where u: "pairing_done w (s4\<lparr>ya_main_msg_queue := []\<rparr>) = Some u" "app_inv u" "holds_main u (pairing_user ?r)"
    using pairing_done_stores [OF drained_inv [OF s4(2)] assms(33)] s4(5) g(2) by auto
  have "app_state_step w s4 = Some s4" using s4(7) by (simp add: app_state_step_def)
  from turn_message [OF s4(8) this s4(6)] u(1) have turn: "app_turn w s4 = Some u" by (simp add: app_handle_msg_def)
  note n = pairing_lengths(1,2) [OF g(1), unfolded g(3,4)]
  have b: "sm_bssid ?r = bs" by (simp add: phone_pairing_def)
  show ?thesis using stored_connects [OF u(2,3) g(1) assms(34), of para, unfolded g(3,4) b n [symmetric]] p(1) s2(1,2,8) s3(1,4) s4(1,3,4) turn by auto
qed

text \<open>A library for two texts and one answer.\<close>

definition soft_lib_demo :: cjson_lib where
  "soft_lib_demo = \<lparr>cJSON_Parse = (\<lambda>x. Some (if x = [1] then jobj [(''Command'', ascii ''Random'')]
     else jobj [(''Command'', ascii ''Apconfig''), (''Ssid'', [65, 66]), (''Password'', [67]), (''Bssid'', hex_text (replicate 6 1)), (''Random'', [68])])),
     cJSON_PrintUnformatted = (\<lambda>_. Some [3])\<rparr>"

definition soft_env_demo :: soft_env where
  "soft_env_demo = \<lparr>soft_crypto = crypto_demo, soft_json = soft_lib_demo, crt_check = (\<lambda>_. 0), pk_check = (\<lambda>_. 0), soft_mac = replicate 6 0\<rparr>"

definition soft_demo :: softap where
  "soft_demo = app.extend (app_demo\<lparr>config_random_num := replicate 33 0, ya_app_state := YA_APP_AP_STATE\<rparr>)
     \<lparr>g_softap_param = \<lparr>sp_timeout = 0, ap_ssid = [], ap_password = [], cloud_support_type = 0\<rparr>, ya_router_para = router_para_zero,
      ya_softap_decode_buf = None, ya_softap_rece_buf = None, aes_key = replicate 16 0, soft_iv = replicate 16 0, random_data = replicate 32 0,
      init_aes_key_and_iv_flag = 0, aly_product_key = replicate 21 0, aly_device_name = replicate 33 0, enable_license_write = False,
      ya_soft_ap_timer = \<lparr>time_out = 0, init_tick = 0, ttype = YA_TIMER_TYPE_MS\<rparr>, soft_events = [], soft_ended = True\<rparr>"

lemma soft_demo_fields:
  "fl_mem soft_demo = (\<lambda>_. 0xFF)" "fl_rsp soft_demo = []" "heap soft_demo = (\<lambda>_. Some (\<lambda>_. 0xCD))" "ret_reg soft_demo = 0"
  "ya_user_data soft_demo = user_zero" "ya_main_msg_queue soft_demo = []" "aws_client_id soft_demo = None" "aws_thing_type soft_demo = None"
  "config_random_num soft_demo = replicate 33 0" "aliyun_productkey soft_demo = None" "aliyun_deviceid soft_demo = None"
  "ya_app_main_para_obj soft_demo = para_demo" "\<not> rebooted soft_demo" "ya_app_state soft_demo = YA_APP_AP_STATE"
  by (simp_all add: soft_demo_def app.extend_def app_demo_def app_power_on_def cert.extend_def cert_demo_def)

lemma soft_demo_static: "soft_static soft_demo"
proof -
  have "user_ok user_zero" by (simp add: user_ok_def user_wf_def user_zero_def user_of_def USER_SIZE_def)
  then have "app_inv soft_demo"
    by (simp add: app_inv_def board_ok_def chip_ready_def sane_no_magic ram_ok_def soft_demo_fields terminated_def)
  moreover have "names_ok soft_demo" using cstr_zeros [of "[]" 33]
    by (simp add: names_ok_def soft_demo_fields) (simp add: soft_demo_def app.extend_def para_demo_def short_string_def)
  ultimately show ?thesis by (simp add: soft_static_def) (simp add: soft_demo_def app.extend_def)
qed

lemma soft_lib_members:
  "member_is (jobj [(''Command'', ascii ''Random'')]) ''Command'' (ascii ''Random'')"
  "member_is (jobj [(''Command'', ascii ''Apconfig''), (''Ssid'', [65, 66]), (''Password'', [67]), (''Bssid'', b), (''Random'', [68])]) ''Command'' (ascii ''Apconfig'')"
  "member_is (jobj [(''Command'', ascii ''Apconfig''), (''Ssid'', [65, 66]), (''Password'', [67]), (''Bssid'', b), (''Random'', [68])]) ''Ssid'' [65, 66]"
  "member_is (jobj [(''Command'', ascii ''Apconfig''), (''Ssid'', [65, 66]), (''Password'', [67]), (''Bssid'', b), (''Random'', [68])]) ''Password'' [67]"
  "member_is (jobj [(''Command'', ascii ''Apconfig''), (''Ssid'', [65, 66]), (''Password'', [67]), (''Bssid'', b), (''Random'', [68])]) ''Random'' [68]"
  "0 \<notin> set b \<Longrightarrow> member_is (jobj [(''Command'', ascii ''Apconfig''), (''Ssid'', [65, 66]), (''Password'', [67]), (''Bssid'', b), (''Random'', [68])]) ''Bssid'' b"
  by (simp_all add: member_is_def jobj_def cJSON_GetObjectItem_def cJSON_strcasecmp_def tolower_def Let_def ascii_def)

theorem softap_connects_module_witness:
  "\<exists>p s1 s2 s3 s4 u v x. ya_app_ap_start_para_init [1, 2, 3, 4, 5, 6] para_demo = Some p \<and> ya_start_softap p True soft_demo = (C_OK, s1) \<and>
    softap_begin 0 (replicate 32 7) 1 0 s1 = Some s2 \<and>
    softap_turn soft_env_demo 0 (packet crypto_demo (md5 crypto_demo (ap_name [1, 2, 3, 4, 5, 6] @ AES_KEY_ADD_STRING),
      md5 crypto_demo (ap_name [1, 2, 3, 4, 5, 6] @ AES_KEY_ADD_STRING)) [0x5A, 0x5A, 0, 1, 0, 0, 0, 16, 0] [1]) s2 = Some s3 \<and>
    softap_turn soft_env_demo 0 (packet crypto_demo (replicate 16 7, replicate 16 7) [0x5A, 0x5A, 0, 3, 0, 0, 0, 16, 0] [2]) s3 = Some s4 \<and>
    app_turn world_demo s4 = Some u \<and> app_boot para_demo world_demo False u = Some v \<and> app_turn world_demo v = Some x \<and>
    last (app_events x) = ConnectAp ([65, 66] @ replicate 31 0) ([67] @ replicate 64 0) (replicate 6 1)"
proof -
  let ?o1 = "jobj [(''Command'', ascii ''Random'')]"
  let ?o2 = "jobj [(''Command'', ascii ''Apconfig''), (''Ssid'', [65, 66]), (''Password'', [67]), (''Bssid'', hex_text (replicate 6 1)), (''Random'', [68])]"
  let ?h1 = "[0x5A, 0x5A, 0, 1, 0, 0, 0, 16, 0] :: bytes" and ?h2 = "[0x5A, 0x5A, 0, 3, 0, 0, 0, 16, 0] :: bytes"
  have e: "crypto_ok (soft_crypto soft_env_demo)" "soft_crypto soft_env_demo = crypto_demo" using crypto_demo_ok by (simp_all add: soft_env_demo_def)
  have t: "phone_text soft_env_demo ?h1 [1] ?o1" "phone_text soft_env_demo ?h2 [2] ?o2" "le16 (?h1 ! 3) (?h1 ! 4) = 1" "le16 (?h2 ! 3) (?h2 ! 4) \<noteq> 1"
    by (simp_all add: phone_text_def header_ok_def padded_def le16_def soft_env_demo_def soft_lib_demo_def)
  have p: "prints soft_env_demo j [3]" for j by (simp add: prints_def soft_env_demo_def soft_lib_demo_def)
  have b: "0 \<notin> set (hex_text (replicate 6 1))" unfolding hex_text_def by (rule hex2_nonzero)
  have l: "(300000 :: u32) = ap_timeout (ya_app_main_para_obj soft_demo) * 1000" by (simp add: soft_demo_fields para_demo_def)
  have k: "(0 :: u32) * 5 \<le> 0 * 5" "(0 :: u32) * 5 - 0 * 5 \<le> 300000" "(300000 :: u32) \<noteq> 0" by simp_all
  have n: "[65, 66 :: u8] \<noteq> []" "length [65, 66 :: u8] \<le> 32" "length [67 :: u8] \<le> 64" "length (replicate 6 (1 :: u8)) = 6" "length [68 :: u8] \<le> 32"
    "length [1, 2, 3, 4, 5, 6 :: u8] = 6" "length (replicate 32 (7 :: u8)) = 32" "(0 :: int) \<le> 1" by simp_all
  have r: "drop 16 (replicate 32 (7 :: u8)) = replicate 16 7" "take 16 (replicate 32 (7 :: u8)) = replicate 16 7" by simp_all
  from softap_connects_module [OF soft_demo_static e(1) n(6-8) soft_demo_fields(13,14,6) l k(3) k(1,2) k(1,2) t(1,3) soft_lib_members(1) p t(2,4)
      soft_lib_members(2-4) soft_lib_members(6) [OF b] soft_lib_members(5) n(1-5) p refl world_demo_ok, of para_demo]
  show ?thesis by (simp only: e(2) r soft_demo_fields(12)) fastforce
qed

section \<open>Packets that do damage\<close>

lemma soft_running_demo:
  "\<exists>s :: softap. soft_inv s \<and> \<not> soft_ended s \<and> ya_has_timer_expired 0 (ya_soft_ap_timer s) \<noteq> 0 \<and> \<not> enable_license_write s"
proof -
  have l: "length (replicate 6 (0 :: u8)) = 6" "length (replicate 32 (0 :: u8)) = 32" "(0 :: int) \<le> 1" by simp_all
  obtain u :: softap where u: "soft_inv u" "\<not> soft_ended u" "ya_soft_ap_timer u = ya_countdown_ms 0 (ap_timeout para_demo * 1000) (ya_init_timer (ya_soft_ap_timer soft_demo))"
    using softap_starts [OF soft_demo_static l refl, of para_demo 0] by blast
  have "ya_has_timer_expired 0 (ya_soft_ap_timer u) \<noteq> 0" unfolding u(3) by (rule in_time) (simp_all add: para_demo_def)
  then show ?thesis using u(1,2) by (intro exI [of _ "u\<lparr>enable_license_write := False\<rparr>"]) (simp add: soft_inv_def buffers_def names_ok_def)
qed

lemma softap_text_overruns:
  assumes "slice buffer ((SOFTAP_CONFIG_DATA_POS + clen) mod 65536) 16 = None"
  shows "softap_text env buffer clen dlen s = None"
  by (auto simp: softap_text_def assms bind_eq_None_conv)

lemma long_length_overruns:
  assumes "length buffer = 2048" and "2024 \<le> le16 (buffer ! 7) (buffer ! 8)" and "le16 (buffer ! 7) (buffer ! 8) \<le> 2047"
    and "buffer ! 0 = 0x5A" and "buffer ! 1 = 0x5A"
  shows "ya_softap_comm_parse env buffer s = None"
proof -
  let ?n = "le16 (buffer ! 7) (buffer ! 8)"
  have o: "slice buffer ((SOFTAP_CONFIG_DATA_POS + ?n) mod 65536) 16 = None" "slice buffer 0 ((?n + 25) mod 65536) = None"
    using assms(1-3) by (simp_all add: slice_def SOFTAP_CONFIG_DATA_POS_def)
  have "rd buffer i = Some (buffer ! i)" if "i < 9" for i using that assms(1) by (simp add: rd_def)
  then have "ya_softap_comm_parse env buffer s \<noteq> Some y" for y
    using assms(4,5) by (auto simp: ya_softap_comm_parse_def bind_eq_Some_conv Let_def softap_text_overruns [OF o(1)] o(2) split: if_splits)
  then show ?thesis by (cases "ya_softap_comm_parse env buffer s") auto
qed

text \<open>C40: The declared length of a packet is compared with the length that was received only, not with the size of the buffers
  less header and digest.  A packet that declares 2024 bytes or more, but not more than it has, makes the task
  read or write beyond its buffers, whatever else it contains; no key is needed for it.\<close>

theorem long_packet_overruns:
  assumes "soft_inv s" and "\<not> soft_ended s" and "ya_has_timer_expired tick (ya_soft_ap_timer s) \<noteq> 0"
    and "length p \<le> 2047" and "le16 (p ! 7) (p ! 8) \<le> length p" and "2024 \<le> le16 (p ! 7) (p ! 8)" and "p ! 0 = 0x5A" and "p ! 1 = 0x5A"
  shows "softap_turn env tick p s = None"
proof -
  obtain r d where b: "buffers s r d" using assms(1,2) by (auto simp: soft_inv_def)
  let ?buf = "p @ replicate (2048 - length p) 0"
  have l: "2024 \<le> length p" using assms(5,6) by simp
  have at: "?buf ! i = p ! i" if "i < 9" for i using that l by (simp add: nth_append)
  have m: "memset r 0 SOFTAP_BUF_SIZE = Some (replicate 2048 0)" "memcpy_at (replicate 2048 0) 0 p = Some ?buf"
    using b assms(4) by (simp_all add: buffers_def memset_def memcpy_at_def SOFTAP_BUF_SIZE_def)
  have cut: "take (SOFTAP_BUF_SIZE - 1) p = p" using assms(4) by (simp add: SOFTAP_BUF_SIZE_def)
  have "ya_softap_comm_parse env ?buf (s\<lparr>ya_softap_rece_buf := Some ?buf\<rparr>) = None"
    using long_length_overruns [of ?buf] at assms(4-8) by simp
  then show ?thesis using assms(2,3,5,7,8) b m at l unfolding softap_turn_def Let_def cut by (simp add: buffers_def)
qed

theorem long_packet_overruns_witness:
  "\<exists>s :: softap. soft_inv s \<and> softap_turn soft_env_demo 0 (0x5A # 0x5A # replicate 5 0 @ [0xE8, 0x07] @ replicate 2020 0) s = None"
proof -
  obtain s :: softap where s: "soft_inv s" "\<not> soft_ended s" "ya_has_timer_expired 0 (ya_soft_ap_timer s) \<noteq> 0" using soft_running_demo by blast
  let ?p = "0x5A # 0x5A # replicate 5 0 @ [0xE8, 0x07] @ replicate 2020 0 :: bytes"
  have "?p ! 7 = 0xE8" "?p ! 8 = 0x07" by (simp_all add: nth_append)
  then have "length ?p \<le> 2047" "le16 (?p ! 7) (?p ! 8) \<le> length ?p" "2024 \<le> le16 (?p ! 7) (?p ! 8)" "?p ! 0 = 0x5A" "?p ! 1 = 0x5A"
    by (simp_all add: le16_def)
  from long_packet_overruns [OF s this] s(1) show ?thesis by blast
qed

text \<open>A question for the device with the bare command \<open>Get\<close> (or one character more) makes the task compare beyond the string, and
  one with a longer command and without the member \<open>CloudType\<close> makes it follow the null pointer.\<close>

theorem get_question_undefined:
  assumes "soft_inv s" and "crypto_ok (soft_crypto env)" and "\<not> soft_ended s" and "ya_has_timer_expired tick (ya_soft_ap_timer s) \<noteq> 0"
    and "phone_text env h x obj" and "member_is obj ''Command'' (ascii ''Get'' @ w)"
    and "length w \<le> 1 \<or> cJSON_GetObjectItem obj ''CloudType'' = None"
  shows "softap_turn env tick (packet (soft_crypto env) (session_key (soft_crypto env) (header_flag h) s) h x) s = None"
proof -
  obtain t where t: "softap_turn env tick (packet (soft_crypto env) (session_key (soft_crypto env) (header_flag h) s) h x) s =
      do { (ret, u) \<leftarrow> softap_command env obj t; softap_result ret u }"
    using turn_command [OF assms(1-3,5,4) refl] by blast
  have "softap_command env obj t = (if length w \<le> 1 then None else ya_softap_get_cmd env obj t)"
    using assms(6) by (auto simp: softap_command_def member_is_def memcmp_name_def slice_def ascii_def split: option.splits)
  then show ?thesis using assms(7) by (auto simp: t ya_softap_get_cmd_def get_cmd_code_def Let_def)
qed

theorem get_question_undefined_witness:
  "\<exists>(s :: softap) p. soft_inv s \<and> length p = 41 \<and>
    softap_turn (soft_env_demo\<lparr>soft_json := soft_lib_demo\<lparr>cJSON_Parse := (\<lambda>x. Some (jobj [(''Command'', ascii ''Get'')]))\<rparr>\<rparr>) 0 p s = None"
proof -
  obtain s :: softap where s: "soft_inv s" "\<not> soft_ended s" "ya_has_timer_expired 0 (ya_soft_ap_timer s) \<noteq> 0" using soft_running_demo by blast
  let ?env = "soft_env_demo\<lparr>soft_json := soft_lib_demo\<lparr>cJSON_Parse := (\<lambda>x. Some (jobj [(''Command'', ascii ''Get'')]))\<rparr>\<rparr>"
  let ?h = "[0x5A, 0x5A, 0, 1, 0, 0, 0, 16, 0] :: bytes" and ?c = "soft_crypto soft_env_demo"
  have c: "crypto_ok (soft_crypto ?env)" "crypto_ok ?c" using crypto_demo_ok by (simp_all add: soft_env_demo_def)
  have "phone_text ?env ?h [1] (jobj [(''Command'', ascii ''Get'')])"
    by (simp add: phone_text_def header_ok_def padded_def le16_def)
  moreover have "member_is (jobj [(''Command'', ascii ''Get'')]) ''Command'' (ascii ''Get'' @ [])"
    by (simp add: member_is_def jobj_def cJSON_GetObjectItem_def cJSON_strcasecmp_def tolower_def Let_def ascii_def)
  ultimately have "softap_turn ?env 0 (packet (soft_crypto ?env) (session_key (soft_crypto ?env) (header_flag ?h) s) ?h [1]) s = None"
    by (rule get_question_undefined [OF s(1) c(1) s(2,3)]) simp
  moreover have "length (packet ?c (session_key ?c (header_flag ?h) s) ?h [1]) = 41"
    using packet_length [OF c(2) session_key_length(2) [OF s(1) c(2)], of "header_flag ?h" "[1]"] c(2) by (simp add: packet_def padded_def crypto_ok_def)
  ultimately show ?thesis using s(1) by auto
qed

end
