(* ===== verification/SoftApSafe.thy ===== *)
theory SoftApSafe
  imports SoftAp
begin

text \<open>
  What the task of the access point does with arbitrary packets: every operation keeps the invariant, and the only packets
  that can take it out of its buffers are those that declare too great a length and requests without the members, or with shorter commands,
  than the code relies on.
\<close>

section \<open>Decryption and conversion are total\<close>

lemma cbc_decrypt_short:
  "length iv \<le> 16 \<Longrightarrow> length inp = 16 * k \<Longrightarrow> length (cbc_decrypt ecb iv inp) \<le> 16 * k"
proof (induction k arbitrary: iv inp)
  case 0
  then show ?case by (simp add: cbc_decrypt.simps)
next
  case (Suc k)
  have "length (cbc_decrypt ecb (take 16 inp) (drop 16 inp)) \<le> 16 * k" using Suc.prems by (intro Suc.IH) simp_all
  moreover have "inp \<noteq> []" using Suc.prems(2) by auto
  ultimately show ?case using Suc.prems(1) by (subst cbc_decrypt.simps) simp
qed

lemma decrypt_total:
  assumes "board_ok s" and "length iv \<le> 16" and "0 < pos" and "pos + len \<le> length out" and "len \<le> length ct"
  shows "\<exists>n d. AES_CBC_PKCS5Padding_decrypt c key iv ct out pos len s = Some (n, d) \<and> length d = length out \<and> n \<le> len"
proof -
  obtain b where b: "mem_alloc s len = Some b" "length b = len" using assms(1) by (rule mem_alloc_board_ok)
  obtain e where e: "(if len mod 16 \<noteq> 0 then Some b
      else do { x \<leftarrow> slice ct 0 len; memcpy_at b 0 (cbc_decrypt (aes_dec c key) iv x) }) = Some e" "length e = len"
  proof (cases "len mod 16 = 0")
    case True
    then obtain k where k: "len = 16 * k" by auto
    have "length (cbc_decrypt (aes_dec c key) iv (take len ct)) \<le> len"
      using cbc_decrypt_short [OF assms(2), of "take len ct" k] assms(5) k by simp
    then show ?thesis using that True b(2) assms(5) by (simp add: slice_def memcpy_at_def)
  qed (use that b(2) in simp)
  let ?o = "take pos out @ e @ drop (pos + len) out"
  have o: "memcpy_at out pos e = Some ?o" "length ?o = length out" using assms(4) e(2) by (simp_all add: memcpy_at_def)
  have "rd ?o (pos + len - 1) = Some (?o ! (pos + len - 1))" using assms(3,4) o(2) by (simp add: rd_def)
  then show ?thesis using b(1) e o assms(3) by (simp add: AES_CBC_PKCS5Padding_decrypt_def)
qed

lemma unhex_total:
  "length cs + index \<le> 2 * length h \<Longrightarrow> array_index = index div 2 \<Longrightarrow>
    \<exists>r h'. unhex_loop cs index array_index h = Some (r, h') \<and> length h' = length h"
proof (induction cs index array_index h rule: unhex_loop.induct)
  case (2 c cs index ai h)
  have ai: "ai < length h" using 2(3,4) by simp
  show ?case
  proof (cases "hex_value c")
    case (Some v)
    show ?thesis
    proof (cases "index mod 2 = 0")
      case True
      then have "ai = (index + 1) div 2" using 2(4) by presburger
      with 2(1) [OF Some True, of "h[ai := push_bit 4 v]"] show ?thesis using 2(3) ai Some True by (auto simp: wr_def)
    next
      case False
      then have "ai + 1 = (index + 1) div 2" using 2(4) by presburger
      then show ?thesis using 2(2) [OF Some False, of "h ! ai" "h[ai := h ! ai + v]"] 2(3) ai Some False by (auto simp: wr_def rd_def)
    qed
  qed simp
qed simp

lemma string_hex_total:
  assumes "length h = 6" and "0 \<notin> set v" and "length v \<le> 12"
  shows "\<exists>r h'. StringToHexArray h 6 (v @ [0]) = Some (r, h') \<and> length h' = 6"
  using unhex_total [of v 0 h 0] assms cstr_append_nul [OF assms(2), of "[]"] by (simp add: StringToHexArray_def)

lemma dec_digits_length: "n < 10 ^ k \<Longrightarrow> 0 < k \<Longrightarrow> length (dec_digits n) \<le> k"
proof (induction k arbitrary: n)
  case (Suc k)
  show ?case
  proof (cases "n < 10")
    case False
    then have "k \<noteq> 0" using Suc.prems(1) by (cases k) simp_all
    then have "length (dec_digits (n div 10)) \<le> k" using Suc.prems(1) by (intro Suc.IH) (simp_all add: less_mult_imp_div_less mult.commute)
    then show ?thesis using False by (subst dec_digits.simps) simp
  qed (subst dec_digits.simps, simp)
qed simp

lemma int_string_length: "length (ya_int_to_string v) \<le> 11"
proof -
  have "- (2 ^ 31) \<le> sint v" "sint v < 2 ^ 31" using sint_range_size [of v] by (simp_all add: word_size)
  then have "nat (- sint v) < 10 ^ 10" "nat (sint v) < 10 ^ 10" by simp_all
  then have "length (dec_digits (nat (- sint v))) \<le> 10" "length (dec_digits (nat (sint v))) \<le> 10"
    by (simp_all add: dec_digits_length [of _ 10])
  then show ?thesis by (simp add: ya_int_to_string_def)
qed

section \<open>What the task relies on\<close>

text \<open>
  The strings of a parsed object are there and end with their only zero byte.  A printed object of strings is not empty and has braces,
  and for each member quotes, a colon and a comma, and at most six characters for each one of its name and value.
\<close>

definition parse_law :: "cjson_lib \<Rightarrow> bool" where
  "parse_law lib \<longleftrightarrow> (\<forall>x obj. cJSON_Parse lib x = Some obj \<longrightarrow> (\<forall>j \<in> set (child obj).
     (jtype j = cJSON_String \<longrightarrow> valuestring j \<noteq> None) \<and> (\<forall>v. valuestring j = Some v \<longrightarrow> 0 \<notin> set v)))"

definition answer_size :: "(string \<times> bytes) list \<Rightarrow> nat" where
  "answer_size kvs = 2 + sum_list (map (\<lambda>(k, v). 6 + 6 * (length k + length v)) kvs)"

definition print_law :: "cjson_lib \<Rightarrow> bool" where
  "print_law lib \<longleftrightarrow> (\<forall>kvs b. cJSON_PrintUnformatted lib (jobj kvs) = Some b \<longrightarrow> b \<noteq> [] \<and> length b \<le> answer_size kvs)"

text \<open>A request whose command, if there is one, is a string as long as the names it is compared with, and which has the kind of cloud,
  as a string only if it is an \<open>int\<close>, when it asks for the device.\<close>

definition cloud_ok :: "cJSON \<Rightarrow> bool" where
  "cloud_ok obj \<longleftrightarrow> (case cJSON_GetObjectItem obj ''CloudType'' of None \<Rightarrow> False
     | Some j \<Rightarrow> jtype j = cJSON_String \<longrightarrow> valuestring j \<noteq> None \<and> atoi (the (valuestring j)) \<noteq> None)"

definition request_ok :: "cJSON \<Rightarrow> bool" where
  "request_ok obj \<longleftrightarrow> (case cJSON_GetObjectItem obj ''Command'' of None \<Rightarrow> True
     | Some j \<Rightarrow> (case valuestring j of None \<Rightarrow> False
         | Some v \<Rightarrow> 5 \<le> length v \<and> (if prefix (ascii ''Get'') v then cloud_ok obj else prefix (ascii ''Random'') v \<or> 7 \<le> length v)))"

definition string_nodes :: "cJSON \<Rightarrow> bool" where
  "string_nodes obj \<longleftrightarrow> (\<forall>j \<in> set (child obj). (jtype j = cJSON_String \<longrightarrow> valuestring j \<noteq> None) \<and> (\<forall>v. valuestring j = Some v \<longrightarrow> 0 \<notin> set v))"

lemma string_member_total:
  assumes "string_nodes obj"
  shows "\<exists>a. string_member obj k n = Some a \<and> (\<forall>v. a = Some v \<longrightarrow> 0 \<notin> set v \<and> length v \<le> n)"
proof (cases "cJSON_GetObjectItem obj k")
  case (Some j)
  then have j: "j \<in> set (child obj)" by (auto simp: cJSON_GetObjectItem_def find_Some_iff)
  show ?thesis
  proof (cases "jtype j = cJSON_String")
    case True
    then obtain v where v: "valuestring j = Some v" "0 \<notin> set v" using assms j by (auto simp: string_nodes_def)
    show ?thesis using Some True v by (cases "length v \<le> n") (simp_all add: string_member_def)
  qed (use Some in \<open>simp add: string_member_def\<close>)
qed (simp add: string_member_def)

section \<open>The commands keep the invariant\<close>

definition ready :: "'a softap_scheme \<Rightarrow> bool" where
  "ready s \<longleftrightarrow> soft_inv s \<and> \<not> soft_ended s \<and> (init_aes_key_and_iv_flag s = 0 \<or> init_aes_key_and_iv_flag s = 1)"

text \<open>A result with a state in which the task goes on.\<close>

definition goes_on :: "'a softap_scheme \<Rightarrow> (int \<times> 'a softap_scheme) option \<Rightarrow> bool" where
  "goes_on s r \<longleftrightarrow> (\<exists>ret t. r = Some (ret, t) \<and> soft_inv t \<and> \<not> soft_ended t \<and> enable_license_write t = enable_license_write s)"

lemma goes_on_same [simp]: "ready s \<Longrightarrow> goes_on s (Some (ret, s))"
  by (auto simp: goes_on_def ready_def)

lemma send_keeps:
  assumes "ready s" and "crypto_ok c" and "data \<noteq> []" and "length data \<le> 2000"
  shows "\<exists>t. send_packed c cmd data n s = Some t \<and> ready t \<and> enable_license_write t = enable_license_write s \<and> ya_router_para t = ya_router_para s"
proof -
  obtain d where d: "ya_softap_decode_buf s = Some d" "length d = 2048" using assms(1) by (auto simp: ready_def soft_inv_def buffers_def)
  let ?kv = "session_key c (init_aes_key_and_iv_flag s) s"
  have i: "soft_inv s" "init_aes_key_and_iv_flag s = 0 \<or> init_aes_key_and_iv_flag s = 1" using assms(1) by (auto simp: ready_def)
  obtain d' h where t: "send_packed c cmd data n s = Some (s\<lparr>aes_key := fst ?kv, soft_iv := snd ?kv, ya_softap_decode_buf := Some d',
      soft_events := soft_events s @ replicate n (SendTo (packet c ?kv h data))\<rparr>)" "length d' = 2048"
    using send_packed_run [OF i(1) assms(2) i(2) d assms(3,4) refl, of cmd n] by blast
  moreover have "length (fst ?kv) = 16" "length (snd ?kv) = 16" using session_key_length [OF i(1) assms(2)] by blast+
  ultimately show ?thesis using assms(1) d(1) by (auto simp: ready_def soft_inv_def buffers_def names_ok_def)
qed

lemma print_fits:
  assumes "print_law lib" and "cJSON_PrintUnformatted lib (jobj kvs) = Some b" and "answer_size kvs \<le> 2000"
  shows "b \<noteq> []" and "length b \<le> 2000"
proof -
  have "b \<noteq> [] \<and> length b \<le> answer_size kvs" using assms(1,2) unfolding print_law_def by blast
  then show "b \<noteq> []" "length b \<le> 2000" using assms(3) by auto
qed

lemma random_keeps:
  assumes "ready s" and "crypto_ok (soft_crypto env)" and "print_law (soft_json env)"
  shows "goes_on s (ya_softap_random_cmd env s)"
proof -
  have l: "length (random_data s) = 32" using assms(1) by (simp add: ready_def soft_inv_def)
  have h: "HexArrayToString (random_data s) 32 (replicate 128 0) = Some (hex_text (random_data s) @ 0 # replicate 63 0)"
    using hex_write [of 32 "random_data s" "replicate 128 0"] l by (simp add: hex_text_def)
  have v: "cstr (hex_text (random_data s) @ 0 # replicate 63 0) = Some (hex_text (random_data s))"
    unfolding hex_text_def by (rule cstr_append_nul [OF hex2_nonzero])
  show ?thesis
  proof (cases "cJSON_PrintUnformatted (soft_json env) (jobj [(''Random'', hex_text (random_data s))])")
    case None
    then show ?thesis using assms(1) by (simp add: ya_softap_random_cmd_def h v)
  next
    case (Some b)
    have "answer_size [(''Random'', hex_text (random_data s))] \<le> 2000" using l by (simp add: answer_size_def hex_text_def)
    note b = print_fits [OF assms(3) Some this]
    from send_keeps [OF assms(1,2) b, of SOFTAP_CONFIG_CMD_GET_RANDOM_RESPONSE 1] Some show ?thesis
      by (auto simp: ya_softap_random_cmd_def h v goes_on_def ready_def)
  qed
qed

lemma zero_string:
  assumes "0 \<in> set d" and "length d = Suc m"
  obtains v where "cstr d = Some v" and "length v \<le> m"
proof (cases "cstr d")
  case None
  then show thesis using assms(1) cstr_None [of d] by simp
next
  case (Some v)
  then show thesis using that cstr_SomeD(2) [of d v] assms(2) by simp
qed

lemma field_total:
  assumes "length d = Suc m" and "\<And>b. p = Some b \<Longrightarrow> short_string b m"
  shows "\<exists>r d'. get_field p m d = Some (r, d') \<and> length d' = Suc m \<and> 0 \<in> set d'"
proof (cases p)
  case None
  then show ?thesis using assms(1) by (simp add: get_field_def memset_def memcpy_at_def)
next
  case (Some b)
  then obtain v where v: "cstr b = Some v" "length v \<le> m" "0 \<notin> set v" using assms(2) short_stringE by metis
  have "strcpy d b = Some (v @ 0 # drop (Suc (length v)) d)" using v assms(1) by (simp add: strcpy_Some)
  moreover have "strlen (v @ 0 # drop (Suc (length v)) d) = Some (length v)" using cstr_append_nul [OF v(3)] by (simp add: strlen_def)
  ultimately show ?thesis using Some v(2) assms(1) by (simp add: get_field_def)
qed

lemma thing_name_keeps:
  assumes "ready s"
  shows "\<exists>pk t. ya_aly_get_thing_name s = Some (pk, t) \<and> (\<forall>v. pk = Some v \<longrightarrow> length v \<le> 64) \<and> ready t \<and>
    enable_license_write t = enable_license_write s"
proof -
  have n: "length (aly_product_key s) = Suc 20" "0 \<in> set (aly_product_key s)" "\<And>b. aliyun_productkey s = Some b \<Longrightarrow> short_string b 20"
    using assms by (simp_all add: ready_def soft_inv_def names_ok_def)
  obtain u where u: "cstr (aly_product_key s) = Some u" using zero_string [OF n(2,1)] by blast
  obtain d where d: "(if length u = 0 then map_option snd (ya_get_productKey (aly_product_key s) s) else Some (aly_product_key s)) = Some d"
    "length d = Suc 20" "0 \<in> set d"
    using field_total [where p = "aliyun_productkey s", OF n(1,3)] n(1,2) by (cases "u = []") (auto simp: ya_get_productKey_def YA_PRODUCT_KEY_LEN_def)
  obtain v where v: "cstr d = Some v" "length v \<le> 20" using zero_string [OF d(3,2)] by blast
  have "ready (s\<lparr>aly_product_key := d\<rparr>)" using assms d(2,3) by (simp add: ready_def soft_inv_def names_ok_def buffers_def)
  then show ?thesis using u d(1) v by (auto simp: ya_aly_get_thing_name_def strlen_def)
qed

lemma client_id_keeps:
  assumes "ready s"
  shows "\<exists>ci t. ya_aly_get_client_id s = Some (ci, t) \<and> (\<forall>v. ci = Some v \<longrightarrow> length v \<le> 64) \<and> ready t \<and>
    enable_license_write t = enable_license_write s"
proof -
  have n: "length (aly_device_name s) = Suc 32" "0 \<in> set (aly_device_name s)" "\<And>b. aliyun_deviceid s = Some b \<Longrightarrow> short_string b 32"
    using assms by (simp_all add: ready_def soft_inv_def names_ok_def)
  obtain u where u: "cstr (aly_device_name s) = Some u" using zero_string [OF n(2,1)] by blast
  obtain d where d: "(if length u = 0 then map_option snd (ya_get_deviceID (aly_device_name s) s) else Some (aly_device_name s)) = Some d"
    "length d = Suc 32" "0 \<in> set d"
    using field_total [where p = "aliyun_deviceid s", OF n(1,3)] n(1,2) by (cases "u = []") (auto simp: ya_get_deviceID_def YA_DEVICE_ID_LEN_def)
  obtain v where v: "cstr d = Some v" "length v \<le> 32" using zero_string [OF d(3,2)] by blast
  have "ready (s\<lparr>aly_device_name := d\<rparr>)" using assms d(2,3) by (simp add: ready_def soft_inv_def names_ok_def buffers_def)
  then show ?thesis using u d(1) v by (auto simp: ya_aly_get_client_id_def strlen_def)
qed

lemma block_string_total:
  assumes "\<And>b. p = Some b \<Longrightarrow> short_string b n"
  shows "\<exists>v. block_string p = Some v \<and> (\<forall>w. v = Some w \<longrightarrow> length w \<le> n)"
  using assms by (cases p) (auto simp: block_string_def elim: short_stringE)

lemma device_names_keep:
  assumes "ready s"
  shows "\<exists>pk ci t. device_names cloud s = Some (pk, ci, t) \<and> (\<forall>v. pk = Some v \<longrightarrow> length v \<le> 64) \<and> (\<forall>v. ci = Some v \<longrightarrow> length v \<le> 64) \<and>
    ready t \<and> enable_license_write t = enable_license_write s"
proof (cases "cloud = uint WIFI_CN")
  case True
  obtain pk t where t: "ya_aly_get_thing_name s = Some (pk, t)" "\<forall>v. pk = Some v \<longrightarrow> length v \<le> 64" "ready t"
    "enable_license_write t = enable_license_write s" using thing_name_keeps [OF assms] by blast
  with client_id_keeps [OF t(3)] True show ?thesis by (auto simp: device_names_def)
next
  case False
  have "\<And>b. aws_thing_type s = Some b \<Longrightarrow> short_string b 64" "\<And>b. aws_client_id s = Some b \<Longrightarrow> short_string b 64"
    using assms by (simp_all add: ready_def soft_inv_def names_ok_def)
  then show ?thesis using False assms block_string_total [of "aws_thing_type s" 64] block_string_total [of "aws_client_id s" 64]
    by (auto simp: device_names_def ya_aws_get_thing_type_def ya_aws_get_client_id_def)
qed

lemma get_code_keeps:
  assumes "ready s" and "cJSON_GetObjectItem obj ''CloudType'' = Some j" and "jtype j = cJSON_String \<Longrightarrow> valuestring j \<noteq> None \<and> atoi (the (valuestring j)) \<noteq> None"
  shows "\<exists>r pk ci t. get_cmd_code obj s = Some (r, pk, ci, t) \<and> length pk \<le> 64 \<and> length ci \<le> 64 \<and> ready t \<and>
    enable_license_write t = enable_license_write s"
proof (cases "jtype j = cJSON_String")
  case False
  then show ?thesis using assms(1,2) by (simp add: get_cmd_code_def)
next
  case True
  then obtain v cloud where v: "valuestring j = Some v" "atoi v = Some cloud" using assms(3) by auto
  obtain pk ci t where n: "device_names cloud s = Some (pk, ci, t)" "\<forall>v. pk = Some v \<longrightarrow> length v \<le> 64" "\<forall>v. ci = Some v \<longrightarrow> length v \<le> 64"
    "ready t" "enable_license_write t = enable_license_write s" using device_names_keep [OF assms(1)] by blast
  have "router_fit ((ya_router_para t)\<lparr>router_cloud_type := word_of_int cloud\<rparr>)"
    using soft_invD(7) [of t] n(4) by (simp add: ready_def router_fit_def softap_ok_def)
  then have "ready (t\<lparr>ya_router_para := (ya_router_para t)\<lparr>router_cloud_type := word_of_int cloud\<rparr>\<rparr>)"
    using n(4) by (simp add: ready_def soft_inv_def names_ok_def buffers_def)
  then show ?thesis using True v n assms(1,2)
    by (cases pk; cases ci) (auto simp: get_cmd_code_def Let_def)
qed

lemma get_keeps:
  assumes "ready s" and "crypto_ok (soft_crypto env)" and "print_law (soft_json env)"
    and "cJSON_GetObjectItem obj ''CloudType'' = Some j" and "jtype j = cJSON_String \<Longrightarrow> valuestring j \<noteq> None \<and> atoi (the (valuestring j)) \<noteq> None"
  shows "goes_on s (ya_softap_get_cmd env obj s)"
proof -
  obtain r pk ci t where t: "get_cmd_code obj s = Some (r, pk, ci, t)" "length pk \<le> 64" "length ci \<le> 64" "ready t"
    "enable_license_write t = enable_license_write s" using get_code_keeps [OF assms(1,4,5)] by blast
  have "short_string (cur_version (ya_app_main_para_obj t)) 64" using t(4) by (simp add: ready_def soft_inv_def names_ok_def)
  then obtain ver where ver: "cstr (cur_version (ya_app_main_para_obj t)) = Some ver" "length ver \<le> 64" "0 \<notin> set ver" by (rule short_stringE)
  let ?b = "ver @ 0 # drop (Suc (length ver)) (replicate 65 0)"
  have v: "ya_get_ver_string (replicate 65 0) t = Some ?b" "cstr ?b = Some ver"
    using ver cstr_append_nul [OF ver(3)] by (simp_all add: ya_get_ver_string_def strcpy_Some)
  let ?kvs = "[(''Command'', ascii ''Return''), (''DeviceId'', ci), (''ProductKey'', pk),
         (''Code'', if r = 0 then ascii ''0'' else if r = 1 then ascii ''1'' else ascii ''2''), (''WiFiCloud'', ya_int_to_string (ya_wifiCloud s)),
         (''Version'', ver)]"
  show ?thesis
  proof (cases "cJSON_PrintUnformatted (soft_json env) (jobj ?kvs)")
    case None
    then show ?thesis using t v by (auto simp: ya_softap_get_cmd_def Let_def goes_on_def ready_def)
  next
    case (Some b)
    have "answer_size ?kvs \<le> 2000" using t(2,3) ver(2) int_string_length [of "ya_wifiCloud s"] by (simp add: answer_size_def ascii_def)
    note b = print_fits [OF assms(3) Some this]
    from send_keeps [OF t(4) assms(2) b, of SOFTAP_CONFIG_CMD_GET_DEVICE_MSG_RESPONSE 1] t(1,5) v Some show ?thesis
      by (auto simp: ya_softap_get_cmd_def Let_def goes_on_def ready_def)
  qed
qed

lemma apconfig_code_keeps:
  assumes "ready s" and "string_nodes obj"
  shows "\<exists>c t. apconfig_code obj s = Some (c, t) \<and> ready t \<and> enable_license_write t = enable_license_write s"
proof -
  let ?p = "ya_router_para s"
  have p: "length (router_ssid ?p) = 33" "length (router_pwd ?p) = 65" "length (router_bssid ?p) = 6" "length (router_random ?p) = 33"
    using assms(1) by (simp_all add: ready_def soft_inv_def router_fit_def softap_ok_def)
  obtain a1 where a1: "string_member obj ''Ssid'' 32 = Some a1" "\<And>v. a1 = Some v \<Longrightarrow> 0 \<notin> set v \<and> length v \<le> 32"
    using string_member_total [OF assms(2), of "''Ssid''" 32] by blast
  obtain a2 where a2: "string_member obj ''Password'' 64 = Some a2" "\<And>v. a2 = Some v \<Longrightarrow> 0 \<notin> set v \<and> length v \<le> 64"
    using string_member_total [OF assms(2), of "''Password''" 64] by blast
  obtain a3 where a3: "string_member obj ''Bssid'' 12 = Some a3" "\<And>v. a3 = Some v \<Longrightarrow> 0 \<notin> set v \<and> length v \<le> 12"
    using string_member_total [OF assms(2), of "''Bssid''" 12] by blast
  obtain a4 where a4: "string_member obj ''Random'' 32 = Some a4" "\<And>v. a4 = Some v \<Longrightarrow> 0 \<notin> set v \<and> length v \<le> 32"
    using string_member_total [OF assms(2), of "''Random''" 32] by blast
  show ?thesis
  proof (cases "a1 = None \<or> a2 = None \<or> a3 = None \<or> a4 = None")
    case True
    then have "apconfig_code obj s = Some (1, s)"
      unfolding apconfig_code_def a1(1) a2(1) a3(1) a4(1) by (auto split: option.splits)
    then show ?thesis using assms(1) by simp
  next
    case False
    then obtain sd pw bs rn where e: "a1 = Some sd" "a2 = Some pw" "a3 = Some bs" "a4 = Some rn" by auto
    note m = a1(1) [unfolded e] a2(1) [unfolded e] a3(1) [unfolded e] a4(1) [unfolded e]
    note l = a1(2) [OF e(1)] a2(2) [OF e(2)] a3(2) [OF e(3)] a4(2) [OF e(4)]
    have c: "strcpy (router_ssid ?p) (sd @ [0]) = Some (sd @ 0 # drop (Suc (length sd)) (router_ssid ?p))"
      "strcpy (router_pwd ?p) (pw @ [0]) = Some (pw @ 0 # drop (Suc (length pw)) (router_pwd ?p))"
      "strcpy (router_random ?p) (rn @ [0]) = Some (rn @ 0 # drop (Suc (length rn)) (router_random ?p))"
      using strcpy_text l p by simp_all
    obtain r h where h: "StringToHexArray (router_bssid ?p) 6 (bs @ [0]) = Some (r, h)" "length h = 6"
      using string_hex_total [OF p(3)] l(3) by blast
    let ?q = "?p\<lparr>router_ssid := sd @ 0 # drop (Suc (length sd)) (router_ssid ?p), router_pwd := pw @ 0 # drop (Suc (length pw)) (router_pwd ?p),
      router_bssid := h, router_random := rn @ 0 # drop (Suc (length rn)) (router_random ?p)\<rparr>"
    have "apconfig_code obj s = Some (0, s\<lparr>ya_router_para := ?q\<rparr>)" using m c h(1) by (simp add: apconfig_code_def Let_def)
    moreover have "router_fit ?q" using p l h(2) by (simp add: router_fit_def softap_ok_def)
    ultimately show ?thesis using assms(1) by (simp add: ready_def soft_inv_def names_ok_def buffers_def)
  qed
qed

lemma callback_keeps:
  assumes "soft_inv s" and "softap_ok p"
  shows "\<exists>t. ya_softap_callback c p s = Some t \<and> soft_inv t \<and> soft_ended t = soft_ended s \<and> enable_license_write t = enable_license_write s"
proof -
  obtain t where t: "ya_softap_callback c p s = Some t" "app_inv t" using softap_inv [OF soft_invD(1) [OF assms(1)] assms(2)] by blast
  have f: "soft_frame s t" using callback_frame [OF t(1)] .
  then have "soft_ended t = soft_ended s" "enable_license_write t = enable_license_write s" using more_fields [of t s] by (simp_all add: soft_frame_def)
  then show ?thesis using t(1) soft_inv_frame [OF assms(1) f t(2)] by blast
qed

lemma apconfig_keeps:
  assumes "ready s" and "crypto_ok (soft_crypto env)" and "print_law (soft_json env)" and "string_nodes obj"
  shows "goes_on s (ya_softap_apconfig_cmd env obj s)"
proof -
  obtain c t where t: "apconfig_code obj s = Some (c, t)" "ready t" "enable_license_write t = enable_license_write s"
    using apconfig_code_keeps [OF assms(1,4)] by blast
  let ?kvs = "[(''Code'', if c = 0 then ascii ''0'' else ascii ''1'')]"
  show ?thesis
  proof (cases "cJSON_PrintUnformatted (soft_json env) (jobj ?kvs)")
    case None
    then show ?thesis using t by (simp add: ya_softap_apconfig_cmd_def) (auto simp: goes_on_def ready_def)
  next
    case (Some b)
    have "answer_size ?kvs \<le> 2000" by (simp add: answer_size_def ascii_def)
    note b = print_fits [OF assms(3) Some this]
    obtain u where u: "send_packed (soft_crypto env) SOFTAP_CONFIG_CMD_GET_NET_MSG_RESPONSE b 3 t = Some u" "ready u"
      "enable_license_write u = enable_license_write s" "ya_router_para u = ya_router_para t"
      using send_keeps [OF t(2) assms(2) b] t(3) by metis
    have "softap_ok (ya_router_para u)" "soft_inv u" using u(2) by (simp_all add: ready_def soft_inv_def router_fit_def)
    from callback_keeps [OF this(2,1), of SOFTAP_CONFIG_FINISH] t(1) u Some show ?thesis
      by (auto simp: ya_softap_apconfig_cmd_def goes_on_def ready_def)
  qed
qed

lemma memcmp_name_prefix:
  assumes "length name \<le> Suc (length v)" and "(0 :: u8) \<notin> set (ascii name)"
  shows "memcmp_name v name = Some (prefix (ascii name) v)"
proof -
  have l: "length (ascii name) = length name" by (simp add: ascii_def)
  have "take (length name) (v @ [0]) = ascii name \<longleftrightarrow> prefix (ascii name) v"
  proof (cases "length name \<le> length v")
    case True
    then show ?thesis using l by (auto simp: prefix_def) (metis append_take_drop_id)
  next
    case False
    then have "take (length name) (v @ [0]) = v @ [0]" using assms(1) by simp
    moreover have "0 \<in> set (v @ [0])" by simp
    then have "v @ [0] \<noteq> ascii name" using assms(2) by metis
    moreover have "\<not> prefix (ascii name) v" using False l by (auto dest: prefix_length_le)
    ultimately show ?thesis by simp
  qed
  then show ?thesis using assms(1) by (simp add: memcmp_name_def slice_def)
qed

lemma command_keeps:
  assumes "ready s" and "crypto_ok (soft_crypto env)" and "print_law (soft_json env)" and "string_nodes obj" and "request_ok obj"
  shows "goes_on s (softap_command env obj s)"
proof (cases "cJSON_GetObjectItem obj ''Command''")
  case None
  then show ?thesis using assms(1) by (simp add: softap_command_def)
next
  case (Some j)
  then obtain v where v: "valuestring j = Some v" "5 \<le> length v" and
    r: "if prefix (ascii ''Get'') v then cloud_ok obj else prefix (ascii ''Random'') v \<or> 7 \<le> length v"
    using assms(5) by (auto simp: request_ok_def split: option.splits)
  have g: "goes_on s (ya_softap_get_cmd env obj s)" if p: "prefix (ascii ''Get'') v"
    using get_keeps [OF assms(1-3)] r p by (auto simp: cloud_ok_def split: option.splits)
  have m: "memcmp_name v ''Random'' = Some (prefix (ascii ''Random'') v)" "memcmp_name v ''Get'' = Some (prefix (ascii ''Get'') v)"
    using v(2) by (intro memcmp_name_prefix; simp add: ascii_def)+
  have a: "memcmp_name v ''Apconfig'' = Some (prefix (ascii ''Apconfig'') v)" if "7 \<le> length v"
    using that by (intro memcmp_name_prefix) (simp_all add: ascii_def)
  show ?thesis
    using random_keeps [OF assms(1-3)] g apconfig_keeps [OF assms(1-4)] assms(1) r by (auto simp: softap_command_def Some v(1) m a split: if_splits)
qed

section \<open>Packets\<close>

text \<open>
  The request in a packet in the receive buffer: the parsed text, when the decrypted text is not empty and has the digest of the packet.
\<close>

definition checked_request :: "soft_env \<Rightarrow> bytes \<Rightarrow> nat \<Rightarrow> nat \<Rightarrow> bytes \<Rightarrow> cJSON option" where
  "checked_request env buffer clen dlen d =
     (if dlen = 0 \<or> take 16 (drop (9 + clen) buffer) \<noteq> md5 (soft_crypto env) (take dlen (drop 9 d)) then None
      else Option.bind (cstr (drop 9 (d[9 + dlen := 0]))) (cJSON_Parse (soft_json env)))"

definition packet_request :: "soft_env \<Rightarrow> bytes \<Rightarrow> 'a softap_scheme \<Rightarrow> cJSON option" where
  "packet_request env buffer s =
     (let c = soft_crypto env; kv = session_key c (header_flag buffer) s; clen = le16 (buffer ! 7) (buffer ! 8)
      in if buffer ! 0 \<noteq> 0x5A \<or> buffer ! 1 \<noteq> 0x5A then None
         else do {
           (dlen, d) \<leftarrow> AES_CBC_PKCS5Padding_decrypt c (fst kv) (snd kv) (drop 9 buffer) (take 9 buffer @ replicate 2039 0) 9 clen s;
           checked_request env buffer clen dlen d })"

lemma packet_request_received [simp]: "packet_request env buffer (s\<lparr>ya_softap_rece_buf := b\<rparr>) = packet_request env buffer s"
proof -
  have "session_key c f (s\<lparr>ya_softap_rece_buf := b\<rparr>) = session_key c f s" for c f
    by (cases "f = 0") (simp_all add: session_key_def)
  moreover have "AES_CBC_PKCS5Padding_decrypt c k v x y pos n (s\<lparr>ya_softap_rece_buf := b\<rparr>) = AES_CBC_PKCS5Padding_decrypt c k v x y pos n s"
    for c k v x y pos n by (simp add: AES_CBC_PKCS5Padding_decrypt_def mem_alloc_def)
  ultimately show ?thesis by (simp only: packet_request_def Let_def)
qed

lemma text_keeps:
  assumes "ready s" and "crypto_ok (soft_crypto env)" and "print_law (soft_json env)" and "parse_law (soft_json env)"
    and "\<And>obj. checked_request env buffer clen dlen (the (ya_softap_decode_buf s)) = Some obj \<Longrightarrow> request_ok obj"
    and "length buffer = 2048" and "clen \<le> 2023" and "dlen \<le> clen" and "dlen \<noteq> 0"
  shows "goes_on s (softap_text env buffer clen dlen s)"
proof -
  obtain d where d: "ya_softap_decode_buf s = Some d" "length d = 2048" using assms(1) by (auto simp: ready_def soft_inv_def buffers_def)
  define t where "t = take dlen (drop 9 d)"
  have sl: "slice d SOFTAP_CONFIG_DATA_POS dlen = Some t" "length t = dlen"
    using d(2) assms(7,8) by (simp_all add: slice_def t_def SOFTAP_CONFIG_DATA_POS_def)
  have md: "ya_mbedtls_md5 (soft_crypto env) t (replicate 16 0) dlen = Some (0, md5 (soft_crypto env) t)"
    using sl(2) assms(2,9) by (simp add: ya_mbedtls_md5_def slice_def memcpy_at_def crypto_ok_def)
  let ?m = "take 16 (drop (9 + clen) buffer)"
  have m: "slice buffer ((SOFTAP_CONFIG_DATA_POS + clen) mod 65536) 16 = Some ?m"
    using assms(6,7) by (simp add: slice_def SOFTAP_CONFIG_DATA_POS_def)
  let ?d = "d[9 + dlen := 0]"
  have w: "wr d (SOFTAP_CONFIG_DATA_POS + dlen) 0 = Some ?d" using d(2) assms(7,8) by (simp add: wr_def SOFTAP_CONFIG_DATA_POS_def)
  have "drop 9 ?d ! dlen = 0" "dlen < length (drop 9 ?d)" using d(2) assms(7,8) by simp_all
  then have "0 \<in> set (drop 9 ?d)" by (metis nth_mem)
  then obtain x where x: "cstr (drop SOFTAP_CONFIG_DATA_POS ?d) = Some x" using cstr_None [of "drop 9 ?d"] by (auto simp: SOFTAP_CONFIG_DATA_POS_def)
  have r: "ready (s\<lparr>ya_softap_decode_buf := Some ?d\<rparr>)" using assms(1) d by (auto simp: ready_def soft_inv_def names_ok_def buffers_def)
  have c: "goes_on s (softap_command env obj (s\<lparr>ya_softap_decode_buf := Some ?d\<rparr>))"
    if q: "?m = md5 (soft_crypto env) t" and p: "cJSON_Parse (soft_json env) x = Some obj" for obj
  proof -
    have "checked_request env buffer clen dlen d = Some obj" using q p x assms(9) by (simp add: checked_request_def t_def SOFTAP_CONFIG_DATA_POS_def)
    then have ok: "request_ok obj" using assms(5) d(1) by simp
    have "string_nodes obj" using assms(4) p by (simp add: parse_law_def string_nodes_def)
    from command_keeps [OF r assms(2,3) this ok] show ?thesis by (simp add: goes_on_def)
  qed
  have "goes_on s (Some (-1, s\<lparr>ya_softap_decode_buf := Some ?d\<rparr>))" using r by (auto simp: goes_on_def ready_def)
  then show ?thesis using c assms(1) unfolding softap_text_def d(1)
    by (simp add: sl(1) md m w x Let_def split: option.split)
qed

lemma parse_keeps:
  assumes "soft_inv s" and "\<not> soft_ended s" and "crypto_ok (soft_crypto env)" and "print_law (soft_json env)" and "parse_law (soft_json env)"
    and "\<And>obj. packet_request env buffer s = Some obj \<Longrightarrow> request_ok obj"
    and "length buffer = 2048" and "le16 (buffer ! 7) (buffer ! 8) \<le> 2023"
  shows "goes_on s (ya_softap_comm_parse env buffer s)"
proof (cases "buffer ! 1 \<noteq> 0x5A \<or> buffer ! 0 \<noteq> 0x5A")
  case True
  then show ?thesis using assms(1,2,7) by (auto simp: ya_softap_comm_parse_def rd_def goes_on_def)
next
  case False
  let ?c = "soft_crypto env" and ?n = "le16 (buffer ! 7) (buffer ! 8)"
  define f :: u8 where "f = (if le16 (buffer ! 3) (buffer ! 4) = 1 then 0 else 1)"
  obtain r d where b: "buffers s r d" using assms(1,2) by (auto simp: soft_inv_def)
  have rd: "rd buffer i = Some (buffer ! i)" if "i < 9" for i using that assms(7) by (simp add: rd_def)
  define s1 where "s1 = s\<lparr>init_aes_key_and_iv_flag := f\<rparr>"
  have s1: "soft_inv s1" using assms(1) by (simp add: soft_inv_def s1_def buffers_def names_ok_def)
  let ?kv = "session_key ?c f s1"
  define s2 where "s2 = s1\<lparr>aes_key := fst ?kv, soft_iv := snd ?kv\<rparr>"
  have ck: "create_aes_key_and_iv ?c s1 = Some s2" using create_key [OF s1 assms(3)] by (simp add: s1_def s2_def f_def)
  have kl: "length (fst ?kv) = 16" "length (snd ?kv) = 16" using session_key_length [OF s1 assms(3)] by blast+
  have s2: "soft_inv s2" "\<not> soft_ended s2" "f = 0 \<or> f = 1" using s1 kl assms(2) by (simp_all add: soft_inv_def s2_def buffers_def names_ok_def s1_def f_def)
  let ?h = "take 9 buffer" and ?d1 = "take 9 buffer @ replicate 2039 0"
  have h: "slice buffer 0 SOFTAP_CONFIG_DATA_POS = Some ?h" using assms(7) by (simp add: slice_def SOFTAP_CONFIG_DATA_POS_def)
  have d1: "memset d 0 SOFTAP_BUF_SIZE = Some (replicate 2048 0)" "memcpy_at (replicate 2048 0) 0 ?h = Some ?d1"
    using b assms(7) by (simp_all add: buffers_def memset_def memcpy_at_def SOFTAP_BUF_SIZE_def)
  have iv: "length (soft_iv s2) \<le> 16" using kl by (simp add: s2_def)
  obtain n d2 where d2: "AES_CBC_PKCS5Padding_decrypt ?c (aes_key s2) (soft_iv s2) (drop 9 buffer) ?d1 9 ?n s2 = Some (n, d2)"
    "length d2 = 2048" "n \<le> ?n"
    using decrypt_total [OF soft_invD(2) [OF s2(1)] iv, of 9 ?n ?d1 "drop 9 buffer" ?c "aes_key s2"] assms(7,8) by auto
  let ?t = "s2\<lparr>ya_softap_decode_buf := Some d2\<rparr>"
  have t: "ready ?t" using s2 d2(2) b by (auto simp: ready_def soft_inv_def buffers_def names_ok_def s2_def s1_def)
  have e: "ya_softap_comm_parse env buffer s = (if n = 0 then do { _ \<leftarrow> slice buffer 0 ((?n + 25) mod 65536); Some (-1, ?t) }
      else softap_text env buffer ?n n ?t)"
    using False b rd h d1 d2(1) ck unfolding ya_softap_comm_parse_def SOFTAP_CONFIG_DATA_POS_def
    by (simp add: buffers_def s1_def f_def Let_def)
  have o: "slice buffer 0 ((?n + 25) mod 65536) \<noteq> None" using assms(7,8) by (simp add: slice_def)
  have "session_key ?c f s1 = session_key ?c (header_flag buffer) s" by (simp add: session_key_def s1_def f_def header_flag_def)
  then have "AES_CBC_PKCS5Padding_decrypt ?c (fst (session_key ?c (header_flag buffer) s)) (snd (session_key ?c (header_flag buffer) s))
      (drop 9 buffer) ?d1 9 ?n s = Some (n, d2)"
    using d2(1) by (simp add: s2_def s1_def AES_CBC_PKCS5Padding_decrypt_def mem_alloc_def)
  then have "request_ok obj" if "checked_request env buffer ?n n d2 = Some obj" for obj
    using that False assms(6) by (simp add: packet_request_def Let_def)
  then have q: "request_ok obj" if "checked_request env buffer ?n n (the (ya_softap_decode_buf ?t)) = Some obj" for obj using that by simp
  have "goes_on ?t (ya_softap_comm_parse env buffer s)"
    using e o t text_keeps [OF t assms(3-5) q assms(7,8) d2(3)] by (cases "n = 0") auto
  then show ?thesis by (simp add: goes_on_def s2_def s1_def)
qed

text \<open>A packet that is handled as a message declares at most 2023 bytes, and its text is no request the code stumbles over; \<open>received p\<close> is the
  buffer it is received into.\<close>

definition received :: "bytes \<Rightarrow> bytes" where
  "received p = take 2047 p @ replicate (2048 - length (take 2047 p)) 0"

definition packet_ok :: "soft_env \<Rightarrow> bytes \<Rightarrow> 'a softap_scheme \<Rightarrow> bool" where
  "packet_ok env p s \<longleftrightarrow> length p \<le> 25 \<or> le16 (p ! 7) (p ! 8) \<le> 2023 \<and>
     (case packet_request env (received p) s of None \<Rightarrow> True | Some obj \<Rightarrow> request_ok obj)"

text \<open>The packets of a run, each one in the state it finds.\<close>

fun packets_ok :: "soft_env \<Rightarrow> (u32 \<times> bytes) list \<Rightarrow> 'a softap_scheme \<Rightarrow> bool" where
  "packets_ok env [] s \<longleftrightarrow> True"
| "packets_ok env ((tick, p) # ps) s \<longleftrightarrow> packet_ok env p s \<and>
     (case softap_turn env tick p s of None \<Rightarrow> True | Some t \<Rightarrow> packets_ok env ps t)"

definition trusted :: "soft_env \<Rightarrow> bool" where
  "trusted env \<longleftrightarrow> crypto_ok (soft_crypto env) \<and> print_law (soft_json env) \<and> parse_law (soft_json env)"

lemma router_zero_ok: "softap_ok router_para_zero"
  by (simp add: softap_ok_def router_para_zero_def)

lemma out_inv: "soft_inv s \<Longrightarrow> soft_inv (softap_out s)"
  by (simp add: soft_inv_def softap_out_def names_ok_def)

lemma softap_turn_keeps:
  assumes "soft_inv s \<and> \<not> enable_license_write s" and "trusted env" and "packet_ok env p s"
  shows "\<exists>t. softap_turn env tick p s = Some t \<and> soft_inv t \<and> \<not> enable_license_write t"
proof -
  have c: "\<exists>t. (do { t \<leftarrow> ya_softap_callback k router_para_zero u; Some (softap_out t) }) = Some t \<and> soft_inv t \<and> \<not> enable_license_write t"
    if "soft_inv u" "\<not> enable_license_write u" for k u
    using callback_keeps [OF that(1) router_zero_ok, of k] that(2) out_inv by (force simp: softap_out_def)
  show ?thesis
  proof (cases "soft_ended s \<or> ya_has_timer_expired tick (ya_soft_ap_timer s) = 0")
    case True
    then show ?thesis using assms(1) c [of s SOFTAP_TIME_OUT] by (auto simp: softap_turn_def)
  next
    case False
    then obtain r d where b: "buffers s r d" using assms(1) by (auto simp: soft_inv_def)
    define q where "q = take (SOFTAP_BUF_SIZE - 1) p"
    define buf where "buf = q @ replicate (2048 - length q) 0"
    define s1 where "s1 = s\<lparr>ya_softap_rece_buf := Some buf\<rparr>"
    have q: "length q \<le> 2047" by (simp add: q_def SOFTAP_BUF_SIZE_def)
    have m: "memset r 0 SOFTAP_BUF_SIZE = Some (replicate 2048 0)" "memcpy_at (replicate 2048 0) 0 q = Some buf" "length buf = 2048"
      using b q by (simp_all add: buffers_def memset_def memcpy_at_def SOFTAP_BUF_SIZE_def buf_def)
    have i: "soft_inv s1" "\<not> soft_ended s1" "\<not> enable_license_write s1"
      using assms(1) b False m(3) by (simp_all add: soft_inv_def buffers_def names_ok_def s1_def)
    have k: "goes_on s1 (ya_softap_comm_parse env buf s1)" if l: "25 < length q"
    proof -
      have "le16 (buf ! 7) (buf ! 8) \<le> 2023" using assms(3) l by (simp add: packet_ok_def nth_append buf_def q_def)
      moreover have "received p = buf" by (simp add: received_def buf_def q_def SOFTAP_BUF_SIZE_def)
      then have "request_ok obj" if "packet_request env buf s1 = Some obj" for obj
        using that assms(3) l by (simp add: packet_ok_def q_def s1_def)
      ultimately show ?thesis using parse_keeps [OF i(1,2), of env buf] assms(2) m(3) by (simp add: trusted_def)
    qed
    have res: "\<exists>t. softap_result ret u = Some t \<and> soft_inv t \<and> \<not> enable_license_write t" if "soft_inv u" "\<not> enable_license_write u" for ret u
      using that c [OF that] out_inv [OF that(1)] by (simp add: softap_result_def) (simp add: softap_out_def)
    have "\<exists>t. (do { (ret, u) \<leftarrow> ya_softap_comm_parse env buf s1; softap_result ret u }) = Some t \<and> soft_inv t \<and> \<not> enable_license_write t"
      if l: "25 < length q" using k [OF l] res i(3) by (auto simp: goes_on_def)
    moreover have "softap_turn env tick p s = (if 25 < length q then if buf ! 1 = 0x5A \<and> buf ! 0 = 0x5A then
        if length q \<ge> le16 (buf ! 7) (buf ! 8) then do { (ret, u) \<leftarrow> ya_softap_comm_parse env buf s1; softap_result ret u } else Some s1
        else Some s1 else Some s1)"
      using False b m(1,2) i(3) unfolding softap_turn_def Let_def q_def [symmetric] by (simp add: buffers_def s1_def)
    ultimately show ?thesis using i by simp
  qed
qed

lemma softap_run_keeps:
  assumes "trusted env"
  shows "soft_inv s \<Longrightarrow> \<not> enable_license_write s \<Longrightarrow> packets_ok env ps s \<Longrightarrow>
    \<exists>t. run_steps (\<lambda>(tick, p). softap_turn env tick p) ps s = Some t \<and> soft_inv t"
proof (induction ps arbitrary: s)
  case (Cons x ps)
  obtain tick p where x: "x = (tick, p)" by fastforce
  obtain t where t: "softap_turn env tick p s = Some t" "soft_inv t" "\<not> enable_license_write t"
    using softap_turn_keeps [OF _ assms, of s p tick] Cons.prems x by auto
  then show ?case using Cons.IH [OF t(2,3)] Cons.prems(3) x by simp
qed simp

text \<open>C13: The pairing task over any traffic.  A module that has its licences (the task was started without the writing of licences) does
  not leave its buffers, follow a null pointer or lose its invariant, whatever packets it receives at whatever times, provided that no
  packet declares more than 2023 bytes and that no packet decrypts, with its digest right, to a request the code stumbles over: one whose
  command is no string or shorter than the names it is compared with, or which asks for the device without a kind of cloud.
  Packets need not be encrypted, complete or well-formed, and nothing is supposed of what the parser accepts otherwise.\<close>

theorem softap_run_safe:
  assumes "soft_inv s" and "\<not> enable_license_write s" and "trusted env" and "packets_ok env ps s"
  shows "\<exists>t. run_steps (\<lambda>(tick, p). softap_turn env tick p) ps s = Some t \<and> soft_inv t"
  by (rule softap_run_keeps [OF assms(3,1,2,4)])

lemma soft_env_demo_trusted: "trusted soft_env_demo"
proof -
  have z: "0 \<notin> set (hex_text (replicate 6 1))" unfolding hex_text_def by (rule hex2_nonzero)
  have "print_law soft_lib_demo" by (simp add: print_law_def soft_lib_demo_def answer_size_def)
  moreover have "parse_law soft_lib_demo" using z by (auto simp: parse_law_def soft_lib_demo_def jobj_def ascii_def)
  ultimately show ?thesis using crypto_demo_ok by (simp add: trusted_def soft_env_demo_def)
qed

lemma soft_env_demo_requests:
  "cJSON_Parse (soft_json soft_env_demo) x = Some obj \<Longrightarrow> request_ok obj"
  by (auto simp: soft_env_demo_def soft_lib_demo_def request_ok_def jobj_def cJSON_GetObjectItem_def cJSON_strcasecmp_def tolower_def Let_def
    ascii_def split: if_splits)

lemma packets_ok_demo:
  "list_all (\<lambda>(tick, p). length p \<le> 25 \<or> le16 (p ! 7) (p ! 8) \<le> 2023) ps \<Longrightarrow> packets_ok soft_env_demo ps s"
proof (induction ps arbitrary: s)
  case (Cons x ps s)
  have "request_ok obj" if "packet_request soft_env_demo (received p) s = Some obj" for p obj
    using that soft_env_demo_requests by (auto simp: packet_request_def checked_request_def Let_def bind_eq_Some_conv split: if_splits)
  then have "packet_ok soft_env_demo p s" if "length p \<le> 25 \<or> le16 (p ! 7) (p ! 8) \<le> 2023" for p
    using that by (auto simp: packet_ok_def split: option.split)
  then show ?case using Cons by (auto split: option.split)
qed simp

theorem softap_run_safe_witness:
  "\<exists>s t :: softap. soft_inv t \<and> run_steps (\<lambda>(tick, p). softap_turn soft_env_demo tick p)
     [(0, []), (1, replicate 40 7), (2, [0x5A, 0x5A, 0, 1, 0, 0, 0, 0xE7, 0x07] @ replicate 2038 9), (3, replicate 30 0)] s = Some t"
proof -
  obtain s :: softap where s: "soft_inv s" "\<not> enable_license_write s" using soft_running_demo by blast
  have "packets_ok soft_env_demo
      [(0, []), (1, replicate 40 7), (2, [0x5A, 0x5A, 0, 1, 0, 0, 0, 0xE7, 0x07] @ replicate 2038 9), (3, replicate 30 0)] s"
    by (rule packets_ok_demo) (simp add: le16_def)
  from softap_run_safe [OF s soft_env_demo_trusted this] show ?thesis by blast
qed

end
