(* ===== verification/UartProto.thy ===== *)
theory UartProto
  imports CertFlash
begin

text \<open>
  The factory and MCU serial protocol,
  \<^verbatim>\<open>src/apps/akeeta_tr6260/akeeta/app/src/ya_uart_app.c\<close>: framing with an additive
  checksum, the licence transfer in sub-frames of 512 bytes with a CRC-16 over the whole,
  the commands that reset the module or set its MAC address, and the task's loop with its
  send queue.

  The wireless driver, the RTOS queue and mbedTLS are parameters (\<open>uart_env\<close>).  What the task
  does to the outside is the list \<open>uart_ev\<close> of frames written and modes entered, in order.
\<close>

section \<open>State\<close>

datatype uart_event = Sent bytes | FactoryReset | SnifferMode | ApMode

text \<open>The pointer of the message being sent: never set, null, owned, or freed and still pointing.\<close>

datatype msg_ptr = MsgUninit | MsgNull | MsgLive bytes | MsgFreed

record uart = board +
  cert_buffer :: "bytes option"
  read_data_len :: nat
  rx_buf :: bytes
  tx_buf :: bytes
  uart_ev :: "uart_event list"
  uart_queue :: "(u8 \<times> bytes) list"
  queue_rece_enable :: bool
  resend_count :: nat
  msg :: msg_ptr

record uart_env =
  crt_parse :: "bytes \<Rightarrow> int"
  pk_parse :: "bytes \<Rightarrow> int"
  wlan_mac :: bytes
  wlan_set_mac :: "bytes \<Rightarrow> int"
  queue_send_ret :: int

definition MAX_CERT_BUF_LEN :: nat where "MAX_CERT_BUF_LEN = 3 * 1024"
definition UART_RETRY_NUM :: nat where "UART_RETRY_NUM = 3"
definition UART_MAX_FRAME_LEN :: nat where "UART_MAX_FRAME_LEN = 540"

section \<open>Integrity checks\<close>

definition get_checksum :: "bytes \<Rightarrow> nat \<Rightarrow> u8 option" where
  "get_checksum buf len =
     map_option (\<lambda>bs. of_nat (unat (foldl (\<lambda>sum b. sum + ucast b) (0 :: u32) bs) mod 256)) (slice buf 0 len)"

definition crc16_step :: "u16 \<Rightarrow> u8 \<Rightarrow> u16" where
  "crc16_step wCRCin wChar = (crc_round 15 0x1021 ^^ 8) (wCRCin XOR push_bit 8 (ucast wChar))"

definition crc_check :: "bytes \<Rightarrow> nat \<Rightarrow> u16 option" where
  "crc_check puchMsg usDataLen = map_option (foldl crc16_step 0xFFFF) (slice puchMsg 0 usDataLen)"

section \<open>Receiving a licence\<close>

text \<open>\<open>goto err\<close>: the transfer buffer is released and 0 returned.\<close>

definition wc_err :: "'a uart_scheme \<Rightarrow> u8 \<times> 'a uart_scheme" where
  "wc_err s = (0, s\<lparr>cert_buffer := None\<rparr>)"

text \<open>
  The last sub-frame: check and store the field, read it back into the buffer and compare
  length and CRC.  \<open>len\<close> is \<open>cert_len\<close>.
\<close>

definition write_certificate_last ::
    "uart_env \<Rightarrow> u8 \<Rightarrow> bytes \<Rightarrow> nat \<Rightarrow> 'a uart_scheme \<Rightarrow> (u8 \<times> 'a uart_scheme) option" where
  "write_certificate_last env sub_cmd cb len s =
     (if len < 2 then None
      else do {
        hi \<leftarrow> rd cb (len - 2);
        lo \<leftarrow> rd cb (len - 1);
        let crc_get = (push_bit 8 (ucast hi) + ucast lo :: u16);
            flash_addr = (if sub_cmd = 1 then YA_LICENSE_DEVICE_CERT_ADDR
                          else YA_LICENSE_DEVICE_RSA_PRIVATE_KEY_ADDR) in do {
        ((ret, cb), s) \<leftarrow>
          (if sub_cmd = 1 then ya_write_check_aws_para_device_cert (crt_parse env) cb ((len - 2) mod 65536) flash_addr s
           else ya_write_check_aws_para_device_rsa_private_key (pk_parse env) cb ((len - 2) mod 65536) flash_addr s);
        if ret \<noteq> 0 then Some (wc_err s)
        else do {
          (ret, payload) \<leftarrow> ya_read_flash_with_var_len flash_addr MAX_CERT_BUF_LEN 1 s;
          if ret \<noteq> 0 then Some (wc_err s)
          else do {
            cb \<leftarrow> memcpy_at cb 0 payload;
            if length payload \<noteq> len - 2 then Some (wc_err s)
            else do {
              crc \<leftarrow> crc_check cb (length payload);
              if crc \<noteq> crc_get then Some (wc_err s)
              else Some (1, s\<lparr>cert_buffer := None\<rparr>)
            }
          }
        }
        }
      })"

definition write_certificate ::
    "uart_env \<Rightarrow> bytes \<Rightarrow> int \<Rightarrow> 'a uart_scheme \<Rightarrow> (u8 \<times> 'a uart_scheme) option" where
  "write_certificate env buf dataLen s =
     do { sub_cmd \<leftarrow> rd buf 7; totalFrame \<leftarrow> rd buf 8; idx \<leftarrow> rd buf 9;
          if sub_cmd = 1 \<or> sub_cmd = 2 then
            let efficient_data_len = dataLen - 4 in do {
            s \<leftarrow> (if idx = 0 then do {
                    cb \<leftarrow> (case cert_buffer s of Some b \<Rightarrow> Some b | None \<Rightarrow> mem_alloc s MAX_CERT_BUF_LEN);
                    cb \<leftarrow> memset cb 0 MAX_CERT_BUF_LEN;
                    Some (s\<lparr>cert_buffer := Some cb\<rparr>) }
                  else Some s);
            case cert_buffer s of None \<Rightarrow> Some (wc_err s)
            | Some cb \<Rightarrow>
                if efficient_data_len < 0 then None
                else do {
                  src \<leftarrow> slice buf 10 (nat efficient_data_len);
                  cb \<leftarrow> memcpy_at cb (unat idx * 512) src;
                  let s = s\<lparr>cert_buffer := Some cb\<rparr> in
                  if unat idx + 1 = unat totalFrame then
                    write_certificate_last env sub_cmd cb (nat efficient_data_len + unat idx * 512) s
                  else if unat idx + 1 > unat totalFrame then Some (wc_err s)
                  else Some (1, s)
                } }
          else if sub_cmd = 3 then do {
            (_, s) \<leftarrow> ya_write_check_aws_para_device_id (drop 8 buf) (nat ((dataLen - 2) mod 65536))
                       YA_LICENSE_DEVICE_ID_ADDR s;
            Some (1, s) }
          else if sub_cmd = 4 then do {
            (_, s) \<leftarrow> ya_write_check_aws_para_thing_type (drop 8 buf) (nat ((dataLen - 2) mod 65536))
                       YA_LICENSE_THING_TYPE_ADDR s;
            Some (1, s) }
          else Some (wc_err s) }"

section \<open>Sending a licence back\<close>

text \<open>Big-endian length as the byte swap and \<open>memcpy\<close> of the source store it.\<close>

definition be16 :: "nat \<Rightarrow> bytes" where
  "be16 n = [of_nat (n div 256), of_nat n]"

definition rc_err :: "'a uart_scheme \<Rightarrow> nat \<times> 'a uart_scheme" where
  "rc_err s = (0, s\<lparr>read_data_len := 0, cert_buffer := None\<rparr>)"

text \<open>The sub-frame that carries \<open>data_len\<close> bytes: it is built in \<open>tx_buf\<close>; the result is its length.\<close>

definition read_certificate_frame ::
    "u8 \<Rightarrow> u8 \<Rightarrow> nat \<Rightarrow> bytes \<Rightarrow> 'a uart_scheme \<Rightarrow> (nat \<times> 'a uart_scheme) option" where
  "read_certificate_frame total_frame sub_frame_index data_len cb s =
     do { tx \<leftarrow> memcpy_at (tx_buf s) 4 (be16 (data_len + 4));
          tx \<leftarrow> wr tx 8 total_frame;
          tx \<leftarrow> wr tx 9 sub_frame_index;
          src \<leftarrow> slice cb (unat sub_frame_index * 512) data_len;
          tx \<leftarrow> memcpy_at tx 10 src;
          sum \<leftarrow> get_checksum tx (data_len + 10);
          tx \<leftarrow> wr tx (data_len + 10) sum;
          let s = s\<lparr>tx_buf := tx\<rparr> in
          Some (data_len + 11,
            if unat sub_frame_index + 1 = unat total_frame
            then s\<lparr>cert_buffer := None, read_data_len := 0\<rparr> else s) }"

text \<open>Choosing the length of the sub-frame once the licence is in the buffer.\<close>

definition read_certificate_serve ::
    "u8 \<Rightarrow> bytes \<Rightarrow> 'a uart_scheme \<Rightarrow> (nat \<times> 'a uart_scheme) option" where
  "read_certificate_serve idx cb s =
     (let n = read_data_len s;
          total_frame = (of_nat (if n mod 512 = 0 then n div 512 else n div 512 + 1) :: u8)
      in if unat idx + 1 = unat total_frame then read_certificate_frame total_frame idx (n mod 512) cb s
         else if unat idx + 1 < unat total_frame then read_certificate_frame total_frame idx 512 cb s
         else Some (rc_err s))"

definition read_certificate ::
    "bytes \<Rightarrow> u8 \<Rightarrow> 'a uart_scheme \<Rightarrow> (nat \<times> 'a uart_scheme) option" where
  "read_certificate rx sub_cmd s =
     (if sub_cmd = 1 \<or> sub_cmd = 2 then
        let flash_addr = (if sub_cmd = 1 then YA_LICENSE_DEVICE_CERT_ADDR
                          else YA_LICENSE_DEVICE_RSA_PRIVATE_KEY_ADDR) in do {
        idx \<leftarrow> rd rx 8;
        r \<leftarrow> (if idx = 0 then
                (case (case cert_buffer s of Some b \<Rightarrow> Some b | None \<Rightarrow> mem_alloc s MAX_RSA_LEN) of
                   None \<Rightarrow> Some (Inl s)
                 | Some cb \<Rightarrow> do {
                     cb \<leftarrow> memset cb 0 MAX_RSA_LEN;
                     (ret, payload) \<leftarrow> ya_read_flash_with_var_len flash_addr MAX_RSA_LEN 1 s;
                     if ret \<noteq> 0 then Some (Inl (s\<lparr>cert_buffer := Some cb\<rparr>))
                     else do {
                       cb \<leftarrow> memcpy_at cb 0 payload;
                       Some (Inr (cb, s\<lparr>cert_buffer := Some cb, read_data_len := length payload\<rparr>))
                     } })
              else (case cert_buffer s of None \<Rightarrow> Some (Inl s) | Some cb \<Rightarrow> Some (Inr (cb, s))));
        case r of Inl s \<Rightarrow> Some (rc_err s) | Inr (cb, s) \<Rightarrow> read_certificate_serve idx cb s }
      else if sub_cmd = 3 \<or> sub_cmd = 4 then
        let flash_addr = (if sub_cmd = 3 then YA_LICENSE_DEVICE_ID_ADDR else YA_LICENSE_THING_TYPE_ADDR) in do {
        (ret, payload) \<leftarrow> ya_read_flash_with_var_len flash_addr 128 1 s;
        if ret \<noteq> 0 then Some (rc_err s)
        else do {
          tx \<leftarrow> memcpy_at (tx_buf s) 8 payload;
          tx \<leftarrow> memcpy_at tx 4 (be16 (length payload + 2));
          sum \<leftarrow> get_checksum tx (length payload + 8);
          tx \<leftarrow> wr tx (length payload + 8) sum;
          Some (length payload + 9, s\<lparr>tx_buf := tx\<rparr>)
        } }
      else Some (0, s))"

section \<open>The send queue\<close>

text \<open>The block for the copy is not checked for null before it is cleared.\<close>

definition ya_handle_uart_msg_send_to_queue ::
    "uart_env \<Rightarrow> bytes \<Rightarrow> nat \<Rightarrow> u8 \<Rightarrow> 'a uart_scheme \<Rightarrow> (int \<times> 'a uart_scheme) option" where
  "ya_handle_uart_msg_send_to_queue env data data_len reply_flag s =
     do { buf \<leftarrow> mem_alloc s data_len;
          buf \<leftarrow> memset buf 0 data_len;
          src \<leftarrow> slice data 0 data_len;
          buf \<leftarrow> memcpy_at buf 0 src;
          let ty = (if reply_flag = 0 then 0 else 1) in
          if queue_send_ret env \<noteq> C_OK then Some (-1, s)
          else Some (0, s\<lparr>uart_queue := uart_queue s @ [(ty, buf)]\<rparr>) }"

definition ya_handle_uart_body_send_to_queue ::
    "uart_env \<Rightarrow> u8 \<Rightarrow> bytes \<Rightarrow> nat \<Rightarrow> 'a uart_scheme \<Rightarrow> (int \<times> 'a uart_scheme) option" where
  "ya_handle_uart_body_send_to_queue env cmd data data_len s =
     (case mem_alloc s (data_len + 6 + 1) of None \<Rightarrow> Some (-1, s)
      | Some buf \<Rightarrow> do {
          buf \<leftarrow> memcpy_at buf 0 ([0x55, 0xAA, 0, cmd] @ be16 data_len);
          src \<leftarrow> slice data 0 data_len;
          buf \<leftarrow> memcpy_at buf 6 src;
          let pos = 6 + data_len in do {
          sum \<leftarrow> get_checksum buf (pos - 1);
          buf \<leftarrow> wr buf pos sum;
          ya_handle_uart_msg_send_to_queue env buf pos 0 s }
        })"

section \<open>Handling a received frame\<close>

text \<open>Header of the reply, copied from the request, then the length field.\<close>

definition reply_head :: "bytes \<Rightarrow> nat \<Rightarrow> u8 \<Rightarrow> bytes \<Rightarrow> bytes option" where
  "reply_head buf n len tx =
     do { h \<leftarrow> slice buf 0 n; tx \<leftarrow> memcpy_at tx 0 h; tx \<leftarrow> wr tx 4 0; wr tx 5 len }"

definition put_checksum :: "nat \<Rightarrow> bytes \<Rightarrow> bytes option" where
  "put_checksum pos tx = do { sum \<leftarrow> get_checksum tx pos; wr tx pos sum }"

definition emit :: "uart_event \<Rightarrow> 'a uart_scheme \<Rightarrow> 'a uart_scheme" where
  "emit e s = s\<lparr>uart_ev := uart_ev s @ [e]\<rparr>"

text \<open>The command switch: the length of the reply built in \<open>tx_buf\<close>, 0 for none.\<close>

definition uart_dispatch ::
    "uart_env \<Rightarrow> bytes \<Rightarrow> nat \<Rightarrow> 'a uart_scheme \<Rightarrow> (nat \<times> 'a uart_scheme) option" where
  "uart_dispatch env buf buf_len s =
     do { cmd \<leftarrow> rd buf 3;
          if cmd = 0x03 then do {
            tx \<leftarrow> reply_head buf 4 0 (tx_buf s);
            tx \<leftarrow> put_checksum 6 tx;
            Some (7, emit FactoryReset (s\<lparr>tx_buf := tx\<rparr>)) }
          else if cmd = 0x04 then do {
            tx \<leftarrow> reply_head buf 4 0 (tx_buf s);
            tx \<leftarrow> put_checksum 6 tx;
            m \<leftarrow> rd buf 6;
            Some (7, emit (if m = 0 then SnifferMode else ApMode) (s\<lparr>tx_buf := tx\<rparr>)) }
          else if cmd = 0xF0 then do {
            tx \<leftarrow> reply_head buf 4 6 (tx_buf s);
            tx \<leftarrow> memcpy_at tx 6 (take 6 (wlan_mac env));
            tx \<leftarrow> put_checksum 12 tx;
            Some (13, s\<lparr>tx_buf := tx\<rparr>) }
          else if cmd = 0xF3 then do {
            tx \<leftarrow> reply_head buf 4 1 (tx_buf s);
            tx \<leftarrow> (if buf_len \<ge> 13 then do {
                     m \<leftarrow> slice buf 6 6;
                     wr tx 6 (if wlan_set_mac env m \<noteq> 0 then 0 else 1) }
                   else wr tx 6 0);
            tx \<leftarrow> put_checksum 7 tx;
            Some (8, s\<lparr>tx_buf := tx\<rparr>) }
          else if cmd = 0xF1 then do {
            ty \<leftarrow> rd buf 6;
            if ty = 1 then do {
              sub_cmd \<leftarrow> rd buf 7;
              (ret, s) \<leftarrow> write_certificate env buf (int buf_len - 6 - 1) s;
              if sub_cmd = 3 \<or> sub_cmd = 4 then do {
                tx \<leftarrow> reply_head buf 10 3 (tx_buf s);
                tx \<leftarrow> wr tx 8 ret;
                tx \<leftarrow> put_checksum 9 tx;
                Some (10, s\<lparr>tx_buf := tx\<rparr>) }
              else do {
                tx \<leftarrow> reply_head buf 10 5 (tx_buf s);
                tx \<leftarrow> wr tx 10 ret;
                tx \<leftarrow> put_checksum 11 tx;
                Some (12, s\<lparr>tx_buf := tx\<rparr>) } }
            else if ty = 2 then do {
              (ret, s) \<leftarrow> ya_write_aliyun_cert (drop 7 buf) (nat ((int buf_len - 8) mod 65536)) YA_LICENSE_ALIYUUN s;
              tx \<leftarrow> reply_head buf 4 2 (tx_buf s);
              tx \<leftarrow> wr tx 6 2;
              tx \<leftarrow> wr tx 7 (if ret \<noteq> 0 then 0 else 1);
              tx \<leftarrow> put_checksum 8 tx;
              Some (9, s\<lparr>tx_buf := tx\<rparr>) }
            else Some (0, s) }
          else if cmd = 0xF2 then do {
            sub_cmd \<leftarrow> rd buf 7;
            ty \<leftarrow> rd buf 6;
            if ty = 1 then do {
              h \<leftarrow> slice buf 0 8;
              tx \<leftarrow> memcpy_at (tx_buf s) 0 h;
              read_certificate buf sub_cmd (s\<lparr>tx_buf := tx\<rparr>) }
            else if ty = 2 then
              (case mem_alloc s 128 of None \<Rightarrow> Some (0, s)
               | Some buf_cert \<Rightarrow> do {
                   (ret, payload) \<leftarrow> ya_read_aliyun_cert 128 YA_LICENSE_ALIYUUN s;
                   if ret = 0 then do {
                     tx \<leftarrow> reply_head buf 4 (of_nat (length payload + 1)) (tx_buf s);
                     tx \<leftarrow> wr tx 6 2;
                     tx \<leftarrow> memcpy_at tx 7 payload;
                     tx \<leftarrow> put_checksum (7 + length payload) tx;
                     Some (8 + length payload, s\<lparr>tx_buf := tx\<rparr>) }
                   else Some (0, s) })
            else Some (0, s) }
          else Some (0, s) }"

definition ya_handle_uart_data ::
    "uart_env \<Rightarrow> bytes \<Rightarrow> nat \<Rightarrow> 'a uart_scheme \<Rightarrow> 'a uart_scheme option" where
  "ya_handle_uart_data env buf buf_len s =
     do { crc \<leftarrow> get_checksum buf (buf_len - 1);
          last \<leftarrow> rd buf (buf_len - 1);
          if crc \<noteq> last then Some s
          else do {
            (reply_buf_len, s) \<leftarrow> uart_dispatch env buf buf_len s;
            if reply_buf_len \<noteq> 0 then do {
              out \<leftarrow> slice (tx_buf s) 0 reply_buf_len;
              Some (emit (Sent out) s) }
            else Some s
          } }"

section \<open>The task\<close>

text \<open>What the environment provides in one turn of the loop: the bytes the two receives return,
  a message of the queue, and whether the resend timer has run out.\<close>

record uart_in =
  in_head :: bytes
  in_body :: bytes
  in_expired :: bool

definition free_msg :: "'a uart_scheme \<Rightarrow> 'a uart_scheme option" where
  "free_msg s = (case msg s of
       MsgNull \<Rightarrow> Some s
     | MsgLive _ \<Rightarrow> Some (s\<lparr>msg := MsgFreed\<rparr>)
     | _ \<Rightarrow> None)"

definition uart_receive :: "uart_env \<Rightarrow> uart_in \<Rightarrow> 'a uart_scheme \<Rightarrow> 'a uart_scheme option" where
  "uart_receive env i s =
     do { rx \<leftarrow> memcpy_at (rx_buf s) 0 (take 6 (in_head i));
          let s = s\<lparr>rx_buf := rx\<rparr> in
          if length (take 6 (in_head i)) = 6 then
            if rx ! 0 = 0x55 \<and> rx ! 1 = 0xAA then
              let msg_len = le16 (rx ! 5) (rx ! 4) in
              if msg_len < UART_MAX_FRAME_LEN then do {
                rx \<leftarrow> memcpy_at rx 6 (take (msg_len + 1) (in_body i));
                let s = s\<lparr>rx_buf := rx\<rparr> in
                if length (take (msg_len + 1) (in_body i)) = msg_len + 1 then do {
                  s \<leftarrow> ya_handle_uart_data env rx (6 + msg_len + 1) s;
                  if queue_rece_enable s \<and> rx ! 3 = 0 then
                    free_msg (s\<lparr>resend_count := 0, queue_rece_enable := True\<rparr>)
                  else Some s }
                else Some s }
              else Some s
            else Some s
          else Some s }"

definition uart_serve_queue :: "'a uart_scheme \<Rightarrow> 'a uart_scheme option" where
  "uart_serve_queue s =
     (if queue_rece_enable s then
        (case uart_queue s of [] \<Rightarrow> Some (s\<lparr>msg := MsgNull\<rparr>)
         | (ty, b) # q \<Rightarrow>
             let s = s\<lparr>uart_queue := q, msg := MsgLive b\<rparr> in
             if ty = 1 then
               Some (emit (Sent b) (s\<lparr>resend_count := 0, queue_rece_enable := False\<rparr>))
             else if ty = 0 then free_msg (emit (Sent b) (s\<lparr>queue_rece_enable := True\<rparr>))
             else free_msg s)
      else Some s)"

definition uart_resend :: "bool \<Rightarrow> 'a uart_scheme \<Rightarrow> 'a uart_scheme option" where
  "uart_resend expired s =
     (if \<not> queue_rece_enable s \<and> expired then
        (if resend_count s < UART_RETRY_NUM then
           (case msg s of
              MsgLive b \<Rightarrow> Some (emit (Sent b) (s\<lparr>resend_count := resend_count s + 1\<rparr>))
            | _ \<Rightarrow> None)
         else Some (s\<lparr>resend_count := 0, queue_rece_enable := True\<rparr>))
      else Some s)"

definition ya_uart_turn :: "uart_env \<Rightarrow> uart_in \<Rightarrow> 'a uart_scheme \<Rightarrow> 'a uart_scheme option" where
  "ya_uart_turn env i s =
     do { s \<leftarrow> uart_receive env i s; s \<leftarrow> uart_serve_queue s; uart_resend (in_expired i) s }"

text \<open>
  The start of the task: the two frame buffers and the port, then the loop with nothing in
  flight.  The flag says whether the loop is entered.
\<close>

definition ya_uart_app_init :: "int \<Rightarrow> 'a uart_scheme \<Rightarrow> bool \<times> 'a uart_scheme" where
  "ya_uart_app_init open_ret s =
     (case mem_alloc s UART_MAX_FRAME_LEN of None \<Rightarrow> (False, s)
      | Some b \<Rightarrow>
          let s = s\<lparr>rx_buf := b, tx_buf := b\<rparr> in
          if open_ret \<noteq> 0 then (False, s)
          else (True, s\<lparr>queue_rece_enable := True, resend_count := 0, msg := MsgUninit\<rparr>))"

primrec ya_uart_turns :: "uart_env \<Rightarrow> uart_in list \<Rightarrow> 'a uart_scheme \<Rightarrow> 'a uart_scheme option" where
  "ya_uart_turns env [] s = Some s"
| "ya_uart_turns env (i # is) s = do { s' \<leftarrow> ya_uart_turn env i s; ya_uart_turns env is s' }"

section \<open>Facts on the checks\<close>

lemma ucast_add_byte: "(ucast (a + ucast (b :: u8) :: u32) :: u8) = ucast a + b"
proof transfer
  fix a b :: int
  have m: "x mod 2 ^ 32 mod 2 ^ 8 = x mod (2 ^ 8 :: int)" for x by (rule mod_mod_cancel) simp
  have "(a + b mod 2 ^ 8) mod 2 ^ 32 mod 2 ^ 8 = (a mod 2 ^ 32 mod 2 ^ 8 + b) mod (2 ^ 8 :: int)"
    unfolding m by (simp only: mod_simps)
  then show "take_bit LENGTH(8) (take_bit LENGTH(32) (a + take_bit LENGTH(8) b)) =
      take_bit LENGTH(8) (take_bit LENGTH(32) a + b)"
    by (simp only: take_bit_eq_mod mod_simps len_num0 len_num1 len_bit0 len_bit1) (simp add: mod_simps)
qed

lemma ucast_foldl_sum:
  "(ucast (foldl (\<lambda>sum b. sum + ucast b) (a :: u32) bs) :: u8) = foldl (+) (ucast a) bs"
  by (induction bs arbitrary: a) (simp_all add: ucast_add_byte)

lemma of_nat_unat_mod: "(of_nat (unat (w :: u32) mod 256) :: u8) = ucast w"
  by (simp add: word_unat_eq_iff unat_of_nat unsigned_ucast_eq take_bit_eq_mod)

lemma get_checksum_eq: "get_checksum buf len = map_option (foldl (+) 0) (slice buf 0 len)"
proof -
  have "(of_nat (unat (foldl (\<lambda>sum b. sum + ucast b) (0 :: u32) bs) mod 256) :: u8) = foldl (+) 0 bs" for bs
    unfolding of_nat_unat_mod ucast_foldl_sum by simp
  then show ?thesis unfolding get_checksum_def by simp
qed

interpretation crc16: byte_check crc16_step
proof unfold_locales
  have inj: "c = d" if "(crc_round 15 0x1021 ^^ 8) c = (crc_round 15 0x1021 ^^ 8) d" for c d :: u16
    using that by (rule crc_rounds_inj [rotated 2]) simp_all
  show "c = d" if "crc16_step c b = crc16_step d b" for c d b
    using inj [OF that [unfolded crc16_step_def]] by (rule xor_right_cancel)
  show "a = b" if "crc16_step c a = crc16_step c b" for c a b
  proof -
    have "push_bit 8 (ucast a :: u16) = push_bit 8 (ucast b)"
      using inj [OF that [unfolded crc16_step_def]] by (auto simp: xor.commute [of c] dest: xor_right_cancel)
    then have eq: "bit (push_bit 8 (ucast a :: u16)) (n + 8) = bit (push_bit 8 (ucast b :: u16)) (n + 8)" for n
      by simp
    have "bit (push_bit 8 (ucast c :: u16)) (n + 8) = bit c n" if "n < 8" for c :: u8 and n
      using that by (simp add: bit_push_bit_iff bit_ucast_iff)
    with eq show ?thesis by (intro bit_eqI) (metis possible_bit_word len_num1 len_bit0 mult_2 numeral_Bit0 numeral_One len_of_numeral_defs)
  qed
qed

section \<open>Licence upload\<close>

text \<open>
  The transfer as the other side drives it: the request with sub-frame \<open>i\<close> of \<open>nframes\<close>, and the
  whole upload, which stops at the first refusal.
\<close>

definition cert_req :: "u8 \<Rightarrow> nat \<Rightarrow> nat \<Rightarrow> bytes \<Rightarrow> bytes" where
  "cert_req sub_cmd nframes i chunk =
     [0x55, 0xAA, 0, 0xF1] @ be16 (length chunk + 4) @ [1, sub_cmd, of_nat nframes, of_nat i] @ chunk"

function chunks512 :: "bytes \<Rightarrow> bytes list" where
  "chunks512 xs = (if length xs \<le> 512 then [xs] else take 512 xs # chunks512 (drop 512 xs))"
  by pat_completeness auto
termination
  by (relation "measure length") auto

declare chunks512.simps [simp del]

primrec cert_upload ::
    "uart_env \<Rightarrow> u8 \<Rightarrow> nat \<Rightarrow> nat \<Rightarrow> bytes list \<Rightarrow> 'a uart_scheme \<Rightarrow> (u8 \<times> 'a uart_scheme) option" where
  "cert_upload env sub_cmd nframes i [] s = Some (1, s)"
| "cert_upload env sub_cmd nframes i (c # cs) s =
     do { (ret, s) \<leftarrow> write_certificate env (cert_req sub_cmd nframes i c) (int (length c) + 4) s;
          if ret = 0 then Some (0, s) else cert_upload env sub_cmd nframes (i + 1) cs s }"

definition crc16_of :: "bytes \<Rightarrow> u16" where
  "crc16_of c = foldl crc16_step 0xFFFF c"

lemma cert_req_nth:
  "rd (cert_req sc n i c) 7 = Some sc" "rd (cert_req sc n i c) 8 = Some (of_nat n)"
  "rd (cert_req sc n i c) 9 = Some (of_nat i)" "slice (cert_req sc n i c) 10 (length c) = Some c"
  by (simp_all add: cert_req_def rd_def slice_def be16_def)

lemma chunks512_length: "length (chunks512 xs) \<le> 1 + length xs div 512 \<and> 0 < length (chunks512 xs)"
proof (induction xs rule: chunks512.induct)
  case (1 xs)
  show ?case
  proof (cases "length xs \<le> 512")
    case True
    then show ?thesis by (simp add: chunks512.simps)
  next
    case False
    then have "length xs div 512 = 1 + (length xs - 512) div 512"
      using div_add_self2 [of 512 "length xs - 512"] by simp
    with 1 False show ?thesis by (simp add: chunks512.simps [of xs])
  qed
qed

text \<open>The transfer buffer holds the bytes received so far, then zeros.\<close>

definition upload_buf :: "nat \<Rightarrow> bytes \<Rightarrow> 'a uart_scheme \<Rightarrow> bool" where
  "upload_buf i got s \<longleftrightarrow> length got = 512 * i \<and>
     (if i = 0 then (case cert_buffer s of None \<Rightarrow> True | Some b \<Rightarrow> length b = MAX_CERT_BUF_LEN)
      else cert_buffer s = Some (got @ replicate (MAX_CERT_BUF_LEN - length got) 0))"

lemma upload_buf_ready:
  assumes "board_ok s" and "upload_buf i got s"
  shows "(if i = 0 then do {
            cb \<leftarrow> (case cert_buffer s of Some b \<Rightarrow> Some b | None \<Rightarrow> mem_alloc s MAX_CERT_BUF_LEN);
            cb \<leftarrow> memset cb 0 MAX_CERT_BUF_LEN;
            Some (s\<lparr>cert_buffer := Some cb\<rparr>) } else Some s) =
         Some (s\<lparr>cert_buffer := Some (got @ replicate (MAX_CERT_BUF_LEN - length got) 0)\<rparr>)"
proof (cases "i = 0")
  case True
  obtain b where "mem_alloc s MAX_CERT_BUF_LEN = Some b" "length b = MAX_CERT_BUF_LEN"
    using mem_alloc_board_ok [OF assms(1)] .
  with True assms(2) show ?thesis
    by (auto simp: upload_buf_def memset_Some [THEN iffD2] split: option.splits)
next
  case False
  with assms(2) show ?thesis by (simp add: upload_buf_def)
qed

lemma write_certificate_chunk:
  assumes "board_ok s" and "upload_buf i got s" and "sc = 1 \<or> sc = 2" and "n < 256" and "i < n"
    and "length got + length c \<le> MAX_CERT_BUF_LEN"
  defines "cb \<equiv> got @ c @ replicate (MAX_CERT_BUF_LEN - length got - length c) 0"
  shows "write_certificate env (cert_req sc n i c) (int (length c) + 4) s =
    (if i + 1 = n then write_certificate_last env sc cb (length got + length c) (s\<lparr>cert_buffer := Some cb\<rparr>)
     else Some (1, s\<lparr>cert_buffer := Some cb\<rparr>))"
proof -
  have u: "unat (of_nat i :: u8) = i" "unat (of_nat n :: u8) = n" "(of_nat i :: u8) = 0 \<longleftrightarrow> i = 0"
    using assms(4,5) by (simp_all add: unat_of_nat_u8 word_unat_eq_iff [of "of_nat i"])
  have d: "i * 512 = length got" using assms(2) by (simp add: upload_buf_def)
  have "memcpy_at (got @ replicate (MAX_CERT_BUF_LEN - length got) 0) (length got) c = Some cb"
    using assms(6) by (simp add: memcpy_at_def cb_def)
  with assms(3,5) show ?thesis
    using upload_buf_ready [OF assms(1,2)]
    by (simp add: write_certificate_def cert_req_nth u d Let_def add.commute)
qed

definition lic_parse :: "uart_env \<Rightarrow> u8 \<Rightarrow> bytes \<Rightarrow> int" where
  "lic_parse env sc = (if sc = 1 then crt_parse env else pk_parse env)"

definition lic_addr :: "u8 \<Rightarrow> nat" where
  "lic_addr sc = (if sc = 1 then YA_LICENSE_DEVICE_CERT_ADDR else YA_LICENSE_DEVICE_RSA_PRIVATE_KEY_ADDR)"

definition lic_max :: "u8 \<Rightarrow> nat" where
  "lic_max sc = (if sc = 1 then MAX_CERT_LEN else MAX_RSA_LEN)"

definition lic_reader :: "u8 \<Rightarrow> bytes \<Rightarrow> nat \<Rightarrow> 'a board_scheme \<Rightarrow> (int \<times> bytes) option" where
  "lic_reader sc = (if sc = 1 then ya_aws_read_check_device_cert else ya_aws_read_check_device_rsa_private_key)"

lemma lic_reader_record:
  assumes "board_ok s" and "record_at s a c" and "c \<noteq> []" and "length c \<le> 4086" and "length dst = lic_max sc"
  shows "lic_reader sc dst a s = Some (if length c < lic_max sc then (C_OK, c @ 0 # drop (length c + 1) dst) else (C_ERROR, dst))"
proof -
  have r: "lic_reader sc dst a s = read_check_field (lic_max sc) dst a s" by (simp add: lic_reader_def lic_max_def aws_readers_eq)
  have m: "1 < lic_max sc" "lic_max sc \<le> 4087" by (simp_all add: lic_max_def cert_max)
  show ?thesis unfolding r
    using read_check_field_holds [OF assms(1-3) _ m(2) assms(5)] read_check_field_too_long [OF assms(1,2) _ assms(4) m(1)]
    by (cases "length c < lic_max sc") simp_all
qed

text \<open>The last sub-frame stores the field before the CRC is compared.\<close>

lemma write_certificate_last_stores:
  assumes "board_ok s" and "c \<noteq> []" and "length cb = MAX_CERT_BUF_LEN" and "cb = c @ hi # lo # z"
    and "lic_parse env sc (c @ [0]) = C_OK"
  obtains t where "write_certificate_last env sc cb (length c + 2) s =
      Some (if crc16_of c = push_bit 8 (ucast hi) + ucast lo then 1 else 0, t)"
    and "board_ok t" and "record_at t (lic_addr sc) c" and "cert_buffer t = None"
proof -
  have len: "length c + 2 \<le> 3072" using assms(3,4) by (simp add: MAX_CERT_BUF_LEN_def)
  then have l: "length c \<le> 4086" and m: "length c mod 65536 = length c" by simp_all
  have e: "length c + 2 - 2 = length c" "length c + 2 - 1 = length c + 1" by simp_all
  have al: "lic_addr sc mod 4096 = 0" by (simp add: lic_addr_def cert_addrs)
  obtain u where u: "write_field (c @ 0 # lo # z) (length c) (lic_addr sc) s = Some ((C_OK, c @ 0 # lo # z), u)"
    "board_ok u" "board.more u = board.more s" "record_at u (lic_addr sc) c"
    by (rule write_field_stores [OF assms(1) al assms(2) l])
  have rd: "rd cb (length c) = Some hi" "rd cb (length c + 1) = Some lo" "wr cb (length c) 0 = Some (c @ 0 # lo # z)"
    "slice (c @ 0 # lo # z) 0 (length c + 1) = Some (c @ [0])"
    using assms(4) by (simp_all add: rd_Some wr_def slice_def nth_append)
  have st: "(if sc = 1 then ya_write_check_aws_para_device_cert (crt_parse env) cb (length c) (lic_addr sc) s
      else ya_write_check_aws_para_device_rsa_private_key (pk_parse env) cb (length c) (lic_addr sc) s) =
      Some ((C_OK, c @ 0 # lo # z), u)"
    using assms(5) u(1) rd by (cases "sc = 1") (simp_all add: ya_write_check_aws_para_device_cert_def
        lic_parse_def ya_write_check_aws_para_device_rsa_private_key_def)
  have get: "ya_read_flash_with_var_len (lic_addr sc) MAX_CERT_BUF_LEN 1 u = Some (0, c)"
    using len by (intro ya.get_holds [OF u(2,4)]) (simp_all add: MAX_CERT_BUF_LEN_def)
  have "memcpy_at (c @ 0 # lo # z) 0 c = Some (c @ 0 # lo # z)" by (simp add: memcpy_at_def)
  moreover have "crc_check (c @ 0 # lo # z) (length c) = Some (crc16_of c)"
    by (simp add: crc_check_def slice_def crc16_of_def)
  ultimately have "write_certificate_last env sc cb (length c + 2) s =
      Some (if crc16_of c = push_bit 8 (ucast hi) + ucast lo then 1 else 0, u\<lparr>cert_buffer := None\<rparr>)"
    unfolding write_certificate_last_def lic_addr_def [symmetric] Let_def e m st
    using rd(1,2) get by (simp add: C_OK_def wc_err_def)
  moreover have "board_ok (u\<lparr>cert_buffer := None\<rparr>)" "record_at (u\<lparr>cert_buffer := None\<rparr>) (lic_addr sc) c"
    using u(2,4) by (simp_all add: board_ok_def chip_ready_def record_at_def)
  ultimately show thesis using that by simp
qed

lemma cert_upload_run:
  assumes "upload_buf i got s" and "board_ok s" and "sc = 1 \<or> sc = 2"
    and "n = i + length (chunks512 rest)" and "n < 256" and "got @ rest = c @ [hi, lo]" and "c \<noteq> []"
    and "length c + 2 \<le> MAX_CERT_BUF_LEN" and "lic_parse env sc (c @ [0]) = C_OK"
  shows "\<exists>t. cert_upload env sc n i (chunks512 rest) s =
      Some (if crc16_of c = push_bit 8 (ucast hi) + ucast lo then 1 else 0, t) \<and>
      board_ok t \<and> record_at t (lic_addr sc) c \<and> cert_buffer t = None"
  using assms(1,2,4,6)
proof (induction rest arbitrary: i got s rule: chunks512.induct)
  case (1 rest)
  have len: "length got + length rest = length c + 2" using arg_cong [OF "1.prems"(4), of length] by simp
  show ?case
  proof (cases "length rest \<le> 512")
    case True
    then have ch: "chunks512 rest = [rest]" by (simp add: chunks512.simps)
    let ?cb = "got @ rest @ replicate (MAX_CERT_BUF_LEN - length got - length rest) 0"
    have "board_ok (s\<lparr>cert_buffer := Some ?cb\<rparr>)" using "1.prems"(2) by (simp add: board_ok_def chip_ready_def)
    moreover have "length ?cb = MAX_CERT_BUF_LEN" using len assms(8) by simp
    moreover have "?cb = c @ hi # lo # replicate (MAX_CERT_BUF_LEN - length got - length rest) 0"
      using "1.prems"(4) by (metis append.assoc append_Cons append_Nil)
    ultimately obtain t where t: "write_certificate_last env sc ?cb (length c + 2) (s\<lparr>cert_buffer := Some ?cb\<rparr>) =
        Some (if crc16_of c = push_bit 8 (ucast hi) + ucast lo then 1 else 0, t)" "board_ok t"
      "record_at t (lic_addr sc) c" "cert_buffer t = None"
      using write_certificate_last_stores [OF _ assms(7) _ _ assms(9)] by metis
    have "write_certificate env (cert_req sc n i rest) (int (length rest) + 4) s =
        Some (if crc16_of c = push_bit 8 (ucast hi) + ucast lo then 1 else 0, t)"
      using write_certificate_chunk [OF "1.prems"(2,1) assms(3,5), of rest env] "1.prems"(3) ch len assms(8) t(1)
      by simp
    with ch t show ?thesis by (auto simp: Let_def)
  next
    case False
    let ?h = "take 512 rest" and ?r = "drop 512 rest"
    let ?cb = "got @ ?h @ replicate (MAX_CERT_BUF_LEN - length got - length ?h) 0"
    have ch: "chunks512 rest = ?h # chunks512 ?r" using False by (simp add: chunks512.simps [of rest])
    then have n: "n = i + 1 + length (chunks512 ?r)" using "1.prems"(3) by simp
    have "0 < length (chunks512 ?r)" using chunks512_length by blast
    then have step: "write_certificate env (cert_req sc n i ?h) (int (length ?h) + 4) s =
        Some (1, s\<lparr>cert_buffer := Some ?cb\<rparr>)"
      using write_certificate_chunk [OF "1.prems"(2,1) assms(3,5), of ?h env] n len assms(8) False by simp
    have "upload_buf (i + 1) (got @ ?h) (s\<lparr>cert_buffer := Some ?cb\<rparr>)"
      using "1.prems"(1) False by (simp add: upload_buf_def min_def)
    moreover have "board_ok (s\<lparr>cert_buffer := Some ?cb\<rparr>)" using "1.prems"(2) by (simp add: board_ok_def chip_ready_def)
    ultimately show ?thesis
      using "1.IH" [OF False, of "i + 1" "got @ ?h" "s\<lparr>cert_buffer := Some ?cb\<rparr>"] n "1.prems"(4) step ch by simp
  qed
qed

section \<open>Licence readback\<close>






text \<open>The buffer that serves the sub-frames after the first request.\<close>

definition readback_buf :: "bytes \<Rightarrow> 'a uart_scheme \<Rightarrow> bool" where
  "readback_buf d s \<longleftrightarrow> length (tx_buf s) = UART_MAX_FRAME_LEN \<and> read_data_len s = length d \<and>
     cert_buffer s = Some (d @ replicate (MAX_RSA_LEN - length d) 0)"





section \<open>Properties\<close>

definition uart_demo :: uart where
  "uart_demo = \<lparr>fl_mem = (\<lambda>_. 0xFF), fl_rsp = [], heap = (\<lambda>_. Some (\<lambda>_. 0xCD)), ret_reg = 0,
     cert_buffer = None, read_data_len = 0, rx_buf = replicate 540 0, tx_buf = replicate 540 0,
     uart_ev = [], uart_queue = [], queue_rece_enable = True, resend_count = 0, msg = MsgNull\<rparr>"

definition env_demo :: uart_env where
  "env_demo = \<lparr>crt_parse = (\<lambda>_. 0), pk_parse = (\<lambda>_. 0), wlan_mac = [1, 2, 3, 4, 5, 6],
     wlan_set_mac = (\<lambda>_. 0), queue_send_ret = 0\<rparr>"

lemma uart_demo_ok: "board_ok uart_demo"
  by (simp add: board_ok_def uart_demo_def chip_ready_def)

text \<open>A frame with one corrupted byte is ignored.  If the checksum of a frame is right, then
  after any single byte of it (checksum included) has changed, \<open>ya_handle_uart_data\<close> does nothing.\<close>

theorem uart_corrupted_frame_ignored:
  assumes "get_checksum f (length f - 1) = Some (f ! (length f - 1))" and "one_byte_apart f g"
  shows "ya_handle_uart_data env (g @ rest) (length f) s = Some s"
proof -
  obtain i v where g: "i < length f" "v \<noteq> f ! i" "g = f[i := v]" using assms(2) by (auto simp: one_byte_apart_def)
  let ?n = "length f - 1"
  have n: "length f = Suc ?n" using g(1) by simp
  have f: "foldl (+) 0 (take ?n f) = f ! ?n" using assms(1) by (simp add: get_checksum_eq slice_def)
  have c: "get_checksum (g @ rest) ?n = Some (foldl (+) 0 (take ?n g))" "rd (g @ rest) ?n = Some (g ! ?n)"
    using g n by (simp_all add: get_checksum_eq slice_def rd_Some nth_append)
  have "foldl (+) 0 (take ?n g) \<noteq> g ! ?n"
  proof (cases "i = ?n")
    case True
    then show ?thesis using g f by simp
  next
    case False
    then have i: "i < ?n" using g(1) by simp
    have "one_byte_apart (take ?n f) (take ?n g)"
      unfolding one_byte_apart_def using i g by (intro exI [of _ i] exI [of _ v]) (simp add: take_update_swap)
    from flash_sum.detects_one_byte [OF this, of 0] show ?thesis using f g(3) False by (metis nth_list_update_neq)
  qed
  then show ?thesis using c by (simp add: ya_handle_uart_data_def)
qed

theorem uart_corrupted_frame_ignored_witness:
  "ya_handle_uart_data env_demo [0x55, 0xAA, 0, 0x04, 0, 0, 0x02] 7 uart_demo = Some uart_demo"
proof -
  have "one_byte_apart [0x55, 0xAA, 0, 0x03, 0, 0, 0x02 :: u8] [0x55, 0xAA, 0, 0x04, 0, 0, 0x02]"
    unfolding one_byte_apart_def by (rule exI [of _ 3], rule exI [of _ 4]) simp
  moreover have "get_checksum [0x55, 0xAA, 0, 0x03, 0, 0, 0x02] 6 = Some 0x02"
    by (simp add: get_checksum_eq slice_def)
  ultimately show ?thesis
    using uart_corrupted_frame_ignored [of "[0x55, 0xAA, 0, 0x03, 0, 0, 0x02]" "[0x55, 0xAA, 0, 0x04, 0, 0, 0x02]"
        env_demo "[]" uart_demo] by (simp add: eval_nat_numeral)
qed

text \<open>C7: the licence upload works end to end.  A certificate or key \<open>c\<close> that mbedTLS accepts, sent
  with its CRC-16 in sub-frames of 512 bytes, is stored; every sub-frame is acknowledged and the transfer buffer is
  released.  The reader of the boot then finds exactly the licence when it is shorter than the buffer reserved
  for it; a longer one has been acknowledged too, but this reader refuses it.\<close>

theorem uart_cert_upload_stores:
  assumes "board_ok s" and "cert_buffer s = None" and "sc = 1 \<or> sc = 2" and "c \<noteq> []" and "length c \<le> 3070"
    and "lic_parse env sc (c @ [0]) = C_OK" and "push_bit 8 (ucast hi) + ucast lo = crc16_of c"
  shows "\<exists>t. cert_upload env sc (length (chunks512 (c @ [hi, lo]))) 0 (chunks512 (c @ [hi, lo])) s = Some (1, t) \<and>
    ya_read_flash_with_var_len (lic_addr sc) 4086 1 t = Some (0, c) \<and> cert_buffer t = None \<and>
    (\<forall>dst. length dst = lic_max sc \<longrightarrow> lic_reader sc dst (lic_addr sc) t =
       Some (if length c < lic_max sc then (C_OK, c @ 0 # drop (length c + 1) dst) else (C_ERROR, dst)))"
proof -
  have "length (c @ [hi, lo]) div 512 \<le> 3072 div 512" using assms(5) by (intro div_le_mono) simp
  then have n: "length (chunks512 (c @ [hi, lo])) < 256" using chunks512_length [of "c @ [hi, lo]"] by simp
  have buf: "upload_buf 0 [] s" using assms(2) by (simp add: upload_buf_def)
  from cert_upload_run [OF buf assms(1,3), of "length (chunks512 (c @ [hi, lo]))" "c @ [hi, lo]" c hi lo env]
    n assms(4-7) obtain t where
    t: "cert_upload env sc (length (chunks512 (c @ [hi, lo]))) 0 (chunks512 (c @ [hi, lo])) s = Some (1, t)"
    "board_ok t" "record_at t (lic_addr sc) c" "cert_buffer t = None"
    by (auto simp: MAX_CERT_BUF_LEN_def)
  have "ya_read_flash_with_var_len (lic_addr sc) 4086 1 t = Some (0, c)"
    using assms(5) by (intro ya.get_holds [OF t(2,3)]) simp_all
  moreover have "lic_reader sc dst (lic_addr sc) t =
      Some (if length c < lic_max sc then (C_OK, c @ 0 # drop (length c + 1) dst) else (C_ERROR, dst))"
    if "length dst = lic_max sc" for dst
    using lic_reader_record [OF t(2,3) assms(4) _ that] assms(5) by simp
  ultimately show ?thesis using t by blast
qed

theorem uart_cert_upload_stores_witness:
  "\<exists>t hi lo. cert_upload env_demo 1 (length (chunks512 (replicate 1000 65 @ [hi, lo]))) 0
       (chunks512 (replicate 1000 65 @ [hi, lo])) uart_demo = Some (1, t) \<and>
     ya_aws_read_check_device_cert (replicate 1536 0) YA_LICENSE_DEVICE_CERT_ADDR t = Some (C_OK, replicate 1000 65 @ replicate 536 0)"
proof -
  let ?c = "replicate 1000 65 :: bytes"
  obtain hi lo :: u8 where crc: "push_bit 8 (ucast hi) + ucast lo = crc16_of ?c"
  proof
    let ?w = "crc16_of ?c"
    have "push_bit 8 (drop_bit 8 w) + take_bit 8 w = w" for w :: u16
      by (metis bits_ident)
    moreover have "(ucast (ucast (drop_bit 8 w) :: u8) :: u16) = drop_bit 8 w" "(ucast (ucast w :: u8) :: u16) = take_bit 8 w"
      for w :: u16
      by (auto intro!: bit_eqI simp: bit_ucast_iff bit_drop_bit_eq bit_take_bit_iff)
        (drule bit_imp_le_length, simp)
    ultimately show "push_bit 8 (ucast (ucast (drop_bit 8 ?w) :: u8)) + ucast (ucast ?w :: u8) = ?w" by simp
  qed
  have "lic_parse env_demo 1 (?c @ [0]) = C_OK" by (simp add: lic_parse_def env_demo_def C_OK_def)
  from uart_cert_upload_stores [OF uart_demo_ok _ _ _ _ this crc] obtain t where
    t: "cert_upload env_demo 1 (length (chunks512 (?c @ [hi, lo]))) 0 (chunks512 (?c @ [hi, lo])) uart_demo = Some (1, t)"
    "lic_reader 1 (replicate 1536 0) (lic_addr 1) t = Some (C_OK, ?c @ 0 # drop (length ?c + 1) (replicate 1536 0))"
    by (auto simp: uart_demo_def lic_max_def cert_max)
  have "0 # drop (length ?c + 1) (replicate 1536 0) = replicate 536 (0 :: u8)" by (simp flip: replicate_Suc)
  with t show ?thesis by (auto simp: lic_reader_def lic_addr_def)
qed

text \<open>A licence whose CRC-16 does not match is refused, but only after it has been stored: the
  old licence is gone and the refused one is what the next boot reads.\<close>

theorem uart_cert_bad_crc_stored:
  assumes "board_ok s" and "cert_buffer s = None" and "sc = 1 \<or> sc = 2" and "c \<noteq> []" and "length c \<le> 3070"
    and "lic_parse env sc (c @ [0]) = C_OK" and "push_bit 8 (ucast hi) + ucast lo \<noteq> crc16_of c"
  shows "\<exists>t. cert_upload env sc (length (chunks512 (c @ [hi, lo]))) 0 (chunks512 (c @ [hi, lo])) s = Some (0, t) \<and>
    record_at t (lic_addr sc) c"
proof -
  have "length (c @ [hi, lo]) div 512 \<le> 3072 div 512" using assms(5) by (intro div_le_mono) simp
  then have n: "length (chunks512 (c @ [hi, lo])) < 256" using chunks512_length [of "c @ [hi, lo]"] by simp
  have buf: "upload_buf 0 [] s" using assms(2) by (simp add: upload_buf_def)
  from cert_upload_run [OF buf assms(1,3), of "length (chunks512 (c @ [hi, lo]))" "c @ [hi, lo]" c hi lo env]
    n assms(4-7) show ?thesis by (auto simp: MAX_CERT_BUF_LEN_def)
qed

theorem uart_cert_bad_crc_stored_witness:
  "\<exists>hi lo t. cert_upload env_demo 1 (length (chunks512 [65, hi, lo])) 0 (chunks512 [65, hi, lo]) uart_demo = Some (0, t) \<and>
     record_at t YA_LICENSE_DEVICE_CERT_ADDR [65]"
proof -
  have "\<exists>lo :: u8. push_bit 8 (ucast (0 :: u8)) + ucast lo \<noteq> crc16_of [65]"
  proof (rule ccontr)
    assume "\<not> ?thesis"
    then have "(ucast (0 :: u8) :: u16) = ucast (1 :: u8)" by simp
    then show False by simp
  qed
  then obtain lo :: u8 where "push_bit 8 (ucast (0 :: u8)) + ucast lo \<noteq> crc16_of [65]" by blast
  from uart_cert_bad_crc_stored [OF uart_demo_ok _ _ _ _ _ this, of 1 env_demo] show ?thesis
    by (auto simp: uart_demo_def lic_addr_def lic_parse_def env_demo_def C_OK_def)
qed



text \<open>A frame whose length field is 534 up to 539 is accepted for reception and its body written
  past the end of the 540-byte receive buffer.\<close>

theorem uart_long_frame_overflows:
  assumes "length (rx_buf s) = UART_MAX_FRAME_LEN" and "534 \<le> n" and "n < 540"
    and "in_head i = [0x55, 0xAA, v, cmd, of_nat (n div 256), of_nat n]" and "length (in_body i) = n + 1"
  shows "ya_uart_turn env i s = None"
proof -
  have n: "le16 (of_nat n) (of_nat (n div 256)) = n" using assms(3) by (intro le16_of_nat) simp
  define rx where "rx = in_head i @ drop 6 (rx_buf s)"
  have h: "length (in_head i) = 6" using assms(4) by simp
  have rx: "memcpy_at (rx_buf s) 0 (in_head i) = Some rx"
    unfolding rx_def using assms(1) h by (intro memcpy_at_prefix) (simp_all add: UART_MAX_FRAME_LEN_def)
  have rx': "length rx = 540" "rx ! 0 = 0x55" "rx ! 1 = 0xAA" "rx ! 4 = of_nat (n div 256)" "rx ! 5 = of_nat n"
    using assms(1,4) by (simp_all add: rx_def UART_MAX_FRAME_LEN_def)
  have "memcpy_at rx 6 (in_body i) = None" using assms(2,5) rx'(1) by (simp add: memcpy_at_def)
  then have "uart_receive env i s = None"
    using rx rx' h n assms(3,5) by (simp add: uart_receive_def UART_MAX_FRAME_LEN_def)
  then show ?thesis by (simp add: ya_uart_turn_def)
qed

theorem uart_long_frame_overflows_witness:
  "ya_uart_turn env_demo \<lparr>in_head = [0x55, 0xAA, 0, 1, 2, 0x16], in_body = replicate 535 0, in_expired = False\<rparr>
     uart_demo = None"
  using uart_long_frame_overflows [of uart_demo 534
      "\<lparr>in_head = [0x55, 0xAA, 0, 1, 2, 0x16], in_body = replicate 535 0, in_expired = False\<rparr>" 0 1 env_demo]
  by (simp add: uart_demo_def UART_MAX_FRAME_LEN_def)

text \<open>The frame builder for outgoing messages queues the frame without its checksum: the queued
  bytes are exactly header, length and data.\<close>

theorem uart_body_send_drops_checksum:
  assumes "board_ok s" and "queue_send_ret env = C_OK" and "length data = n"
  shows "ya_handle_uart_body_send_to_queue env cmd data n s =
    Some (0, s\<lparr>uart_queue := uart_queue s @ [(0, [0x55, 0xAA, 0, cmd] @ be16 n @ data)]\<rparr>)"
proof -
  let ?h = "[0x55, 0xAA, 0, cmd] @ be16 n" and ?f = "[0x55, 0xAA, 0, cmd] @ be16 n @ data"
  obtain b where b: "mem_alloc s (n + 6 + 1) = Some b" "length b = n + 6 + 1" using mem_alloc_board_ok [OF assms(1)] .
  obtain b' where b': "mem_alloc s (6 + n) = Some b'" "length b' = 6 + n" using mem_alloc_board_ok [OF assms(1)] .
  have lh: "length ?h = 6" and lf: "length ?f = 6 + n" using assms(3) by (simp_all add: be16_def)
  have 1: "memcpy_at b 0 ?h = Some (?h @ drop 6 b)" using b(2) lh by (intro memcpy_at_prefix) simp_all
  have 2: "memcpy_at (?h @ drop 6 b) 6 data = Some (?f @ drop (6 + n) b)"
    using memcpy_at_append [OF lh assms(3), of "drop 6 b"] b(2) by (simp add: add.commute)
  obtain sum where 3: "get_checksum (?f @ drop (6 + n) b) (6 + n - 1) = Some sum"
    using lf by (simp add: get_checksum_def slice_def)
  obtain x where "drop (6 + n) b = [x]" using b(2) by (cases "drop (6 + n) b") (auto dest: arg_cong [of _ _ length])
  then have 4: "wr (?f @ drop (6 + n) b) (6 + n) sum = Some (?f @ [sum])"
    using lf by (simp only: wr_def) (simp add: list_update_append be16_def)
  have 5: "slice (?f @ [sum]) 0 (6 + n) = Some ?f"
    using slice_append [of "[]" ?f "[sum]"] unfolding lf by simp
  have 6: "memset b' 0 (6 + n) = Some (replicate (6 + n) 0)" using b'(2) by (simp add: memset_Some)
  have 7: "memcpy_at (replicate (6 + n) 0) 0 ?f = Some ?f" using lf by (simp only: memcpy_at_def) simp
  have "slice data 0 n = Some data" using assms(3) by (simp add: slice_def)
  then show ?thesis
    unfolding ya_handle_uart_body_send_to_queue_def ya_handle_uart_msg_send_to_queue_def Let_def b(1)
    using 1 2 3 4 5 6 7 b'(1) assms(2) by (simp del: append.simps replicate.simps)
qed

theorem uart_body_send_drops_checksum_witness:
  "ya_handle_uart_body_send_to_queue env_demo 8 [7] 1 uart_demo =
     Some (0, uart_demo\<lparr>uart_queue := [(0, [0x55, 0xAA, 0, 8, 0, 1, 7])]\<rparr>)"
  using uart_body_send_drops_checksum [OF uart_demo_ok, of env_demo "[7]" 1 8]
  by (simp add: env_demo_def C_OK_def be16_def uart_demo_def)

text \<open>Writing the device id or the thing name is acknowledged with success whatever happens: an
  empty id is refused by the record store, nothing is written, and the reply still says 1.\<close>

theorem uart_id_write_always_acknowledged:
  assumes "rd buf 7 = Some sc" and "sc = 3 \<or> sc = 4" and "9 < length buf"
  shows "write_certificate env buf 2 s = Some (1, s)"
proof -
  have r: "rd buf 8 = Some (buf ! 8)" "rd buf 9 = Some (buf ! 9)" using assms(3) by (simp_all add: rd_Some)
  have "ya_write_flash a b 0 1 s = Some (-1, s)" for a b by (simp add: ya_write_flash_def)
  then show ?thesis using assms(1,2) r
    by (auto simp: write_certificate_def ya_write_check_aws_para_device_id_def
        ya_write_check_aws_para_thing_type_def write_field_def cert_codes)
qed

theorem uart_id_write_always_acknowledged_witness:
  "write_certificate env_demo [0x55, 0xAA, 0, 0xF1, 0, 2, 1, 3, 0, 0] 2 uart_demo = Some (1, uart_demo)"
  by (rule uart_id_write_always_acknowledged [of _ 3]) (simp_all add: rd_def)

text \<open>The transfer buffer is shared between readback (2560 bytes) and upload (3072 bytes).  An
  upload that starts while a readback is unfinished clears 3072 bytes of the smaller block.\<close>

theorem uart_upload_after_readback_overflows:
  assumes "readback_buf d s" and "length d \<le> MAX_RSA_LEN" and "sc = 1 \<or> sc = 2" and "n < 256"
  shows "write_certificate env (cert_req sc n 0 c) (int (length c) + 4) s = None"
proof -
  have "cert_buffer s = Some (d @ replicate (MAX_RSA_LEN - length d) 0)" using assms(1) by (simp add: readback_buf_def)
  moreover have "memset (d @ replicate (MAX_RSA_LEN - length d) 0) 0 MAX_CERT_BUF_LEN = None"
    using assms(2) by (simp add: memset_def memcpy_at_def MAX_RSA_LEN_def MAX_CERT_BUF_LEN_def)
  ultimately show ?thesis using assms(3) cert_req_nth [of sc n 0 c] by (auto simp: write_certificate_def)
qed

theorem uart_upload_after_readback_overflows_witness:
  "write_certificate env_demo (cert_req 1 1 0 [65]) 5
     (uart_demo\<lparr>read_data_len := 1, cert_buffer := Some ([66] @ replicate (MAX_RSA_LEN - 1) 0)\<rparr>) = None"
  using uart_upload_after_readback_overflows [of "[66]"
      "uart_demo\<lparr>read_data_len := 1, cert_buffer := Some ([66] @ replicate (MAX_RSA_LEN - 1) 0)\<rparr>" 1 1 env_demo "[65]"]
  by (simp add: readback_buf_def uart_demo_def UART_MAX_FRAME_LEN_def MAX_RSA_LEN_def)

text \<open>After a message of the queue has been sent, the task keeps a pointer to the freed block; a
  frame with command 0 received in the next turn makes it free the block a second time.\<close>

theorem uart_double_free:
  assumes "queue_rece_enable s" and "uart_queue s = [(0, b)]" and "length (rx_buf s) = UART_MAX_FRAME_LEN"
    and "in_head i = []" and "in_head j = [0x55, 0xAA, 0, 0, 0, 0]" and "in_body j = [0xFF]"
  shows "\<exists>t. ya_uart_turn env i s = Some t \<and> uart_ev t = uart_ev s @ [Sent b] \<and> ya_uart_turn env j t = None"
proof -
  define t where "t = s\<lparr>uart_queue := [], msg := MsgFreed, uart_ev := uart_ev s @ [Sent b]\<rparr>"
  have "ya_uart_turn env i s = Some t"
    using assms(1,2,4) by (cases s) (simp add: ya_uart_turn_def uart_receive_def memcpy_at_def uart_serve_queue_def
        free_msg_def emit_def uart_resend_def t_def)
  moreover have "uart_receive env j t = None"
  proof -
    define rx where "rx = [0x55, 0xAA, 0, 0, 0, 0] @ drop 6 (rx_buf s)"
    have rx: "memcpy_at (rx_buf t) 0 [0x55, 0xAA, 0, 0, 0, 0] = Some rx" "length rx = 540"
      using assms(3) memcpy_at_prefix [of "[0x55, 0xAA, 0, 0, 0, 0 :: u8]" 6 "rx_buf s"]
      by (simp_all add: rx_def t_def UART_MAX_FRAME_LEN_def)
    define rx2 where "rx2 = [0x55, 0xAA, 0, 0, 0, 0, 0xFF] @ drop 7 (rx_buf s)"
    have rx2: "memcpy_at rx 6 [0xFF] = Some rx2"
      using assms(3) memcpy_at_append [of "[0x55, 0xAA, 0, 0, 0, 0 :: u8]" 6 "[0xFF]" 1 "drop 6 (rx_buf s)"]
      by (simp add: rx_def rx2_def UART_MAX_FRAME_LEN_def)
    have "take 6 rx2 = [0x55, 0xAA, 0, 0, 0, 0]" "rx2 ! 6 = 0xFF" "rx2 ! 3 = 0" "7 \<le> length rx2"
      using assms(3) by (simp_all add: rx2_def UART_MAX_FRAME_LEN_def)
    then have "ya_handle_uart_data env rx2 7 u = Some u" for u :: "'a uart_scheme"
      by (simp add: ya_handle_uart_data_def get_checksum_eq slice_def rd_def uart_dispatch_def)
    with rx rx2 \<open>rx2 ! 3 = 0\<close> assms(1,5,6) show ?thesis
      by (simp add: uart_receive_def rx_def le16_def UART_MAX_FRAME_LEN_def t_def free_msg_def)
  qed
  ultimately show ?thesis by (intro exI [of _ t]) (simp add: ya_uart_turn_def t_def)
qed

theorem uart_double_free_witness:
  "\<exists>t. ya_uart_turn env_demo \<lparr>in_head = [], in_body = [], in_expired = False\<rparr>
         (uart_demo\<lparr>uart_queue := [(0, [1])]\<rparr>) = Some t \<and>
       ya_uart_turn env_demo \<lparr>in_head = [0x55, 0xAA, 0, 0, 0, 0], in_body = [0xFF], in_expired = False\<rparr> t = None"
  using uart_double_free [of "uart_demo\<lparr>uart_queue := [(0, [1])]\<rparr>" "[1]"
      "\<lparr>in_head = [], in_body = [], in_expired = False\<rparr>"
      "\<lparr>in_head = [0x55, 0xAA, 0, 0, 0, 0], in_body = [0xFF], in_expired = False\<rparr>" env_demo]
  by (auto simp: uart_demo_def UART_MAX_FRAME_LEN_def)

end
