(* ===== verification/Spec2Isabelle.thy ===== *)
theory Spec2Isabelle
  imports AmtNv CertFlash CommonFunc HalTimer HwTimer Product SmartPhone SoftApSafe UartProto
begin

text \<open>
  Verification of the firmware of a Wi-Fi lamp on the TR6260 (the application under
  \<^verbatim>\<open>src/apps/akeeta_tr6260\<close> with the drivers and stores it uses).

  \<^bold>\<open>The program and its parts.\<close>  The light task (\<^verbatim>\<open>test_example/light/ya_light_example.c\<close>) drives the lamp, keeps its
  setting on flash and starts the main task (\<^verbatim>\<open>akeeta/app/src/ya_app_main.c\<close>), which pairs the module with a router
  and a cloud and tells the light the state of the connection.  Cloud messages reach the light and the hardware
  task (\<^verbatim>\<open>ya_hardware_app.c\<close>: wall clock and scheduled actions); a serial protocol (\<^verbatim>\<open>ya_uart_app.c\<close>) loads licences in
  the factory.  Everything persistent goes through checksummed records (\<^verbatim>\<open>ya_flash.c\<close>) or the factory parameter
  store (\<^verbatim>\<open>src/nv/amtNv/amtNv.c\<close>) to the SPI flash driver.  The tasks share the flash chip and call each other through
  message queues; each theory has the state of its component as a record, and \<open>Product\<close> puts two of them on one chip.

  \<^bold>\<open>Theories and sources.\<close>
  \<^item> \<open>Prelude\<close>: machine types, C memory primitives on byte lists, runs of steps; the locales \<open>byte_check\<close>
    (a checksum folded over bytes detects a changed byte) and \<open>safe_steps\<close> (an invariant kept by defined steps is kept by runs).
  \<^item> \<open>SpiFlash\<close>: \<^verbatim>\<open>src/drivers/hal_spiflash.c\<close>, \<^verbatim>\<open>akeeta/hal/src/ya_hal_flash.c\<close>; locale \<open>flash_device\<close>.
    The page-split write is one NOR programming of the range; an erase-and-write stays in its sectors.
  \<^item> \<open>YaFlash\<close>: \<^verbatim>\<open>ya_flash.c\<close>; locale \<open>record_store\<close>.  Round trip, detection of a corrupted byte, safety of the readers.
  \<^item> \<open>AmtNv\<close>: \<^verbatim>\<open>amtNv.c\<close>; locale \<open>param_store\<close>.  The store refines a map from parameters to values, through garbage
    collections and power losses.
  \<^item> \<open>CertFlash\<close>: \<^verbatim>\<open>ya_cert_flash_api.c\<close>.  Licences are loaded as written, all of them or none.
  \<^item> \<open>UartProto\<close>: \<^verbatim>\<open>ya_uart_app.c\<close>.  Upload and readback of licences, rejection of corrupted frames.
  \<^item> \<open>HalTimer\<close>: \<^verbatim>\<open>ya_hal_timer.c\<close>; \<open>CommonFunc\<close>: \<^verbatim>\<open>ya_common_func.c\<close>; \<open>Cjson\<close>: the nodes and accessors of \<^verbatim>\<open>cJSON.c\<close>.
  \<^item> \<open>HwClock\<close>, \<open>HwTimer\<close>: \<^verbatim>\<open>ya_hardware_timer.c\<close>, \<^verbatim>\<open>ya_hardware_app.c\<close>, \<^verbatim>\<open>ya_hardware_translate.c\<close>; locale \<open>keeps_inv\<close>.
    The clock counts calendar seconds, timers fire when due, survive a restart, and the task keeps its invariant.
  \<^item> \<open>Pwm\<close>, \<open>Colour\<close>, \<open>LightIo\<close>, \<open>Light\<close>: \<^verbatim>\<open>pit.c\<close>, \<^verbatim>\<open>hal_pwm.c\<close>, \<^verbatim>\<open>ya_hal_pwm.c\<close>, \<^verbatim>\<open>hls_rgb.c\<close>, \<^verbatim>\<open>ya_light_io.c\<close>,
    \<^verbatim>\<open>ya_light_example.c\<close>.  Registers behave as PWM channels, fades terminate at the wanted level, the setting
    survives a power cut, no run of the light is undefined for messages with numbers in range.
  \<^item> \<open>ThingApi\<close>, \<open>AppMain\<close>: \<^verbatim>\<open>ya_api_thing_uer_define.h\<close>, \<^verbatim>\<open>ya_app_main.c\<close>.  User data as an atomic store over power losses,
    pairing, reconnecting, factory reset; no run of the main task is undefined.
  \<^item> \<open>AesMd5\<close>: \<^verbatim>\<open>ya_aes_md5.c\<close> and the CFB mode of mbedTLS.  Padding and unpadding are inverse, for any block cipher with an inverse.
  \<^item> \<open>Wifi80211\<close>: \<^verbatim>\<open>wifi_80211.c\<close>.  The search for an information element, addresses and channels of a frame.
  \<^item> \<open>SmartConfig\<close>: \<^verbatim>\<open>ya_smartconfig.c\<close>, the pairing by frame lengths: list of routers, collection of bytes, decoding, and the task with
    its channel hopping.  Sessions are safe over any frames but those of the kinds the code mishandles; freed memory in a second session.
  \<^item> \<open>SmartPhone\<close>: the phone's side (message, packets, frames on the air as \<open>locking\<close> and \<open>on_air\<close>), and that a session delivers its credentials.
  \<^item> \<open>SoftAp\<close>, \<open>SoftApSafe\<close>: \<^verbatim>\<open>ya_softap_update.c\<close>, the pairing over the access point of the module.  Keys, encrypted messages, the commands of the
    phone and of the factory, the task; a phone's credentials reach the router connection; safety of the task over any packets whose requests the code can read.
  \<^item> \<open>Product\<close> and this theory: the light and the main task on one chip, and the properties that span components.

  \<^bold>\<open>Conventions.\<close>  A function that can leave a buffer, dereference a null pointer or otherwise be undefined returns an
  option, and \<open>None\<close> means undefined behaviour; return codes of the C code are values.  A C buffer is the list of its
  bytes, so its length is its size.  \<open>heap\<close> gives for every size the uninitialised contents of a fresh block, or
  \<open>None\<close> when the allocation fails; memory that is freed is no longer mentioned.  \<open>ret_reg\<close> is what a caller reads from a
  function that ends without \<open>return\<close>.  \<open>fl_rsp\<close> lists the answers of the flash chip to status polls.  Clocks, answers
  of other tasks and of libraries (\<open>world\<close>, \<open>cjson_lib\<close>, \<open>uart_env\<close>, \<open>crypto\<close>, \<open>soft_env\<close>) are arguments.  What a task does outside is a
  list of events in its state.  \<open>board_ok\<close> says that the chip answers, that memory is available and that the register
  holds zero; theorems without it hold for failing hardware too.  A power loss leaves an arbitrary mixture of old,
  erased and programmed bytes in the range of the operation under way (\<open>AmtNv\<close>: a prefix of the flash
  operations; \<open>AppMain\<close>: \<open>torn\<close>); \<open>main_refused\<close> says that the remains of a record are not taken for one, which its one-byte checksum
  makes likely but not certain.  In the main task the answers of the Aliyun name functions are arguments; \<open>SoftAp\<close> has the functions.
  A fresh collection of the smart configuration is taken as zero; the task clears it before it reads it.  A lamp
  channel at level 0 may still output the one per mille its initialisation starts with.  Doubles are rationals rounded to 53 bits.

  \<^bold>\<open>Loops.\<close>  Loops are structural recursion or \<open>function\<close> with a measure.  The one loop with no obvious bound,
  \<open>fade_rounds\<close>, is a \<open>partial_function\<close>, and \<open>LightIo.fade_terminates\<close> shows that it returns within 256 rounds.  The
  loops of the tasks are runs: one definition is one round, and \<open>run_steps\<close> executes any list of rounds, messages and calls.

  \<^bold>\<open>Interfaces.\<close>  Every locale is interpreted on the model: \<open>flash_device\<close> by the driver (\<open>spi\<close>), \<open>record_store\<close> by the record
  layer (\<open>ya\<close>), \<open>param_store\<close> by the parameter store (\<open>amt\<close>), \<open>byte_check\<close> by the additive checksum, the CRC-8 and the
  CRC-16, \<open>keeps_inv\<close> by the cloud commands on the timer list, \<open>safe_steps\<close> by the light (\<open>light_task\<close>) and the main task (\<open>app_task\<close>).

  \<^bold>\<open>Not modelled.\<close>  Vendored code (lwIP, mbedTLS, the JSON parser, EasyFlash, FreeRTOS) and the Wi-Fi driver, whose lower
  half is a binary; the cloud clients, which are glue around MQTT libraries that are not part of the sources;
  the download of firmware images, the broadcast of the module's presence and the lamp's factory test, which are loops of I/O;
  chip start-up and register sequences of the flash controller.  Threads interleave at the granularity of rounds and calls:
  data races between them are outside the model, as are delays and log output (also the prints of possibly null strings in
  \<^verbatim>\<open>ya_cert_flash_api.c\<close> and the second print of an AT answer).
\<close>

section \<open>The product\<close>

text \<open>C14: Four quick starts in a row bring a paired lamp back to pairing.  While the first three
  starts try to connect to the stored network, as the light is told, the fourth one enters smart configuration, the
  light is told so and has forgotten its setting: the counter of the light, its request and the choice of mode in the
  main task work together over the flash they share.\<close>

theorem four_quick_starts_repair:
  assumes "holds d u (l, a)" and "user_fine u" and "ud_mode u = CONNECT_MODE" and "num d = 0"
    and "world_fine w1" and "world_fine w2" and "world_fine w3" and "world_fine w4"
  shows "\<exists>l1 a1 l2 a2 l3 a3 l4 a4. product_start w1 (l, a) = Some (l1, a1) \<and> product_start w2 (l1, a1) = Some (l2, a2) \<and>
    product_start w3 (l2, a2) = Some (l3, a3) \<and> product_start w4 (l3, a3) = Some (l4, a4) \<and>
    list_all (\<lambda>(l, a). ya_app_state a = YA_APP_TO_CONNECT \<and> cur_status l = MODULE_CONNECTING \<and>
       ya_cloud_light_data_default l = boot_light d) [(l1, a1), (l2, a2), (l3, a3)] \<and>
    ya_app_state a4 = YA_APP_SNIFFER_START \<and> cur_status l4 = MODULE_SNIFFER \<and> ya_cloud_light_data_default l4 = factory_light"
proof -
  have m: "start_state (ud_mode u) = YA_APP_TO_CONNECT" "start_state (other_mode SNIFFER_MODE (ud_mode u)) = YA_APP_SNIFFER_START"
    using assms(3) by (simp_all add: start_state_def other_mode_def first_mode_def mode_defs)
  have b: "boot_count d = d\<lparr>num := 1\<rparr>" "boot_count (d\<lparr>num := 1\<rparr>) = d\<lparr>num := 2\<rparr>" "boot_count (d\<lparr>num := 2\<rparr>) = d\<lparr>num := 3\<rparr>"
    "boot_light (d\<lparr>num := 1\<rparr>) = boot_light d" "boot_light (d\<lparr>num := 2\<rparr>) = boot_light d" "boot_light (d\<lparr>num := 3\<rparr>) = factory_light"
    using assms(4) by (simp_all add: boot_count_def boot_light_def Let_def word_le_nat_alt)
  obtain l1 a1 where 1: "product_start w1 (l, a) = Some (l1, a1)" "holds (d\<lparr>num := 1\<rparr>) u (l1, a1)"
    "ya_app_state a1 = YA_APP_TO_CONNECT" "cur_status l1 = MODULE_CONNECTING" "ya_cloud_light_data_default l1 = boot_light d"
    using start_keeps [OF assms(1,2) _ assms(5)] assms(4) by (auto simp: m b)
  obtain l2 a2 where 2: "product_start w2 (l1, a1) = Some (l2, a2)" "holds (d\<lparr>num := 2\<rparr>) u (l2, a2)"
    "ya_app_state a2 = YA_APP_TO_CONNECT" "cur_status l2 = MODULE_CONNECTING" "ya_cloud_light_data_default l2 = boot_light d"
    using start_keeps [OF 1(2) assms(2) _ assms(6)] by (auto simp: m b)
  obtain l3 a3 where 3: "product_start w3 (l2, a2) = Some (l3, a3)" "holds (d\<lparr>num := 3\<rparr>) u (l3, a3)"
    "ya_app_state a3 = YA_APP_TO_CONNECT" "cur_status l3 = MODULE_CONNECTING" "ya_cloud_light_data_default l3 = boot_light d"
    using start_keeps [OF 2(2) assms(2) _ assms(7)] by (auto simp: m b)
  obtain l4 a4 where 4: "product_start w4 (l3, a3) = Some (l4, a4)" "ya_app_state a4 = YA_APP_SNIFFER_START"
    "cur_status l4 = MODULE_SNIFFER" "ya_cloud_light_data_default l4 = factory_light"
    using start_toggles [OF 3(2) assms(2) _ assms(8)] by (auto simp: m b)
  show ?thesis using 1 2 3 4 by auto
qed

lemma product_demo: "\<exists>l a. holds saved_demo (pairing_user smart_demo) (l, a)"
proof -
  let ?u = "pairing_user smart_demo" and ?b = "with_flash stored_demo app_demo"
  note u = pairing_user_ok [OF smart_demo_good]
  have "board_ok ?b" using with_flash_ok [OF stored_demo_ok(1) app_demo_ok(1)] .
  then have "board_ok (?b\<lparr>ya_user_data := ?u\<rparr>)" by (simp add: board_ok_def chip_ready_def)
  then obtain a :: app where a: "board_ok a" "holds_main a ?u"
    "\<forall>x. x < YA_USER_DATA_ADDR \<or> YA_USER_DATA_BACK_ADDR + 4096 \<le> x \<longrightarrow> fl_mem a x = fl_mem stored_demo x"
    using save_user_data [of "?b\<lparr>ya_user_data := ?u\<rparr>"] u(1) by (auto simp: user_ok_def)
  have "stored (with_flash a stored_demo) saved_demo"
    using a(3) by (intro stored_frame [OF stored_demo_ok(2)]) (auto simp: light_sector)
  then show ?thesis using a(1,2) with_flash_ok [OF a(1) stored_demo_ok(1)]
    by (intro exI [of _ "with_flash a stored_demo"] exI [of _ a]) (simp add: holds_def keeps_user_def)
qed

theorem four_quick_starts_repair_witness:
  "\<exists>l a l1 a1 l2 a2 l3 a3 l4 a4. product_start world_demo (l, a) = Some (l1, a1) \<and> product_start world_demo (l1, a1) = Some (l2, a2) \<and>
    product_start world_demo (l2, a2) = Some (l3, a3) \<and> product_start world_demo (l3, a3) = Some (l4, a4) \<and>
    cur_status l3 = MODULE_CONNECTING \<and> cur_status l4 = MODULE_SNIFFER"
proof -
  obtain l a where h: "holds saved_demo (pairing_user smart_demo) (l, a)" using product_demo by blast
  note u = pairing_user_ok [OF smart_demo_good]
  have "user_fine (pairing_user smart_demo)" "ud_mode (pairing_user smart_demo) = CONNECT_MODE" "num saved_demo = 0"
    using u by (simp_all add: user_fine_def saved_demo_def)
  from four_quick_starts_repair [OF h this world_demo_ok(2) world_demo_ok(2) world_demo_ok(2) world_demo_ok(2)]
  show ?thesis by (auto simp: list_all_def) blast
qed

text \<open>C15: A lamp removed from the cloud starts anew.  On the message of the cloud the light stores that its setting is
  not to be restored and asks for a reset, the main task erases the user data and reboots, and the next start
  shows the factory setting, has no credentials and waits for smart configuration.\<close>

theorem debind_starts_anew:
  assumes "board_ok l" and "board_ok a" and "\<not> rebooted a" and "ya_app_state a = YA_APP_CONNECTED" and "ya_main_msg_queue a = []"
    and "num (ya_save_light_data l) = 0" and "world_fine w'"
  shows "\<exists>l1 a1 l2 a2. product_debind lib w (l, a) = Some (l1, a1) \<and> rebooted a1 \<and> product_start w' (l1, a1) = Some (l2, a2) \<and>
    ya_app_state a2 = YA_APP_SNIFFER_START \<and> ya_user_data a2 = user_zero\<lparr>ud_mode := SNIFFER_MODE\<rparr> \<and>
    cur_status l2 = MODULE_SNIFFER \<and> ya_cloud_light_data_default l2 = factory_light"
proof -
  obtain l1 a1 where 1: "product_debind lib w (l, a) = Some (l1, a1)" "rebooted a1" "board_ok l1" "board_ok a1"
    "stored l1 ((ya_save_light_data l)\<lparr>config_default := 0\<rparr>)"
    "fl_mem l1 YA_USER_DATA_ADDR \<noteq> 0xAA" "fl_mem l1 YA_USER_DATA_BACK_ADDR \<noteq> 0xAA"
    using debind_resets [OF assms(1-5), of lib w] by (auto simp: erased_def)
  from start_anew [OF 1(3-5) _ _ 1(6,7) assms(7)] assms(6) 1(1,2) show ?thesis by fastforce
qed

theorem debind_starts_anew_witness:
  "\<exists>l a l1 a1 l2 a2. product_debind lib_demo world_demo (l, a) = Some (l1, a1) \<and> product_start world_demo (l1, a1) = Some (l2, a2) \<and>
    ya_app_state a = YA_APP_CONNECTED \<and> ya_app_state a2 = YA_APP_SNIFFER_START"
proof -
  let ?l = "stored_demo\<lparr>ya_save_light_data := saved_demo\<rparr>" and ?a = "app_demo\<lparr>ya_app_state := YA_APP_CONNECTED\<rparr>"
  have "board_ok ?l" "board_ok ?a" "\<not> rebooted ?a" "ya_app_state ?a = YA_APP_CONNECTED" "ya_main_msg_queue ?a = []"
    "num (ya_save_light_data ?l) = 0"
    using stored_demo_ok(1) app_demo_ok(1) by (simp_all add: board_ok_def chip_ready_def app_demo_def app_power_on_def saved_demo_def)
  from debind_starts_anew [OF this world_demo_ok(2), of lib_demo world_demo] \<open>ya_app_state ?a = YA_APP_CONNECTED\<close> show ?thesis by blast
qed

text \<open>C10: Pairing with a phone, from the air to the network.  A module searches for a phone and has heard the router of the phone.  The
  phone sends four frames with a payload of three bytes, with no other frame between them, and then the packets of its encrypted message, in any order
  and each at least once, while other stations send data frames, acknowledgements and beacons of routers that were heard before in between.
  The task makes its rounds at any moments between all these frames, also changing the channel while it searches: the session
  must not exceed its timeout, and after the first four frames no round may come more than eight seconds after the last marker of
  the phone.  Then the session ends with exactly one result, and the main task that waits for it stores it; after a restart its first
  round asks the Wi-Fi driver for the name and address of that router and the password of the phone.\<close>

theorem phone_connects_module:
  assumes "listen_inv s" and "crypto_ok c" and "listening s rs sc td fd m" and "switchChannel sc = CHANNEL_SEARCH_START"
    and "findPhone sc = NOT_ACTIVE" and "count_num td = 0" and "pfinish m \<noteq> 1" and "get_result_callback s" and "\<not> ended s"
    and "get_ap_info bssid rs = Some ap" and "cstr (ri_ssid ap) = Some ssid" and "ssid \<noteq> []" and "length pw \<le> 64"
    and "E = phone_cipher c (phone_message pw cloud ra rb)"
    and "locking rs bssid sa (first_time s) (smart_timeout s) 4 (channel_lock_time s) is mk"
    and "on_air rs bssid sa (first_time s) (smart_timeout s) mk js xs"
    and "map snd xs = concat (map (packet_lens E) ps)" and "set ps = packets E" and "in_time (first_time s) (smart_timeout s) t0"
    and "app_inv a" and "\<not> rebooted a" and "ya_app_state a = YA_APP_SNIFFER" and "ya_main_msg_queue a = []"
    and "world_ok w" and "world_fine w'"
  shows "\<exists>t r b u v x. smart_run c (is @ js @ [Round t0 t1]) s = Some t \<and> ended t \<and>
    results_of (smart_events t) = results_of (smart_events s) @ [r] \<and> sm_cloud_select r = cloud \<and>
    ya_smart_config_result_callback r a = Some b \<and> app_turn w b = Some u \<and>
    app_boot para w' False u = Some v \<and> app_turn w' v = Some x \<and> ya_app_state x = YA_APP_CONNECTING \<and>
    last (app_events x) = ConnectAp (ssid @ replicate (33 - length ssid) 0) (pw @ replicate (65 - length pw) 0) bssid"
proof -
  obtain t r where r: "smart_run c (is @ js @ [Round t0 t1]) s = Some t" "ended t"
    "results_of (smart_events t) = results_of (smart_events s) @ [r]" "phone_result ssid pw bssid cloud r"
    using phone_session [OF assms(1-19)] by blast
  then have p: "pairing_good r" "pairing_ssid r = ssid" "pairing_pwd r = pw" "sm_bssid r = bssid" "sm_cloud_select r = cloud"
    by (simp_all add: phone_result_def)
  note n = pairing_lengths(1,2) [OF p(1), unfolded p(2,3)]
  from paired_module_connects [OF assms(20-23) p(1) assms(24,25), of para, unfolded p(2-4) n [symmetric]] r(1-3) p(5)
  show ?thesis by blast
qed

theorem phone_connects_module_witness:
  "\<exists>t r (a :: app) b u v x. smart_run crypto_demo (lock_demo @ air_demo lens_demo @ [Round 30 30]) listen_demo = Some t \<and>
    results_of (smart_events t) = [r] \<and> ya_smart_config_result_callback r a = Some b \<and>
    app_turn world_demo b = Some u \<and> app_boot para_demo world_demo False u = Some v \<and> app_turn world_demo v = Some x \<and>
    last (app_events x) = ConnectAp ([65] @ replicate 32 0) ([67] @ replicate 64 0) (replicate 6 1)"
proof -
  obtain a :: app where a: "app_inv a" "\<not> rebooted a" "ya_app_state a = YA_APP_SNIFFER" "ya_main_msg_queue a = []"
    using sniffing_demo by blast
  have c: "switchChannel sc_demo = CHANNEL_SEARCH_START" "findPhone sc_demo = NOT_ACTIVE" "count_num broadcast_zero = 0"
    "pfinish multicast_zero \<noteq> 1" "get_result_callback listen_demo" "\<not> ended listen_demo"
    by (simp_all add: sc_demo_def broadcast_zero_def multicast_zero_def listen_demo_def)
  have n: "[65 :: u8] \<noteq> []" "length [67 :: u8] \<le> 64" by simp_all
  have m: "map snd (map (\<lambda>l. (5 :: u32, l)) lens_demo) = concat (map (packet_lens cipher_demo) packets_demo)" by (simp add: lens_demo_def comp_def)
  have f: "first_time listen_demo = 0" "smart_timeout listen_demo = 120" "channel_lock_time listen_demo = 0"
    "results_of (smart_events listen_demo) = []" by (simp_all add: listen_demo_def)
  have "in_time 0 120 30" by (simp add: in_time_def word_le_nat_alt)
  from phone_connects_module [OF listen_demo_inv crypto_demo_ok listen_demo_state c router_demo_heard router_demo_name n cipher_demo_def,
      unfolded f, OF lock_demo_heard air_demo_heard [OF lens_demo_nonneg] m packets_demo_set this a world_demo_ok, of 30 para_demo]
  show ?thesis by fastforce
qed

end
